(* ===== verification/Prelude.thy ===== *)
theory Prelude
  imports Main "HOL-Library.AList" "HOL-Library.Word"
begin

text \<open>
  The prelude of the library: Go values as HOL values, and the lemmas every component shares.

  \<^item> A Go string is a sequence of bytes; it is a \<open>string\<close> here (a list of 8-bit \<open>char\<close>s), so
    \<open>len(s)\<close> is \<open>length s\<close>.
  \<^item> A Go map is an association list \<open>('k, 'v) gomap\<close>: \<open>mget\<close>, \<open>mput\<close> and \<open>mdel\<close> are the
    library's \<open>map_of\<close>, \<open>AList.update\<close> and \<open>AList.delete\<close>. Go iterates a map in an unspecified
    order; a loop over a map follows the order of the list, and since the list is arbitrary a
    theorem about every list covers every order.
  \<^item> A pointer compared by identity (a connection, a routing entry) is a natural number.
  \<^item> An \<open>error\<close> result is the left side of a sum.
\<close>

named_theorems gomap_simps
named_theorems inv_intros

type_synonym ('k, 'v) gomap = "('k \<times> 'v) list"

abbreviation mget :: "('k, 'v) gomap \<Rightarrow> 'k \<Rightarrow> 'v option" where
  "mget m k \<equiv> map_of m k"

abbreviation mput :: "'k \<Rightarrow> 'v \<Rightarrow> ('k, 'v) gomap \<Rightarrow> ('k, 'v) gomap" where
  "mput k v m \<equiv> AList.update k v m"

abbreviation mdel :: "'k \<Rightarrow> ('k, 'v) gomap \<Rightarrow> ('k, 'v) gomap" where
  "mdel k m \<equiv> AList.delete k m"

abbreviation mdistinct :: "('k, 'v) gomap \<Rightarrow> bool" where
  "mdistinct m \<equiv> distinct (map fst m)"

text \<open>The zero value a Go map read yields for an absent key, for counters.\<close>

definition count_of :: "('k, int) gomap \<Rightarrow> 'k \<Rightarrow> int" where
  "count_of m k = (case mget m k of None \<Rightarrow> 0 | Some n \<Rightarrow> n)"

text \<open>\<open>strings.Contains\<close>.\<close>

fun contains_string :: "string \<Rightarrow> string \<Rightarrow> bool" where
  "contains_string [] p = (p = [])"
| "contains_string (c # s) p = (take (length p) (c # s) = p \<or> contains_string s p)"

section \<open>Association lists as Go maps\<close>

lemma mget_mput [simp, gomap_simps]:
  "mget (mput k v m) k' = (if k' = k then Some v else mget m k')"
  by (simp add: update_conv)

lemma mget_mdel [simp, gomap_simps]:
  "mget (mdel k m) k' = (if k' = k then None else mget m k')"
  by (simp add: delete_conv)

lemma mdistinct_mput [simp, intro]: "mdistinct m \<Longrightarrow> mdistinct (mput k v m)"
  by (rule distinct_update)

lemma mdistinct_mdel [simp, intro]: "mdistinct m \<Longrightarrow> mdistinct (mdel k m)"
  by (rule distinct_delete)

lemma mget_in_set: "mdistinct m \<Longrightarrow> (k, v) \<in> set m \<longleftrightarrow> mget m k = Some v"
  by simp

lemma mput_fresh: "mget m k = None \<Longrightarrow> mput k v m = m @ [(k, v)]"
  by (induction m) (auto split: if_splits)

lemma mdel_absent: "mget m k = None \<Longrightarrow> mdel k m = m"
  by (induction m) (auto split: if_splits)

lemma mdel_eq_filter: "mdel k m = filter (\<lambda>(k', _). k' \<noteq> k) m"
  by (induction m) auto

lemma set_mdel: "set (mdel k m) = {kv \<in> set m. fst kv \<noteq> k}"
  by (auto simp: mdel_eq_filter)

lemma mget_split: "mget m k = Some v \<Longrightarrow> mdistinct m \<Longrightarrow>
  \<exists>xs ys. m = xs @ (k, v) # ys \<and> k \<notin> fst ` set xs \<and> k \<notin> fst ` set ys"
  by (drule map_of_SomeD, drule split_list) (force simp: image_def)

lemma length_mput_present:
  "mget m k \<noteq> None \<Longrightarrow> length (mput k v m) = length m"
  by (induction m) (auto split: if_splits)

lemma length_mput_le: "length (mput k v m) \<le> Suc (length m)"
  by (induction m) auto

lemma length_mput_fresh: "mget m k = None \<Longrightarrow> length (mput k v m) = Suc (length m)"
  by (simp add: mput_fresh)

lemma length_mdel_le: "length (mdel k m) \<le> length m"
  by (simp add: mdel_eq_filter)

lemma mget_map_values: "mget (map (\<lambda>(k, v). (k, f k v)) m) k = map_option (f k) (mget m k)"
  by (induction m) auto

text \<open>How many entries satisfy a predicate: what a loop that counts map entries computes.\<close>

definition count_entries :: "('k \<Rightarrow> 'v \<Rightarrow> bool) \<Rightarrow> ('k, 'v) gomap \<Rightarrow> nat" where
  "count_entries P m = length (filter (\<lambda>(k, v). P k v) m)"

lemma count_entries_Nil [simp]: "count_entries P [] = 0"
  by (simp add: count_entries_def)

lemma count_entries_Cons [simp]:
  "count_entries P ((k, v) # m) = (if P k v then 1 else 0) + count_entries P m"
  by (simp add: count_entries_def)

lemma count_entries_append [simp]:
  "count_entries P (m @ n) = count_entries P m + count_entries P n"
  by (simp add: count_entries_def)

lemma count_entries_le: "count_entries P m \<le> length m"
  by (simp add: count_entries_def)

lemma count_entries_fresh:
  "mget m k = None \<Longrightarrow> count_entries P (mput k v m) = count_entries P m + (if P k v then 1 else 0)"
  by (simp add: mput_fresh)

lemma count_entries_mdel:
  assumes "mdistinct m" "mget m k = Some v"
  shows "count_entries P (mdel k m) + (if P k v then 1 else 0) = count_entries P m"
proof -
  obtain xs ys where m: "m = xs @ (k, v) # ys" and f: "k \<notin> fst ` set xs" "k \<notin> fst ` set ys"
    using mget_split [OF assms(2,1)] by blast
  have "mdel k xs = xs" "mdel k ys = ys"
    using f by (simp_all add: mdel_absent map_of_eq_None_iff)
  then have "mdel k m = xs @ ys" by (simp add: m mdel_eq_filter)
  then show ?thesis by (simp add: m)
qed

lemma count_entries_mput_present:
  assumes "mget m k = Some w" "P k v = P k w"
  shows "count_entries P (mput k v m) = count_entries P m"
  using assms by (induction m) (auto split: if_splits)

lemma count_entries_replace:
  "mget m k = Some w \<Longrightarrow>
   count_entries P (mput k v m) + (if P k w then 1 else 0) = count_entries P m + (if P k v then 1 else 0)"
  by (induction m) (auto split: if_splits)

lemma count_entries_mput_mono:
  "mget m k = Some w \<Longrightarrow> (P k v \<Longrightarrow> P k w) \<Longrightarrow> count_entries P (mput k v m) \<le> count_entries P m"
  by (induction m) (auto split: if_splits)

lemma count_of_mput [simp, gomap_simps]: "count_of (mput k v m) k' = (if k' = k then v else count_of m k')"
  by (simp add: count_of_def)

lemma count_of_mdel [simp, gomap_simps]: "count_of (mdel k m) k' = (if k' = k then 0 else count_of m k')"
  by (simp add: count_of_def)

lemma count_of_Nil [simp]: "count_of [] k = 0"
  by (simp add: count_of_def)

section \<open>Bytes and lower-case hexadecimal\<close>

abbreviation byte :: "char \<Rightarrow> nat" where
  "byte c \<equiv> of_char c"

definition lower_hex :: "char \<Rightarrow> bool" where
  "lower_hex c \<longleftrightarrow> (48 \<le> byte c \<and> byte c \<le> 57) \<or> (97 \<le> byte c \<and> byte c \<le> 102)"

definition digit :: "char \<Rightarrow> bool" where
  "digit c \<longleftrightarrow> 48 \<le> byte c \<and> byte c \<le> 57"

lemma digit_lower_hex: "digit c \<Longrightarrow> lower_hex c"
  by (simp add: digit_def lower_hex_def)

lemma unat_byte: "unat (b :: 8 word) < 256"
  using unsigned_less [of b, where ?'a = nat] by simp

text \<open>Nanoseconds, the unit of \<open>time.Duration\<close>.\<close>

abbreviation nanos_per_milli :: int where "nanos_per_milli \<equiv> 1000000"
abbreviation nanos_per_second :: int where "nanos_per_second \<equiv> 1000000000"

text \<open>Looking a row up by a unique column.\<close>

lemma find_keyed:
  "distinct (map f xs) \<Longrightarrow> find (\<lambda>r. f r = k) xs = Some r \<longleftrightarrow> r \<in> set xs \<and> f r = k"
  by (induction xs) (auto simp: image_iff)

lemma find_no_row: "find P xs = None \<longleftrightarrow> (\<forall>r \<in> set xs. \<not> P r)"
  by (simp add: find_None_iff) blast

lemma find_row: "find P xs = Some r \<Longrightarrow> r \<in> set xs \<and> P r"
  by (auto simp: find_Some_iff)

lemma find_append: "find P (xs @ ys) = (case find P xs of None \<Rightarrow> find P ys | Some r \<Rightarrow> Some r)"
  by (induction xs) auto

section \<open>Strings as bytes\<close>

definition ord :: "char \<Rightarrow> nat" where
  "ord c = of_char c"

lemma ord_lt [simp]: "ord c < 256"
proof -
  have "(of_char c :: nat) \<in> {0..<256}" unfolding range_nat_of_char [symmetric] by (rule rangeI)
  then show ?thesis by (simp add: ord_def)
qed

text \<open>\<open>strings.Split\<close> and \<open>bytes.Split\<close> at one byte.\<close>

fun split_at_char :: "char \<Rightarrow> string \<Rightarrow> string list" where
  "split_at_char c [] = [[]]"
| "split_at_char c (d # s) = (if d = c then [] # split_at_char c s
     else (case split_at_char c s of [] \<Rightarrow> [[d]] | p # ps \<Rightarrow> (d # p) # ps))"

lemma split_none: "c \<notin> set s \<Longrightarrow> split_at_char c s = [s]"
  by (induction s) auto

lemma split_two: "c \<notin> set s \<Longrightarrow> c \<notin> set t \<Longrightarrow> split_at_char c (s @ c # t) = [s, t]"
  by (induction s) (auto simp: split_none)

lemma split_nonempty: "split_at_char c s \<noteq> []"
  by (induction s) (auto split: list.split)

lemma split_single: "split_at_char c s = [y] \<Longrightarrow> s = y"
  by (induction s arbitrary: y) (auto simp: split_nonempty split: if_splits list.splits)

lemma split_join: "split_at_char c s = [x, y] \<Longrightarrow> s = x @ c # y"
proof (induction s arbitrary: x)
  case (Cons d s)
  show ?case
  proof (cases "d = c")
    case True
    then have e: "x = []" "split_at_char c s = [y]" using Cons.prems by simp_all
    then show ?thesis using split_single [OF e(2)] True by simp
  next
    case False
    then show ?thesis using Cons by (auto split: list.splits)
  qed
qed simp

section \<open>Results\<close>

fun is_ok :: "'e + 'a \<Rightarrow> bool" where
  "is_ok (Inl _) = False"
| "is_ok (Inr _) = True"

lemma is_ok_iff: "is_ok r \<longleftrightarrow> (\<exists>x. r = Inr x)"
  by (cases r) auto

end
