(* ===== verification/Admission.thy ===== *)
theory Admission
  imports Prelude
begin

text \<open>
  In-flight transport admission, \<open>internal/admission/service.go\<close>. \<open>service\<close> is \<open>Service\<close> (the limit
  and the counter per device), \<open>lease\<close> is \<open>Lease\<close>, whose \<open>once\<close> makes \<open>Release\<close> idempotent. The
  mutex makes every operation one step. \<open>lease_pool\<close> is what the relay's router relies on: a pool
  whose counter is the number of leases somebody holds. The interpretation shows that the
  service is one.
\<close>

record service =
  per_device :: int
  active :: "(string, int) gomap"

record lease =
  released :: bool
  device :: string

datatype admission_error = AdmInvalidRequest | AdmLimit

text \<open>\<open>New\<close> panics on a limit that is not positive.\<close>

definition new_service :: "int \<Rightarrow> service option" where
  "new_service limit = (if limit \<le> 0 then None else Some \<lparr>per_device = limit, active = []\<rparr>)"

definition active_count :: "service \<Rightarrow> string \<Rightarrow> int" where
  "active_count s d = count_of (active s) d"

definition acquire :: "string \<Rightarrow> service \<Rightarrow> admission_error + service \<times> lease" where
  "acquire uid s =
    (if uid = '''' then Inl AdmInvalidRequest
     else if per_device s \<le> count_of (active s) uid then Inl AdmLimit
     else Inr (s\<lparr>active := mput uid (count_of (active s) uid + 1) (active s)\<rparr>,
               \<lparr>released = False, device = uid\<rparr>))"

definition release_device :: "string \<Rightarrow> service \<Rightarrow> service" where
  "release_device d s =
    (if 1 < count_of (active s) d
     then s\<lparr>active := mput d (count_of (active s) d - 1) (active s)\<rparr>
     else s\<lparr>active := mdel d (active s)\<rparr>)"

definition release :: "lease \<Rightarrow> service \<Rightarrow> lease \<times> service" where
  "release l s =
    (if released l then (l, s) else (l\<lparr>released := True\<rparr>, release_device (device l) s))"

section \<open>What a client of admission relies on\<close>

locale lease_pool =
  fixes take :: "'k \<Rightarrow> 's \<Rightarrow> 's option"
    and give_back :: "'k \<Rightarrow> 's \<Rightarrow> 's"
    and used :: "'s \<Rightarrow> 'k \<Rightarrow> int"
    and cap :: "'s \<Rightarrow> int"
  assumes take_used: "take k s = Some s' \<Longrightarrow> used s' = (used s)(k := used s k + 1)"
    and take_room: "take k s = Some s' \<Longrightarrow> used s k < cap s"
    and take_cap: "take k s = Some s' \<Longrightarrow> cap s' = cap s"
    and give_back_used: "0 < used s k \<Longrightarrow> used (give_back k s) = (used s)(k := used s k - 1)"
    and give_back_cap: "cap (give_back k s) = cap s"
begin

text \<open>The counters stay the number of leases held, whoever keeps the leases.\<close>

lemma take_tracks:
  assumes "\<And>j. used s j = int (held j)" "take k s = Some s'"
  shows "used s' j = int ((held(k := Suc (held k))) j)"
  using assms by (simp add: take_used)

lemma give_back_tracks:
  assumes "\<And>j. used s j = int (held j)" "0 < held k"
  shows "used (give_back k s) j = int ((held(k := held k - 1)) j)"
proof -
  have "0 < used s k" using assms by simp
  then show ?thesis using assms by (simp add: give_back_used of_nat_diff)
qed

lemma take_within:
  assumes "\<And>j. used s j \<le> cap s" "take k s = Some s'"
  shows "used s' j \<le> cap s'"
  using assms take_room [OF assms(2)] by (simp add: take_used take_cap)

lemma give_back_within:
  assumes "\<And>j. used s j \<le> cap s" "0 < used s k"
  shows "used (give_back k s) j \<le> cap (give_back k s)"
proof (cases "j = k")
  case True
  then show ?thesis using assms(1) [of k] assms(2) by (simp add: give_back_used give_back_cap)
next
  case False
  then show ?thesis using assms by (simp add: give_back_used give_back_cap)
qed

lemma full_refuses: "cap s \<le> used s k \<Longrightarrow> take k s = None"
  using take_room by (cases "take k s") force+

end

definition acquire_slot :: "string \<Rightarrow> service \<Rightarrow> service option" where
  "acquire_slot uid s = (case acquire uid s of Inl _ \<Rightarrow> None | Inr (s', _) \<Rightarrow> Some s')"

lemma acquire_slot_Some:
  "acquire_slot uid s = Some s' \<Longrightarrow>
   s' = s\<lparr>active := mput uid (count_of (active s) uid + 1) (active s)\<rparr>
   \<and> uid \<noteq> '''' \<and> count_of (active s) uid < per_device s"
  by (auto simp: acquire_slot_def acquire_def split: if_splits)

interpretation pool: lease_pool acquire_slot release_device active_count per_device
proof unfold_locales
  fix k :: string and s s' :: service
  assume t: "acquire_slot k s = Some s'"
  note t' = acquire_slot_Some [OF t]
  show "active_count s' = (active_count s)(k := active_count s k + 1)"
    using t' by (auto simp: active_count_def fun_eq_iff)
  show "active_count s k < per_device s" using t' by (simp add: active_count_def)
  show "per_device s' = per_device s" using t' by simp
next
  fix s :: service and k :: string
  assume pos: "0 < active_count s k"
  show "active_count (release_device k s) = (active_count s)(k := active_count s k - 1)"
    using pos by (auto simp: release_device_def active_count_def fun_eq_iff)
next
  fix k :: string and s :: service
  show "per_device (release_device k s) = per_device s" by (simp add: release_device_def)
qed

section \<open>Properties of single operations\<close>

lemma acquire_error_iff:
  "(\<exists>e. acquire uid s = Inl e) \<longleftrightarrow> uid = '''' \<or> per_device s \<le> active_count s uid"
  by (auto simp: acquire_def active_count_def)

lemma release_twice: "release (fst (release l s)) (snd (release l s)) = release l s"
  by (simp add: release_def)

lemma release_other: "d \<noteq> device l \<Longrightarrow> active_count (snd (release l s)) d = active_count s d"
  by (simp add: release_def release_device_def active_count_def)

end
