(* ===== verification/Invocation.thy ===== *)
theory Invocation
  imports Prelude
begin

text \<open>
  The execution namespace of \<open>internal/invocation\<close>: \<open>scope\<close> is \<open>invocation.Scope\<close>, the
  authority-derived identity under which a device runs a request, and \<open>device_context\<close> is
  \<open>invocation.DeviceContext\<close>, the relay's current incarnation of a device. The lemmas say what
  \<open>Valid\<close> and \<open>Allows\<close> promise their callers: an allowed scope is the device's own, exactly one of
  ownership and grant is named, and a device context allows at most one resource identity.
\<close>

record scope =
  s_authority :: string
  s_device_uid :: string
  s_ownership :: string
  s_grant :: string
  s_principal :: string
  s_tenant :: string

record device_context =
  dc_authority :: string
  dc_device_uid :: string
  dc_ownership :: string
  dc_grant :: string
  dc_inbound :: bool

definition identity :: "string \<Rightarrow> bool" where
  "identity v \<longleftrightarrow> length v = 32 \<and> list_all lower_hex v"

definition scope_valid :: "scope \<Rightarrow> bool" where
  "scope_valid s =
    (if \<not> identity (s_authority s) \<or> \<not> identity (s_device_uid s) then False
     else if (s_ownership s = '''') = (s_grant s = '''') then False
     else if s_ownership s \<noteq> '''' \<and> (\<not> identity (s_ownership s) \<or> s_principal s = '''') then False
     else if s_grant s \<noteq> '''' \<and> \<not> identity (s_grant s) then False
     else if s_principal s = '''' then s_tenant s = ''''
     else identity (s_principal s) \<and> identity (s_tenant s))"

definition scope_retained :: "scope \<Rightarrow> int" where
  "scope_retained s = int (length (s_authority s)) + int (length (s_device_uid s))
     + int (length (s_ownership s)) + int (length (s_grant s))
     + int (length (s_principal s)) + int (length (s_tenant s))"

definition dc_valid :: "device_context \<Rightarrow> bool" where
  "dc_valid d \<longleftrightarrow> identity (dc_authority d) \<and> identity (dc_device_uid d)
     \<and> (dc_ownership d = '''' \<or> identity (dc_ownership d))
     \<and> (dc_grant d = '''' \<or> identity (dc_grant d))
     \<and> (dc_ownership d = '''' \<or> dc_grant d = '''')"

definition dc_allows :: "device_context \<Rightarrow> scope \<Rightarrow> bool" where
  "dc_allows d s \<longleftrightarrow> dc_valid d \<and> dc_inbound d \<and> scope_valid s
     \<and> dc_authority d = s_authority s \<and> dc_device_uid d = s_device_uid s
     \<and> dc_ownership d = s_ownership s \<and> dc_grant d = s_grant s"

definition dc_retained :: "device_context \<Rightarrow> int" where
  "dc_retained d = 128 + int (length (dc_authority d)) + int (length (dc_device_uid d))
     + int (length (dc_ownership d)) + int (length (dc_grant d))"

lemma identity_nonempty: "identity v \<Longrightarrow> v \<noteq> ''''"
  by (auto simp: identity_def)

lemma scope_valid_one_credential:
  "scope_valid s \<Longrightarrow> (s_ownership s = '''') \<noteq> (s_grant s = '''')"
  by (simp add: scope_valid_def split: if_splits)

lemma scope_valid_owned_has_principal:
  "scope_valid s \<Longrightarrow> s_ownership s \<noteq> '''' \<Longrightarrow> identity (s_principal s) \<and> identity (s_tenant s)"
  by (simp add: scope_valid_def split: if_splits)

lemma scope_valid_identities:
  "scope_valid s \<Longrightarrow> identity (s_authority s) \<and> identity (s_device_uid s)"
  by (simp add: scope_valid_def split: if_splits)

lemma dc_allows_valid: "dc_allows d s \<Longrightarrow> dc_valid d \<and> dc_inbound d \<and> scope_valid s"
  by (simp add: dc_allows_def)

text \<open>Two contexts that allow one scope differ in nothing a scope can see.\<close>

lemma dc_allows_unique:
  "dc_allows d s \<Longrightarrow> dc_allows d' s \<Longrightarrow> d = d'"
  by (cases d; cases d') (simp add: dc_allows_def)

lemma dc_retained_pos: "128 \<le> dc_retained d"
  by (simp add: dc_retained_def)

lemma scope_retained_nonneg: "0 \<le> scope_retained s"
  by (simp add: scope_retained_def)

lemma scope_retained_valid:
  "scope_valid s \<Longrightarrow> 96 \<le> scope_retained s \<and> scope_retained s \<le> 160"
  by (auto simp: scope_valid_def identity_def scope_retained_def split: if_splits)

end
