(* ===== verification/Protocol.thy ===== *)
theory Protocol
  imports Invocation
begin

text \<open>
  The wire protocol of \<open>internal/protocol\<close>: codes and message types (\<open>codes.go\<close>), limits
  (\<open>limits.go\<close>, \<open>delegation.go\<close>), the message envelope (\<open>message.go\<close>), the greeting contract
  (\<open>client_auth.go\<close>), the settings snapshot check (\<open>device_settings.go\<close>) and identifiers
  (\<open>hash.go\<close>). Codes stay strings, as on the wire: an unknown type or code is a value too.
  SHA-256 and the random source are parameters wherever they are used.
\<close>

section \<open>Codes, types, operations\<close>

abbreviation Unauthorized :: string where "Unauthorized \<equiv> ''unauthorized''"
abbreviation UnknownDevice :: string where "UnknownDevice \<equiv> ''unknown_device''"
abbreviation UnknownExec :: string where "UnknownExec \<equiv> ''unknown_exec''"
abbreviation DeviceOffline :: string where "DeviceOffline \<equiv> ''device_offline''"
abbreviation InboundDisabled :: string where "InboundDisabled \<equiv> ''inbound_disabled''"
abbreviation PolicyDeny :: string where "PolicyDeny \<equiv> ''policy_deny''"
abbreviation ApprovalTimeout :: string where "ApprovalTimeout \<equiv> ''approval_timeout''"
abbreviation ExecTimeout :: string where "ExecTimeout \<equiv> ''exec_timeout''"
abbreviation Cancelled :: string where "Cancelled \<equiv> ''cancelled''"
abbreviation RelayError :: string where "RelayError \<equiv> ''relay_error''"
abbreviation AgentError :: string where "AgentError \<equiv> ''agent_error''"
abbreviation ResultUnknown :: string where "ResultUnknown \<equiv> ''result_unknown''"
abbreviation QuotaExceeded :: string where "QuotaExceeded \<equiv> ''quota_exceeded''"
abbreviation TooLarge :: string where "TooLarge \<equiv> ''too_large''"

abbreviation TypeHelloDevice :: string where "TypeHelloDevice \<equiv> ''hello_device''"
abbreviation TypeHelloClient :: string where "TypeHelloClient \<equiv> ''hello_client''"
abbreviation TypeHelloOK :: string where "TypeHelloOK \<equiv> ''hello_ok''"
abbreviation TypeHeartbeat :: string where "TypeHeartbeat \<equiv> ''heartbeat''"
abbreviation TypeInvoke :: string where "TypeInvoke \<equiv> ''invoke''"
abbreviation TypeInvokeNack :: string where "TypeInvokeNack \<equiv> ''invoke_nack''"
abbreviation TypeDeviceSettings :: string where "TypeDeviceSettings \<equiv> ''device.settings''"
abbreviation TypeRevoke :: string where "TypeRevoke \<equiv> ''revoke''"
abbreviation TypeDeviceSettingsResult :: string where
  "TypeDeviceSettingsResult \<equiv> ''device.settings.result''"
abbreviation TypeStdout :: string where "TypeStdout \<equiv> ''stdout''"
abbreviation TypeStderr :: string where "TypeStderr \<equiv> ''stderr''"
abbreviation TypeExit :: string where "TypeExit \<equiv> ''exit''"
abbreviation TypeError :: string where "TypeError \<equiv> ''error''"
abbreviation TypeAccessRequest :: string where "TypeAccessRequest \<equiv> ''access.request''"
abbreviation TypeAccessResult :: string where "TypeAccessResult \<equiv> ''access.result''"
abbreviation TypeExecutionRenew :: string where "TypeExecutionRenew \<equiv> ''execution.renew''"
abbreviation TypeExecutionRenewRoute :: string where
  "TypeExecutionRenewRoute \<equiv> ''execution.route.renew''"
abbreviation TypeExecutionLease :: string where "TypeExecutionLease \<equiv> ''execution.lease''"

abbreviation OpExec :: string where "OpExec \<equiv> ''exec''"
abbreviation OpCancel :: string where "OpCancel \<equiv> ''cancel''"
abbreviation OpRead :: string where "OpRead \<equiv> ''read''"
abbreviation OpWrite :: string where "OpWrite \<equiv> ''write''"
abbreviation OpProcesses :: string where "OpProcesses \<equiv> ''processes''"
abbreviation OpInfo :: string where "OpInfo \<equiv> ''info''"
abbreviation OpHandoffSubmit :: string where "OpHandoffSubmit \<equiv> ''handoff.submit''"
abbreviation OpHandoffGet :: string where "OpHandoffGet \<equiv> ''handoff.get''"

abbreviation ExitCompleted :: string where "ExitCompleted \<equiv> ''completed''"
abbreviation ExitCancelled :: string where "ExitCancelled \<equiv> ''cancelled''"
abbreviation ExitTimeout :: string where "ExitTimeout \<equiv> ''timeout''"
abbreviation ExitAuthorizationLost :: string where "ExitAuthorizationLost \<equiv> ''authorization_lost''"
abbreviation RoleDevice :: string where "RoleDevice \<equiv> ''device''"
abbreviation RoleClient :: string where "RoleClient \<equiv> ''client''"
abbreviation ClientAuthShared :: string where "ClientAuthShared \<equiv> ''shared''"
abbreviation ClientAuthAccount :: string where "ClientAuthAccount \<equiv> ''account''"

section \<open>Limits\<close>

abbreviation MaxFrameBytes :: int where "MaxFrameBytes \<equiv> 65536"
abbreviation MaxExecOutputBytes :: int where "MaxExecOutputBytes \<equiv> 4194304"
abbreviation MaxRelayBufferBytes :: int where "MaxRelayBufferBytes \<equiv> 1048576"
abbreviation MaxRelayQueueFrames :: nat where "MaxRelayQueueFrames \<equiv> 256"
abbreviation MaxRelayInboxFrames :: nat where "MaxRelayInboxFrames \<equiv> 64"
abbreviation MaxRelayQueueBaseBytes :: int where "MaxRelayQueueBaseBytes \<equiv> 4194304"
abbreviation MaxDeviceRequests :: nat where "MaxDeviceRequests \<equiv> 16"
abbreviation MaxWriteBytes :: int where "MaxWriteBytes \<equiv> 1048576"
abbreviation MaxReadBytes :: int where "MaxReadBytes \<equiv> 1048576"
abbreviation MaxReadOffsetBytes :: int where "MaxReadOffsetBytes \<equiv> 1073741824"
abbreviation MaxReadLines :: int where "MaxReadLines \<equiv> 1024"
abbreviation DefaultReadBytes :: int where "DefaultReadBytes \<equiv> 65536"
abbreviation MaxPathBytes :: int where "MaxPathBytes \<equiv> 4096"
abbreviation MaxEnvelopeBytes :: int where "MaxEnvelopeBytes \<equiv> 8192"
abbreviation MaxDeviceShares :: nat where "MaxDeviceShares \<equiv> 128"
abbreviation MaxDelegationBytes :: nat where "MaxDelegationBytes \<equiv> 4096"

definition MaxWSMessageBytes :: int where
  "MaxWSMessageBytes = 6 * (MaxWriteBytes + MaxPathBytes) + MaxEnvelopeBytes"

definition MaxRelayInboxBytes :: int where
  "MaxRelayInboxBytes = MaxWSMessageBytes + MaxRelayBufferBytes"

definition MaxRelayQueueBytes :: int where
  "MaxRelayQueueBytes = MaxRelayQueueBaseBytes + MaxWSMessageBytes"

definition RelayControlReserveFrames :: nat where
  "RelayControlReserveFrames = 2 * MaxDeviceRequests"

definition RelayControlReserveBytes :: int where
  "RelayControlReserveBytes = MaxEnvelopeBytes * int MaxDeviceRequests"

abbreviation DelegationProofLifetime :: int where
  "DelegationProofLifetime \<equiv> 11 * 60 * nanos_per_second"
abbreviation ExecutionLeaseDuration :: int where
  "ExecutionLeaseDuration \<equiv> 20 * nanos_per_second"
abbreviation ExecutionRenewInterval :: int where
  "ExecutionRenewInterval \<equiv> 5 * nanos_per_second"
abbreviation ExecutionRenewTimeout :: int where
  "ExecutionRenewTimeout \<equiv> 5 * nanos_per_second"

lemmas limit_defs = MaxWSMessageBytes_def MaxRelayInboxBytes_def MaxRelayQueueBytes_def
  RelayControlReserveFrames_def RelayControlReserveBytes_def

section \<open>The message envelope\<close>

record message =
  m_type :: string
  m_role :: string
  m_device_id :: string
  m_target_id :: string
  m_secret :: string
  m_grant :: string
  m_account_token :: string
  m_client_auth :: "string option"
  m_request_id :: string
  m_delegation :: string
  m_lease_ms :: int
  m_scope :: "scope option"
  m_device_context :: "device_context option"
  m_grant_hash :: string
  m_os :: string
  m_arch :: string
  m_agent_version :: string
  m_workspace :: string
  m_inbound :: "bool option"
  m_exec_id :: string
  m_op :: string
  m_payload :: string
  m_code :: string
  m_data :: string
  m_exit_code :: "int option"
  m_duration_ms :: "int option"
  m_truncated :: "bool option"
  m_status :: string

text \<open>The zero \<open>Message\<close>: a Go composite literal sets some fields of this one.\<close>

definition message0 :: message where
  "message0 = \<lparr> m_type = '''', m_role = '''', m_device_id = '''', m_target_id = '''',
     m_secret = '''', m_grant = '''', m_account_token = '''', m_client_auth = None,
     m_request_id = '''', m_delegation = '''', m_lease_ms = 0, m_scope = None,
     m_device_context = None, m_grant_hash = '''', m_os = '''', m_arch = '''',
     m_agent_version = '''', m_workspace = '''', m_inbound = None, m_exec_id = '''', m_op = '''',
     m_payload = '''', m_code = '''', m_data = '''', m_exit_code = None, m_duration_ms = None,
     m_truncated = None, m_status = '''' \<rparr>"

lemma message0_simps [simp]:
  "m_type message0 = ''''" "m_role message0 = ''''" "m_device_id message0 = ''''"
  "m_target_id message0 = ''''" "m_secret message0 = ''''" "m_grant message0 = ''''"
  "m_account_token message0 = ''''" "m_client_auth message0 = None" "m_request_id message0 = ''''"
  "m_delegation message0 = ''''" "m_lease_ms message0 = 0" "m_scope message0 = None"
  "m_device_context message0 = None" "m_grant_hash message0 = ''''" "m_os message0 = ''''"
  "m_arch message0 = ''''" "m_agent_version message0 = ''''" "m_workspace message0 = ''''"
  "m_inbound message0 = None" "m_exec_id message0 = ''''" "m_op message0 = ''''"
  "m_payload message0 = ''''" "m_code message0 = ''''" "m_data message0 = ''''"
  "m_exit_code message0 = None" "m_duration_ms message0 = None" "m_truncated message0 = None"
  "m_status message0 = ''''"
  by (simp_all add: message0_def)

definition Nack :: "string \<Rightarrow> string \<Rightarrow> message" where
  "Nack exec_id code = message0\<lparr>m_type := TypeInvokeNack, m_exec_id := exec_id, m_code := code\<rparr>"

definition Err :: "string \<Rightarrow> string \<Rightarrow> message" where
  "Err exec_id code = message0\<lparr>m_type := TypeError, m_exec_id := exec_id, m_code := code\<rparr>"

definition confirms_client_auth :: "message \<Rightarrow> bool \<Rightarrow> bool" where
  "confirms_client_auth m account =
    (let mode = (if account then ClientAuthAccount else ClientAuthShared)
     in m_type m = TypeHelloOK \<and> m_role m = RoleClient \<and> m_code m = ''''
        \<and> m_client_auth m = Some mode)"

text \<open>
  \<open>hex.DecodeString\<close> accepts both cases and an even length; encoding the decoded bytes again gives
  lower case, so \<open>err == nil && EncodeToString(b) == s\<close> says that the text is lower-case hex of
  even length.
\<close>

definition canonical_hex :: "string \<Rightarrow> bool" where
  "canonical_hex s \<longleftrightarrow> even (length s) \<and> list_all lower_hex s"

definition valid_device_settings :: "message \<Rightarrow> bool" where
  "valid_device_settings m =
    (if m_request_id m = '''' \<or> 128 < length (m_request_id m) \<or> m_inbound m = None then False
     else if m_grant_hash m = '''' then m_inbound m = Some False
     else if length (m_grant_hash m) \<noteq> 64 then False
     else canonical_hex (m_grant_hash m))"

lemma valid_device_settings_inbound_needs_grant:
  "valid_device_settings m \<Longrightarrow> m_inbound m = Some True \<Longrightarrow>
   length (m_grant_hash m) = 64 \<and> list_all lower_hex (m_grant_hash m)"
  by (auto simp: valid_device_settings_def canonical_hex_def split: if_splits)

section \<open>Identifiers\<close>

definition is_numeric_device_id :: "string \<Rightarrow> bool" where
  "is_numeric_device_id s \<longleftrightarrow> length s = 9 \<and> list_all digit s"

text \<open>\<open>fmt.Sprintf("%09d", n)\<close>, digit by digit, for the range the code produces.\<close>

fun decimal_padded :: "nat \<Rightarrow> nat \<Rightarrow> string" where
  "decimal_padded 0 n = ''''"
| "decimal_padded (Suc w) n = decimal_padded w (n div 10) @ [char_of (48 + n mod 10)]"

definition new_device_id :: "64 word \<Rightarrow> string" where
  "new_device_id raw =
    (let n = raw mod 1000000000;
         n' = (if n < 100000000 then n + 100000000 else n)
     in decimal_padded 9 (unat n'))"

definition be_bytes :: "8 word list \<Rightarrow> 64 word" where
  "be_bytes bs = foldl (\<lambda>n x. or (push_bit 8 n) (ucast x)) 0 bs"

definition hex_digit :: "nat \<Rightarrow> char" where
  "hex_digit n = (if n < 10 then char_of (48 + n) else char_of (87 + n))"

definition hex_encode :: "8 word list \<Rightarrow> string" where
  "hex_encode bs = concat (map (\<lambda>b. [hex_digit (unat b div 16), hex_digit (unat b mod 16)]) bs)"

text \<open>\<open>RandomHex(n)\<close> with the random source a parameter: the bytes it returned, or its error.\<close>

definition random_hex :: "8 word list option \<Rightarrow> string option" where
  "random_hex raw = map_option hex_encode raw"

definition new_exec_id :: "8 word list option \<Rightarrow> string option" where
  "new_exec_id raw = (case random_hex raw of None \<Rightarrow> None | Some h \<Rightarrow> Some (''ex_'' @ h))"

definition new_grant :: "8 word list option \<Rightarrow> string option" where
  "new_grant raw = (case random_hex raw of None \<Rightarrow> None | Some h \<Rightarrow> Some (''xr_grant_'' @ h))"

lemma length_decimal_padded [simp]: "length (decimal_padded w n) = w"
  by (induction w arbitrary: n) auto

lemma digit_char_of: "(n :: nat) < 10 \<Longrightarrow> digit (char_of (48 + n))"
  by (simp add: digit_def)

lemma decimal_padded_digits: "list_all digit (decimal_padded w n)"
  by (induction w arbitrary: n) (auto intro: digit_char_of)

lemma lower_hex_digit: "n < 16 \<Longrightarrow> lower_hex (hex_digit n)"
  by (auto simp: hex_digit_def lower_hex_def)

lemma length_hex_encode: "length (hex_encode bs) = 2 * length bs"
  by (induction bs) (auto simp: hex_encode_def)

lemma hex_encode_lower: "list_all lower_hex (hex_encode bs)"
proof (induction bs)
  case Nil
  then show ?case by (simp add: hex_encode_def)
next
  case (Cons b bs)
  have "unat b < 256" by (rule unat_byte)
  then have "unat b div 16 < 16" "unat b mod 16 < 16" by auto
  with Cons show ?case by (simp add: hex_encode_def lower_hex_digit)
qed

lemma identity_hex_encode: "length bs = 16 \<Longrightarrow> identity (hex_encode bs)"
  by (simp add: identity_def length_hex_encode hex_encode_lower)

lemma unat_hex_pair:
  "hex_digit (unat b div 16) = hex_digit (unat c div 16) \<Longrightarrow>
   hex_digit (unat b mod 16) = hex_digit (unat c mod 16) \<Longrightarrow> (b :: 8 word) = c"
proof -
  assume a: "hex_digit (unat b div 16) = hex_digit (unat c div 16)"
    "hex_digit (unat b mod 16) = hex_digit (unat c mod 16)"
  have v: "(of_char (hex_digit k) :: nat) = (if k < 10 then 48 + k else 87 + k)" if "k < 16" for k
    using that by (simp add: hex_digit_def)
  have inj: "m = n" if eq: "hex_digit m = hex_digit n" and lt: "m < 16" "n < 16" for m n
  proof -
    from eq have "(of_char (hex_digit m) :: nat) = of_char (hex_digit n)" by (rule arg_cong)
    then have "(if m < 10 then 48 + m else 87 + m) = (if n < 10 then 48 + n else 87 + n)"
      unfolding v [OF lt(1)] v [OF lt(2)] .
    then show ?thesis using lt by (cases "m < 10"; cases "n < 10") auto
  qed
  have lt: "unat b < 256" "unat c < 256" by (rule unat_byte)+
  have "unat b div 16 = unat c div 16" using a(1) by (rule inj) (use lt in auto)
  moreover have "unat b mod 16 = unat c mod 16" using a(2) by (rule inj) auto
  ultimately have eq: "unat b div 16 = unat c div 16" "unat b mod 16 = unat c mod 16" by simp_all
  from eq have "unat b = unat c" by (metis div_mult_mod_eq)
  then show ?thesis by (rule unsigned_word_eqI)
qed

lemma hex_encode_inj: "hex_encode bs = hex_encode cs \<Longrightarrow> bs = cs"
proof (induction bs arbitrary: cs)
  case Nil
  then show ?case by (cases cs) (auto simp: hex_encode_def)
next
  case (Cons b bs)
  then obtain c cs' where cs: "cs = c # cs'"
    by (cases cs) (auto simp: hex_encode_def)
  with Cons.prems have "hex_encode bs = hex_encode cs'" "b = c"
    by (auto simp: hex_encode_def intro: unat_hex_pair)
  with Cons.IH cs show ?case by simp
qed

end
