(* ===== verification/Outbox.thy ===== *)
theory Outbox
  imports Protocol "HOL-Library.Sublist"
begin

text \<open>
  The bounded writer queue of one relay connection, \<open>internal/relay/outbox.go\<close>. \<open>outbox\<close> is the
  struct under its mutex; \<open>phase\<close> is where the writer goroutine (\<open>run\<close>) stands: before its
  context check, after it, inside \<open>write\<close> with the item it took, on its deferred exit, or finished. Each
  critical section is one function: \<open>enqueue\<close>, \<open>close_outbox\<close>, \<open>poll_section\<close> (the context
  check at the head of the loop), \<open>loop_section\<close> (the section that takes an item), \<open>wrote_section\<close> (the one after \<open>write\<close>), \<open>cancel_section\<close> and \<open>clear_section\<close>
  (the deferred exit). \<open>EvCancel\<close> is the context: the parent's end or the drain timer. The wake
  channel only decides when the writer runs, so a step of the writer is possible at any time.

  The lemmas show the byte and frame accounting, the bounds, the room kept for control messages,
  and that the socket sees the accepted messages in order with no control message lost.
\<close>

section \<open>State and operations\<close>

record queued =
  q_msg :: message
  q_bytes :: int

datatype phase = Idle | Polled | Writing queued | Returning | Clearing | Stopped

record outbox =
  ob_queue :: "queued list"
  ob_bytes :: int
  ob_buffered :: "(string, int) gomap"
  ob_closing :: bool
  ob_cancelled :: bool
  ob_phase :: phase

datatype enq_result = EnqOk | EnqDropped | EnqClosed

definition new_outbox :: outbox where
  "new_outbox = \<lparr>ob_queue = [], ob_bytes = 0, ob_buffered = [], ob_closing = False,
     ob_cancelled = False, ob_phase = Idle\<rparr>"

definition output_message :: "message \<Rightarrow> bool" where
  "output_message m \<longleftrightarrow> m_type m = TypeStdout \<or> m_type m = TypeStderr"

definition retained_bytes :: "message \<Rightarrow> int" where
  "retained_bytes m =
    (let nested = (case m_scope m of None \<Rightarrow> 0 | Some s \<Rightarrow> scope_retained s)
           + (case m_device_context m of None \<Rightarrow> 0 | Some d \<Rightarrow> dc_retained d)
           + (case m_client_auth m of None \<Rightarrow> 0 | Some mode \<Rightarrow> int (length mode))
     in 512 + int (length (m_type m)) + int (length (m_role m)) + int (length (m_device_id m))
        + int (length (m_target_id m)) + int (length (m_secret m)) + int (length (m_grant m))
        + int (length (m_account_token m)) + int (length (m_request_id m))
        + int (length (m_grant_hash m)) + int (length (m_os m)) + int (length (m_arch m))
        + int (length (m_agent_version m)) + int (length (m_workspace m))
        + int (length (m_exec_id m)) + int (length (m_op m)) + int (length (m_payload m))
        + int (length (m_code m)) + int (length (m_data m)) + int (length (m_status m))
        + int (length (m_delegation m)) + nested)"

definition terminal_type :: "string \<Rightarrow> bool" where
  "terminal_type t \<longleftrightarrow> t = TypeExit \<or> t = TypeError \<or> t = TypeInvokeNack"

definition own_output :: "string \<Rightarrow> queued \<Rightarrow> bool" where
  "own_output eid q \<longleftrightarrow> output_message (q_msg q) \<and> m_exec_id (q_msg q) = eid"

text \<open>\<open>discardOutput\<close>: the loop walks the queue, keeps the rest and settles the counters.\<close>

fun discard_loop :: "string \<Rightarrow> queued list \<Rightarrow> outbox \<Rightarrow> outbox \<times> bool" where
  "discard_loop eid [] b = (b, False)"
| "discard_loop eid (q # qs) b =
    (if own_output eid q
     then let (b', _) = discard_loop eid qs
                (b\<lparr>ob_bytes := ob_bytes b - q_bytes q,
                   ob_buffered := mput eid (count_of (ob_buffered b) eid - q_bytes q) (ob_buffered b)\<rparr>)
          in (b', True)
     else let (b', d) = discard_loop eid qs b
          in (b'\<lparr>ob_queue := q # ob_queue b'\<rparr>, d))"

definition discard_output :: "string \<Rightarrow> outbox \<Rightarrow> outbox \<times> bool" where
  "discard_output eid b =
    (let (b', dropped) = discard_loop eid (ob_queue b) (b\<lparr>ob_queue := []\<rparr>)
     in (if count_of (ob_buffered b') eid = 0
         then b'\<lparr>ob_buffered := mdel eid (ob_buffered b')\<rparr> else b', dropped))"

definition queue_full :: "outbox \<Rightarrow> int \<Rightarrow> bool" where
  "queue_full b sz \<longleftrightarrow>
     MaxRelayQueueFrames \<le> length (ob_queue b) \<or> MaxRelayQueueBytes < ob_bytes b + sz"

definition append_message :: "message \<Rightarrow> int \<Rightarrow> outbox \<Rightarrow> outbox" where
  "append_message m sz b =
    (let b' = b\<lparr>ob_queue := ob_queue b @ [\<lparr>q_msg = m, q_bytes = sz\<rparr>],
                ob_bytes := ob_bytes b + sz\<rparr>
     in if output_message m
        then b'\<lparr>ob_buffered :=
               mput (m_exec_id m) (count_of (ob_buffered b) (m_exec_id m) + sz) (ob_buffered b)\<rparr>
        else b')"

definition enqueue :: "message \<Rightarrow> outbox \<Rightarrow> outbox \<times> enq_result" where
  "enqueue m b =
    (if ob_closing b \<or> ob_cancelled b then (b, EnqClosed)
     else let sz = retained_bytes m in
       if output_message m
       then (if MaxRelayBufferBytes < count_of (ob_buffered b) (m_exec_id m) + sz
               \<or> MaxRelayQueueFrames - RelayControlReserveFrames \<le> length (ob_queue b)
               \<or> MaxRelayQueueBytes - RelayControlReserveBytes < ob_bytes b + sz
             then (b, EnqDropped)
             else (append_message m sz b, EnqOk))
       else if queue_full b sz
       then let (b1, dropped) = (if terminal_type (m_type m)
                                 then discard_output (m_exec_id m) b else (b, False));
                m1 = (if dropped \<and> m_type m = TypeExit
                      then m\<lparr>m_truncated := Some True\<rparr> else m)
            in if queue_full b1 sz
               then (b1\<lparr>ob_closing := True, ob_cancelled := True\<rparr>, EnqClosed)
               else (append_message m1 sz b1, EnqOk)
       else (append_message m sz b, EnqOk))"

definition close_outbox :: "outbox \<Rightarrow> outbox" where
  "close_outbox b = (if ob_closing b then b else b\<lparr>ob_closing := True\<rparr>)"

definition poll_section :: "outbox \<Rightarrow> outbox" where
  "poll_section b =
    (if ob_phase b \<noteq> Idle then b
     else b\<lparr>ob_phase := (if ob_cancelled b then Returning else Polled)\<rparr>)"

definition loop_section :: "outbox \<Rightarrow> outbox" where
  "loop_section b =
    (if ob_phase b \<noteq> Polled then b
     else case ob_queue b of
            [] \<Rightarrow> b\<lparr>ob_phase := (if ob_closing b then Returning else Idle)\<rparr>
          | q # qs \<Rightarrow> b\<lparr>ob_queue := qs, ob_phase := Writing q\<rparr>)"

definition wrote_section :: "bool \<Rightarrow> outbox \<Rightarrow> outbox" where
  "wrote_section ok b =
    (case ob_phase b of
       Writing q \<Rightarrow>
         (let eid = m_exec_id (q_msg q);
              left = count_of (ob_buffered b) eid - q_bytes q;
              buf = (if output_message (q_msg q)
                     then (if left = 0 then mdel eid (ob_buffered b)
                           else mput eid left (ob_buffered b))
                     else ob_buffered b)
          in b\<lparr>ob_bytes := ob_bytes b - q_bytes q, ob_buffered := buf,
               ob_phase := (if ok then Idle else Returning)\<rparr>)
     | _ \<Rightarrow> b)"

definition cancel_section :: "outbox \<Rightarrow> outbox" where
  "cancel_section b =
    (if ob_phase b = Returning then b\<lparr>ob_cancelled := True, ob_phase := Clearing\<rparr> else b)"

definition clear_section :: "outbox \<Rightarrow> outbox" where
  "clear_section b =
    (if ob_phase b = Clearing
     then b\<lparr>ob_closing := True, ob_queue := [], ob_buffered := [], ob_bytes := 0,
            ob_phase := Stopped\<rparr>
     else b)"

datatype ob_event =
    EvEnqueue message | EvClose | EvCancel | EvPoll | EvLoop | EvWrote bool | EvReturn | EvClear

fun ob_step :: "ob_event \<Rightarrow> outbox \<Rightarrow> outbox" where
  "ob_step (EvEnqueue m) b = fst (enqueue m b)"
| "ob_step EvClose b = close_outbox b"
| "ob_step EvCancel b = b\<lparr>ob_cancelled := True\<rparr>"
| "ob_step EvPoll b = poll_section b"
| "ob_step EvLoop b = loop_section b"
| "ob_step (EvWrote ok) b = wrote_section ok b"
| "ob_step EvReturn b = cancel_section b"
| "ob_step EvClear b = clear_section b"

inductive ob_reachable :: "outbox \<Rightarrow> bool" where
  ob_start: "ob_reachable new_outbox"
| ob_next: "ob_reachable b \<Longrightarrow> ob_reachable (ob_step e b)"

section \<open>Accounting\<close>

definition bytes_of :: "queued list \<Rightarrow> int" where
  "bytes_of qs = sum_list (map q_bytes qs)"

definition out_total :: "string \<Rightarrow> queued list \<Rightarrow> int" where
  "out_total eid qs = bytes_of (filter (own_output eid) qs)"

definition in_write :: "outbox \<Rightarrow> queued list" where
  "in_write b = (case ob_phase b of Writing q \<Rightarrow> [q] | _ \<Rightarrow> [])"

definition held :: "outbox \<Rightarrow> queued list" where
  "held b = in_write b @ ob_queue b"

definition outputs :: "queued list \<Rightarrow> queued list" where
  "outputs qs = filter (\<lambda>q. output_message (q_msg q)) qs"

definition controls :: "queued list \<Rightarrow> queued list" where
  "controls qs = filter (\<lambda>q. \<not> output_message (q_msg q)) qs"

definition sized :: "queued list \<Rightarrow> bool" where
  "sized qs \<longleftrightarrow> (\<forall>q \<in> set qs. q_bytes q = retained_bytes (q_msg q))"

definition accounted :: "outbox \<Rightarrow> bool" where
  "accounted b \<longleftrightarrow> ob_bytes b = bytes_of (held b)
     \<and> (\<forall>e. count_of (ob_buffered b) e = out_total e (held b))
     \<and> sized (held b)"

definition bounded :: "outbox \<Rightarrow> bool" where
  "bounded b \<longleftrightarrow> length (ob_queue b) \<le> MaxRelayQueueFrames
     \<and> ob_bytes b \<le> MaxRelayQueueBytes
     \<and> (\<forall>e. count_of (ob_buffered b) e \<le> MaxRelayBufferBytes)
     \<and> length (outputs (ob_queue b)) \<le> MaxRelayQueueFrames - RelayControlReserveFrames
     \<and> bytes_of (outputs (held b)) \<le> MaxRelayQueueBytes - RelayControlReserveBytes"

definition outbox_inv :: "outbox \<Rightarrow> bool" where
  "outbox_inv b \<longleftrightarrow> accounted b \<and> bounded b"

definition nested_bytes :: "message \<Rightarrow> int" where
  "nested_bytes m = (case m_scope m of None \<Rightarrow> 0 | Some s \<Rightarrow> scope_retained s)
     + (case m_device_context m of None \<Rightarrow> 0 | Some d \<Rightarrow> dc_retained d)
     + (case m_client_auth m of None \<Rightarrow> 0 | Some mode \<Rightarrow> int (length mode))"

lemma nested_bytes_nonneg: "0 \<le> nested_bytes m"
proof -
  have "0 \<le> (case m_scope m of None \<Rightarrow> 0 | Some s \<Rightarrow> scope_retained s)"
    by (simp add: scope_retained_nonneg split: option.split)
  moreover have "0 \<le> (case m_device_context m of None \<Rightarrow> 0 | Some d \<Rightarrow> dc_retained d)"
    by (simp add: dc_retained_def split: option.split)
  moreover have "0 \<le> (case m_client_auth m of None \<Rightarrow> 0 | Some mode \<Rightarrow> int (length mode))"
    by (simp split: option.split)
  ultimately show ?thesis by (simp add: nested_bytes_def)
qed

lemma retained_bytes_pos: "512 \<le> retained_bytes m"
  using nested_bytes_nonneg [of m]
  unfolding retained_bytes_def Let_def nested_bytes_def [symmetric] by linarith

lemma retained_bytes_truncated [simp]: "retained_bytes (m\<lparr>m_truncated := t\<rparr>) = retained_bytes m"
  by (simp add: retained_bytes_def)

lemma output_message_truncated [simp]: "output_message (m\<lparr>m_truncated := t\<rparr>) = output_message m"
  by (simp add: output_message_def)

lemma bytes_of_simps [simp]:
  "bytes_of [] = 0" "bytes_of (q # qs) = q_bytes q + bytes_of qs" "bytes_of (xs @ ys) = bytes_of xs + bytes_of ys"
  by (simp_all add: bytes_of_def)

lemma out_total_simps [simp]:
  "out_total e [] = 0"
  "out_total e (q # qs) = (if own_output e q then q_bytes q else 0) + out_total e qs"
  "out_total e (xs @ ys) = out_total e xs + out_total e ys"
  by (simp_all add: out_total_def)

lemma outputs_simps [simp]:
  "outputs [] = []"
  "outputs (q # qs) = (if output_message (q_msg q) then q # outputs qs else outputs qs)"
  "outputs (xs @ ys) = outputs xs @ outputs ys"
  by (simp_all add: outputs_def)

lemma controls_simps [simp]:
  "controls [] = []"
  "controls (q # qs) = (if output_message (q_msg q) then controls qs else q # controls qs)"
  "controls (xs @ ys) = controls xs @ controls ys"
  by (simp_all add: controls_def)

lemma sized_simps [simp]:
  "sized []" "sized (q # qs) \<longleftrightarrow> q_bytes q = retained_bytes (q_msg q) \<and> sized qs"
  "sized (xs @ ys) \<longleftrightarrow> sized xs \<and> sized ys"
  by (auto simp: sized_def)

lemma bytes_of_split: "bytes_of qs = bytes_of (outputs qs) + bytes_of (controls qs)"
  by (induction qs) auto

lemma length_split: "length qs = length (outputs qs) + length (controls qs)"
  by (induction qs) auto

lemma sized_bytes_nonneg: "sized qs \<Longrightarrow> 0 \<le> bytes_of qs"
proof (induction qs)
  case (Cons q qs)
  then show ?case using retained_bytes_pos [of "q_msg q"] by simp
qed simp

lemma sized_outputs: "sized qs \<Longrightarrow> sized (outputs qs)"
  by (auto simp: sized_def outputs_def)

lemma sized_filter: "sized qs \<Longrightarrow> sized (filter P qs)"
  by (auto simp: sized_def)

lemma bytes_of_filter_le: "sized qs \<Longrightarrow> bytes_of (filter P qs) \<le> bytes_of qs"
proof (induction qs)
  case (Cons q qs)
  then show ?case using retained_bytes_pos [of "q_msg q"] by auto
qed simp

lemma out_total_nonneg: "sized qs \<Longrightarrow> 0 \<le> out_total e qs"
  by (simp add: out_total_def sized_filter sized_bytes_nonneg)

lemma out_total_filter_le: "sized qs \<Longrightarrow> out_total e (filter P qs) \<le> out_total e qs"
proof (induction qs)
  case (Cons q qs)
  then show ?case using retained_bytes_pos [of "q_msg q"] by auto
qed simp

lemma bytes_of_without_own:
  "bytes_of (filter (\<lambda>q. \<not> own_output e q) qs) = bytes_of qs - out_total e qs"
  by (induction qs) auto

lemma out_total_without_own:
  "out_total f (filter (\<lambda>q. \<not> own_output e q) qs) = (if f = e then 0 else out_total f qs)"
  by (induction qs) (auto simp: own_output_def)

section \<open>Eviction\<close>

lemma discard_loop_facts:
  assumes "discard_loop e qs b = (b', d)"
  shows "ob_queue b' = filter (\<lambda>q. \<not> own_output e q) qs @ ob_queue b
    \<and> ob_bytes b' = ob_bytes b - out_total e qs
    \<and> (\<forall>f. count_of (ob_buffered b') f = count_of (ob_buffered b) f - (if f = e then out_total e qs else 0))
    \<and> ob_closing b' = ob_closing b \<and> ob_cancelled b' = ob_cancelled b \<and> ob_phase b' = ob_phase b
    \<and> (d \<longleftrightarrow> (\<exists>q \<in> set qs. own_output e q))"
  using assms
proof (induction qs arbitrary: b b' d)
  case Nil
  then show ?case by simp
next
  case (Cons q qs)
  show ?case
  proof (cases "own_output e q")
    case True
    then obtain d1 where r: "discard_loop e qs
        (b\<lparr>ob_bytes := ob_bytes b - q_bytes q,
           ob_buffered := mput e (count_of (ob_buffered b) e - q_bytes q) (ob_buffered b)\<rparr>) = (b', d1)"
      and "d = True"
      using Cons.prems by (auto simp: Let_def split: prod.splits)
    then show ?thesis using True Cons.IH [OF r] by auto
  next
    case False
    then obtain b1 where r: "discard_loop e qs b = (b1, d)"
      and "b' = b1\<lparr>ob_queue := q # ob_queue b1\<rparr>"
      using Cons.prems by (auto simp: Let_def split: prod.splits)
    then show ?thesis using False Cons.IH [OF r] by auto
  qed
qed

lemma discard_output_facts:
  assumes "discard_output e b = (b', d)"
  shows "ob_queue b' = filter (\<lambda>q. \<not> own_output e q) (ob_queue b)"
    and "ob_bytes b' = ob_bytes b - out_total e (ob_queue b)"
    and "count_of (ob_buffered b') f
      = count_of (ob_buffered b) f - (if f = e then out_total e (ob_queue b) else 0)"
    and "ob_closing b' = ob_closing b" and "ob_cancelled b' = ob_cancelled b"
    and "ob_phase b' = ob_phase b"
    and "d \<longleftrightarrow> (\<exists>q \<in> set (ob_queue b). own_output e q)"
proof -
  obtain b1 where r: "discard_loop e (ob_queue b) (b\<lparr>ob_queue := []\<rparr>) = (b1, d)"
    and b': "b' = (if count_of (ob_buffered b1) e = 0
                   then b1\<lparr>ob_buffered := mdel e (ob_buffered b1)\<rparr> else b1)"
    using assms by (auto simp: discard_output_def Let_def split: prod.splits)
  note f = discard_loop_facts [OF r]
  show "ob_queue b' = filter (\<lambda>q. \<not> own_output e q) (ob_queue b)"
    "ob_bytes b' = ob_bytes b - out_total e (ob_queue b)"
    "ob_closing b' = ob_closing b" "ob_cancelled b' = ob_cancelled b" "ob_phase b' = ob_phase b"
    "d \<longleftrightarrow> (\<exists>q \<in> set (ob_queue b). own_output e q)"
    using f by (simp_all add: b')
  show "count_of (ob_buffered b') f
      = count_of (ob_buffered b) f - (if f = e then out_total e (ob_queue b) else 0)"
    using f by (auto simp: b')
qed

lemma in_write_phase: "ob_phase b' = ob_phase b \<Longrightarrow> in_write b' = in_write b"
  by (simp add: in_write_def)

lemma discard_output_inv:
  assumes inv: "outbox_inv b" and d: "discard_output e b = (b', dr)"
  shows "outbox_inv b'"
proof -
  note f = discard_output_facts [OF d]
  have w: "in_write b' = in_write b" by (rule in_write_phase) (rule f)
  have sz: "sized (in_write b)" "sized (ob_queue b)"
    using inv by (simp_all add: outbox_inv_def accounted_def held_def)
  have acc: "accounted b'"
    using inv by (auto simp: outbox_inv_def accounted_def held_def w f bytes_of_without_own
        out_total_without_own sized_filter)
  have len: "length (ob_queue b') \<le> length (ob_queue b)"
    by (simp add: f)
  have lo: "length (outputs (ob_queue b')) \<le> length (outputs (ob_queue b))"
    by (simp add: f outputs_def) (metis (no_types, lifting) filter_filter length_filter_le conj_commute filter_cong)
  have by1: "ob_bytes b' \<le> ob_bytes b" using sz(2) by (simp add: f out_total_nonneg)
  have bo: "bytes_of (outputs (ob_queue b')) \<le> bytes_of (outputs (ob_queue b))"
  proof -
    have "outputs (ob_queue b') = filter (\<lambda>q. \<not> own_output e q) (outputs (ob_queue b))"
      by (simp add: f outputs_def conj_commute)
    then show ?thesis using sz(2) by (simp add: bytes_of_filter_le sized_outputs)
  qed
  have bu: "count_of (ob_buffered b') g \<le> count_of (ob_buffered b) g" for g
    using sz(2) by (simp add: f out_total_nonneg)
  have "bounded b'"
    using inv len lo by1 bo bu
    by (auto simp: outbox_inv_def bounded_def held_def w intro: order_trans)
  with acc show ?thesis by (simp add: outbox_inv_def)
qed

section \<open>Every step keeps the accounting and the bounds\<close>

lemma append_message_accounted:
  assumes "accounted b" "s = retained_bytes m"
  shows "accounted (append_message m s b)"
  using assms
  by (auto simp: accounted_def append_message_def Let_def held_def in_write_def own_output_def
      split: phase.splits)

lemma append_control_inv:
  assumes "outbox_inv b" "\<not> output_message m" "\<not> queue_full b (retained_bytes m)"
  shows "outbox_inv (append_message m (retained_bytes m) b)"
proof -
  have "bounded (append_message m (retained_bytes m) b)"
    using assms by (auto simp: outbox_inv_def bounded_def append_message_def Let_def queue_full_def
        held_def in_write_def split: phase.splits)
  then show ?thesis using assms append_message_accounted by (simp add: outbox_inv_def)
qed

lemma bytes_of_outputs_le: "accounted b \<Longrightarrow> bytes_of (outputs (held b)) \<le> ob_bytes b"
  by (simp add: accounted_def outputs_def bytes_of_filter_le)

lemma length_outputs_le: "length (outputs qs) \<le> length qs"
  by (simp add: outputs_def)

lemma append_output_inv:
  assumes inv: "outbox_inv b" and o: "output_message m"
    and b1: "\<not> MaxRelayBufferBytes < count_of (ob_buffered b) (m_exec_id m) + retained_bytes m"
    and b2: "\<not> MaxRelayQueueFrames - RelayControlReserveFrames \<le> length (ob_queue b)"
    and b3: "\<not> MaxRelayQueueBytes - RelayControlReserveBytes < ob_bytes b + retained_bytes m"
  shows "outbox_inv (append_message m (retained_bytes m) b)"
proof -
  let ?b = "append_message m (retained_bytes m) b"
  have acc: "accounted ?b" using inv by (simp add: outbox_inv_def append_message_accounted)
  have q: "ob_queue ?b = ob_queue b @ [\<lparr>q_msg = m, q_bytes = retained_bytes m\<rparr>]"
    "ob_bytes ?b = ob_bytes b + retained_bytes m"
    by (simp_all add: append_message_def Let_def)
  have "bytes_of (outputs (held ?b)) \<le> MaxRelayQueueBytes - RelayControlReserveBytes"
    using bytes_of_outputs_le [OF acc] b3 q by simp
  moreover have "length (outputs (ob_queue ?b)) \<le> MaxRelayQueueFrames - RelayControlReserveFrames"
    using length_outputs_le [of "ob_queue ?b"] b2 q by simp
  moreover have "count_of (ob_buffered ?b) e \<le> MaxRelayBufferBytes" for e
    using inv b1 o by (auto simp: outbox_inv_def bounded_def append_message_def Let_def)
  moreover have "ob_bytes ?b \<le> MaxRelayQueueBytes" "length (ob_queue ?b) \<le> MaxRelayQueueFrames"
    using b2 b3 q by (simp_all add: RelayControlReserveBytes_def RelayControlReserveFrames_def)
  ultimately show ?thesis using acc by (simp add: outbox_inv_def bounded_def)
qed

lemma inv_flags:
  "outbox_inv (b\<lparr>ob_closing := c\<rparr>) = outbox_inv b"
  "outbox_inv (b\<lparr>ob_cancelled := d\<rparr>) = outbox_inv b"
  by (simp_all add: outbox_inv_def accounted_def bounded_def held_def in_write_def)

lemma enqueue_inv:
  assumes inv: "outbox_inv b"
  shows "outbox_inv (fst (enqueue m b))"
proof (cases "ob_closing b \<or> ob_cancelled b \<or> output_message m")
  case True
  then show ?thesis using inv append_output_inv [OF inv]
    by (auto simp: enqueue_def Let_def)
next
  case False
  show ?thesis
  proof (cases "queue_full b (retained_bytes m)")
    case full: True
    obtain b1 dr where e: "(if terminal_type (m_type m) then discard_output (m_exec_id m) b
        else (b, False)) = (b1, dr)" by (rule prod.exhaust)
    have i1: "outbox_inv b1"
      using e inv discard_output_inv [OF inv] by (auto split: if_splits)
    define m1 where "m1 = (if dr \<and> m_type m = TypeExit then m\<lparr>m_truncated := Some True\<rparr> else m)"
    have m1: "retained_bytes m1 = retained_bytes m" "\<not> output_message m1"
      using False by (simp_all add: m1_def)
    have eq: "fst (enqueue m b) = (if queue_full b1 (retained_bytes m)
        then b1\<lparr>ob_closing := True, ob_cancelled := True\<rparr>
        else append_message m1 (retained_bytes m1) b1)"
      using False full e m1 by (simp add: enqueue_def Let_def m1_def)
    show ?thesis
      using i1 m1 append_control_inv [OF i1 m1(2)] by (simp add: eq inv_flags)
  next
    case room: False
    then show ?thesis using False append_control_inv [OF inv _ room]
      by (simp add: enqueue_def Let_def)
  qed
qed

lemma inv_same_held:
  "outbox_inv b \<Longrightarrow> held b' = held b \<Longrightarrow> ob_bytes b' = ob_bytes b \<Longrightarrow>
   ob_buffered b' = ob_buffered b \<Longrightarrow> length (ob_queue b') \<le> length (ob_queue b) \<Longrightarrow>
   length (outputs (ob_queue b')) \<le> length (outputs (ob_queue b)) \<Longrightarrow> outbox_inv b'"
  unfolding outbox_inv_def accounted_def bounded_def by (intro conjI) (elim conjE, simp)+

lemma loop_section_inv:
  assumes inv: "outbox_inv b" shows "outbox_inv (loop_section b)"
  by (rule inv_same_held [OF inv])
     (auto simp: loop_section_def held_def in_write_def split: list.split)

lemma poll_section_inv:
  assumes inv: "outbox_inv b" shows "outbox_inv (poll_section b)"
  by (rule inv_same_held [OF inv]) (auto simp: poll_section_def held_def in_write_def)

lemma wrote_section_inv:
  assumes inv: "outbox_inv b" shows "outbox_inv (wrote_section ok b)"
proof (cases "ob_phase b")
  case (Writing q)
  have acc: "q_bytes q = retained_bytes (q_msg q)" "sized (ob_queue b)"
    "\<And>e. count_of (ob_buffered b) e = out_total e [q] + out_total e (ob_queue b)"
    "ob_bytes b = q_bytes q + bytes_of (ob_queue b)"
    using inv Writing by (auto simp: outbox_inv_def accounted_def held_def in_write_def)
  have q: "0 < q_bytes q" using acc(1) retained_bytes_pos [of "q_msg q"] by simp
  have buf: "count_of (ob_buffered (wrote_section ok b)) e = out_total e (ob_queue b)" for e
    using Writing acc(3) [of e] acc(3) [of "m_exec_id (q_msg q)"]
    by (auto simp: wrote_section_def Let_def own_output_def)
  have other: "ob_queue (wrote_section ok b) = ob_queue b"
    "ob_bytes (wrote_section ok b) = bytes_of (ob_queue b)"
    "held (wrote_section ok b) = ob_queue b" "held b = q # ob_queue b"
    using Writing acc(4) by (simp_all add: wrote_section_def Let_def in_write_def held_def)
  have le: "out_total e (ob_queue b) \<le> MaxRelayBufferBytes" for e
  proof -
    have "out_total e (ob_queue b) \<le> count_of (ob_buffered b) e"
      using acc(3) [of e] q by simp
    then show ?thesis using inv by (auto simp: outbox_inv_def bounded_def intro: order_trans)
  qed
  have lo: "bytes_of (outputs (ob_queue b)) \<le> bytes_of (outputs (held b))"
    using q by (simp add: other)
  have "accounted (wrote_section ok b)"
    using acc(2) by (simp add: accounted_def other buf)
  moreover have "bounded (wrote_section ok b)"
    using inv q lo le acc(4) by (simp add: outbox_inv_def bounded_def other buf)
  ultimately show ?thesis by (simp add: outbox_inv_def)
qed (use inv in \<open>simp_all add: wrote_section_def\<close>)

lemma ob_step_inv: "outbox_inv b \<Longrightarrow> outbox_inv (ob_step e b)"
proof (induction e b rule: ob_step.induct)
  case (1 m b) then show ?case by (simp add: enqueue_inv)
next
  case (2 b) then show ?case by (simp add: close_outbox_def inv_flags)
next
  case (3 b) then show ?case by (simp add: inv_flags)
next
  case (4 b) then show ?case by (simp add: poll_section_inv)
next
  case (5 b) then show ?case by (simp add: loop_section_inv)
next
  case (6 ok b) then show ?case by (simp add: wrote_section_inv)
next
  case (7 b)
  then show ?case
    by (rule inv_same_held) (auto simp: cancel_section_def held_def in_write_def)
next
  case (8 b)
  then show ?case by (auto simp: clear_section_def outbox_inv_def accounted_def bounded_def
      held_def in_write_def limit_defs)
qed

lemma outbox_inv_new: "outbox_inv new_outbox"
  by (simp add: new_outbox_def outbox_inv_def accounted_def bounded_def held_def in_write_def limit_defs)

lemma ob_reachable_inv: "ob_reachable b \<Longrightarrow> outbox_inv b"
  by (induction rule: ob_reachable.induct) (auto intro: outbox_inv_new ob_step_inv)

section \<open>Room for control messages\<close>

lemma control_has_room:
  assumes inv: "outbox_inv b" and c: "\<not> output_message m"
    and frames: "length (controls (ob_queue b)) < RelayControlReserveFrames"
    and bytes: "bytes_of (controls (held b)) + retained_bytes m \<le> RelayControlReserveBytes"
  shows "\<not> queue_full b (retained_bytes m)"
proof -
  have "length (ob_queue b) < MaxRelayQueueFrames"
    using inv frames length_split [of "ob_queue b"]
    by (simp add: outbox_inv_def bounded_def RelayControlReserveFrames_def)
  moreover have "ob_bytes b + retained_bytes m \<le> MaxRelayQueueBytes"
    using inv bytes bytes_of_split [of "held b"]
    by (simp add: outbox_inv_def bounded_def accounted_def)
  ultimately show ?thesis by (simp add: queue_full_def)
qed

section \<open>What the socket sees\<close>

text \<open>
  \<open>accepted e b\<close> is the message the step \<open>e\<close> put on the queue, as queued; \<open>taken e b\<close> the item the
  writer took and handed to \<open>write\<close>. \<open>ob_run\<close> collects both along a run.
\<close>

definition accepted :: "ob_event \<Rightarrow> outbox \<Rightarrow> message list" where
  "accepted e b =
    (case e of
       EvEnqueue m \<Rightarrow> (if snd (enqueue m b) = EnqOk
                       then [q_msg (last (ob_queue (fst (enqueue m b))))] else [])
     | _ \<Rightarrow> [])"

definition taken :: "ob_event \<Rightarrow> outbox \<Rightarrow> message list" where
  "taken e b =
    (case e of
       EvLoop \<Rightarrow> (case (ob_phase b, ob_queue b) of
                    (Polled, q # _) \<Rightarrow> [q_msg q] | _ \<Rightarrow> [])
     | _ \<Rightarrow> [])"

fun ob_run :: "ob_event list \<Rightarrow> outbox \<Rightarrow> outbox \<times> message list \<times> message list" where
  "ob_run [] b = (b, [], [])"
| "ob_run (e # es) b =
    (let (b', acc, tak) = ob_run es (ob_step e b)
     in (b', accepted e b @ acc, taken e b @ tak))"

abbreviation control_msgs :: "message list \<Rightarrow> message list" where
  "control_msgs ms \<equiv> filter (\<lambda>m. \<not> output_message m) ms"

abbreviation queued_msgs :: "outbox \<Rightarrow> message list" where
  "queued_msgs b \<equiv> map q_msg (ob_queue b)"

lemma discard_keeps_controls:
  "discard_output e b = (b', d) \<Longrightarrow> control_msgs (queued_msgs b') = control_msgs (queued_msgs b)"
proof -
  assume "discard_output e b = (b', d)"
  then have "ob_queue b' = filter (\<lambda>q. \<not> own_output e q) (ob_queue b)"
    by (rule discard_output_facts)
  moreover have "control_msgs (map q_msg (filter (\<lambda>q. \<not> own_output e q) qs)) = control_msgs (map q_msg qs)"
    for qs by (induction qs) (auto simp: own_output_def)
  ultimately show ?thesis by simp
qed

lemma discard_subseq:
  "discard_output e b = (b', d) \<Longrightarrow> subseq (queued_msgs b') (queued_msgs b)"
  by (simp add: discard_output_facts(1) subseq_map)

lemma append_queued: "queued_msgs (append_message m s b) = queued_msgs b @ [m]"
  by (simp add: append_message_def Let_def)

text \<open>Whatever the outcome, an enqueue appends the accepted message and evicts output only.\<close>

lemma enqueue_queue:
  shows "control_msgs (queued_msgs (fst (enqueue m b)))
      = control_msgs (queued_msgs b @ accepted (EvEnqueue m) b)"
    and "subseq (queued_msgs (fst (enqueue m b))) (queued_msgs b @ accepted (EvEnqueue m) b)"
proof -
  have "control_msgs (queued_msgs (fst (enqueue m b)))
      = control_msgs (queued_msgs b @ accepted (EvEnqueue m) b)
    \<and> subseq (queued_msgs (fst (enqueue m b))) (queued_msgs b @ accepted (EvEnqueue m) b)"
  proof (cases "ob_closing b \<or> ob_cancelled b \<or> output_message m \<or> \<not> queue_full b (retained_bytes m)")
    case True
    then show ?thesis
      by (auto simp: accepted_def enqueue_def Let_def append_message_def)
  next
    case False
    obtain b1 dr where e: "(if terminal_type (m_type m) then discard_output (m_exec_id m) b
        else (b, False)) = (b1, dr)" by (rule prod.exhaust)
    have k: "control_msgs (queued_msgs b1) = control_msgs (queued_msgs b)"
      "subseq (queued_msgs b1) (queued_msgs b)"
      using e discard_keeps_controls discard_subseq by (auto split: if_splits)
    show ?thesis
    proof (cases "queue_full b1 (retained_bytes m)")
      case True
      then have "snd (enqueue m b) = EnqClosed" "ob_queue (fst (enqueue m b)) = ob_queue b1"
        using False e by (simp_all add: enqueue_def Let_def)
      then show ?thesis using k by (simp add: accepted_def)
    next
      case room: False
      define m1 where "m1 = (if dr \<and> m_type m = TypeExit then m\<lparr>m_truncated := Some True\<rparr> else m)"
      have "snd (enqueue m b) = EnqOk"
        "ob_queue (fst (enqueue m b)) = ob_queue b1 @ [\<lparr>q_msg = m1, q_bytes = retained_bytes m\<rparr>]"
        using False e room by (simp_all add: enqueue_def Let_def m1_def append_message_def)
      then show ?thesis using k by (simp add: accepted_def)
    qed
  qed
  then show "control_msgs (queued_msgs (fst (enqueue m b)))
      = control_msgs (queued_msgs b @ accepted (EvEnqueue m) b)"
    "subseq (queued_msgs (fst (enqueue m b))) (queued_msgs b @ accepted (EvEnqueue m) b)"
    by auto
qed

lemma step_stream:
  "subseq (taken e b @ queued_msgs (ob_step e b)) (queued_msgs b @ accepted e b)"
  by (cases e) (auto simp: taken_def accepted_def enqueue_queue(2) [unfolded accepted_def, simplified]
      close_outbox_def poll_section_def loop_section_def
      wrote_section_def cancel_section_def clear_section_def Let_def
      split: phase.split list.split)

lemma step_stream_control:
  "e \<noteq> EvClear \<Longrightarrow> control_msgs (taken e b @ queued_msgs (ob_step e b))
     = control_msgs (queued_msgs b @ accepted e b)"
  using enqueue_queue(1)
  by (cases e) (auto simp: taken_def accepted_def close_outbox_def
      poll_section_def loop_section_def wrote_section_def cancel_section_def Let_def
      split: phase.split list.split bool.split)

lemma run_stream:
  "ob_run es b = (b', acc, tak) \<Longrightarrow> subseq (tak @ queued_msgs b') (queued_msgs b @ acc)"
proof (induction es arbitrary: b b' acc tak)
  case Nil
  then show ?case by simp
next
  case (Cons e es)
  obtain acc' tak' where r: "ob_run es (ob_step e b) = (b', acc', tak')"
    and acc: "acc = accepted e b @ acc'" and tak: "tak = taken e b @ tak'"
    using Cons.prems by (auto simp: Let_def split: prod.splits)
  have "subseq (taken e b @ tak' @ queued_msgs b') (taken e b @ queued_msgs (ob_step e b) @ acc')"
    using Cons.IH [OF r] by (simp add: list_emb_append_mono)
  moreover have "subseq ((taken e b @ queued_msgs (ob_step e b)) @ acc')
      ((queued_msgs b @ accepted e b) @ acc')"
    by (rule list_emb_append_mono [OF step_stream subseq_order.order_refl])
  ultimately show ?case unfolding acc tak by (metis append_assoc subseq_order.order_trans)
qed

lemma run_stream_control:
  "ob_run es b = (b', acc, tak) \<Longrightarrow> EvClear \<notin> set es \<Longrightarrow>
   control_msgs (tak @ queued_msgs b') = control_msgs (queued_msgs b @ acc)"
proof (induction es arbitrary: b b' acc tak)
  case Nil
  then show ?case by simp
next
  case (Cons e es)
  obtain acc' tak' where r: "ob_run es (ob_step e b) = (b', acc', tak')"
    and acc: "acc = accepted e b @ acc'" and tak: "tak = taken e b @ tak'"
    using Cons.prems by (auto simp: Let_def split: prod.splits)
  show ?case
    using Cons.IH [OF r] step_stream_control [of e b] Cons.prems(2)
    by (simp add: acc tak) (metis append_assoc)
qed

section \<open>The interface the router uses\<close>

text \<open>
  \<open>Sender\<close> of \<open>hub.go\<close>: messages are admitted to a bounded queue, or refused. A closed sender stays
  closed and admits nothing; a refusal of output changes nothing.
\<close>

locale sender =
  fixes enq :: "'m \<Rightarrow> 's \<Rightarrow> 's \<times> enq_result"
    and shut :: "'s \<Rightarrow> 's"
    and refusing :: "'s \<Rightarrow> bool"
    and pending :: "'s \<Rightarrow> 'm list"
  assumes enq_refused: "refusing s \<Longrightarrow> enq m s = (s, EnqClosed)"
    and enq_dropped: "snd (enq m s) = EnqDropped \<Longrightarrow> fst (enq m s) = s"
    and enq_closed: "snd (enq m s) = EnqClosed \<Longrightarrow> refusing (fst (enq m s))"
    and enq_ok_last: "snd (enq m s) = EnqOk \<Longrightarrow> pending (fst (enq m s)) \<noteq> []"
    and shut_refuses: "refusing (shut s)"
    and shut_pending: "pending (shut s) = pending s"
begin

lemma refused_forever: "refusing s \<Longrightarrow> fold (\<lambda>m t. fst (enq m t)) ms s = s"
  by (induction ms) (simp_all add: enq_refused)

lemma shut_final: "pending (fold (\<lambda>m t. fst (enq m t)) ms (shut s)) = pending s"
  by (simp add: refused_forever shut_refuses shut_pending)

lemma ok_was_open: "snd (enq m s) = EnqOk \<Longrightarrow> \<not> refusing s"
  using enq_refused by force

end

definition refusing_outbox :: "outbox \<Rightarrow> bool" where
  "refusing_outbox b \<longleftrightarrow> ob_closing b \<or> ob_cancelled b"

interpretation ob: sender enqueue close_outbox refusing_outbox queued_msgs
proof unfold_locales
  fix s :: outbox and m :: message
  show "refusing_outbox s \<Longrightarrow> enqueue m s = (s, EnqClosed)"
    by (simp add: refusing_outbox_def enqueue_def)
  show "snd (enqueue m s) = EnqDropped \<Longrightarrow> fst (enqueue m s) = s"
    by (auto simp: enqueue_def Let_def split: if_splits prod.splits)
  show "snd (enqueue m s) = EnqClosed \<Longrightarrow> refusing_outbox (fst (enqueue m s))"
    by (auto simp: enqueue_def refusing_outbox_def Let_def split: if_splits prod.splits)
  show "snd (enqueue m s) = EnqOk \<Longrightarrow> queued_msgs (fst (enqueue m s)) \<noteq> []"
    by (auto simp: enqueue_def Let_def append_message_def split: if_splits prod.splits)
  show "refusing_outbox (close_outbox s)" by (simp add: refusing_outbox_def close_outbox_def)
  show "queued_msgs (close_outbox s) = queued_msgs s" by (simp add: close_outbox_def)
qed

section \<open>Properties\<close>

lemma stopped_run:
  "ob_phase b = Stopped \<Longrightarrow> ob_closing b \<Longrightarrow> ob_run es b = (b', acc, tak) \<Longrightarrow> acc = [] \<and> tak = []"
proof (induction es arbitrary: b b' acc tak)
  case (Cons e es)
  have "ob_phase (ob_step e b) = Stopped \<and> ob_closing (ob_step e b) \<and> accepted e b = [] \<and> taken e b = []"
    using Cons.prems(1,2)
    by (cases e) (auto simp: enqueue_def close_outbox_def poll_section_def loop_section_def wrote_section_def
        cancel_section_def clear_section_def accepted_def taken_def)
  then show ?case using Cons.IH Cons.prems(3) by (auto simp: Let_def split: prod.splits)
qed simp

lemma enqueue_phase: "ob_phase (fst (enqueue m b)) = ob_phase b \<and> (ob_closing b \<longrightarrow> ob_closing (fst (enqueue m b)))"
  by (cases "discard_output (m_exec_id m) b")
     (auto simp: enqueue_def Let_def append_message_def discard_output_facts(4-6))

lemma step_stops_closed:
  "(ob_phase b = Stopped \<longrightarrow> ob_closing b) \<Longrightarrow> ob_phase (ob_step e b) = Stopped \<longrightarrow> ob_closing (ob_step e b)"
  by (cases e) (auto simp: enqueue_phase close_outbox_def poll_section_def loop_section_def wrote_section_def
      cancel_section_def clear_section_def Let_def split: phase.splits list.splits if_splits)

lemma run_prefix_control:
  "ob_run es b = (b', acc, tak) \<Longrightarrow> (ob_phase b = Stopped \<longrightarrow> ob_closing b) \<Longrightarrow>
   prefix (control_msgs tak) (control_msgs (queued_msgs b @ acc))"
proof (induction es arbitrary: b b' acc tak)
  case (Cons e es)
  obtain acc' tak' where r: "ob_run es (ob_step e b) = (b', acc', tak')"
    and acc: "acc = accepted e b @ acc'" and tak: "tak = taken e b @ tak'"
    using Cons.prems(1) by (auto simp: Let_def split: prod.splits)
  show ?case
  proof (cases "e = EvClear \<and> ob_phase b = Clearing")
    case True
    then have "acc' = [] \<and> tak' = []"
      by (intro stopped_run [OF _ _ r]) (simp_all add: clear_section_def)
    then show ?thesis using True by (simp add: tak taken_def)
  next
    case False
    then have "control_msgs (taken e b @ queued_msgs (ob_step e b)) = control_msgs (queued_msgs b @ accepted e b)"
      using step_stream_control [of e b] by (cases "e = EvClear") (auto simp: clear_section_def taken_def accepted_def)
    moreover have "prefix (control_msgs tak') (control_msgs (queued_msgs (ob_step e b) @ acc'))"
      by (rule Cons.IH [OF r step_stops_closed [OF Cons.prems(2)]])
    ultimately show ?thesis unfolding acc tak
      by (metis append_assoc filter_append same_prefix_prefix)
  qed
qed simp

text \<open>C7. In every state a connection's queue can reach, whatever is sent to it, however the socket
  behaves and whenever the context ends: at most 256 messages wait, at most \<open>MaxRelayQueueBytes\<close> are held, no
  execution has more than 1 MiB of output in the queue, and the two counters the code keeps are
  exactly the bytes of the items in the queue and in the write under way.\<close>

theorem outbox_bounded:
  assumes "ob_reachable b"
  shows "length (ob_queue b) \<le> MaxRelayQueueFrames
    \<and> ob_bytes b \<le> MaxRelayQueueBytes
    \<and> count_of (ob_buffered b) e \<le> MaxRelayBufferBytes
    \<and> ob_bytes b = bytes_of (held b)
    \<and> count_of (ob_buffered b) e = out_total e (held b)"
  using ob_reachable_inv [OF assms] unfolding outbox_inv_def bounded_def accounted_def by blast

definition outbox_demo :: outbox where
  "outbox_demo = ob_step (EvEnqueue (message0\<lparr>m_type := TypeStdout, m_exec_id := ''e1'', m_data := ''hi''\<rparr>))
     (ob_step (EvEnqueue (Nack ''e2'' DeviceOffline)) new_outbox)"

lemma outbox_demo_reachable: "ob_reachable outbox_demo"
  unfolding outbox_demo_def by (intro ob_next ob_start)

theorem outbox_bounded_witness:
  "length (ob_queue outbox_demo) \<le> MaxRelayQueueFrames \<and> count_of (ob_buffered outbox_demo) ''e1'' = out_total ''e1'' (held outbox_demo)"
  using outbox_bounded [OF outbox_demo_reachable] by blast

text \<open>C6. Output never takes the room reserved for control messages: in every reachable state of an
  open queue in which fewer than 32 control messages wait and they and the new one fit the 128 KiB
  reserve, a control message (a nack, an exit, an error, a lease) is admitted at the end of the queue, and nothing
  that was waiting is evicted for it.\<close>

theorem outbox_control_admitted:
  assumes "ob_reachable b" "\<not> refusing_outbox b" "\<not> output_message m"
    and "length (controls (ob_queue b)) < RelayControlReserveFrames"
    and "bytes_of (controls (held b)) + retained_bytes m \<le> RelayControlReserveBytes"
  shows "enqueue m b = (b\<lparr>ob_queue := ob_queue b @ [\<lparr>q_msg = m, q_bytes = retained_bytes m\<rparr>],
      ob_bytes := ob_bytes b + retained_bytes m\<rparr>, EnqOk)"
  using control_has_room [OF ob_reachable_inv assms(3-5)] assms(1-3)
  by (simp add: enqueue_def refusing_outbox_def append_message_def Let_def)

lemma message0_bytes: "retained_bytes (Nack ''e2'' DeviceOffline) = 539"
  by (simp add: retained_bytes_def Nack_def message0_def)

theorem outbox_control_admitted_witness:
  "snd (enqueue (Nack ''e2'' DeviceOffline) outbox_demo) = EnqOk"
proof -
  have d: "outbox_demo = \<lparr>ob_queue = [\<lparr>q_msg = Nack ''e2'' DeviceOffline, q_bytes = 539\<rparr>,
      \<lparr>q_msg = message0\<lparr>m_type := TypeStdout, m_exec_id := ''e1'', m_data := ''hi''\<rparr>, q_bytes = 522\<rparr>],
     ob_bytes = 1061, ob_buffered = [(''e1'', 522)], ob_closing = False, ob_cancelled = False,
     ob_phase = Idle\<rparr>"
    by (simp add: outbox_demo_def enqueue_def new_outbox_def output_message_def queue_full_def
        append_message_def Let_def retained_bytes_def Nack_def message0_def limit_defs)
  show ?thesis
    using outbox_control_admitted [OF outbox_demo_reachable, of "Nack ''e2'' DeviceOffline"]
    by (simp add: message0_bytes) (simp add: d refusing_outbox_def output_message_def Nack_def message0_def
        limit_defs held_def in_write_def)
qed

text \<open>C34. What the socket is handed is a subsequence of what was accepted, in order: no message is
  invented, duplicated or reordered. Among control messages nothing is lost either: those handed over
  are an initial segment of those accepted (output alone may be evicted, by its own terminal message).\<close>

theorem outbox_delivers_in_order:
  "case ob_run es new_outbox of (b', acc, tak) \<Rightarrow>
     subseq tak acc \<and> prefix (control_msgs tak) (control_msgs acc)"
proof -
  obtain b' acc tak where r: "ob_run es new_outbox = (b', acc, tak)" by (metis prod_cases3)
  have "subseq (tak @ queued_msgs b') acc" using run_stream [OF r] by (simp add: new_outbox_def)
  then have "subseq tak acc"
    by (meson list_emb_prefix prefixI subseq_order.order_refl subseq_order.order_trans)
  moreover have "prefix (control_msgs tak) (control_msgs acc)"
    using run_prefix_control [OF r] by (simp add: new_outbox_def)
  ultimately show ?thesis by (simp add: r)
qed

text \<open>A connection whose queue refused one message as closed (it was closing, cancelled, or a
  control message found no room, which closes it) refuses every later message and keeps its queue.\<close>

theorem outbox_closed_is_final:
  "snd (enqueue m b) = EnqClosed \<Longrightarrow>
   enqueue m' (fold (\<lambda>m t. fst (enqueue m t)) ms (fst (enqueue m b))) = (fst (enqueue m b), EnqClosed)"
  using ob.enq_closed ob.refused_forever ob.enq_refused by metis

theorem outbox_closed_is_final_witness:
  "enqueue message0 (fold (\<lambda>m t. fst (enqueue m t)) [message0] (close_outbox outbox_demo))
     = (close_outbox outbox_demo, EnqClosed)"
proof -
  have r: "enqueue message0 (close_outbox outbox_demo) = (close_outbox outbox_demo, EnqClosed)"
    using ob.shut_refuses by (rule ob.enq_refused)
  show ?thesis using outbox_closed_is_final [of message0 "close_outbox outbox_demo" message0 "[message0]"]
    by (simp add: r)
qed

end
