(* ===== verification/Principal.thy ===== *)
theory Principal
  imports Protocol
begin

text \<open>
  Caller identity, \<open>internal/principal\<close>. \<open>principal\<close> is \<open>Identity\<close>, \<open>credential\<close> is \<open>Credential\<close> (one
  consistent snapshot of credential and membership), \<open>valid_token\<close>, \<open>credential_valid_at\<close> and
  \<open>credential_verify\<close> are the checks of the package. \<open>authenticate\<close> and \<open>verify_identity\<close> are the
  service: the reader's answer, the context error seen after it and the clock read last are
  parameters. \<open>failure\<close> is every error of the server side that \<open>errors.Is\<close> tells apart;
  \<open>StorageFailure\<close> stands for any other error of the driver.
\<close>

datatype failure =
    PrincipalUnauthorized | AccessDenied | AccessInvalid | AccessLimit
  | DeviceNotFound | DeviceIdentity | InvalidAccountRequest | RandomFailure
  | ContextEnded | StorageFailure | StorageBusy

record principal =
  p_authority :: string
  p_principal :: string
  p_tenant :: string
  p_membership :: string
  p_version :: int
  p_credential :: string
  p_expires :: int

text \<open>The zero \<open>Identity\<close> of an unauthenticated (shared-grant) client.\<close>

definition no_principal :: principal where
  "no_principal = \<lparr>p_authority = '''', p_principal = '''', p_tenant = '''', p_membership = '''',
     p_version = 0, p_credential = '''', p_expires = 0\<rparr>"

record credential =
  cr_identity :: principal
  cr_revoked :: bool
  cr_member_active :: bool

definition token_prefix :: string where
  "token_prefix = ''xr_account_''"

definition valid_token :: "string \<Rightarrow> bool" where
  "valid_token t \<longleftrightarrow> take (length token_prefix) t = token_prefix
     \<and> length t = length token_prefix + 64
     \<and> list_all lower_hex (drop (length token_prefix) t)"

definition new_token :: "8 word list option \<Rightarrow> string option" where
  "new_token raw = map_option (\<lambda>h. token_prefix @ h) (random_hex raw)"

text \<open>
  \<open>strings.TrimSpace\<close> on the ASCII spaces; the code only asks whether anything is left, and uses the
  trimmed name. Non-ASCII spaces are not modelled.
\<close>

definition ascii_space :: "char \<Rightarrow> bool" where
  "ascii_space c \<longleftrightarrow> byte c = 32 \<or> (9 \<le> byte c \<and> byte c \<le> 13)"

definition trim_space :: "string \<Rightarrow> string" where
  "trim_space s = rev (dropWhile ascii_space (rev (dropWhile ascii_space s)))"

abbreviation nanos_per_minute :: int where "nanos_per_minute \<equiv> 60 * nanos_per_second"
abbreviation ninety_days :: int where "ninety_days \<equiv> 90 * 24 * 60 * 60 * nanos_per_second"

definition valid_enrollment :: "string \<Rightarrow> string \<Rightarrow> int \<Rightarrow> bool" where
  "valid_enrollment name kind ttl \<longleftrightarrow>
     \<not> (trim_space name = '''' \<or> 200 < length name \<or> (kind \<noteq> ''user'' \<and> kind \<noteq> ''service'')
        \<or> ttl < nanos_per_minute \<or> ninety_days < ttl)"

definition credential_valid_at :: "credential \<Rightarrow> int \<Rightarrow> bool" where
  "credential_valid_at c now \<longleftrightarrow>
     cr_member_active c \<and> \<not> cr_revoked c \<and> now < p_expires (cr_identity c)"

definition credential_verify :: "credential \<Rightarrow> principal \<Rightarrow> int \<Rightarrow> failure + unit" where
  "credential_verify c expected now =
    (if \<not> credential_valid_at c now \<or> cr_identity c \<noteq> expected
     then Inl PrincipalUnauthorized else Inr ())"

definition authenticate ::
  "(string \<Rightarrow> failure + credential) \<Rightarrow> (string \<Rightarrow> string) \<Rightarrow> bool \<Rightarrow> int \<Rightarrow> string
   \<Rightarrow> failure + principal" where
  "authenticate by_token_hash sha256_hex ctx_ended now token =
    (if \<not> valid_token token then Inl PrincipalUnauthorized
     else case by_token_hash (sha256_hex token) of
       Inl e \<Rightarrow> Inl e
     | Inr c \<Rightarrow> if ctx_ended then Inl ContextEnded
                else if \<not> credential_valid_at c now then Inl PrincipalUnauthorized
                else Inr (cr_identity c))"

definition verify_identity ::
  "(string \<Rightarrow> failure + credential) \<Rightarrow> bool \<Rightarrow> int \<Rightarrow> principal \<Rightarrow> failure + unit" where
  "verify_identity by_id ctx_ended now expected =
    (case by_id (p_credential expected) of
       Inl e \<Rightarrow> Inl e
     | Inr c \<Rightarrow> if ctx_ended then Inl ContextEnded else credential_verify c expected now)"

lemma credential_verify_ok:
  "credential_verify c p now = Inr u \<longleftrightarrow>
   cr_identity c = p \<and> cr_member_active c \<and> \<not> cr_revoked c \<and> now < p_expires p"
  by (auto simp: credential_verify_def credential_valid_at_def)

lemma valid_token_new:
  "length bs = 32 \<Longrightarrow> new_token (Some bs) = Some t \<Longrightarrow> valid_token t"
  by (auto simp: new_token_def random_hex_def valid_token_def length_hex_encode hex_encode_lower)

lemma verify_identity_ok:
  "verify_identity f ended now p = Inr u \<longleftrightarrow>
   (\<exists>c. f (p_credential p) = Inr c \<and> \<not> ended \<and> cr_identity c = p \<and> cr_member_active c
      \<and> \<not> cr_revoked c \<and> now < p_expires p)"
  by (auto simp: verify_identity_def credential_verify_ok split: sum.splits if_splits)

lemma authenticate_ok:
  "authenticate f h ended now t = Inr p \<longleftrightarrow>
   valid_token t \<and> \<not> ended \<and> (\<exists>c. f (h t) = Inr c \<and> credential_valid_at c now \<and> cr_identity c = p)"
  by (auto simp: authenticate_def split: sum.splits if_splits)

end
