(* ===== verification/Access.thy ===== *)
theory Access
  imports Principal
begin

unbundle bit_operations_syntax

text \<open>
  The value types and checks of \<open>internal/access\<close>: permission bits (\<open>authorization.go\<close>), device
  records and bindings (\<open>device.go\<close>), request validation, and the records a store hands out
  (\<open>store.go\<close>). A permission set is a 64-bit word, as persisted. Identifiers a mutation draws from
  the random source are parameters (\<open>None\<close> is the source's error).
\<close>

section \<open>Permissions\<close>

type_synonym permissions = "64 word"

definition operations :: "(string \<times> permissions) list" where
  "operations = [(OpInfo, 1), (OpRead, 2), (OpWrite, 4), (OpExec, 8), (OpProcesses, 16),
                 (OpHandoffSubmit, 32), (OpHandoffGet, 64)]"

definition all_permissions :: permissions where
  "all_permissions = foldl (\<lambda>r (_, bt). r OR bt) 0 operations"

fun find_bit :: "(string \<times> permissions) list \<Rightarrow> string \<Rightarrow> permissions option" where
  "find_bit [] name = None"
| "find_bit ((n, bt) # ops) name = (if name = n then Some bt else find_bit ops name)"

fun parse_loop :: "string list \<Rightarrow> permissions \<Rightarrow> failure + permissions" where
  "parse_loop [] r = Inr r"
| "parse_loop (n # ns) r =
    (case find_bit operations n of None \<Rightarrow> Inl AccessInvalid | Some bt \<Rightarrow> parse_loop ns (r OR bt))"

definition parse_permissions :: "string list \<Rightarrow> failure + permissions" where
  "parse_permissions names =
    (case parse_loop names 0 of
       Inl e \<Rightarrow> Inl e
     | Inr r \<Rightarrow> if r = 0 then Inl AccessInvalid else Inr r)"

definition allows :: "permissions \<Rightarrow> string \<Rightarrow> bool" where
  "allows p op = (case find_bit operations op of None \<Rightarrow> False | Some bt \<Rightarrow> p AND bt \<noteq> 0)"

definition permission_names :: "permissions \<Rightarrow> string list" where
  "permission_names p = map fst (filter (\<lambda>(n, _). allows p n) operations)"

section \<open>Devices and bindings\<close>

record device =
  dev_uid :: string
  dev_secret_hash :: string
  dev_inbound :: bool
  dev_grant_id :: string
  dev_grant_hash :: string
  dev_ownership :: string
  dev_owner_tenant :: string
  dev_owner_principal :: string

record binding =
  b_device_uid :: string
  b_grant_id :: string
  b_ownership :: string

definition device_binding :: "device \<Rightarrow> binding" where
  "device_binding d =
    (if dev_ownership d \<noteq> ''''
     then \<lparr>b_device_uid = dev_uid d, b_grant_id = '''', b_ownership = dev_ownership d\<rparr>
     else \<lparr>b_device_uid = dev_uid d, b_grant_id = dev_grant_id d, b_ownership = ''''\<rparr>)"

definition binding_matches :: "binding \<Rightarrow> binding \<Rightarrow> bool" where
  "binding_matches b current \<longleftrightarrow>
     b_device_uid b \<noteq> '''' \<and> (b_grant_id b \<noteq> '''') \<noteq> (b_ownership b \<noteq> '''') \<and> b = current"

definition new_device :: "string option \<Rightarrow> string \<Rightarrow> bool \<Rightarrow> failure + device" where
  "new_device fresh secret_hash inbound =
    (case fresh of
       None \<Rightarrow> Inl RandomFailure
     | Some uid \<Rightarrow> Inr \<lparr>dev_uid = uid, dev_secret_hash = secret_hash, dev_inbound = inbound,
         dev_grant_id = '''', dev_grant_hash = '''', dev_ownership = '''', dev_owner_tenant = '''',
         dev_owner_principal = ''''\<rparr>)"

definition with_access :: "string option \<Rightarrow> device \<Rightarrow> string \<Rightarrow> bool \<Rightarrow> failure + device" where
  "with_access fresh d grant_hash inbound =
    (let d1 = d\<lparr>dev_inbound := inbound\<rparr>
     in if grant_hash = dev_grant_hash d1 then Inr d1
        else let d2 = d1\<lparr>dev_grant_hash := grant_hash, dev_grant_id := ''''\<rparr>
             in if grant_hash \<noteq> ''''
                then (case fresh of None \<Rightarrow> Inl RandomFailure | Some g \<Rightarrow> Inr (d2\<lparr>dev_grant_id := g\<rparr>))
                else Inr d2)"

definition owned_by :: "device \<Rightarrow> principal \<Rightarrow> bool" where
  "owned_by d p \<longleftrightarrow> dev_ownership d \<noteq> '''' \<and> p_principal p \<noteq> ''''
     \<and> dev_owner_principal d = p_principal p \<and> dev_owner_tenant d = p_tenant p"

section \<open>Authorizations, requests and stored records\<close>

record authorization =
  a_binding :: binding
  a_share_id :: string
  a_permissions :: permissions
  a_expires :: int

definition no_authorization :: authorization where
  "no_authorization = \<lparr>a_binding = \<lparr>b_device_uid = '''', b_grant_id = '''', b_ownership = ''''\<rparr>,
     a_share_id = '''', a_permissions = 0, a_expires = 0\<rparr>"

record access_request =
  rq_action :: string
  rq_membership :: string
  rq_share :: string
  rq_operations :: "string list"
  rq_ttl_seconds :: int

definition validate_request :: "access_request \<Rightarrow> failure + unit" where
  "validate_request r =
    (if rq_action r = ''claim'' \<or> rq_action r = ''status'' then
       (if rq_membership r \<noteq> '''' \<or> rq_share r \<noteq> '''' \<or> rq_operations r \<noteq> [] \<or> rq_ttl_seconds r \<noteq> 0
        then Inl AccessInvalid else Inr ())
     else if rq_action r = ''transfer'' then
       (if rq_membership r = '''' \<or> rq_share r \<noteq> '''' \<or> rq_operations r \<noteq> [] \<or> rq_ttl_seconds r \<noteq> 0
        then Inl AccessInvalid else Inr ())
     else if rq_action r = ''share'' then
       (if rq_membership r = '''' \<or> rq_share r \<noteq> '''' \<or> rq_ttl_seconds r < 60
          \<or> 90 * 24 * 60 * 60 < rq_ttl_seconds r
        then Inl AccessInvalid
        else case parse_permissions (rq_operations r) of Inl e \<Rightarrow> Inl e | Inr _ \<Rightarrow> Inr ())
     else if rq_action r = ''unshare'' then
       (if rq_share r = '''' \<or> rq_membership r \<noteq> '''' \<or> rq_operations r \<noteq> [] \<or> rq_ttl_seconds r \<noteq> 0
        then Inl AccessInvalid else Inr ())
     else Inl AccessInvalid)"

record member =
  mb_tenant :: string
  mb_principal :: string
  mb_active :: bool

record ownership =
  ow_id :: string
  ow_device_uid :: string
  ow_tenant :: string
  ow_principal :: string

record share_record =
  sh_id :: string
  sh_ownership :: string
  sh_membership :: string
  sh_permissions :: permissions
  sh_expires :: int

record share =
  sv_id :: string
  sv_membership :: string
  sv_operations :: "string list"
  sv_expires :: int

record access_state =
  st_device_uid :: string
  st_ownership :: string
  st_owner_tenant :: string
  st_owner_principal :: string
  st_shares :: "share list"

section \<open>Lemmas\<close>

lemma all_permissions_value: "all_permissions = 127"
  by (simp add: all_permissions_def operations_def)

lemma find_bit_operations: "find_bit operations op = map_of operations op"
proof -
  have "find_bit ops op = map_of ops op" for ops by (induction ops) auto
  then show ?thesis .
qed

lemma parse_loop_or: "parse_loop ns r = Inr q \<Longrightarrow> r OR q = q"
proof (induction ns arbitrary: r)
  case (Cons n ns)
  then obtain bt where "parse_loop ns (r OR bt) = Inr q" by (auto split: option.splits)
  then have "(r OR bt) OR q = q" by (rule Cons.IH)
  then show ?case by (metis or.assoc or.left_commute or.left_idem)
qed simp

lemma parse_permissions_nonzero: "parse_permissions ns = Inr p \<Longrightarrow> p \<noteq> 0"
  by (auto simp: parse_permissions_def split: sum.splits if_splits)

lemma binding_matches_refl_iff:
  "binding_matches b b \<longleftrightarrow> b_device_uid b \<noteq> '''' \<and> (b_grant_id b \<noteq> '''') \<noteq> (b_ownership b \<noteq> '''')"
  by (simp add: binding_matches_def)

lemma binding_matches_eq: "binding_matches b c \<Longrightarrow> b = c"
  by (simp add: binding_matches_def)

lemma device_binding_uid [simp]: "b_device_uid (device_binding d) = dev_uid d"
  by (simp add: device_binding_def)

lemma device_binding_ownership [simp]: "b_ownership (device_binding d) = dev_ownership d"
  by (simp add: device_binding_def)

lemma device_binding_one_credential:
  "b_grant_id (device_binding d) = '''' \<or> b_ownership (device_binding d) = ''''"
  by (simp add: device_binding_def)

lemma with_access_same_hash:
  "grant_hash = dev_grant_hash d \<Longrightarrow> with_access fresh d grant_hash inbound = Inr (d\<lparr>dev_inbound := inbound\<rparr>)"
  by (simp add: with_access_def)

lemma with_access_identity:
  "with_access fresh d g i = Inr d' \<Longrightarrow> dev_uid d' = dev_uid d \<and> dev_secret_hash d' = dev_secret_hash d
     \<and> dev_ownership d' = dev_ownership d \<and> dev_owner_tenant d' = dev_owner_tenant d
     \<and> dev_owner_principal d' = dev_owner_principal d \<and> dev_inbound d' = i \<and> dev_grant_hash d' = g"
  by (auto simp: with_access_def Let_def split: if_splits option.splits)

subsection \<open>Parsing and displaying permissions\<close>

text \<open>Every operation owns one bit: masking a parsed union tells whether its name was listed.\<close>

definition op_bit :: "string \<Rightarrow> permissions" where
  "op_bit n = (case mget operations n of None \<Rightarrow> 0 | Some b \<Rightarrow> b)"

definition op_names :: "string list" where
  "op_names = map fst operations"

lemma op_names_list: "op_names = [OpInfo, OpRead, OpWrite, OpExec, OpProcesses, OpHandoffSubmit, OpHandoffGet]"
  by (simp add: op_names_def operations_def)

lemma op_names_dom: "mget operations n \<noteq> None \<longleftrightarrow> n \<in> set op_names"
  unfolding op_names_def set_map map_of_eq_None_iff by simp

lemma operations_disjoint:
  "\<forall>m \<in> set operations. \<forall>n \<in> set operations. (snd m AND snd n \<noteq> 0) = (fst m = fst n)"
  by (simp add: operations_def)

lemma op_bit_in: "n \<in> set op_names \<Longrightarrow> (n, op_bit n) \<in> set operations"
  using op_names_dom [of n] by (auto simp: op_bit_def dest: map_of_SomeD)

lemma op_bits_disjoint:
  "m \<in> set op_names \<Longrightarrow> n \<in> set op_names \<Longrightarrow> op_bit m AND op_bit n \<noteq> 0 \<longleftrightarrow> m = n"
  using operations_disjoint [rule_format, OF op_bit_in op_bit_in, of m n] by simp

lemma allows_bit: "n \<in> set op_names \<Longrightarrow> allows p n \<longleftrightarrow> p AND op_bit n \<noteq> 0"
  using op_names_dom [of n] by (auto simp: allows_def find_bit_operations op_bit_def)

lemma allows_known: "allows p n \<Longrightarrow> n \<in> set op_names"
  using op_names_dom [of n] by (auto simp: allows_def find_bit_operations split: option.splits)

lemma and_or_nonzero: "((x OR y) AND b \<noteq> 0) \<longleftrightarrow> (x AND b \<noteq> 0 \<or> y AND b \<noteq> (0 :: 64 word))"
proof -
  have "(x OR y) AND b = (x AND b) OR (y AND b)"
    by (rule bit_eqI) (auto simp: bit_simps)
  then show ?thesis by (simp add: or_eq_0_iff)
qed

lemma parse_loop_allows:
  "parse_loop ns r = Inr q \<Longrightarrow> n \<in> set op_names \<Longrightarrow> allows q n \<longleftrightarrow> allows r n \<or> n \<in> set ns"
proof (induction ns arbitrary: r)
  case Nil
  then show ?case by simp
next
  case (Cons m ns)
  then obtain b where b: "mget operations m = Some b" and p: "parse_loop ns (r OR b) = Inr q"
    by (auto simp: find_bit_operations split: option.splits)
  have m: "m \<in> set op_names" using b op_names_dom [of m] by simp
  have "b = op_bit m" using b by (simp add: op_bit_def)
  then have "allows (r OR b) n \<longleftrightarrow> allows r n \<or> m = n"
    using Cons.prems(2) m by (simp add: allows_bit and_or_nonzero op_bits_disjoint)
  then show ?case using Cons.IH [OF p Cons.prems(2)] by auto
qed

lemma parse_loop_total:
  "set ns \<subseteq> set op_names \<Longrightarrow> \<exists>q. parse_loop ns r = Inr q"
proof (induction ns arbitrary: r)
  case (Cons m ns)
  then obtain b where "mget operations m = Some b" using op_names_dom [of m] by auto
  then show ?case using Cons by (simp add: find_bit_operations)
qed simp

lemma parse_loop_known:
  "parse_loop ns r = Inr q \<Longrightarrow> n \<in> set ns \<Longrightarrow> n \<in> set op_names"
  unfolding op_names_dom [symmetric]
  by (induction ns arbitrary: r) (auto simp: find_bit_operations split: option.splits)

lemma parse_loop_error: "parse_loop ns r = Inl e \<Longrightarrow> e = AccessInvalid \<and> (\<exists>n \<in> set ns. n \<notin> set op_names)"
proof (induction ns arbitrary: r)
  case (Cons m ns)
  then show ?case using op_names_dom [of m]
    by (auto simp: find_bit_operations split: option.splits)
qed simp

lemma parse_loop_nonempty:
  assumes "parse_loop ns 0 = Inr q" shows "q = 0 \<longleftrightarrow> ns = []"
proof (cases ns)
  case Nil
  then show ?thesis using assms by simp
next
  case (Cons m ms)
  then have "m \<in> set op_names" using parse_loop_known [OF assms, of m] by simp
  then have "allows q m" using parse_loop_allows [OF assms, of m] Cons by simp
  then have "q \<noteq> 0" by (auto simp: allows_def split: option.splits)
  then show ?thesis using Cons by simp
qed

text \<open>\<open>ParsePermissions\<close> yields a set that \<open>Allows\<close> exactly the listed operations, and fails
  (with \<open>ErrInvalid\<close>) exactly when the list is empty or names an unknown operation. So an operation
  that is not one of the seven persisted bits (\<open>cancel\<close>, a misspelling) is never allowed.\<close>

theorem parse_permissions_exact:
  "case parse_permissions ns of
     Inl e \<Rightarrow> e = AccessInvalid \<and> (ns = [] \<or> (\<exists>n \<in> set ns. n \<notin> set op_names))
   | Inr p \<Rightarrow> ns \<noteq> [] \<and> (\<forall>n \<in> set ns. n \<in> set op_names) \<and> (\<forall>op. allows p op \<longleftrightarrow> op \<in> set ns)"
proof (cases "parse_loop ns 0")
  case (Inl e)
  then show ?thesis using parse_loop_error [OF Inl] by (simp add: parse_permissions_def)
next
  case (Inr q)
  have known: "n \<in> set op_names" if "n \<in> set ns" for n
    using parse_loop_known [OF Inr that] .
  have al: "allows q op \<longleftrightarrow> op \<in> set ns" for op
  proof (cases "op \<in> set op_names")
    case True
    then show ?thesis using parse_loop_allows [OF Inr True]
      by (auto simp: allows_def split: option.splits)
  next
    case False
    then show ?thesis using allows_known known by blast
  qed
  show ?thesis
    using Inr parse_loop_nonempty [OF Inr] known al by (simp add: parse_permissions_def)
qed

theorem parse_permissions_exact_witness:
  "parse_permissions [OpRead, OpExec] = Inr 10 \<and> allows 10 OpExec"
  using parse_permissions_exact [of "[OpRead, OpExec]"]
  by (simp add: parse_permissions_def operations_def)

definition union_bits :: "string list \<Rightarrow> permissions" where
  "union_bits ns = foldr (\<lambda>n r. op_bit n OR r) ns 0"

lemma bit_union_bits: "bit (union_bits ns) i \<longleftrightarrow> (\<exists>n \<in> set ns. bit (op_bit n) i)"
  by (induction ns) (auto simp: union_bits_def bit_simps)

lemma union_bits_set: "set ns = set ms \<Longrightarrow> union_bits ns = union_bits ms"
  by (rule bit_eqI) (simp add: bit_union_bits)

lemma parse_loop_union: "\<forall>n \<in> set ns. n \<in> set op_names \<Longrightarrow> parse_loop ns r = Inr (r OR union_bits ns)"
proof (induction ns arbitrary: r)
  case Nil
  then show ?case by (simp add: union_bits_def)
next
  case (Cons m ns)
  then obtain b where "mget operations m = Some b" using op_names_dom [of m] by auto
  then show ?case using Cons
    by (simp add: find_bit_operations op_bit_def union_bits_def or.assoc)
qed

lemma parse_permissions_union:
  "parse_permissions ns = Inr p \<longleftrightarrow>
   ns \<noteq> [] \<and> (\<forall>n \<in> set ns. n \<in> set op_names) \<and> p = union_bits ns"
proof
  assume r: "parse_permissions ns = Inr p"
  then have l: "parse_loop ns 0 = Inr p" by (auto simp: parse_permissions_def split: sum.splits if_splits)
  then have k: "\<forall>n \<in> set ns. n \<in> set op_names" using parse_loop_known by blast
  moreover have "ns \<noteq> []" using r by (auto simp: parse_permissions_def)
  ultimately show "ns \<noteq> [] \<and> (\<forall>n \<in> set ns. n \<in> set op_names) \<and> p = union_bits ns"
    using l by (simp add: parse_loop_union)
next
  assume a: "ns \<noteq> [] \<and> (\<forall>n \<in> set ns. n \<in> set op_names) \<and> p = union_bits ns"
  then have l: "parse_loop ns 0 = Inr p" by (simp add: parse_loop_union)
  with a show "parse_permissions ns = Inr p"
    using parse_loop_nonempty [OF l] by (simp add: parse_permissions_def)
qed

lemma permission_names_filter: "permission_names p = filter (allows p) op_names"
  by (simp add: permission_names_def op_names_def filter_map comp_def case_prod_unfold)

lemma parsed_allows:
  assumes "parse_permissions ns = Inr p" shows "allows p op \<longleftrightarrow> op \<in> set ns"
proof (cases "op \<in> set op_names")
  case True
  have l: "parse_loop ns 0 = Inr p" using assms
    by (auto simp: parse_permissions_def split: sum.splits if_splits)
  show ?thesis using parse_loop_allows [OF l True] by (auto simp: allows_def split: option.splits)
next
  case False
  then show ?thesis using assms allows_known [of p op] by (auto simp: parse_permissions_union)
qed

text \<open>Displaying a parsed set (\<open>Names\<close>) and parsing it again is the identity, and the display
  lists each listed operation once, in table order, whatever the order and the repetitions of the
  input: what a share shows on the wire is canonical.\<close>

theorem permission_names_roundtrip:
  assumes "parse_permissions ns = Inr p"
  shows "parse_permissions (permission_names p) = Inr p
    \<and> permission_names p = filter (\<lambda>n. n \<in> set ns) op_names"
proof -
  have n: "permission_names p = filter (\<lambda>n. n \<in> set ns) op_names"
    unfolding permission_names_filter by (rule filter_cong) (simp_all add: parsed_allows [OF assms])
  have k: "ns \<noteq> []" "\<forall>n \<in> set ns. n \<in> set op_names" "p = union_bits ns"
    using assms by (simp_all add: parse_permissions_union)
  then have s: "set (permission_names p) = set ns" unfolding n by auto
  then have "permission_names p \<noteq> []" using k(1) by auto
  moreover have "\<forall>n \<in> set (permission_names p). n \<in> set op_names" using s k(2) by simp
  moreover have "p = union_bits (permission_names p)"
    by (rule trans [OF k(3) sym [OF union_bits_set [OF s]]])
  ultimately have "parse_permissions (permission_names p) = Inr p"
    unfolding parse_permissions_union by (intro conjI)
  with n show ?thesis by (rule conjI [rotated])
qed

theorem permission_names_roundtrip_witness:
  "parse_permissions [OpExec, OpRead, OpExec] = Inr 10 \<and> permission_names 10 = [OpRead, OpExec]"
proof -
  have p: "parse_permissions [OpExec, OpRead, OpExec] = Inr 10"
    by (simp add: parse_permissions_def operations_def)
  then show ?thesis using permission_names_roundtrip [OF p] by (simp add: op_names_list)
qed

end
