(* ===== verification/Storage.thy ===== *)
theory Storage
  imports Access
begin

text \<open>
  The relay's relational store, \<open>internal/storage\<close>. \<open>db\<close> is the set of tables of the final schema
  (\<open>sqlstore_schema.go\<close>, \<open>sqlstore_access_schema.go\<close>, \<open>sqlstore_principal_schema.go\<close>), a table a list
  of rows. Each SQL statement of the adapters is one function over the tables with the constraints
  the schema declares (primary keys, \<open>UNIQUE\<close>, \<open>REFERENCES\<close> with its cascade, \<open>CHECK\<close>): a violated
  constraint is \<open>StorageFailure\<close>. \<open>store_transaction\<close> is the retry loop of \<open>sqlstore_transaction.go\<close>;
  what the driver answers (busy, a failed begin, a commit whose outcome is unknown) is its
  argument. \<open>db_ok\<close> is the integrity every operation keeps, with the application's bound on
  the number of shares.
\<close>

section \<open>Tables\<close>

record device_row =
  d_uid :: string
  d_id :: string
  d_secret_hash :: string
  d_inbound :: bool
  d_last_seen :: int

record grant_row =
  g_id :: string
  g_device_uid :: string
  g_token_hash :: string

record tenant_row =
  t_id :: string
  t_name :: string
  t_kind :: string

record principal_row =
  pr_id :: string
  pr_name :: string
  pr_kind :: string

record member_row =
  mr_id :: string
  mr_tenant :: string
  mr_principal :: string
  mr_role :: string
  mr_active :: bool
  mr_version :: int

record credential_row =
  c_id :: string
  c_token_hash :: string
  c_membership :: string
  c_expires :: int
  c_revoked :: bool

record db =
  tb_devices :: "device_row list"
  tb_grants :: "grant_row list"
  tb_ownership :: "ownership list"
  tb_shares :: "share_record list"
  tb_tenants :: "tenant_row list"
  tb_principals :: "principal_row list"
  tb_members :: "member_row list"
  tb_credentials :: "credential_row list"
  db_authority :: string

definition new_db :: "string \<Rightarrow> db" where
  "new_db authority = \<lparr>tb_devices = [], tb_grants = [], tb_ownership = [], tb_shares = [],
     tb_tenants = [], tb_principals = [], tb_members = [], tb_credentials = [],
     db_authority = authority\<rparr>"

section \<open>Devices: \<open>sqlstore_identity.go\<close>\<close>

definition device_view :: "db \<Rightarrow> device_row \<Rightarrow> device" where
  "device_view t r =
    (let g = find (\<lambda>g. g_device_uid g = d_uid r) (tb_grants t);
         w = find (\<lambda>w. ow_device_uid w = d_uid r) (tb_ownership t)
     in \<lparr>dev_uid = d_uid r, dev_secret_hash = d_secret_hash r, dev_inbound = d_inbound r,
         dev_grant_id = (case g of None \<Rightarrow> '''' | Some x \<Rightarrow> g_id x),
         dev_grant_hash = (case g of None \<Rightarrow> '''' | Some x \<Rightarrow> g_token_hash x),
         dev_ownership = (case w of None \<Rightarrow> '''' | Some x \<Rightarrow> ow_id x),
         dev_owner_tenant = (case w of None \<Rightarrow> '''' | Some x \<Rightarrow> ow_tenant x),
         dev_owner_principal = (case w of None \<Rightarrow> '''' | Some x \<Rightarrow> ow_principal x)\<rparr>)"

definition load_device :: "string \<Rightarrow> db \<Rightarrow> failure + device" where
  "load_device did t =
    (case find (\<lambda>r. d_id r = did) (tb_devices t) of
       None \<Rightarrow> Inl DeviceNotFound | Some r \<Rightarrow> Inr (device_view t r))"

definition device_by_uid :: "string \<Rightarrow> db \<Rightarrow> failure + device" where
  "device_by_uid uid t =
    (case find (\<lambda>r. d_uid r = uid) (tb_devices t) of
       None \<Rightarrow> Inl AccessDenied | Some r \<Rightarrow> Inr (device_view t r))"

definition register_body ::
  "device \<Rightarrow> string \<Rightarrow> string \<Rightarrow> bool \<Rightarrow> int \<Rightarrow> db \<Rightarrow> failure + db \<times> device" where
  "register_body candidate did secret_hash inbound now t =
    (let inserted =
       (if \<exists>r \<in> set (tb_devices t). d_id r = did then Inr t
        else if \<exists>r \<in> set (tb_devices t). d_uid r = dev_uid candidate then Inl StorageFailure
        else Inr (t\<lparr>tb_devices := tb_devices t @
               [\<lparr>d_uid = dev_uid candidate, d_id = did, d_secret_hash = secret_hash,
                 d_inbound = inbound, d_last_seen = now\<rparr>]\<rparr>))
     in case inserted of
          Inl e \<Rightarrow> Inl e
        | Inr t' \<Rightarrow> (case load_device did t' of
            Inl e \<Rightarrow> Inl e
          | Inr rec \<Rightarrow> if dev_secret_hash rec \<noteq> secret_hash then Inl DeviceIdentity
                      else Inr (t', rec)))"

definition put_grant :: "device \<Rightarrow> db \<Rightarrow> failure + db" where
  "put_grant rec t =
    (if dev_grant_id rec = ''''
     then Inr (t\<lparr>tb_grants := filter (\<lambda>g. g_device_uid g \<noteq> dev_uid rec) (tb_grants t)\<rparr>)
     else if dev_grant_hash rec = '''' \<or> \<not> (\<exists>r \<in> set (tb_devices t). d_uid r = dev_uid rec)
       \<or> (\<exists>g \<in> set (tb_grants t). g_id g = dev_grant_id rec \<and> g_device_uid g \<noteq> dev_uid rec)
     then Inl StorageFailure
     else if \<exists>g \<in> set (tb_grants t). g_device_uid g = dev_uid rec
     then Inr (t\<lparr>tb_grants := map (\<lambda>g. if g_device_uid g = dev_uid rec
               then g\<lparr>g_id := dev_grant_id rec, g_token_hash := dev_grant_hash rec\<rparr> else g)
               (tb_grants t)\<rparr>)
     else Inr (t\<lparr>tb_grants := tb_grants t @ [\<lparr>g_id = dev_grant_id rec,
               g_device_uid = dev_uid rec, g_token_hash = dev_grant_hash rec\<rparr>]\<rparr>))"

definition update_body ::
  "string option \<Rightarrow> string \<Rightarrow> device \<Rightarrow> int \<Rightarrow> db \<Rightarrow> failure + db \<times> device" where
  "update_body fresh did requested now t =
    (case load_device did t of
       Inl DeviceNotFound \<Rightarrow> Inl DeviceIdentity
     | Inl e \<Rightarrow> Inl e
     | Inr current \<Rightarrow>
        if dev_uid current \<noteq> dev_uid requested \<or> dev_secret_hash current \<noteq> dev_secret_hash requested
        then Inl DeviceIdentity
        else case with_access fresh current (dev_grant_hash requested) (dev_inbound requested) of
          Inl e \<Rightarrow> Inl e
        | Inr rec \<Rightarrow>
           (let hit = (\<lambda>r. d_uid r = dev_uid rec \<and> d_secret_hash r = dev_secret_hash rec)
            in if length (filter hit (tb_devices t)) \<noteq> 1 then Inl DeviceIdentity
               else let t1 = t\<lparr>tb_devices := map (\<lambda>r. if hit r
                             then r\<lparr>d_inbound := dev_inbound rec, d_last_seen := now\<rparr> else r)
                             (tb_devices t)\<rparr>
                    in case put_grant rec t1 of Inl e \<Rightarrow> Inl e | Inr t2 \<Rightarrow> Inr (t2, rec)))"

text \<open>Deleting rows follows the cascades: a device takes its grant and ownership, an ownership its shares.\<close>

definition drop_ownerships :: "(ownership \<Rightarrow> bool) \<Rightarrow> db \<Rightarrow> db" where
  "drop_ownerships hit t =
    (let gone = map ow_id (filter hit (tb_ownership t))
     in t\<lparr>tb_ownership := filter (\<lambda>w. \<not> hit w) (tb_ownership t),
          tb_shares := filter (\<lambda>s. sh_ownership s \<notin> set gone) (tb_shares t)\<rparr>)"

definition delete_device_body :: "string \<Rightarrow> string \<Rightarrow> string \<Rightarrow> db \<Rightarrow> failure + db \<times> unit" where
  "delete_device_body did uid secret_hash t =
    (let hit = (\<lambda>r. d_id r = did \<and> d_uid r = uid \<and> d_secret_hash r = secret_hash)
     in if length (filter hit (tb_devices t)) \<noteq> 1 then Inl DeviceIdentity
        else let t1 = t\<lparr>tb_devices := filter (\<lambda>r. \<not> hit r) (tb_devices t),
                        tb_grants := filter (\<lambda>g. g_device_uid g \<noteq> uid) (tb_grants t)\<rparr>
             in Inr (drop_ownerships (\<lambda>w. ow_device_uid w = uid) t1, ()))"

section \<open>Ownership and shares: \<open>sqlstore_access.go\<close>, \<open>sqlstore_access_mutation.go\<close>\<close>

definition member_by_id :: "string \<Rightarrow> db \<Rightarrow> failure + member" where
  "member_by_id mid t =
    (case find (\<lambda>m. mr_id m = mid) (tb_members t) of
       None \<Rightarrow> Inl AccessDenied
     | Some m \<Rightarrow> Inr \<lparr>mb_tenant = mr_tenant m, mb_principal = mr_principal m, mb_active = mr_active m\<rparr>)"

definition share_of :: "string \<Rightarrow> string \<Rightarrow> db \<Rightarrow> failure + share_record" where
  "share_of own mem t =
    (case find (\<lambda>s. sh_ownership s = own \<and> sh_membership s = mem) (tb_shares t) of
       None \<Rightarrow> Inl AccessDenied | Some s \<Rightarrow> Inr s)"

text \<open>\<open>ORDER BY id\<close> compares bytes.\<close>

definition share_order :: "share_record \<Rightarrow> nat list" where
  "share_order s = map of_char (sh_id s)"

fun insert_by_id :: "share_record \<Rightarrow> share_record list \<Rightarrow> share_record list" where
  "insert_by_id s [] = [s]"
| "insert_by_id s (u # us) =
    (if ord_class.lexordp (share_order u) (share_order s)
     then u # insert_by_id s us else s # u # us)"

definition shares_of :: "string \<Rightarrow> db \<Rightarrow> share_record list" where
  "shares_of own t = foldr insert_by_id (filter (\<lambda>s. sh_ownership s = own) (tb_shares t)) []"

definition replace_ownership :: "ownership \<Rightarrow> db \<Rightarrow> failure + db" where
  "replace_ownership w t =
    (let t1 = drop_ownerships (\<lambda>x. ow_device_uid x = ow_device_uid w) t
     in if (\<exists>x \<in> set (tb_ownership t1). ow_id x = ow_id w)
          \<or> \<not> (\<exists>r \<in> set (tb_devices t1). d_uid r = ow_device_uid w)
          \<or> \<not> (\<exists>x \<in> set (tb_tenants t1). t_id x = ow_tenant w)
          \<or> \<not> (\<exists>x \<in> set (tb_principals t1). pr_id x = ow_principal w)
        then Inl StorageFailure
        else Inr (t1\<lparr>tb_ownership := tb_ownership t1 @ [w]\<rparr>))"

definition delete_member_share :: "string \<Rightarrow> string \<Rightarrow> db \<Rightarrow> db" where
  "delete_member_share own mem t =
    t\<lparr>tb_shares := filter (\<lambda>s. \<not> (sh_ownership s = own \<and> sh_membership s = mem)) (tb_shares t)\<rparr>"

definition delete_expired_shares :: "string \<Rightarrow> int \<Rightarrow> db \<Rightarrow> db" where
  "delete_expired_shares own now t =
    t\<lparr>tb_shares := filter (\<lambda>s. \<not> (sh_ownership s = own \<and> sh_expires s \<le> now)) (tb_shares t)\<rparr>"

definition count_shares :: "string \<Rightarrow> db \<Rightarrow> nat" where
  "count_shares own t = length (filter (\<lambda>s. sh_ownership s = own) (tb_shares t))"

definition insert_share :: "share_record \<Rightarrow> db \<Rightarrow> failure + db" where
  "insert_share s t =
    (if (\<exists>x \<in> set (tb_shares t). sh_id x = sh_id s)
       \<or> (\<exists>x \<in> set (tb_shares t). sh_ownership x = sh_ownership s \<and> sh_membership x = sh_membership s)
       \<or> \<not> (\<exists>w \<in> set (tb_ownership t). ow_id w = sh_ownership s)
       \<or> \<not> (\<exists>m \<in> set (tb_members t). mr_id m = sh_membership s)
       \<or> sint (sh_permissions s) \<le> 0
     then Inl StorageFailure
     else Inr (t\<lparr>tb_shares := tb_shares t @ [s]\<rparr>))"

definition delete_share :: "string \<Rightarrow> string \<Rightarrow> db \<Rightarrow> failure + db" where
  "delete_share own sid t =
    (let hit = (\<lambda>s. sh_id s = sid \<and> sh_ownership s = own)
     in if length (filter hit (tb_shares t)) \<noteq> 1 then Inl DeviceIdentity
        else Inr (t\<lparr>tb_shares := filter (\<lambda>s. \<not> hit s) (tb_shares t)\<rparr>))"

section \<open>Accounts: \<open>sqlstore_account.go\<close>, \<open>sqlstore_principal.go\<close>\<close>

definition credential_view :: "db \<Rightarrow> credential_row \<Rightarrow> member_row \<Rightarrow> credential" where
  "credential_view t c m =
    \<lparr>cr_identity = \<lparr>p_authority = db_authority t, p_principal = mr_principal m,
       p_tenant = mr_tenant m, p_membership = mr_id m, p_version = mr_version m,
       p_credential = c_id c, p_expires = c_expires c\<rparr>,
     cr_revoked = c_revoked c, cr_member_active = mr_active m\<rparr>"

definition find_credential :: "(credential_row \<Rightarrow> bool) \<Rightarrow> db \<Rightarrow> failure + credential" where
  "find_credential hit t =
    (case find hit (tb_credentials t) of
       None \<Rightarrow> Inl PrincipalUnauthorized
     | Some c \<Rightarrow> (case find (\<lambda>m. mr_id m = c_membership c) (tb_members t) of
         None \<Rightarrow> Inl PrincipalUnauthorized
       | Some m \<Rightarrow> Inr (credential_view t c m)))"

definition credential_by_id :: "db \<Rightarrow> string \<Rightarrow> failure + credential" where
  "credential_by_id t cid = find_credential (\<lambda>c. c_id c = cid) t"

definition credential_by_token_hash :: "db \<Rightarrow> string \<Rightarrow> failure + credential" where
  "credential_by_token_hash t h = find_credential (\<lambda>c. c_token_hash c = h) t"

definition insert_tenant :: "tenant_row \<Rightarrow> db \<Rightarrow> failure + db" where
  "insert_tenant r t =
    (if (\<exists>x \<in> set (tb_tenants t). t_id x = t_id r)
       \<or> (t_kind r \<noteq> ''personal'' \<and> t_kind r \<noteq> ''organization'')
     then Inl StorageFailure else Inr (t\<lparr>tb_tenants := tb_tenants t @ [r]\<rparr>))"

definition insert_principal :: "principal_row \<Rightarrow> db \<Rightarrow> failure + db" where
  "insert_principal r t =
    (if (\<exists>x \<in> set (tb_principals t). pr_id x = pr_id r)
       \<or> (pr_kind r \<noteq> ''user'' \<and> pr_kind r \<noteq> ''service'')
     then Inl StorageFailure else Inr (t\<lparr>tb_principals := tb_principals t @ [r]\<rparr>))"

definition insert_membership :: "member_row \<Rightarrow> db \<Rightarrow> failure + db" where
  "insert_membership r t =
    (if (\<exists>x \<in> set (tb_members t). mr_id x = mr_id r)
       \<or> (\<exists>x \<in> set (tb_members t). mr_tenant x = mr_tenant r \<and> mr_principal x = mr_principal r)
       \<or> \<not> (\<exists>x \<in> set (tb_tenants t). t_id x = mr_tenant r)
       \<or> \<not> (\<exists>x \<in> set (tb_principals t). pr_id x = mr_principal r)
       \<or> (mr_role r \<noteq> ''owner'' \<and> mr_role r \<noteq> ''member'')
     then Inl StorageFailure else Inr (t\<lparr>tb_members := tb_members t @ [r]\<rparr>))"

definition load_membership :: "string \<Rightarrow> db \<Rightarrow> failure + member_row" where
  "load_membership mid t =
    (case find (\<lambda>m. mr_id m = mid) (tb_members t) of
       None \<Rightarrow> Inl PrincipalUnauthorized | Some m \<Rightarrow> Inr m)"

definition insert_credential :: "credential_row \<Rightarrow> db \<Rightarrow> failure + db" where
  "insert_credential r t =
    (if (\<exists>x \<in> set (tb_credentials t). c_id x = c_id r \<or> c_token_hash x = c_token_hash r)
       \<or> \<not> (\<exists>m \<in> set (tb_members t). mr_id m = c_membership r)
     then Inl StorageFailure else Inr (t\<lparr>tb_credentials := tb_credentials t @ [r]\<rparr>))"

definition revoke_credential_row :: "string \<Rightarrow> db \<Rightarrow> failure + db" where
  "revoke_credential_row cid t =
    (if length (filter (\<lambda>c. c_id c = cid) (tb_credentials t)) \<noteq> 1 then Inl PrincipalUnauthorized
     else Inr (t\<lparr>tb_credentials := map (\<lambda>c. if c_id c = cid then c\<lparr>c_revoked := True\<rparr> else c)
            (tb_credentials t)\<rparr>))"

definition set_member_active :: "string \<Rightarrow> bool \<Rightarrow> db \<Rightarrow> failure + db" where
  "set_member_active mid on t =
    (if length (filter (\<lambda>m. mr_id m = mid) (tb_members t)) \<noteq> 1 then Inl PrincipalUnauthorized
     else Inr (t\<lparr>tb_members := map (\<lambda>m. if mr_id m = mid
            then m\<lparr>mr_active := on, mr_version := mr_version m + 1\<rparr> else m) (tb_members t)\<rparr>))"

section \<open>Transactions: \<open>sqlstore_transaction.go\<close>\<close>

text \<open>
  What happens to one turn of the retry loop, outside the operation's own logic: the context is
  already over, \<open>BeginTx\<close> fails, a statement fails in the driver, or the operation runs to its end.
  A rollback may fail, the context may end meanwhile, and a commit may report an error although
  the database kept the transaction (\<open>CommitLost True\<close>). While the loop sleeps other transactions run:
  \<open>others\<close> is what they do to the tables. An exhausted list is a context that ended while sleeping.
\<close>

datatype commit_outcome = Committed | CommitLost bool

datatype attempt =
    CtxOver
  | BeginFails
  | StatementFails (busy: bool) (rollback_ok: bool) (ctx_over: bool) (others: "db \<Rightarrow> db")
  | Runs (ctx_over: bool) commit_outcome

fun store_transaction ::
  "attempt list \<Rightarrow> (db \<Rightarrow> failure + db \<times> 'a) \<Rightarrow> db \<Rightarrow> db \<times> (failure + 'a)" where
  "store_transaction [] op t = (t, Inl ContextEnded)"
| "store_transaction (CtxOver # as) op t = (t, Inl ContextEnded)"
| "store_transaction (BeginFails # as) op t = (t, Inl StorageFailure)"
| "store_transaction (StatementFails bsy rb over oth # as) op t =
    (if over then (t, Inl ContextEnded)
     else if \<not> rb \<or> \<not> bsy then (t, Inl (if bsy then StorageBusy else StorageFailure))
     else store_transaction as op (oth t))"
| "store_transaction (Runs over com # as) op t =
    (case op t of
       Inl e \<Rightarrow> (t, Inl (if over then ContextEnded else e))
     | Inr (t', x) \<Rightarrow> (case com of
         Committed \<Rightarrow> (t', Inr x)
       | CommitLost kept \<Rightarrow> (if kept then t' else t, Inl StorageFailure)))"

text \<open>The tables the loop sees at the turn that runs the operation, if one does.\<close>

fun seen_by_run :: "attempt list \<Rightarrow> db \<Rightarrow> db option" where
  "seen_by_run [] t = None"
| "seen_by_run (CtxOver # as) t = None"
| "seen_by_run (BeginFails # as) t = None"
| "seen_by_run (StatementFails bsy rb over oth # as) t =
    (if over \<or> \<not> rb \<or> \<not> bsy then None else seen_by_run as (oth t))"
| "seen_by_run (Runs over com # as) t = Some t"

text \<open>The tables as the other transactions leave them, the loop's own operation apart.\<close>

fun left_alone :: "attempt list \<Rightarrow> db \<Rightarrow> db" where
  "left_alone [] t = t"
| "left_alone (CtxOver # as) t = t"
| "left_alone (BeginFails # as) t = t"
| "left_alone (StatementFails bsy rb over oth # as) t =
    (if over \<or> \<not> rb \<or> \<not> bsy then t else left_alone as (oth t))"
| "left_alone (Runs over com # as) t = t"

lemma store_transaction_success:
  "store_transaction as op t = (t', Inr x) \<Longrightarrow> \<exists>seen. seen_by_run as t = Some seen \<and> op seen = Inr (t', x)"
  by (induction as op t rule: store_transaction.induct)
     (auto split: sum.splits prod.splits commit_outcome.splits if_splits)

lemma store_transaction_error:
  "store_transaction as op t = (t', Inl e) \<Longrightarrow>
   t' = left_alone as t \<or> (\<exists>seen x. seen_by_run as t = Some seen \<and> op seen = Inr (t', x) \<and> e = StorageFailure)"
  by (induction as op t rule: store_transaction.induct)
     (auto split: sum.splits prod.splits commit_outcome.splits if_splits)

text \<open>The retry loop applies an operation at most once: a success means that one run of the
  operation, on the tables as they stood at that turn, was committed; an error leaves the tables as
  the other transactions left them, unless the failed step was the commit itself of a run that
  succeeded. An error of the operation is therefore never partly applied, and a commit of unknown
  outcome is not replayed.\<close>

theorem store_transaction_at_most_once:
  "case store_transaction as op t of
     (t', Inr x) \<Rightarrow> (\<exists>seen. seen_by_run as t = Some seen \<and> op seen = Inr (t', x))
   | (t', Inl e) \<Rightarrow> t' = left_alone as t
       \<or> (\<exists>seen x. seen_by_run as t = Some seen \<and> op seen = Inr (t', x) \<and> e = StorageFailure)"
  using store_transaction_success [of as op t] store_transaction_error [of as op t]
  by (auto split: prod.splits sum.splits)

section \<open>Integrity\<close>

definition devices_ok :: "db \<Rightarrow> bool" where
  "devices_ok t \<longleftrightarrow> distinct (map d_uid (tb_devices t)) \<and> distinct (map d_id (tb_devices t))"

definition grants_ok :: "db \<Rightarrow> bool" where
  "grants_ok t \<longleftrightarrow> distinct (map g_id (tb_grants t)) \<and> distinct (map g_device_uid (tb_grants t))
     \<and> (\<forall>g \<in> set (tb_grants t). g_device_uid g \<in> d_uid ` set (tb_devices t) \<and> g_token_hash g \<noteq> '''')"

definition ownership_ok :: "db \<Rightarrow> bool" where
  "ownership_ok t \<longleftrightarrow> distinct (map ow_id (tb_ownership t)) \<and> distinct (map ow_device_uid (tb_ownership t))
     \<and> (\<forall>w \<in> set (tb_ownership t). ow_device_uid w \<in> d_uid ` set (tb_devices t)
          \<and> ow_tenant w \<in> t_id ` set (tb_tenants t) \<and> ow_principal w \<in> pr_id ` set (tb_principals t))"

definition shares_ok :: "db \<Rightarrow> bool" where
  "shares_ok t \<longleftrightarrow> distinct (map sh_id (tb_shares t))
     \<and> distinct (map (\<lambda>s. (sh_ownership s, sh_membership s)) (tb_shares t))
     \<and> (\<forall>s \<in> set (tb_shares t). sh_ownership s \<in> ow_id ` set (tb_ownership t)
          \<and> sh_membership s \<in> mr_id ` set (tb_members t) \<and> 0 < sint (sh_permissions s))"

definition members_ok :: "db \<Rightarrow> bool" where
  "members_ok t \<longleftrightarrow> distinct (map mr_id (tb_members t))
     \<and> distinct (map c_id (tb_credentials t)) \<and> distinct (map c_token_hash (tb_credentials t))
     \<and> (\<forall>c \<in> set (tb_credentials t). c_membership c \<in> mr_id ` set (tb_members t))"

definition share_cap :: "db \<Rightarrow> bool" where
  "share_cap t \<longleftrightarrow> (\<forall>own. count_shares own t \<le> MaxDeviceShares)"

definition db_ok :: "db \<Rightarrow> bool" where
  "db_ok t \<longleftrightarrow> devices_ok t \<and> grants_ok t \<and> ownership_ok t \<and> shares_ok t \<and> members_ok t \<and> share_cap t"

lemmas db_ok_defs = devices_ok_def grants_ok_def ownership_ok_def shares_ok_def members_ok_def
  share_cap_def

lemma db_ok_new: "db_ok (new_db a)"
  by (simp add: db_ok_def db_ok_defs new_db_def count_shares_def)

lemma distinct_map_filter_keep: "distinct (map f xs) \<Longrightarrow> distinct (map f (filter P xs))"
  by (simp add: distinct_map_filter)

lemma length_filter_filter: "length (filter P (filter Q xs)) \<le> length (filter P xs)"
  by (induction xs) auto

lemma share_cap_shrinks:
  "share_cap t \<Longrightarrow> tb_shares t' = filter Q (tb_shares t) \<Longrightarrow> share_cap t'"
  unfolding share_cap_def count_shares_def
  by (metis length_filter_filter order_trans)

text \<open>Row updates that keep a key column keep its distinctness and its range.\<close>

lemma row_ex: "(\<exists>r \<in> set xs. f r = v) \<longleftrightarrow> v \<in> f ` set xs"
  by auto

lemma map_update_column:
  "(\<And>r. f (u r) = f r) \<Longrightarrow> map f (map (\<lambda>r. if P r then u r else r) xs) = map f xs"
  by (induction xs) auto

subsection \<open>Every statement keeps the integrity\<close>

lemma drop_ownerships_ok:
  assumes "db_ok t" shows "db_ok (drop_ownerships hit t)"
proof -
  let ?t = "drop_ownerships hit t"
  have o: "ownership_ok ?t"
    using assms by (auto simp: db_ok_def ownership_ok_def drop_ownerships_def Let_def
        intro: distinct_map_filter_keep)
  have fk: "sh_ownership s \<in> ow_id ` set (tb_ownership ?t)"
    if "s \<in> set (tb_shares ?t)" for s
  proof -
    have s: "s \<in> set (tb_shares t)" "sh_ownership s \<notin> ow_id ` {w \<in> set (tb_ownership t). hit w}"
      using that by (auto simp: drop_ownerships_def Let_def)
    then obtain w where "w \<in> set (tb_ownership t)" "sh_ownership s = ow_id w"
      using assms by (auto simp: db_ok_def shares_ok_def)
    then show ?thesis using s by (auto simp: drop_ownerships_def Let_def)
  qed
  have "shares_ok ?t"
    using assms fk by (auto simp: db_ok_def shares_ok_def drop_ownerships_def Let_def
        intro: distinct_map_filter_keep)
  moreover have "share_cap ?t"
    using assms by (auto simp: db_ok_def drop_ownerships_def Let_def intro: share_cap_shrinks)
  ultimately show ?thesis using assms o
    by (simp add: db_ok_def devices_ok_def grants_ok_def members_ok_def drop_ownerships_def Let_def)
qed

lemma shares_filter_ok:
  assumes "db_ok t" shows "db_ok (t\<lparr>tb_shares := filter P (tb_shares t)\<rparr>)"
proof -
  have "share_cap (t\<lparr>tb_shares := filter P (tb_shares t)\<rparr>)"
    using assms by (auto simp: db_ok_def intro: share_cap_shrinks)
  then show ?thesis using assms
    by (simp add: db_ok_def devices_ok_def grants_ok_def members_ok_def ownership_ok_def
        shares_ok_def distinct_map_filter_keep)
qed

lemma delete_member_share_ok: "db_ok t \<Longrightarrow> db_ok (delete_member_share o' m t)"
  by (simp add: delete_member_share_def shares_filter_ok)

lemma delete_expired_shares_ok: "db_ok t \<Longrightarrow> db_ok (delete_expired_shares o' n t)"
  by (simp add: delete_expired_shares_def shares_filter_ok)

lemma delete_share_ok: "db_ok t \<Longrightarrow> delete_share o' sid t = Inr t' \<Longrightarrow> db_ok t'"
  by (auto simp: delete_share_def Let_def shares_filter_ok split: if_splits)

lemma replace_ownership_ok:
  assumes ok: "db_ok t" and r: "replace_ownership w t = Inr t'"
  shows "db_ok t'"
proof -
  define t1 where "t1 = drop_ownerships (\<lambda>x. ow_device_uid x = ow_device_uid w) t"
  have ok1: "db_ok t1" unfolding t1_def by (rule drop_ownerships_ok [OF ok])
  have c: "ow_id w \<notin> ow_id ` set (tb_ownership t1)" "ow_device_uid w \<in> d_uid ` set (tb_devices t1)"
    "ow_tenant w \<in> t_id ` set (tb_tenants t1)" "ow_principal w \<in> pr_id ` set (tb_principals t1)"
    and t': "t' = t1\<lparr>tb_ownership := tb_ownership t1 @ [w]\<rparr>"
    using r by (simp_all only: replace_ownership_def t1_def [symmetric] Let_def row_ex split: if_splits) auto
  have "ow_device_uid w \<notin> ow_device_uid ` set (tb_ownership t1)"
    by (auto simp: t1_def drop_ownerships_def Let_def)
  then have "ownership_ok t'" using ok1 c by (auto simp: db_ok_def ownership_ok_def t')
  then show ?thesis using ok1
    by (auto simp: db_ok_def devices_ok_def grants_ok_def members_ok_def shares_ok_def
        share_cap_def count_shares_def t')
qed

lemma insert_share_ok:
  assumes ok: "db_ok t" and r: "insert_share s t = Inr t'"
    and room: "count_shares (sh_ownership s) t < MaxDeviceShares"
  shows "db_ok t'"
proof -
  have c: "sh_id s \<notin> sh_id ` set (tb_shares t)"
    "(sh_ownership s, sh_membership s) \<notin> (\<lambda>x. (sh_ownership x, sh_membership x)) ` set (tb_shares t)"
    "sh_ownership s \<in> ow_id ` set (tb_ownership t)" "sh_membership s \<in> mr_id ` set (tb_members t)"
    "0 < sint (sh_permissions s)" and t': "t' = t\<lparr>tb_shares := tb_shares t @ [s]\<rparr>"
    using r by (simp_all only: insert_share_def split: if_splits) (auto simp: row_ex)
  have "shares_ok t'" using ok c by (auto simp: db_ok_def shares_ok_def t')
  moreover have "share_cap t'"
    using ok room by (auto simp: db_ok_def share_cap_def count_shares_def t')
  ultimately show ?thesis using ok
    by (simp add: db_ok_def devices_ok_def grants_ok_def members_ok_def ownership_ok_def t')
qed

lemma put_grant_ok:
  assumes ok: "db_ok t" and r: "put_grant d t = Inr t'"
  shows "db_ok t'"
proof -
  have "grants_ok t'"
  proof (cases "dev_grant_id d = ''''")
    case True
    then show ?thesis using ok r
      by (auto simp: put_grant_def db_ok_def grants_ok_def intro: distinct_map_filter_keep)
  next
    case False
    let ?u = "\<lambda>g. if g_device_uid g = dev_uid d
        then g\<lparr>g_id := dev_grant_id d, g_token_hash := dev_grant_hash d\<rparr> else g"
    have c: "dev_grant_hash d \<noteq> ''''" "dev_uid d \<in> d_uid ` set (tb_devices t)"
      "\<And>g. g \<in> set (tb_grants t) \<Longrightarrow> g_id g = dev_grant_id d \<Longrightarrow> g_device_uid g = dev_uid d"
      using r False by (auto simp: put_grant_def row_ex [symmetric] split: if_splits)
    have keys: "map g_device_uid (map ?u gs) = map g_device_uid gs" for gs
      by (rule map_update_column) simp
    have ids: "distinct (map g_id (map ?u (tb_grants t)))"
      using ok c(3) by (auto simp: db_ok_def grants_ok_def distinct_map inj_on_def)
    show ?thesis
    proof (cases "\<exists>g \<in> set (tb_grants t). g_device_uid g = dev_uid d")
      case True
      then have t': "t' = t\<lparr>tb_grants := map ?u (tb_grants t)\<rparr>"
        using r False c by (auto simp: put_grant_def split: if_splits)
      have "distinct (map g_device_uid (map ?u (tb_grants t)))"
        using ok by (simp only: keys) (simp add: db_ok_def grants_ok_def)
      with ids have "distinct (map g_id (tb_grants t')) \<and> distinct (map g_device_uid (tb_grants t'))"
        by (simp add: t')
      moreover have "\<forall>g \<in> set (tb_grants t').
          g_device_uid g \<in> d_uid ` set (tb_devices t') \<and> g_token_hash g \<noteq> ''''"
        using ok c by (auto simp: t' db_ok_def grants_ok_def)
      ultimately show ?thesis by (simp add: grants_ok_def)
    next
      case new: False
      then have t': "t' = t\<lparr>tb_grants := tb_grants t @ [\<lparr>g_id = dev_grant_id d,
          g_device_uid = dev_uid d, g_token_hash = dev_grant_hash d\<rparr>]\<rparr>"
        using r False c by (auto simp: put_grant_def split: if_splits)
      have "dev_grant_id d \<notin> g_id ` set (tb_grants t)" using c(3) new by (metis imageE)
      then show ?thesis using ok c(1,2) new by (auto simp: t' db_ok_def grants_ok_def)
    qed
  qed
  moreover have "tb_devices t' = tb_devices t" "tb_ownership t' = tb_ownership t"
    "tb_shares t' = tb_shares t" "tb_members t' = tb_members t" "tb_credentials t' = tb_credentials t"
    "tb_tenants t' = tb_tenants t" "tb_principals t' = tb_principals t"
    using r by (auto simp: put_grant_def split: if_splits)
  ultimately show ?thesis using ok
    by (simp add: db_ok_def devices_ok_def members_ok_def ownership_ok_def shares_ok_def
        share_cap_def count_shares_def)
qed

lemma register_body_ok:
  assumes "db_ok t" "register_body cand did h i now t = Inr (t', r)"
  shows "db_ok t'"
proof (cases "\<exists>r \<in> set (tb_devices t). d_id r = did")
  case True
  then show ?thesis using assms by (auto simp: register_body_def Let_def split: sum.splits if_splits)
next
  case False
  then have new: "dev_uid cand \<notin> d_uid ` set (tb_devices t)"
    and t': "t' = t\<lparr>tb_devices := tb_devices t @
      [\<lparr>d_uid = dev_uid cand, d_id = did, d_secret_hash = h, d_inbound = i, d_last_seen = now\<rparr>]\<rparr>"
    using assms(2) by (auto simp: register_body_def Let_def split: sum.splits if_splits)
  show ?thesis using assms(1) False new
    by (auto simp: t' db_ok_def db_ok_defs count_shares_def)
qed

lemma update_devices_ok:
  assumes "db_ok t" "\<And>r. d_uid (u r) = d_uid r" "\<And>r. d_id (u r) = d_id r"
  shows "db_ok (t\<lparr>tb_devices := map (\<lambda>r. if P r then u r else r) (tb_devices t)\<rparr>)"
proof -
  have k: "map d_uid (map (\<lambda>r. if P r then u r else r) (tb_devices t)) = map d_uid (tb_devices t)"
    "map d_id (map (\<lambda>r. if P r then u r else r) (tb_devices t)) = map d_id (tb_devices t)"
    using assms(2,3) by (simp_all only: map_update_column)
  have "d_uid ` set (map (\<lambda>r. if P r then u r else r) (tb_devices t)) = d_uid ` set (tb_devices t)"
    using k(1) by (metis set_map)
  with k assms(1) show ?thesis
    by (simp add: db_ok_def db_ok_defs count_shares_def del: map_map set_map)
qed

lemma update_body_ok:
  assumes "db_ok t" "update_body fresh did req now t = Inr (t', r)"
  shows "db_ok t'"
proof -
  from assms(2) obtain rc where
    "put_grant rc (t\<lparr>tb_devices := map (\<lambda>r. if d_uid r = dev_uid rc \<and> d_secret_hash r = dev_secret_hash rc
       then r\<lparr>d_inbound := dev_inbound rc, d_last_seen := now\<rparr> else r) (tb_devices t)\<rparr>) = Inr t'"
    by (auto simp: update_body_def Let_def split: sum.splits failure.splits if_splits)
  then show ?thesis
    by (rule put_grant_ok [rotated]) (rule update_devices_ok [OF assms(1)], simp_all)
qed

lemma delete_device_body_ok:
  assumes ok: "db_ok t" and r: "delete_device_body did uid h t = Inr (t', u)"
  shows "db_ok t'"
proof -
  let ?hit = "\<lambda>r. d_id r = did \<and> d_uid r = uid \<and> d_secret_hash r = h"
  let ?t0 = "drop_ownerships (\<lambda>w. ow_device_uid w = uid) t"
  have t': "t' = ?t0\<lparr>tb_devices := filter (\<lambda>r. \<not> ?hit r) (tb_devices t),
      tb_grants := filter (\<lambda>g. g_device_uid g \<noteq> uid) (tb_grants t)\<rparr>"
    using r by (auto simp: delete_device_body_def Let_def drop_ownerships_def split: if_splits)
  have ok0: "db_ok ?t0" by (rule drop_ownerships_ok [OF ok])
  have keep: "v \<in> d_uid ` set (tb_devices t')" if "v \<in> d_uid ` set (tb_devices t)" "v \<noteq> uid" for v
    using that by (auto simp: t')
  have own: "ow_device_uid w \<noteq> uid" if "w \<in> set (tb_ownership ?t0)" for w
    using that by (auto simp: drop_ownerships_def Let_def)
  have "tb_devices ?t0 = tb_devices t" by (simp add: drop_ownerships_def Let_def)
  then have "ownership_ok t'" using ok0 keep own
    by (auto simp: db_ok_def ownership_ok_def t')
  moreover have "grants_ok t'" using ok keep
    by (auto simp: db_ok_def grants_ok_def t' intro: distinct_map_filter_keep)
  moreover have "devices_ok t'" using ok
    by (auto simp: db_ok_def devices_ok_def t' intro: distinct_map_filter_keep)
  ultimately show ?thesis using ok0
    by (simp add: db_ok_def members_ok_def shares_ok_def share_cap_def count_shares_def t')
qed

text \<open>The account tables only grow, and a flag or version update keeps every key.\<close>

lemma insert_tenant_ok: "db_ok t \<Longrightarrow> insert_tenant r t = Inr t' \<Longrightarrow> db_ok t'"
  by (auto simp: insert_tenant_def db_ok_def db_ok_defs count_shares_def split: if_splits)

lemma insert_principal_ok: "db_ok t \<Longrightarrow> insert_principal r t = Inr t' \<Longrightarrow> db_ok t'"
  by (auto simp: insert_principal_def db_ok_def db_ok_defs count_shares_def split: if_splits)

lemma insert_membership_ok:
  assumes ok: "db_ok t" and r: "insert_membership r t = Inr t'" shows "db_ok t'"
proof -
  have c: "mr_id r \<notin> mr_id ` set (tb_members t)" and t': "t' = t\<lparr>tb_members := tb_members t @ [r]\<rparr>"
    using r by (auto simp: insert_membership_def row_ex [symmetric] split: if_splits)
  show ?thesis using ok c by (auto simp: t' db_ok_def db_ok_defs count_shares_def)
qed

lemma insert_credential_ok: "db_ok t \<Longrightarrow> insert_credential r t = Inr t' \<Longrightarrow> db_ok t'"
proof -
  assume ok: "db_ok t" and r: "insert_credential r t = Inr t'"
  have c: "c_id r \<notin> c_id ` set (tb_credentials t)"
    "c_token_hash r \<notin> c_token_hash ` set (tb_credentials t)"
    "c_membership r \<in> mr_id ` set (tb_members t)"
    and t': "t' = t\<lparr>tb_credentials := tb_credentials t @ [r]\<rparr>"
    using r by (auto simp: insert_credential_def row_ex [symmetric] split: if_splits)
  show ?thesis using ok c by (simp add: t' db_ok_def db_ok_defs count_shares_def)
qed

lemma revoke_credential_row_ok: "db_ok t \<Longrightarrow> revoke_credential_row cid t = Inr t' \<Longrightarrow> db_ok t'"
proof -
  assume ok: "db_ok t" and r: "revoke_credential_row cid t = Inr t'"
  let ?u = "\<lambda>c. if c_id c = cid then c\<lparr>c_revoked := True\<rparr> else c"
  have t': "t' = t\<lparr>tb_credentials := map ?u (tb_credentials t)\<rparr>"
    using r by (simp add: revoke_credential_row_def split: if_splits)
  have k: "map c_id (map ?u cs) = map c_id cs" "map c_token_hash (map ?u cs) = map c_token_hash cs"
    "map c_membership (map ?u cs) = map c_membership cs" for cs
    by (rule map_update_column, simp)+
  have m: "(\<forall>c \<in> set cs. c_membership c \<in> A) \<longleftrightarrow> set (map c_membership cs) \<subseteq> A" for cs A
    by auto
  show ?thesis using ok
    by (simp add: t' db_ok_def db_ok_defs count_shares_def m k del: map_map set_map)
qed

lemma replace_members_ok:
  assumes "db_ok t" and k: "map mr_id ms = map mr_id (tb_members t)"
  shows "db_ok (t\<lparr>tb_members := ms\<rparr>)"
proof -
  have "mr_id ` set ms = mr_id ` set (tb_members t)" by (simp only: set_map [symmetric] k)
  then show ?thesis using assms by (simp add: db_ok_def db_ok_defs count_shares_def)
qed

lemma set_member_active_ok:
  assumes "db_ok t" "set_member_active mid a t = Inr t'" shows "db_ok t'"
proof -
  let ?u = "\<lambda>m :: member_row. if mr_id m = mid then m\<lparr>mr_active := a, mr_version := mr_version m + 1\<rparr> else m"
  have t': "t' = t\<lparr>tb_members := map ?u (tb_members t)\<rparr>"
    using assms(2) by (simp add: set_member_active_def split: if_splits)
  show ?thesis unfolding t'
    by (rule replace_members_ok [OF assms(1)], rule map_update_column) simp
qed

end
