(* ===== verification/AccessService.thy ===== *)
theory AccessService
  imports Storage
begin

text \<open>
  The device access service: \<open>internal/access/service.go\<close> (who may invoke what now) and
  \<open>manage.go\<close> (claim, transfer, share, unshare), on the tables of \<open>Storage\<close>. Each callback given to the store
  is one function over the tables; \<open>manage\<close>, \<open>resolve_access\<close> and \<open>verify_access\<close> run it in the retry loop. What a run reads
  from outside is \<open>access_env\<close>: the context error after the credential is read, the two clock
  readings, the next random identifier.
\<close>

record access_env =
  en_over :: bool
  en_now_actor :: int
  en_now_share :: int
  en_fresh :: "string option"

record mutation =
  mu_device :: device
  mu_state :: access_state

section \<open>Decisions: \<open>service.go\<close>\<close>

definition verify_actor :: "access_env \<Rightarrow> principal \<Rightarrow> db \<Rightarrow> failure + unit" where
  "verify_actor en actor t =
    (case credential_by_id t (p_credential actor) of
       Inl e \<Rightarrow> Inl e
     | Inr current \<Rightarrow>
        if en_over en then Inl ContextEnded
        else (case credential_verify current actor (en_now_actor en) of
                Inl _ \<Rightarrow> Inl AccessDenied | Inr _ \<Rightarrow> Inr ()))"

definition resolve_body :: "access_env \<Rightarrow> string \<Rightarrow> principal \<Rightarrow> db \<Rightarrow> failure + authorization" where
  "resolve_body en uid actor t =
    (case device_by_uid uid t of
       Inl e \<Rightarrow> Inl e
     | Inr d \<Rightarrow>
        if dev_ownership d = '''' then Inl AccessDenied
        else case verify_actor en actor t of
          Inl e \<Rightarrow> Inl e
        | Inr _ \<Rightarrow>
            if owned_by d actor
            then Inr (no_authorization\<lparr>a_binding := device_binding d, a_permissions := all_permissions\<rparr>)
            else case share_of (dev_ownership d) (p_membership actor) t of
              Inl e \<Rightarrow> Inl e
            | Inr s \<Rightarrow>
                if sh_expires s \<le> en_now_share en then Inl AccessDenied
                else Inr \<lparr>a_binding = device_binding d, a_share_id = sh_id s,
                       a_permissions = sh_permissions s, a_expires = sh_expires s\<rparr>)"

definition resolve_check :: "access_env \<Rightarrow> device \<Rightarrow> principal \<Rightarrow> db \<Rightarrow> failure + authorization" where
  "resolve_check en expected actor t =
    (case resolve_body en (dev_uid expected) actor t of
       Inl e \<Rightarrow> Inl e
     | Inr r \<Rightarrow> if a_binding r \<noteq> device_binding expected then Inl AccessDenied else Inr r)"

definition verify_check ::
  "access_env \<Rightarrow> principal \<Rightarrow> authorization \<Rightarrow> string \<Rightarrow> db \<Rightarrow> failure + unit" where
  "verify_check en actor expected op t =
    (case resolve_body en (b_device_uid (a_binding expected)) actor t of
       Inl e \<Rightarrow> Inl e
     | Inr current \<Rightarrow>
        if current \<noteq> expected \<or> \<not> allows (a_permissions current) op then Inl AccessDenied else Inr ())"

text \<open>A read runs the same loop and writes nothing.\<close>

definition reading :: "(db \<Rightarrow> failure + 'a) \<Rightarrow> db \<Rightarrow> failure + db \<times> 'a" where
  "reading f t = (case f t of Inl e \<Rightarrow> Inl e | Inr x \<Rightarrow> Inr (t, x))"

definition resolve_access ::
  "attempt list \<Rightarrow> access_env \<Rightarrow> device \<Rightarrow> principal \<Rightarrow> db \<Rightarrow> db \<times> (failure + authorization)" where
  "resolve_access as en expected actor = store_transaction as (reading (resolve_check en expected actor))"

definition verify_access ::
  "attempt list \<Rightarrow> access_env \<Rightarrow> principal \<Rightarrow> authorization \<Rightarrow> string \<Rightarrow> db \<Rightarrow> db \<times> (failure + unit)" where
  "verify_access as en actor expected op = store_transaction as (reading (verify_check en actor expected op))"

definition share_view :: "share_record \<Rightarrow> share" where
  "share_view s = \<lparr>sv_id = sh_id s, sv_membership = sh_membership s,
     sv_operations = permission_names (sh_permissions s), sv_expires = sh_expires s\<rparr>"

definition state_view :: "device \<Rightarrow> db \<Rightarrow> access_state" where
  "state_view d t = \<lparr>st_device_uid = dev_uid d, st_ownership = dev_ownership d,
     st_owner_tenant = dev_owner_tenant d, st_owner_principal = dev_owner_principal d,
     st_shares = map share_view (shares_of (dev_ownership d) t)\<rparr>"

section \<open>Mutations: \<open>manage.go\<close>\<close>

definition active_member :: "string \<Rightarrow> db \<Rightarrow> failure + member" where
  "active_member mid t =
    (case member_by_id mid t of
       Inl e \<Rightarrow> Inl e | Inr m \<Rightarrow> if mb_active m then Inr m else Inl AccessDenied)"

definition set_owner :: "access_env \<Rightarrow> string \<Rightarrow> string \<Rightarrow> string \<Rightarrow> db \<Rightarrow> failure + db" where
  "set_owner en uid tenant person t =
    (case en_fresh en of
       None \<Rightarrow> Inl RandomFailure
     | Some i \<Rightarrow> replace_ownership
         \<lparr>ow_id = i, ow_device_uid = uid, ow_tenant = tenant, ow_principal = person\<rparr> t)"

definition replace_share :: "access_env \<Rightarrow> device \<Rightarrow> access_request \<Rightarrow> db \<Rightarrow> failure + db" where
  "replace_share en d rq t =
    (case active_member (rq_membership rq) t of
       Inl e \<Rightarrow> Inl e
     | Inr _ \<Rightarrow> (case parse_permissions (rq_operations rq) of
         Inl e \<Rightarrow> Inl e
       | Inr perms \<Rightarrow> (case en_fresh en of
           None \<Rightarrow> Inl RandomFailure
         | Some i \<Rightarrow>
            (let own = dev_ownership d;
                 t1 = delete_expired_shares own (en_now_share en)
                        (delete_member_share own (rq_membership rq) t)
             in if MaxDeviceShares \<le> count_shares own t1 then Inl AccessLimit
                else insert_share \<lparr>sh_id = i, sh_ownership = own, sh_membership = rq_membership rq,
                       sh_permissions = perms, sh_expires = en_now_share en + rq_ttl_seconds rq\<rparr> t1))))"

definition apply_action :: "access_env \<Rightarrow> principal \<Rightarrow> device \<Rightarrow> access_request \<Rightarrow> db \<Rightarrow> failure + db" where
  "apply_action en actor d rq t =
    (if rq_action rq = ''claim''
     then (if dev_ownership d = '''' then set_owner en (dev_uid d) (p_tenant actor) (p_principal actor) t
           else Inr t)
     else if rq_action rq = ''transfer''
     then (case active_member (rq_membership rq) t of
             Inl e \<Rightarrow> Inl e
           | Inr m \<Rightarrow>
              if mb_tenant m \<noteq> dev_owner_tenant d \<or> mb_principal m \<noteq> dev_owner_principal d
              then set_owner en (dev_uid d) (mb_tenant m) (mb_principal m) t else Inr t)
     else if rq_action rq = ''share'' then replace_share en d rq t
     else if rq_action rq = ''unshare'' then delete_share (dev_ownership d) (rq_share rq) t
     else Inr t)"

definition manage_body ::
  "access_env \<Rightarrow> string \<Rightarrow> device \<Rightarrow> principal \<Rightarrow> access_request \<Rightarrow> db \<Rightarrow> failure + db \<times> mutation" where
  "manage_body en did expected actor rq t =
    (case verify_actor en actor t of
       Inl e \<Rightarrow> Inl e
     | Inr _ \<Rightarrow> (case load_device did t of
         Inl e \<Rightarrow> Inl e
       | Inr d \<Rightarrow>
          if dev_uid d \<noteq> dev_uid expected \<or> dev_secret_hash d \<noteq> dev_secret_hash expected
             \<or> dev_ownership d \<noteq> dev_ownership expected then Inl AccessDenied
          else if dev_ownership d \<noteq> '''' \<and> \<not> owned_by d actor then Inl AccessDenied
          else if rq_action rq \<noteq> ''claim'' \<and> rq_action rq \<noteq> ''status'' \<and> dev_ownership d = ''''
          then Inl AccessDenied
          else case apply_action en actor d rq t of
            Inl e \<Rightarrow> Inl e
          | Inr t1 \<Rightarrow> (case load_device did t1 of
              Inl e \<Rightarrow> Inl e
            | Inr d1 \<Rightarrow> Inr (t1, \<lparr>mu_device = d1, mu_state = state_view d1 t1\<rparr>))))"

definition manage ::
  "attempt list \<Rightarrow> access_env \<Rightarrow> string \<Rightarrow> device \<Rightarrow> principal \<Rightarrow> access_request \<Rightarrow> db
   \<Rightarrow> db \<times> (failure + mutation)" where
  "manage as en did expected actor rq t =
    (case validate_request rq of
       Inl e \<Rightarrow> (t, Inl e)
     | Inr _ \<Rightarrow> store_transaction as (manage_body en did expected actor rq) t)"

section \<open>What a mutation does to the tables\<close>

lemma set_owner_ok: "db_ok t \<Longrightarrow> set_owner en u n p t = Inr t' \<Longrightarrow> db_ok t'"
  by (auto simp: set_owner_def split: option.splits intro: replace_ownership_ok)

lemma replace_share_parts:
  assumes "replace_share en d rq t = Inr t'"
  obtains m perms i t1 where "active_member (rq_membership rq) t = Inr m"
    "parse_permissions (rq_operations rq) = Inr perms" "en_fresh en = Some i"
    "t1 = delete_expired_shares (dev_ownership d) (en_now_share en)
       (delete_member_share (dev_ownership d) (rq_membership rq) t)"
    "count_shares (dev_ownership d) t1 < MaxDeviceShares"
    "insert_share \<lparr>sh_id = i, sh_ownership = dev_ownership d, sh_membership = rq_membership rq,
       sh_permissions = perms, sh_expires = en_now_share en + rq_ttl_seconds rq\<rparr> t1 = Inr t'"
  using assms by (auto simp: replace_share_def Let_def split: sum.splits option.splits if_splits)

lemma replace_share_ok: "db_ok t \<Longrightarrow> replace_share en d rq t = Inr t' \<Longrightarrow> db_ok t'"
  by (erule replace_share_parts, rule insert_share_ok)
     (auto intro: delete_expired_shares_ok delete_member_share_ok)

lemma apply_action_ok:
  assumes "db_ok t" "apply_action en actor d rq t = Inr t'" shows "db_ok t'"
  using assms
  by (auto simp: apply_action_def split: sum.splits if_splits
      intro: set_owner_ok replace_share_ok delete_share_ok)

lemma manage_body_parts:
  assumes "manage_body en did expected actor rq t = Inr (t', mu)"
  obtains d where "verify_actor en actor t = Inr ()" "load_device did t = Inr d"
    "dev_uid d = dev_uid expected" "dev_secret_hash d = dev_secret_hash expected"
    "dev_ownership d = dev_ownership expected"
    "dev_ownership d = '''' \<or> owned_by d actor"
    "dev_ownership d = '''' \<longrightarrow> rq_action rq = ''claim'' \<or> rq_action rq = ''status''"
    "apply_action en actor d rq t = Inr t'" "load_device did t' = Inr (mu_device mu)"
    "mu_state mu = state_view (mu_device mu) t'"
  using assms by (auto simp: manage_body_def split: sum.splits if_splits)

lemma manage_body_ok:
  "db_ok t \<Longrightarrow> manage_body en did expected actor rq t = Inr (t', mu) \<Longrightarrow> db_ok t'"
  by (erule manage_body_parts) (rule apply_action_ok)

lemma verify_actor_iff:
  "verify_actor en actor t = Inr () \<longleftrightarrow>
   (\<exists>c. credential_by_id t (p_credential actor) = Inr c \<and> \<not> en_over en \<and> cr_identity c = actor
      \<and> credential_valid_at c (en_now_actor en))"
  by (auto simp: verify_actor_def credential_verify_def split: sum.splits if_splits)

lemma resolve_body_iff:
  "resolve_body en uid who t = Inr a \<longleftrightarrow>
   (\<exists>d. device_by_uid uid t = Inr d \<and> dev_ownership d \<noteq> '''' \<and> verify_actor en who t = Inr ()
      \<and> (if owned_by d who
         then a = no_authorization\<lparr>a_binding := device_binding d, a_permissions := all_permissions\<rparr>
         else \<exists>s. share_of (dev_ownership d) (p_membership who) t = Inr s \<and> en_now_share en < sh_expires s
            \<and> a = \<lparr>a_binding = device_binding d, a_share_id = sh_id s, a_permissions = sh_permissions s,
                   a_expires = sh_expires s\<rparr>))"
proof (cases "device_by_uid uid t")
  case (Inr d)
  show ?thesis
  proof (cases "dev_ownership d = '''' \<or> verify_actor en who t \<noteq> Inr ()")
    case True
    then show ?thesis using Inr by (cases "verify_actor en who t") (auto simp: resolve_body_def)
  next
    case False
    then have v: "verify_actor en who t = Inr ()" "dev_ownership d \<noteq> ''''" by auto
    show ?thesis
      using Inr v by (cases "share_of (dev_ownership d) (p_membership who) t"; cases "owned_by d who")
        (simp_all add: resolve_body_def eq_commute [of _ a])
  qed
qed (simp add: resolve_body_def)

lemma verify_check_iff:
  "verify_check en who a op t = Inr () \<longleftrightarrow>
   resolve_body en (b_device_uid (a_binding a)) who t = Inr a \<and> allows (a_permissions a) op"
  by (auto simp: verify_check_def split: sum.splits if_splits)

lemma share_of_iff:
  assumes "shares_ok t"
  shows "share_of own mem t = Inr s \<longleftrightarrow> s \<in> set (tb_shares t) \<and> sh_ownership s = own \<and> sh_membership s = mem"
proof -
  have k: "(\<lambda>s. sh_ownership s = own \<and> sh_membership s = mem) = (\<lambda>s. (sh_ownership s, sh_membership s) = (own, mem))"
    by auto
  have "find (\<lambda>s. (sh_ownership s, sh_membership s) = (own, mem)) (tb_shares t) = Some s
     \<longleftrightarrow> s \<in> set (tb_shares t) \<and> (sh_ownership s, sh_membership s) = (own, mem)"
    using assms by (intro find_keyed) (simp add: shares_ok_def)
  then have "find (\<lambda>s. sh_ownership s = own \<and> sh_membership s = mem) (tb_shares t) = Some s
     \<longleftrightarrow> s \<in> set (tb_shares t) \<and> sh_ownership s = own \<and> sh_membership s = mem"
    unfolding k by simp
  then show ?thesis by (auto simp: share_of_def split: option.splits)
qed

lemma all_permissions_allow: "allows all_permissions op \<longleftrightarrow> op \<in> set op_names"
  unfolding all_permissions_value
  by (auto simp: allows_def op_names_def operations_def)

text \<open>C27. \<open>Verify\<close>, the check before every invocation on an owned device, succeeds exactly when the
  caller's credential row is live and carries exactly the caller's identity (membership version
  included), the device still has the ownership of the authorization, and the authorization is still what
  the tables say: the full set for the owner, or for another member the one unexpired share row
  of that ownership and membership, unchanged in id, permissions and expiry, which allows the operation.\<close>

theorem verify_exact:
  assumes "db_ok t"
  shows "verify_check en who a op t = Inr () \<longleftrightarrow>
    (\<exists>c. credential_by_id t (p_credential who) = Inr c \<and> \<not> en_over en \<and> cr_identity c = who
       \<and> credential_valid_at c (en_now_actor en))
    \<and> (\<exists>d. device_by_uid (b_device_uid (a_binding a)) t = Inr d \<and> dev_ownership d \<noteq> ''''
       \<and> a_binding a = device_binding d
       \<and> (if owned_by d who
          then a = no_authorization\<lparr>a_binding := device_binding d, a_permissions := all_permissions\<rparr>
               \<and> op \<in> set op_names
          else \<exists>s \<in> set (tb_shares t). sh_ownership s = dev_ownership d
               \<and> sh_membership s = p_membership who \<and> en_now_share en < sh_expires s
               \<and> a_share_id a = sh_id s \<and> a_permissions a = sh_permissions s
               \<and> a_expires a = sh_expires s \<and> allows (sh_permissions s) op))"
proof -
  have s: "shares_ok t" using assms by (simp add: db_ok_def)
  show ?thesis
  proof (cases "device_by_uid (b_device_uid (a_binding a)) t")
    case (Inr d)
    then show ?thesis
      unfolding verify_check_iff resolve_body_iff verify_actor_iff share_of_iff [OF s]
      by (cases a, cases "owned_by d who", simp_all add: all_permissions_allow no_authorization_def)
        (auto simp: Bex_def all_permissions_allow)
  qed (simp add: verify_check_iff resolve_body_iff)
qed

section \<open>Frames of the mutations\<close>

definition same_outside :: "string \<Rightarrow> string \<Rightarrow> db \<Rightarrow> db \<Rightarrow> bool" where
  "same_outside uid own t t' \<longleftrightarrow>
     tb_devices t' = tb_devices t \<and> tb_grants t' = tb_grants t \<and> tb_tenants t' = tb_tenants t
     \<and> tb_principals t' = tb_principals t \<and> tb_members t' = tb_members t
     \<and> tb_credentials t' = tb_credentials t \<and> db_authority t' = db_authority t
     \<and> filter (\<lambda>w. ow_device_uid w \<noteq> uid) (tb_ownership t') = filter (\<lambda>w. ow_device_uid w \<noteq> uid) (tb_ownership t)
     \<and> filter (\<lambda>s. sh_ownership s \<noteq> own) (tb_shares t') = filter (\<lambda>s. sh_ownership s \<noteq> own) (tb_shares t)"

lemma load_device_row:
  "load_device did t = Inr d \<Longrightarrow> \<exists>r \<in> set (tb_devices t). d_id r = did \<and> d = device_view t r"
  by (auto simp: load_device_def split: option.splits dest: find_row)

lemma device_view_uid [simp]: "dev_uid (device_view t r) = d_uid r"
  by (simp add: device_view_def Let_def)

lemma load_by_uid:
  assumes "devices_ok t" "load_device did t = Inr d" shows "device_by_uid (dev_uid d) t = Inr d"
proof -
  obtain r where r: "r \<in> set (tb_devices t)" "d = device_view t r"
    using load_device_row [OF assms(2)] by blast
  then have "find (\<lambda>x. d_uid x = d_uid r) (tb_devices t) = Some r"
    using assms(1) find_keyed [of d_uid "tb_devices t" "d_uid r" r] by (simp add: devices_ok_def)
  then show ?thesis by (simp add: device_by_uid_def r(2))
qed

lemma device_ownership_row:
  assumes "ownership_ok t" "load_device did t = Inr d" "w \<in> set (tb_ownership t)" "ow_device_uid w = dev_uid d"
  shows "dev_ownership d = ow_id w"
proof -
  obtain r where d: "d = device_view t r" using load_device_row [OF assms(2)] by blast
  have "find (\<lambda>x. ow_device_uid x = d_uid r) (tb_ownership t) = Some w"
    using assms d find_keyed [of ow_device_uid "tb_ownership t" "d_uid r" w] by (simp add: ownership_ok_def)
  then show ?thesis by (simp add: d device_view_def Let_def)
qed

lemma same_load:
  "tb_devices t' = tb_devices t \<Longrightarrow> tb_grants t' = tb_grants t \<Longrightarrow> tb_ownership t' = tb_ownership t \<Longrightarrow>
   load_device did t' = load_device did t"
  by (simp add: load_device_def device_view_def split: option.split)

lemma set_owner_parts:
  assumes "set_owner en uid n p t = Inr t'"
  obtains i t1 where "en_fresh en = Some i" "t1 = drop_ownerships (\<lambda>x. ow_device_uid x = uid) t"
    "i \<notin> ow_id ` set (tb_ownership t1)"
    "t' = t1\<lparr>tb_ownership := tb_ownership t1 @ [\<lparr>ow_id = i, ow_device_uid = uid, ow_tenant = n, ow_principal = p\<rparr>]\<rparr>"
  using assms
  by (auto simp: set_owner_def replace_ownership_def Let_def row_ex split: option.splits if_splits)

lemma set_owner_frame:
  assumes "db_ok t" "load_device did t = Inr d" "set_owner en (dev_uid d) n p t = Inr t'"
  shows "same_outside (dev_uid d) (dev_ownership d) t t'"
  using assms(3)
proof (rule set_owner_parts)
  fix i t1
  assume t1: "t1 = drop_ownerships (\<lambda>x. ow_device_uid x = dev_uid d) t"
    and t': "t' = t1\<lparr>tb_ownership := tb_ownership t1 @ [\<lparr>ow_id = i, ow_device_uid = dev_uid d, ow_tenant = n, ow_principal = p\<rparr>]\<rparr>"
  have g: "ow_id w = dev_ownership d" if "w \<in> set (tb_ownership t)" "ow_device_uid w = dev_uid d" for w
    using device_ownership_row [OF _ assms(2) that] assms(1) by (simp add: db_ok_def)
  have "filter (\<lambda>s. sh_ownership s \<noteq> dev_ownership d) (tb_shares t1)
      = filter (\<lambda>s. sh_ownership s \<noteq> dev_ownership d) (tb_shares t)"
    unfolding t1 drop_ownerships_def Let_def
    by (simp, rule filter_cong) (auto dest: g)
  then show ?thesis
    by (simp add: same_outside_def t' t1) (simp add: drop_ownerships_def Let_def)
qed

lemma delete_member_share_frame: "same_outside uid own t (delete_member_share own m t)"
  by (simp add: same_outside_def delete_member_share_def) (rule filter_cong; auto)

lemma delete_expired_shares_frame: "same_outside uid own t (delete_expired_shares own n t)"
  by (simp add: same_outside_def delete_expired_shares_def) (rule filter_cong; auto)

lemma insert_share_frame: "insert_share s t = Inr t' \<Longrightarrow> same_outside uid (sh_ownership s) t t'"
  by (auto simp: same_outside_def insert_share_def split: if_splits)

lemma delete_share_frame: "delete_share own i t = Inr t' \<Longrightarrow> same_outside uid own t t'"
  by (auto simp: same_outside_def delete_share_def Let_def split: if_splits intro: filter_cong)

lemma same_outside_refl: "same_outside uid own t t"
  by (simp add: same_outside_def)

lemma same_outside_trans: "same_outside uid own t u \<Longrightarrow> same_outside uid own u v \<Longrightarrow> same_outside uid own t v"
  by (simp add: same_outside_def)

lemma replace_share_frame:
  assumes "replace_share en d rq t = Inr t'" shows "same_outside uid (dev_ownership d) t t'"
  using assms
  by (rule replace_share_parts)
     (metis insert_share_frame delete_member_share_frame delete_expired_shares_frame
        same_outside_trans share_record.select_convs(2))

lemma apply_action_frame:
  assumes "db_ok t" "load_device did t = Inr d" "apply_action en actor d rq t = Inr t'"
  shows "same_outside (dev_uid d) (dev_ownership d) t t'"
  using assms
  by (auto simp: apply_action_def split: sum.splits if_splits
      intro: same_outside_refl replace_share_frame delete_share_frame dest: set_owner_frame)

lemma replace_share_keeps_ownership: "replace_share en d rq t = Inr t' \<Longrightarrow> tb_ownership t' = tb_ownership t"
  by (erule replace_share_parts)
     (auto simp: insert_share_def delete_expired_shares_def delete_member_share_def split: if_splits)

section \<open>Properties of \<open>Manage\<close>\<close>

text \<open>A database with two members of one tenant and an owned device, for the concrete runs below.\<close>

definition demo_db :: db where
  "demo_db = \<lparr>tb_devices = [\<lparr>d_uid = ''u'', d_id = ''1'', d_secret_hash = ''s'', d_inbound = True, d_last_seen = 0\<rparr>],
     tb_grants = [], tb_ownership = [\<lparr>ow_id = ''o'', ow_device_uid = ''u'', ow_tenant = ''t'', ow_principal = ''a''\<rparr>],
     tb_shares = [], tb_tenants = [\<lparr>t_id = ''t'', t_name = ''team'', t_kind = ''organization''\<rparr>],
     tb_principals = [\<lparr>pr_id = ''a'', pr_name = ''Ann'', pr_kind = ''user''\<rparr>, \<lparr>pr_id = ''b'', pr_name = ''Bob'', pr_kind = ''user''\<rparr>],
     tb_members = [\<lparr>mr_id = ''ma'', mr_tenant = ''t'', mr_principal = ''a'', mr_role = ''owner'', mr_active = True, mr_version = 1\<rparr>,
       \<lparr>mr_id = ''mb'', mr_tenant = ''t'', mr_principal = ''b'', mr_role = ''member'', mr_active = True, mr_version = 1\<rparr>],
     tb_credentials = [\<lparr>c_id = ''ca'', c_token_hash = ''ha'', c_membership = ''ma'', c_expires = 1000, c_revoked = False\<rparr>,
       \<lparr>c_id = ''cb'', c_token_hash = ''hb'', c_membership = ''mb'', c_expires = 1000, c_revoked = False\<rparr>],
     db_authority = ''z''\<rparr>"

definition ann :: principal where
  "ann = \<lparr>p_authority = ''z'', p_principal = ''a'', p_tenant = ''t'', p_membership = ''ma'',
     p_version = 1, p_credential = ''ca'', p_expires = 1000\<rparr>"

definition bob :: principal where
  "bob = \<lparr>p_authority = ''z'', p_principal = ''b'', p_tenant = ''t'', p_membership = ''mb'',
     p_version = 1, p_credential = ''cb'', p_expires = 1000\<rparr>"

definition demo_env :: "string \<Rightarrow> access_env" where
  "demo_env i = \<lparr>en_over = False, en_now_actor = 10, en_now_share = 10, en_fresh = Some i\<rparr>"

definition demo_device :: device where
  "demo_device = \<lparr>dev_uid = ''u'', dev_secret_hash = ''s'', dev_inbound = True, dev_grant_id = '''',
     dev_grant_hash = '''', dev_ownership = ''o'', dev_owner_tenant = ''t'', dev_owner_principal = ''a''\<rparr>"

definition share_request :: access_request where
  "share_request = \<lparr>rq_action = ''share'', rq_membership = ''mb'', rq_share = '''',
     rq_operations = [OpRead, OpExec], rq_ttl_seconds = 60\<rparr>"

definition transfer_request :: access_request where
  "transfer_request = \<lparr>rq_action = ''transfer'', rq_membership = ''mb'', rq_share = '''',
     rq_operations = [], rq_ttl_seconds = 0\<rparr>"

definition shared_db :: db where
  "shared_db = demo_db\<lparr>tb_shares := [\<lparr>sh_id = ''s1'', sh_ownership = ''o'', sh_membership = ''mb'',
     sh_permissions = 10, sh_expires = 70\<rparr>]\<rparr>"

lemma demo_db_ok: "db_ok demo_db"
  by (simp add: db_ok_def db_ok_defs count_shares_def demo_db_def)

lemma demo_load: "load_device ''1'' demo_db = Inr demo_device"
  by (simp add: load_device_def demo_db_def device_view_def demo_device_def)

lemma demo_actor: "verify_actor (demo_env i) ann demo_db = Inr ()" "verify_actor (demo_env i) bob demo_db = Inr ()"
  by (simp_all add: verify_actor_iff credential_by_id_def find_credential_def demo_db_def ann_def bob_def
      demo_env_def credential_view_def credential_valid_at_def)

lemma demo_owned: "owned_by demo_device ann" "\<not> owned_by demo_device bob"
  by (simp_all add: owned_by_def demo_device_def ann_def bob_def)

lemma demo_apply_share: "apply_action (demo_env ''s1'') ann demo_device share_request demo_db = Inr shared_db"
  by (simp add: apply_action_def share_request_def replace_share_def active_member_def member_by_id_def
      demo_db_def demo_env_def parse_permissions_def operations_def demo_device_def shared_db_def
      delete_member_share_def delete_expired_shares_def count_shares_def insert_share_def Let_def)

lemma shared_load: "load_device ''1'' shared_db = Inr demo_device"
  unfolding demo_load [symmetric] by (rule same_load) (simp_all add: shared_db_def)

lemma demo_share_body:
  "manage_body (demo_env ''s1'') ''1'' demo_device ann share_request demo_db
     = Inr (shared_db, \<lparr>mu_device = demo_device, mu_state = state_view demo_device shared_db\<rparr>)"
  using demo_owned(1)
  by (simp add: manage_body_def demo_actor demo_load demo_apply_share shared_load)
     (simp add: demo_device_def)

text \<open>A mutation happens only for the right caller on the right device: when \<open>Manage\<close> succeeds, then
  in the tables its committed run saw, the credential row is live and is exactly the caller's
  identity, the device has the uid, secret and ownership of the connection's snapshot, and
  the caller owns it, or the device has no owner and the action is a claim or a status.\<close>

theorem manage_requires_owner:
  assumes "manage as en did expected actor rq t = (t', Inr mu)"
  shows "\<exists>seen c d. seen_by_run as t = Some seen \<and> validate_request rq = Inr ()
     \<and> credential_by_id seen (p_credential actor) = Inr c \<and> cr_identity c = actor
     \<and> credential_valid_at c (en_now_actor en)
     \<and> load_device did seen = Inr d \<and> dev_uid d = dev_uid expected
     \<and> dev_secret_hash d = dev_secret_hash expected \<and> dev_ownership d = dev_ownership expected
     \<and> (owned_by d actor \<or> dev_ownership d = '''' \<and> rq_action rq \<in> {''claim'', ''status''})"
proof -
  obtain seen where v: "validate_request rq = Inr ()" and s: "seen_by_run as t = Some seen"
    and b: "manage_body en did expected actor rq seen = Inr (t', mu)"
    using assms store_transaction_success [of as _ t t' mu]
    by (auto simp: manage_def split: sum.splits)
  from b show ?thesis
    by (rule manage_body_parts) (use v s in \<open>auto simp: verify_actor_iff\<close>)
qed

lemma demo_share_valid: "validate_request share_request = Inr ()"
  by (simp add: validate_request_def share_request_def parse_permissions_def operations_def)

lemma demo_manage:
  "manage [Runs False Committed] (demo_env ''s1'') ''1'' demo_device ann share_request demo_db
     = (shared_db, Inr \<lparr>mu_device = demo_device, mu_state = state_view demo_device shared_db\<rparr>)"
  by (simp add: manage_def demo_share_valid demo_share_body)

theorem manage_requires_owner_witness:
  "\<exists>d. load_device ''1'' demo_db = Inr d \<and> dev_uid d = ''u'' \<and> (owned_by d ann \<or> dev_ownership d = '''')"
  using manage_requires_owner [OF demo_manage] by (auto simp: demo_device_def)

text \<open>\<open>Manage\<close> keeps the integrity of the tables, the bound of 128 shares per ownership included, and touches
  one device only: every other device's row, ownership and shares, and all accounts, stay as they were.\<close>

theorem manage_keeps_integrity:
  assumes "db_ok t" "manage_body en did expected actor rq t = Inr (t', mu)"
  shows "db_ok t' \<and> same_outside (dev_uid expected) (dev_ownership expected) t t'"
  using assms(2)
proof (rule manage_body_parts)
  fix d
  assume "load_device did t = Inr d" "dev_uid d = dev_uid expected"
    "dev_ownership d = dev_ownership expected" "apply_action en actor d rq t = Inr t'"
  then show ?thesis
    using assms(1) apply_action_ok apply_action_frame [OF assms(1), of did d en actor rq t'] by simp
qed

theorem manage_keeps_integrity_witness: "db_ok shared_db \<and> tb_ownership shared_db = tb_ownership demo_db"
  using manage_keeps_integrity [OF demo_db_ok demo_share_body] by (simp add: shared_db_def)

lemma manage_loads:
  assumes "db_ok t" "manage_body en did expected actor rq t = Inr (t', mu)"
  shows "device_by_uid (dev_uid (mu_device mu)) t' = Inr (mu_device mu)"
  using load_by_uid manage_body_ok [OF assms] assms(2)
  by (metis db_ok_def manage_body_parts)

lemma share_only_owned:
  assumes "db_ok t" "manage_body en did expected actor rq t = Inr (t', mu)" "rq_action rq = ''share''"
  obtains d where "load_device did t = Inr d" "mu_device mu = d" "dev_ownership d \<noteq> ''''"
    "dev_uid d = dev_uid expected" "replace_share en d rq t = Inr t'"
  using assms(2)
proof (rule manage_body_parts)
  fix d
  assume d: "load_device did t = Inr d" "dev_uid d = dev_uid expected"
    "dev_ownership d = '''' \<longrightarrow> rq_action rq = ''claim'' \<or> rq_action rq = ''status''"
    "apply_action en actor d rq t = Inr t'" "load_device did t' = Inr (mu_device mu)"
  have r: "replace_share en d rq t = Inr t'" using d(4) assms(3) by (simp add: apply_action_def)
  have "tb_devices t' = tb_devices t" "tb_grants t' = tb_grants t" "tb_ownership t' = tb_ownership t"
    using replace_share_frame [OF r] replace_share_keeps_ownership [OF r] by (simp_all add: same_outside_def)
  then have "load_device did t' = Inr d" using d(1) same_load by metis
  then show thesis using that [OF d(1) _ _ d(2) r] d(3,5) assms(3) by simp
qed

text \<open>A share means what the request said, until it expires: after a successful share, whoever proves
  the membership it names (with a live credential, and is not the owner) is resolved to exactly one
  authorization, for the requested operations and no others, bound to the current ownership, with
  the expiry \<open>now + ttl\<close>; from that second on the resolution is denied.\<close>

theorem share_grants_exactly:
  assumes "db_ok t" "manage_body en did expected actor rq t = Inr (t', mu)"
    and "rq_action rq = ''share''" "verify_actor en' who t' = Inr ()"
    and "p_membership who = rq_membership rq" "\<not> owned_by (mu_device mu) who"
  shows "case resolve_body en' (dev_uid expected) who t' of
      Inr a \<Rightarrow> en_now_share en' < en_now_share en + rq_ttl_seconds rq
        \<and> a_binding a = device_binding (mu_device mu) \<and> en_fresh en = Some (a_share_id a)
        \<and> a_expires a = en_now_share en + rq_ttl_seconds rq
        \<and> (\<forall>op. allows (a_permissions a) op \<longleftrightarrow> op \<in> set (rq_operations rq))
    | Inl e \<Rightarrow> e = AccessDenied \<and> en_now_share en + rq_ttl_seconds rq \<le> en_now_share en'"
  using assms(1-3)
proof (rule share_only_owned)
  fix d
  assume d: "load_device did t = Inr d" "mu_device mu = d" "dev_ownership d \<noteq> ''''"
    "dev_uid d = dev_uid expected" and r: "replace_share en d rq t = Inr t'"
  have ok': "shares_ok t'" using manage_body_ok [OF assms(1,2)] by (simp add: db_ok_def)
  from r obtain perms i t1 where p: "parse_permissions (rq_operations rq) = Inr perms"
    and i: "en_fresh en = Some i"
    and ins: "insert_share \<lparr>sh_id = i, sh_ownership = dev_ownership d, sh_membership = rq_membership rq,
       sh_permissions = perms, sh_expires = en_now_share en + rq_ttl_seconds rq\<rparr> t1 = Inr t'"
    by (rule replace_share_parts)
  let ?s = "\<lparr>sh_id = i, sh_ownership = dev_ownership d, sh_membership = rq_membership rq,
       sh_permissions = perms, sh_expires = en_now_share en + rq_ttl_seconds rq\<rparr>"
  have "?s \<in> set (tb_shares t')" using ins by (auto simp: insert_share_def split: if_splits)
  then have s: "share_of (dev_ownership d) (p_membership who) t' = Inr ?s"
    using share_of_iff [OF ok', of "dev_ownership d" "p_membership who" ?s] assms(5) by simp
  have "device_by_uid (dev_uid expected) t' = Inr d"
    using manage_loads [OF assms(1,2)] d by simp
  then show ?thesis using assms(4,6) d(2,3) s i
    by (simp add: resolve_body_def parsed_allows [OF p])
qed

lemma same_actor:
  "tb_members t' = tb_members t \<Longrightarrow> tb_credentials t' = tb_credentials t \<Longrightarrow> db_authority t' = db_authority t \<Longrightarrow>
   verify_actor en who t' = verify_actor en who t"
  by (simp add: verify_actor_def credential_by_id_def find_credential_def credential_view_def
      split: option.split)

lemma shared_actor: "verify_actor (demo_env i) ann shared_db = Inr ()" "verify_actor (demo_env i) bob shared_db = Inr ()"
  using demo_actor [of i] same_actor [of shared_db demo_db] by (simp_all add: shared_db_def)

theorem share_grants_exactly_witness:
  "case resolve_body (demo_env ''x'') ''u'' bob shared_db of
      Inr a \<Rightarrow> allows (a_permissions a) OpRead \<and> \<not> allows (a_permissions a) OpWrite
    | Inl e \<Rightarrow> False"
proof -
  have r: "rq_action share_request = ''share''" "p_membership bob = rq_membership share_request"
    "\<not> owned_by (mu_device \<lparr>mu_device = demo_device, mu_state = state_view demo_device shared_db\<rparr>) bob"
    using demo_owned(2) by (simp_all add: share_request_def bob_def)
  have f: "dev_uid demo_device = ''u''" "rq_operations share_request = [OpRead, OpExec]"
    "\<not> en_now_share (demo_env ''s1'') + rq_ttl_seconds share_request \<le> en_now_share (demo_env ''x'')"
    by (simp_all add: share_request_def demo_device_def demo_env_def)
  show ?thesis
    using share_grants_exactly [OF demo_db_ok demo_share_body r(1) shared_actor(2) r(2,3), of "''x''"]
    by (cases "resolve_body (demo_env ''x'') ''u'' bob shared_db") (simp_all only: f sum.case, auto)
qed

lemma device_has_row:
  assumes "load_device did t = Inr d" "dev_ownership d \<noteq> ''''"
  obtains w where "w \<in> set (tb_ownership t)" "ow_device_uid w = dev_uid d" "ow_id w = dev_ownership d"
proof -
  obtain r where d: "d = device_view t r" using load_device_row [OF assms(1)] by blast
  show thesis
  proof (cases "find (\<lambda>w. ow_device_uid w = d_uid r) (tb_ownership t)")
    case None
    then show thesis using assms(2) by (simp add: d device_view_def Let_def)
  next
    case (Some w)
    have "dev_ownership d = ow_id w" "dev_uid d = d_uid r" by (simp_all add: d device_view_def Some Let_def)
    then show thesis using find_row [OF Some] by (intro that [of w]) simp_all
  qed
qed

text \<open>Revocation is immediate: after a transfer (or claim) that changed the ownership, no caller passes
  \<open>Verify\<close> with an authorization bound to the earlier ownership of the device, and no share is left
  under either ownership.\<close>

theorem ownership_change_revokes:
  assumes "db_ok t" "manage_body en did expected actor rq t = Inr (t', mu)"
    and "dev_ownership (mu_device mu) \<noteq> dev_ownership expected"
    and "b_device_uid (a_binding a) = dev_uid expected" "b_ownership (a_binding a) = dev_ownership expected"
    and "dev_ownership expected \<noteq> ''''"
  shows "verify_check en' who a op t' \<noteq> Inr ()
    \<and> count_shares (dev_ownership expected) t' = 0 \<and> count_shares (dev_ownership (mu_device mu)) t' = 0"
proof -
  from assms(2) obtain d where d: "load_device did t = Inr d" "dev_uid d = dev_uid expected"
    "dev_ownership d = dev_ownership expected" "apply_action en actor d rq t = Inr t'"
    and l: "load_device did t' = Inr (mu_device mu)" by (rule manage_body_parts)
  have uid: "dev_uid (mu_device mu) = dev_uid expected"
  proof -
    have "tb_devices t' = tb_devices t"
      using apply_action_frame [OF assms(1) d(1,4)] by (simp add: same_outside_def)
    then show ?thesis using d(1,2) l
      by (auto simp: load_device_def split: option.splits) (metis device_view_uid)
  qed
  have n: "verify_check en' who a op t' \<noteq> Inr ()"
    using manage_loads [OF assms(1,2)] uid assms(3-5)
    by (auto simp: verify_check_iff resolve_body_iff split: if_splits)
  have "\<exists>n p. set_owner en (dev_uid d) n p t = Inr t'"
  proof (rule ccontr)
    assume "\<nexists>n p. set_owner en (dev_uid d) n p t = Inr t'"
    then have "tb_ownership t' = tb_ownership t"
      using d(4) replace_share_keeps_ownership
      by (auto simp: apply_action_def delete_share_def Let_def split: sum.splits if_splits)
    moreover have "tb_devices t' = tb_devices t" "tb_grants t' = tb_grants t"
      using apply_action_frame [OF assms(1) d(1,4)] by (simp_all add: same_outside_def)
    ultimately have "load_device did t' = load_device did t" by (intro same_load)
    then show False using d l assms(3) by simp
  qed
  then obtain n p where "set_owner en (dev_uid d) n p t = Inr t'" by blast
  then obtain i t1 where t1: "t1 = drop_ownerships (\<lambda>x. ow_device_uid x = dev_uid d) t"
    and i: "i \<notin> ow_id ` set (tb_ownership t1)"
    and t': "t' = t1\<lparr>tb_ownership := tb_ownership t1 @ [\<lparr>ow_id = i, ow_device_uid = dev_uid d, ow_tenant = n, ow_principal = p\<rparr>]\<rparr>"
    by (rule set_owner_parts)
  have ok1: "db_ok t1" unfolding t1 by (rule drop_ownerships_ok [OF assms(1)])
  let ?w = "\<lparr>ow_id = i, ow_device_uid = dev_uid d, ow_tenant = n, ow_principal = p\<rparr>"
  have "ownership_ok t'" using manage_body_ok [OF assms(1,2)] by (simp add: db_ok_def)
  then have own': "dev_ownership (mu_device mu) = i"
    using device_ownership_row [OF _ l, of ?w] t' uid d(2) by simp
  have shares: "\<forall>s \<in> set (tb_shares t'). sh_ownership s \<in> ow_id ` set (tb_ownership t1)"
    using ok1 by (simp add: t' db_ok_def shares_ok_def)
  obtain w where w: "w \<in> set (tb_ownership t)" "ow_device_uid w = dev_uid d" "ow_id w = dev_ownership d"
    using device_has_row [OF d(1)] assms(6) d(3) by metis
  have "dev_ownership d \<notin> ow_id ` set (tb_ownership t1)"
  proof
    assume "dev_ownership d \<in> ow_id ` set (tb_ownership t1)"
    then obtain v where v: "v \<in> set (tb_ownership t)" "ow_device_uid v \<noteq> dev_uid d" "ow_id v = ow_id w"
      using w(3) by (auto simp: t1 drop_ownerships_def Let_def)
    have "distinct (map ow_id (tb_ownership t))" using assms(1) by (simp add: db_ok_def ownership_ok_def)
    then have "v = w" using v w by (simp add: distinct_map inj_on_def)
    then show False using v w by simp
  qed
  then have "\<forall>s \<in> set (tb_shares t'). sh_ownership s \<noteq> dev_ownership d \<and> sh_ownership s \<noteq> i"
    using shares i by metis
  then have "count_shares (dev_ownership d) t' = 0" "count_shares i t' = 0"
    by (simp_all add: count_shares_def filter_empty_conv)
  then show ?thesis using n own' d(3) by simp
qed

definition transferred_db :: db where
  "transferred_db = demo_db\<lparr>tb_ownership := [\<lparr>ow_id = ''o2'', ow_device_uid = ''u'', ow_tenant = ''t'', ow_principal = ''b''\<rparr>]\<rparr>"

lemma demo_transfer_body:
  "manage_body (demo_env ''o2'') ''1'' demo_device ann transfer_request shared_db
     = Inr (transferred_db, \<lparr>mu_device = demo_device\<lparr>dev_ownership := ''o2'', dev_owner_principal := ''b''\<rparr>,
         mu_state = state_view (demo_device\<lparr>dev_ownership := ''o2'', dev_owner_principal := ''b''\<rparr>) transferred_db\<rparr>)"
proof -
  have a: "apply_action (demo_env ''o2'') ann demo_device transfer_request shared_db = Inr transferred_db"
    by (simp add: apply_action_def transfer_request_def active_member_def member_by_id_def shared_db_def
        demo_db_def demo_device_def set_owner_def demo_env_def replace_ownership_def drop_ownerships_def
        Let_def transferred_db_def)

  have l: "load_device ''1'' transferred_db = Inr (demo_device\<lparr>dev_ownership := ''o2'', dev_owner_principal := ''b''\<rparr>)"
    by (simp add: load_device_def transferred_db_def demo_db_def device_view_def demo_device_def)
  show ?thesis using demo_owned(1)
    by (simp add: manage_body_def shared_actor(1) shared_load a l) (simp add: demo_device_def)
qed

lemma shared_db_ok: "db_ok shared_db"
  by (rule manage_body_ok [OF demo_db_ok demo_share_body])

theorem ownership_change_revokes_witness:
  "verify_check (demo_env ''x'') bob \<lparr>a_binding = device_binding demo_device, a_share_id = ''s1'',
     a_permissions = 10, a_expires = 70\<rparr> OpRead transferred_db \<noteq> Inr ()"
  using ownership_change_revokes [OF shared_db_ok demo_transfer_body,
      of "\<lparr>a_binding = device_binding demo_device, a_share_id = ''s1'', a_permissions = 10, a_expires = 70\<rparr>"
         "demo_env ''x''" bob OpRead]
  by (simp add: demo_device_def device_binding_def)

theorem verify_exact_witness:
  "verify_check (demo_env ''x'') bob \<lparr>a_binding = device_binding demo_device, a_share_id = ''s1'',
     a_permissions = 10, a_expires = 70\<rparr> OpRead shared_db = Inr ()"
proof -
  have d: "device_by_uid ''u'' shared_db = Inr demo_device"
    using load_by_uid [OF _ shared_load] shared_db_ok by (simp add: db_ok_def demo_device_def)
  have f: "dev_uid demo_device = ''u''" "dev_ownership demo_device = ''o''" "p_membership bob = ''mb''"
    "en_now_share (demo_env ''x'') = 10" "tb_shares shared_db = [\<lparr>sh_id = ''s1'', sh_ownership = ''o'',
      sh_membership = ''mb'', sh_permissions = 10, sh_expires = 70\<rparr>]"
    by (simp_all add: demo_device_def bob_def demo_env_def shared_db_def)
  show ?thesis
    unfolding verify_exact [OF shared_db_ok] verify_actor_iff [symmetric]
    using d demo_owned(2) shared_actor(2) f
    by (intro conjI exI [of _ demo_device]) (simp_all add: allows_def operations_def)
qed

text \<open>After a successful unshare nobody passes \<open>Verify\<close> with an authorization of the removed share.\<close>

theorem unshare_revokes:
  assumes "db_ok t" "manage_body en did expected actor rq t = Inr (t', mu)"
    and "rq_action rq = ''unshare''" "rq_share rq \<noteq> ''''" "a_share_id a = rq_share rq"
  shows "verify_check en' who a op t' \<noteq> Inr ()"
proof -
  obtain d where "apply_action en actor d rq t = Inr t'" using assms(2) by (rule manage_body_parts)
  then have r: "delete_share (dev_ownership d) (rq_share rq) t = Inr t'"
    using assms(3) by (simp add: apply_action_def)
  let ?hit = "\<lambda>s. sh_id s = rq_share rq \<and> sh_ownership s = dev_ownership d"
  have f: "length (filter ?hit (tb_shares t)) = 1"
    and t': "tb_shares t' = filter (\<lambda>s. \<not> ?hit s) (tb_shares t)"
    using r by (auto simp: delete_share_def Let_def split: if_splits)
  from f obtain s where s: "s \<in> set (tb_shares t)" "?hit s"
    by (metis (mono_tags, lifting) One_nat_def filter_empty_conv list.size(3) zero_neq_one)
  have "distinct (map sh_id (tb_shares t))" using assms(1) by (simp add: db_ok_def shares_ok_def)
  then have "x = s" if "x \<in> set (tb_shares t)" "sh_id x = rq_share rq" for x
    using that s by (simp add: distinct_map inj_on_def)
  then have gone: "\<forall>x \<in> set (tb_shares t'). sh_id x \<noteq> a_share_id a"
    using s(2) assms(5) by (auto simp: t')
  show ?thesis
    using gone assms(4,5) manage_body_ok [OF assms(1,2)]
    by (auto simp: verify_exact no_authorization_def split: if_splits)
qed

definition unshare_request :: access_request where
  "unshare_request = \<lparr>rq_action = ''unshare'', rq_membership = '''', rq_share = ''s1'',
     rq_operations = [], rq_ttl_seconds = 0\<rparr>"

lemma demo_unshare_body:
  "manage_body (demo_env ''x'') ''1'' demo_device ann unshare_request shared_db
     = Inr (demo_db, \<lparr>mu_device = demo_device, mu_state = state_view demo_device demo_db\<rparr>)"
proof -
  have "apply_action (demo_env ''x'') ann demo_device unshare_request shared_db = Inr demo_db"
    by (simp add: apply_action_def unshare_request_def delete_share_def Let_def shared_db_def
        demo_device_def demo_db_def)
  then show ?thesis using demo_owned(1)
    by (simp add: manage_body_def shared_actor(1) shared_load demo_load) (simp add: demo_device_def)
qed

theorem unshare_revokes_witness:
  "verify_check (demo_env ''x'') bob \<lparr>a_binding = device_binding demo_device, a_share_id = ''s1'',
     a_permissions = 10, a_expires = 70\<rparr> OpRead demo_db \<noteq> Inr ()"
  using unshare_revokes [OF shared_db_ok demo_unshare_body,
      of "\<lparr>a_binding = device_binding demo_device, a_share_id = ''s1'', a_permissions = 10, a_expires = 70\<rparr>"]
  by (simp add: unshare_request_def)

end
