(* ===== verification/Hub.thy ===== *)
theory Hub
  imports Admission Outbox AccessService
begin

text \<open>
  The relay's in-memory router, \<open>internal/relay/hub*.go\<close>. \<open>hub\<close> is the struct behind \<open>h.mu\<close>, with the
  outboxes its \<open>Sender\<close> values point to (\<open>hb_conns\<close>; a connection is a number). Every section that holds the mutex
  is one function. What a handler learns outside the mutex is an argument of
  the section that follows: the answers of the store, of the account, access and execution services, fresh
  identifiers, the context error. A \<open>*deviceSlot\<close> or \<open>*inflight\<close> compared by pointer has an identity
  (\<open>ds_ident\<close>, \<open>tk_ident\<close>), drawn from \<open>hb_next\<close> when the code allocates it.
\<close>

section \<open>State\<close>

record device_slot =
  ds_conn :: "nat option"
  ds_record :: device
  ds_online :: bool
  ds_ready :: bool
  ds_ident :: nat

record client_slot =
  cs_target :: string
  cs_access :: binding
  cs_identity :: principal
  cs_authorization :: authorization

record task =
  tk_request :: string
  tk_device :: string
  tk_client :: nat
  tk_out :: int
  tk_trunc :: bool
  tk_binding :: client_slot
  tk_operation :: string
  tk_cancelled :: bool
  tk_lease :: lease
  tk_ident :: nat

record hub =
  hb_devices :: "(string, device_slot) gomap"
  hb_access :: "(string, binding) gomap"
  hb_clients :: "(nat, client_slot) gomap"
  hb_inflight :: "(string, task) gomap"
  hb_requests :: "(nat \<times> string, string) gomap"
  hb_admission :: service
  hb_conns :: "nat \<Rightarrow> outbox"
  hb_next :: nat

text \<open>Which services the hub was given (a nil service is \<open>False\<close>), and the store's authority.\<close>

record hub_config =
  hc_store :: bool
  hc_accounts :: bool
  hc_access :: bool
  hc_execution :: bool
  hc_authority :: string

definition new_hub :: "service \<Rightarrow> hub" where
  "new_hub transport = \<lparr>hb_devices = [], hb_access = [], hb_clients = [], hb_inflight = [],
     hb_requests = [], hb_admission = transport, hb_conns = (\<lambda>_. new_outbox), hb_next = 0\<rparr>"

definition access_of :: "hub \<Rightarrow> string \<Rightarrow> binding" where
  "access_of h uid = (case mget (hb_access h) uid of
     None \<Rightarrow> \<lparr>b_device_uid = '''', b_grant_id = '''', b_ownership = ''''\<rparr> | Some b \<Rightarrow> b)"

section \<open>Sending\<close>

definition send :: "nat \<Rightarrow> message \<Rightarrow> hub \<Rightarrow> hub \<times> enq_result" where
  "send c m h = (let (b, r) = enqueue m (hb_conns h c) in (h\<lparr>hb_conns := (hb_conns h)(c := b)\<rparr>, r))"

definition post :: "nat \<Rightarrow> message \<Rightarrow> hub \<Rightarrow> hub" where
  "post c m h = fst (send c m h)"

definition shut :: "nat \<Rightarrow> hub \<Rightarrow> hub" where
  "shut c h = h\<lparr>hb_conns := (hb_conns h)(c := close_outbox (hb_conns h c))\<rparr>"

definition ctx_err :: "nat \<Rightarrow> hub \<Rightarrow> bool" where
  "ctx_err c h \<longleftrightarrow> ob_cancelled (hb_conns h c)"

section \<open>Routes: \<open>hub_invocation.go\<close>\<close>

definition finish_invocation :: "string \<Rightarrow> hub \<Rightarrow> hub" where
  "finish_invocation rid h =
    (case mget (hb_inflight h) rid of
       None \<Rightarrow> h
     | Some t \<Rightarrow> h\<lparr>hb_requests := mdel (tk_client t, tk_request t) (hb_requests h),
         hb_admission := snd (release (tk_lease t) (hb_admission h)),
         hb_inflight := mdel rid (hb_inflight h)\<rparr>)"

fun fail_loop :: "string \<Rightarrow> string \<Rightarrow> (string \<times> task) list \<Rightarrow> hub \<Rightarrow> hub" where
  "fail_loop did code [] h = h"
| "fail_loop did code ((rid, t) # es) h =
    (if tk_device t = did
     then fail_loop did code es (finish_invocation rid (post (tk_client t) (Err (tk_request t) code) h))
     else fail_loop did code es h)"

definition fail_device :: "string \<Rightarrow> string \<Rightarrow> hub \<Rightarrow> hub" where
  "fail_device did code h = fail_loop did code (hb_inflight h) h"

definition cancel_message :: "string \<Rightarrow> message" where
  "cancel_message rid = message0\<lparr>m_type := TypeInvoke, m_exec_id := rid, m_op := OpCancel\<rparr>"

definition tell_device :: "string \<Rightarrow> message \<Rightarrow> hub \<Rightarrow> hub" where
  "tell_device did m h =
    (case mget (hb_devices h) did of
       None \<Rightarrow> h
     | Some d \<Rightarrow> (case ds_conn d of None \<Rightarrow> h | Some c \<Rightarrow> post c m h))"

fun cancel_loop :: "nat \<Rightarrow> (string \<times> task) list \<Rightarrow> hub \<Rightarrow> hub" where
  "cancel_loop from [] h = h"
| "cancel_loop from ((rid, t) # es) h =
    (if tk_client t \<noteq> from then cancel_loop from es h
     else cancel_loop from es (finish_invocation rid (tell_device (tk_device t) (cancel_message rid) h)))"

definition cancel_client :: "nat \<Rightarrow> hub \<Rightarrow> hub" where
  "cancel_client from h = cancel_loop from (hb_inflight h) h"

definition detach :: "string \<Rightarrow> hub \<Rightarrow> hub" where
  "detach did h =
    (case mget (hb_devices h) did of
       None \<Rightarrow> h
     | Some d \<Rightarrow> h\<lparr>hb_devices := mput did (d\<lparr>ds_online := False, ds_conn := None\<rparr>) (hb_devices h)\<rparr>)"

definition invocation_scope :: "hub_config \<Rightarrow> client_slot \<Rightarrow> scope" where
  "invocation_scope cfg b = \<lparr>s_authority = (if hc_store cfg then hc_authority cfg else ''''),
     s_device_uid = b_device_uid (cs_access b), s_ownership = b_ownership (cs_access b),
     s_grant = b_grant_id (cs_access b), s_principal = p_principal (cs_identity b),
     s_tenant = p_tenant (cs_identity b)\<rparr>"

definition give_back :: "lease \<Rightarrow> hub \<Rightarrow> hub" where
  "give_back l h = h\<lparr>hb_admission := snd (release l (hb_admission h))\<rparr>"

definition routed_message :: "hub_config \<Rightarrow> client_slot \<Rightarrow> string \<Rightarrow> string \<Rightarrow> message \<Rightarrow> message" where
  "routed_message cfg b rid proof m = message0\<lparr>m_type := TypeInvoke, m_exec_id := rid, m_op := m_op m,
     m_payload := m_payload m, m_scope := Some (invocation_scope cfg b), m_delegation := proof\<rparr>"

text \<open>
  The part of \<open>handleInvoke\<close> after a lease was taken. \<open>fresh\<close> is the new route id (\<open>None\<close>: the random
  source failed), \<open>issued\<close> the answer of \<open>executionAuthority.Issue\<close> for this binding.
\<close>

definition invoke_admitted ::
  "hub_config \<Rightarrow> nat \<Rightarrow> string \<Rightarrow> message \<Rightarrow> client_slot \<Rightarrow> nat \<Rightarrow> lease \<Rightarrow> string option
   \<Rightarrow> string option \<Rightarrow> hub \<Rightarrow> hub" where
  "invoke_admitted cfg from target m b dconn l fresh issued h =
    (if ctx_err from h then give_back l h
     else case fresh of
       None \<Rightarrow> give_back l (post from (Nack (m_exec_id m) RelayError) h)
     | Some rid \<Rightarrow>
        if mget (hb_inflight h) rid \<noteq> None
        then give_back l (post from (Nack (m_exec_id m) RelayError) h)
        else if m_op m = OpHandoffSubmit \<and> \<not> hc_execution cfg
        then give_back l (post from (Nack (m_exec_id m) Unauthorized) h)
        else if m_op m = OpHandoffSubmit \<and> issued = None
        then give_back l (post from (Nack (m_exec_id m) RelayError) h)
        else
          (let proof = (if m_op m = OpHandoffSubmit then (case issued of None \<Rightarrow> '''' | Some p \<Rightarrow> p) else '''');
               t = \<lparr>tk_request = m_exec_id m, tk_device = target, tk_client = from, tk_out = 0,
                    tk_trunc = False, tk_binding = b, tk_operation = m_op m, tk_cancelled = False,
                    tk_lease = l, tk_ident = hb_next h\<rparr>;
               h1 = h\<lparr>hb_requests := mput (from, m_exec_id m) rid (hb_requests h),
                      hb_inflight := mput rid t (hb_inflight h), hb_next := Suc (hb_next h)\<rparr>
           in case send dconn (routed_message cfg b rid proof m) h1 of
                (h2, EnqOk) \<Rightarrow> h2
              | (h2, _) \<Rightarrow> detach target (shut dconn (fail_device target DeviceOffline h2))))"

definition invoke_section ::
  "hub_config \<Rightarrow> nat \<Rightarrow> string \<Rightarrow> message \<Rightarrow> string option \<Rightarrow> string option \<Rightarrow> hub \<Rightarrow> hub" where
  "invoke_section cfg from target m fresh issued h =
    (let refuse = (\<lambda>code. post from (Nack (m_exec_id m) code) h) in
     case mget (hb_clients h) from of
       None \<Rightarrow> refuse Unauthorized
     | Some b \<Rightarrow>
        if cs_target b \<noteq> target \<or> \<not> binding_matches (cs_access b) (access_of h target)
        then refuse Unauthorized
        else if m_exec_id m = '''' then refuse AgentError
        else if mget (hb_requests h) (from, m_exec_id m) \<noteq> None then refuse AgentError
        else case mget (hb_devices h) target of
          None \<Rightarrow> refuse DeviceOffline
        | Some d \<Rightarrow> (case ds_conn d of
            None \<Rightarrow> refuse DeviceOffline
          | Some dconn \<Rightarrow>
              if \<not> ds_online d \<or> \<not> ds_ready d \<or> dev_uid (ds_record d) \<noteq> b_device_uid (cs_access b)
              then refuse DeviceOffline
              else if \<not> dev_inbound (ds_record d) then refuse InboundDisabled
              else case acquire (b_device_uid (cs_access b)) (hb_admission h) of
                Inl AdmLimit \<Rightarrow> refuse QuotaExceeded
              | Inl AdmInvalidRequest \<Rightarrow> refuse RelayError
              | Inr (pool, l) \<Rightarrow>
                  invoke_admitted cfg from target m b dconn l fresh issued (h\<lparr>hb_admission := pool\<rparr>)))"

definition handle_cancel :: "nat \<Rightarrow> string \<Rightarrow> hub \<Rightarrow> hub" where
  "handle_cancel from eid h =
    (let rid = (case mget (hb_requests h) (from, eid) of None \<Rightarrow> '''' | Some r \<Rightarrow> r)
     in case mget (hb_inflight h) rid of
          None \<Rightarrow> post from (Err eid UnknownExec) h
        | Some t \<Rightarrow>
            if tk_client t \<noteq> from then post from (Err eid UnknownExec) h
            else tell_device (tk_device t) (cancel_message rid)
                   (h\<lparr>hb_inflight := mput rid (t\<lparr>tk_cancelled := True\<rparr>) (hb_inflight h)\<rparr>))"

section \<open>Errors as wire codes\<close>

fun identity_error_code :: "failure \<Rightarrow> string" where
  "identity_error_code DeviceNotFound = UnknownDevice"
| "identity_error_code DeviceIdentity = Unauthorized"
| "identity_error_code _ = RelayError"

fun principal_error_code :: "failure \<Rightarrow> string" where
  "principal_error_code PrincipalUnauthorized = Unauthorized"
| "principal_error_code _ = RelayError"

fun access_error_code :: "failure \<Rightarrow> string" where
  "access_error_code AccessDenied = Unauthorized"
| "access_error_code PrincipalUnauthorized = Unauthorized"
| "access_error_code DeviceIdentity = Unauthorized"
| "access_error_code AccessInvalid = AgentError"
| "access_error_code AccessLimit = QuotaExceeded"
| "access_error_code DeviceNotFound = UnknownDevice"
| "access_error_code _ = RelayError"

section \<open>Verification before an invocation: \<open>hub_principal.go\<close>\<close>

text \<open>\<open>granted\<close> and \<open>known\<close> are the answers of \<open>accessService.Verify\<close> and \<open>accounts.Verify\<close>.\<close>

definition verify_client_access ::
  "hub_config \<Rightarrow> client_slot option \<Rightarrow> failure + unit \<Rightarrow> failure + unit \<Rightarrow> string" where
  "verify_client_access cfg slot granted known =
    (case slot of
       None \<Rightarrow> Unauthorized
     | Some b \<Rightarrow>
        if b_ownership (cs_access b) \<noteq> '''' then
          (if \<not> hc_access cfg then Unauthorized
           else case granted of Inl e \<Rightarrow> access_error_code e | Inr _ \<Rightarrow> '''')
        else if p_principal (cs_identity b) = '''' then ''''
        else if \<not> hc_accounts cfg then Unauthorized
        else case known of Inl e \<Rightarrow> principal_error_code e | Inr _ \<Rightarrow> '''')"

definition handle_invoke ::
  "hub_config \<Rightarrow> nat \<Rightarrow> string \<Rightarrow> message \<Rightarrow> string \<Rightarrow> string option \<Rightarrow> string option \<Rightarrow> hub \<Rightarrow> hub" where
  "handle_invoke cfg from target m code fresh issued h =
    (if m_op m = OpCancel then handle_cancel from (m_exec_id m) h
     else if code \<noteq> '''' then post from (Nack (m_exec_id m) code) h
     else invoke_section cfg from target m fresh issued h)"

section \<open>Device output: \<open>forwardToClient\<close>, \<open>noteDroppedOutput\<close>\<close>

definition set_task :: "string \<Rightarrow> task \<Rightarrow> hub \<Rightarrow> hub" where
  "set_task rid t h = h\<lparr>hb_inflight := mput rid t (hb_inflight h)\<rparr>"

definition drop_client :: "nat \<Rightarrow> hub \<Rightarrow> hub" where
  "drop_client from h = (let h1 = cancel_client from h in h1\<lparr>hb_clients := mdel from (hb_clients h1)\<rparr>)"

text \<open>What the client sees of a device's message: its own request id, and the truncation flag on the exit.\<close>

definition client_view :: "task \<Rightarrow> message \<Rightarrow> message" where
  "client_view t m =
    (let out = m\<lparr>m_exec_id := tk_request t\<rparr>
     in if tk_trunc t \<and> m_type m = TypeExit then out\<lparr>m_truncated := Some True\<rparr> else out)"

definition deliver :: "string \<Rightarrow> task \<Rightarrow> message \<Rightarrow> hub \<Rightarrow> hub" where
  "deliver rid t m h =
    (case send (tk_client t) (client_view t m) h of
       (h1, EnqDropped) \<Rightarrow> set_task rid (t\<lparr>tk_trunc := True\<rparr>) h1
     | (h1, EnqClosed) \<Rightarrow> shut (tk_client t) (drop_client (tk_client t) h1)
     | (h1, EnqOk) \<Rightarrow> if terminal_type (m_type m) then finish_invocation rid h1 else h1)"

definition forward_to_client :: "nat \<Rightarrow> message \<Rightarrow> hub \<Rightarrow> hub" where
  "forward_to_client from m h =
    (let rid = m_exec_id m in
     case mget (hb_inflight h) rid of
       None \<Rightarrow> h
     | Some t \<Rightarrow> (case mget (hb_devices h) (tk_device t) of
         None \<Rightarrow> h
       | Some d \<Rightarrow>
          if ds_conn d \<noteq> Some from then h
          else if output_message m
          then (if MaxFrameBytes < int (length (m_data m)) then set_task rid (t\<lparr>tk_trunc := True\<rparr>) h
                else if MaxExecOutputBytes - tk_out t < int (length (m_data m))
                then set_task rid (t\<lparr>tk_out := MaxExecOutputBytes, tk_trunc := True\<rparr>) h
                else let t1 = t\<lparr>tk_out := tk_out t + int (length (m_data m))\<rparr>
                     in deliver rid t1 m (set_task rid t1 h))
          else deliver rid t m h))"

definition note_dropped_output :: "nat \<Rightarrow> message \<Rightarrow> hub \<Rightarrow> hub" where
  "note_dropped_output from m h =
    (case mget (hb_inflight h) (m_exec_id m) of
       None \<Rightarrow> h
     | Some t \<Rightarrow> (case mget (hb_devices h) (tk_device t) of
         None \<Rightarrow> h
       | Some d \<Rightarrow> if ds_conn d = Some from then set_task (m_exec_id m) (t\<lparr>tk_trunc := True\<rparr>) h else h))"

section \<open>Connections: \<open>hub_identity.go\<close>, \<open>Drop\<close>\<close>

definition drop_conn :: "nat \<Rightarrow> string \<Rightarrow> string \<Rightarrow> hub \<Rightarrow> hub" where
  "drop_conn from role did h =
    (if role = RoleDevice
     then (case mget (hb_devices h) did of
             None \<Rightarrow> h
           | Some d \<Rightarrow> if ds_conn d = Some from then detach did (fail_device did DeviceOffline h) else h)
     else drop_client from h)"

definition hello_ok :: "string \<Rightarrow> string option \<Rightarrow> message" where
  "hello_ok role mode = message0\<lparr>m_type := TypeHelloOK, m_role := role, m_client_auth := mode\<rparr>"

definition evict_old :: "string \<Rightarrow> nat \<Rightarrow> hub \<Rightarrow> hub" where
  "evict_old did conn h =
    (case mget (hb_devices h) did of
       None \<Rightarrow> h
     | Some d \<Rightarrow> (case ds_conn d of
         None \<Rightarrow> h
       | Some c \<Rightarrow> if c = conn then h else shut c (fail_device did DeviceOffline h)))"

definition publish_device :: "string \<Rightarrow> device \<Rightarrow> nat \<Rightarrow> hub \<Rightarrow> hub" where
  "publish_device did rec conn h = h\<lparr>
     hb_devices := mput did \<lparr>ds_conn = Some conn, ds_record = rec, ds_online = True, ds_ready = False,
        ds_ident = hb_next h\<rparr> (hb_devices h),
     hb_access := mput did (device_binding rec) (hb_access h),
     hb_next := Suc (hb_next h)\<rparr>"

text \<open>
  \<open>RegisterDevice\<close> after the identity gate. \<open>answer\<close> is what the store, or \<open>access.NewDevice\<close> without
  one, returned for the secret whose hash is \<open>secret_hash\<close>.
\<close>

definition register_device ::
  "hub_config \<Rightarrow> string \<Rightarrow> string \<Rightarrow> failure + device \<Rightarrow> bool \<Rightarrow> nat \<Rightarrow> hub \<Rightarrow> hub \<times> string" where
  "register_device cfg did secret_hash answer ended conn h =
    (case answer of
       Inl e \<Rightarrow> (h, if hc_store cfg then identity_error_code e else RelayError)
     | Inr rec0 \<Rightarrow>
        if ended then (h, RelayError)
        else
          (let old = mget (hb_devices h) did in
           if \<not> hc_store cfg \<and> (case old of None \<Rightarrow> False | Some d \<Rightarrow> dev_secret_hash (ds_record d) \<noteq> secret_hash)
           then (h, Unauthorized)
           else
             (let rec = (if hc_store cfg then rec0 else case old of None \<Rightarrow> rec0 | Some d \<Rightarrow> ds_record d)
              in case send conn (hello_ok RoleDevice None) h of
                   (h1, EnqOk) \<Rightarrow> (publish_device did rec conn (evict_old did conn h1), '''')
                 | (h1, _) \<Rightarrow> (h1, RelayError))))"

text \<open>
  \<open>RegisterClient\<close> after the gate: the answers of \<open>accounts.Authenticate\<close>, \<open>store.LoadDevice\<close> and
  \<open>accessService.Resolve\<close>, and the hash of the grant the client sent.
\<close>

definition client_identity ::
  "hub_config \<Rightarrow> bool \<Rightarrow> failure + principal \<Rightarrow> string + principal \<times> string" where
  "client_identity cfg has_token account =
    (if \<not> has_token then Inr (no_principal, ClientAuthShared)
     else if \<not> hc_accounts cfg then Inl Unauthorized
     else case account of
       Inl e \<Rightarrow> Inl (principal_error_code e) | Inr p \<Rightarrow> Inr (p, ClientAuthAccount))"

definition client_record ::
  "hub_config \<Rightarrow> failure + device \<Rightarrow> failure + authorization \<Rightarrow> string + (device \<times> authorization) option" where
  "client_record cfg loaded resolved =
    (if \<not> hc_store cfg then Inr None
     else case loaded of
       Inl e \<Rightarrow> Inl (identity_error_code e)
     | Inr d \<Rightarrow>
        if dev_ownership d = '''' then Inr (Some (d, no_authorization))
        else if \<not> hc_access cfg then Inl Unauthorized
        else case resolved of
          Inl e \<Rightarrow> Inl (access_error_code e) | Inr a \<Rightarrow> Inr (Some (d, a)))"

definition register_client_section ::
  "string \<Rightarrow> string \<Rightarrow> principal \<times> string \<Rightarrow> (device \<times> authorization) option \<Rightarrow> bool \<Rightarrow> nat \<Rightarrow> hub
   \<Rightarrow> hub \<times> string" where
  "register_client_section target want who found ended conn h =
    (if ended then (h, RelayError)
     else case (case found of
                  Some x \<Rightarrow> Some x
                | None \<Rightarrow> map_option (\<lambda>d. (ds_record d, no_authorization)) (mget (hb_devices h) target)) of
       None \<Rightarrow> (h, UnknownDevice)
     | Some (rec, decided) \<Rightarrow>
        if dev_ownership rec = '''' \<and> (dev_grant_hash rec = '''' \<or> dev_grant_hash rec \<noteq> want
             \<or> dev_uid rec = '''' \<or> dev_grant_id rec = '''')
        then (h, Unauthorized)
        else
          (let decision = (if dev_ownership rec = ''''
                           then no_authorization\<lparr>a_binding := device_binding rec, a_permissions := all_permissions\<rparr>
                           else decided)
           in case send conn (hello_ok RoleClient (Some (snd who))) h of
                (h1, EnqOk) \<Rightarrow>
                  (h1\<lparr>hb_access := mput target (device_binding rec) (hb_access h1),
                      hb_clients := mput conn \<lparr>cs_target = target, cs_access = device_binding rec,
                          cs_identity = fst who, cs_authorization = decision\<rparr> (hb_clients h1)\<rparr>, '''')
              | (h1, _) \<Rightarrow> (h1, RelayError)))"

definition register_client ::
  "hub_config \<Rightarrow> string \<Rightarrow> string \<Rightarrow> bool \<Rightarrow> failure + principal \<Rightarrow> failure + device \<Rightarrow> failure + authorization
   \<Rightarrow> bool \<Rightarrow> nat \<Rightarrow> hub \<Rightarrow> hub \<times> string" where
  "register_client cfg target want has_token account loaded resolved ended conn h =
    (case client_identity cfg has_token account of
       Inl code \<Rightarrow> (h, code)
     | Inr who \<Rightarrow> (case client_record cfg loaded resolved of
         Inl code \<Rightarrow> (h, code)
       | Inr found \<Rightarrow> register_client_section target want who found ended conn h))"

section \<open>Settings and revocation: \<open>hub_authorization.go\<close>\<close>

definition device_of_conn :: "nat \<Rightarrow> hub \<Rightarrow> string option" where
  "device_of_conn from h = map_option fst (find (\<lambda>(_, d). ds_conn d = Some from) (hb_devices h))"

definition stop_device_routing :: "nat \<Rightarrow> hub \<Rightarrow> hub" where
  "stop_device_routing from h =
    (case device_of_conn from h of
       None \<Rightarrow> h | Some did \<Rightarrow> detach did (fail_device did DeviceOffline h))"

definition reject_identity :: "nat \<Rightarrow> string \<Rightarrow> hub \<Rightarrow> hub" where
  "reject_identity from code h =
    shut from (post from (message0\<lparr>m_type := TypeError, m_code := code\<rparr>) (stop_device_routing from h))"

definition bounded_key :: "string \<Rightarrow> string" where
  "bounded_key k = (if 128 < length k then '''' else k)"

definition refuse_settings :: "nat \<Rightarrow> message \<Rightarrow> hub \<Rightarrow> hub" where
  "refuse_settings from m h =
    post from (message0\<lparr>m_type := TypeDeviceSettingsResult, m_request_id := bounded_key (m_request_id m),
      m_code := AgentError\<rparr>) h"

text \<open>What the handler asks of the store for the record it saw (\<open>WithAccess\<close> when there is none).\<close>

definition requested_record :: "message \<Rightarrow> device \<Rightarrow> device" where
  "requested_record m d =
    (if m_type m = TypeDeviceSettings
     then d\<lparr>dev_grant_hash := m_grant_hash m, dev_inbound := (m_inbound m = Some True)\<rparr> else d)"

definition revoke_foreground :: "string \<Rightarrow> hub \<Rightarrow> hub" where
  "revoke_foreground did h = h\<lparr>hb_inflight := map (\<lambda>(rid, t).
     (rid, if tk_device t = did \<and> tk_operation t = OpExec then t\<lparr>tk_cancelled := True\<rparr> else t)) (hb_inflight h)\<rparr>"

definition hub_device_context :: "hub_config \<Rightarrow> device \<Rightarrow> device_context" where
  "hub_device_context cfg d = \<lparr>dc_authority = (if hc_store cfg then hc_authority cfg else ''''),
     dc_device_uid = dev_uid d, dc_ownership = b_ownership (device_binding d),
     dc_grant = b_grant_id (device_binding d), dc_inbound = dev_inbound d\<rparr>"

definition settings_result :: "hub_config \<Rightarrow> message \<Rightarrow> device \<Rightarrow> message" where
  "settings_result cfg m rec = message0\<lparr>m_type := TypeDeviceSettingsResult, m_request_id := m_request_id m,
     m_device_context := Some (hub_device_context cfg rec)\<rparr>"

text \<open>The section after the store's answer, for the slot \<open>ident\<close> seen before it.\<close>

definition settings_commit ::
  "hub_config \<Rightarrow> nat \<Rightarrow> string \<Rightarrow> nat \<Rightarrow> message \<Rightarrow> failure + device \<Rightarrow> hub \<Rightarrow> hub" where
  "settings_commit cfg from did ident m answer h =
    (case answer of
       Inl e \<Rightarrow> reject_identity from (identity_error_code e) h
     | Inr rec \<Rightarrow> (case mget (hb_devices h) did of
         None \<Rightarrow> h
       | Some d \<Rightarrow>
          if ds_ident d \<noteq> ident then h
          else if m_type m = TypeRevoke
          then (let h1 = shut from (fail_device did DeviceOffline h)
                in h1\<lparr>hb_devices := mdel did (hb_devices h1), hb_access := mdel did (hb_access h1)\<rparr>)
          else
            (let h1 = h\<lparr>hb_devices := mput did (d\<lparr>ds_record := rec\<rparr>) (hb_devices h),
                        hb_access := mput did (device_binding rec) (hb_access h)\<rparr>;
                 h2 = (if dev_inbound (ds_record d) \<and> \<not> dev_inbound rec then revoke_foreground did h1 else h1)
             in case send from (settings_result cfg m rec) h2 of
                  (h3, EnqOk) \<Rightarrow>
                    h3\<lparr>hb_devices := mput did (d\<lparr>ds_record := rec, ds_ready := True\<rparr>) (hb_devices h3)\<rparr>
                | (h3, _) \<Rightarrow> shut from (stop_device_routing from h3))))"

section \<open>Access management: \<open>hub_access.go\<close>\<close>

definition access_reply :: "string \<Rightarrow> string \<Rightarrow> message" where
  "access_reply key code = message0\<lparr>m_type := TypeAccessResult, m_request_id := bounded_key key, m_code := code\<rparr>"

text \<open>The checks before the identity gate; \<open>parsed\<close> is what \<open>json.Unmarshal\<close> made of the payload. An empty code goes on.\<close>

definition access_precheck :: "hub_config \<Rightarrow> message \<Rightarrow> access_request option \<Rightarrow> string" where
  "access_precheck cfg m parsed =
    (if m_request_id m = '''' \<or> 128 < length (m_request_id m) \<or> 16 * 1024 < length (m_payload m)
        \<or> (case parsed of None \<Rightarrow> True | Some req \<Rightarrow> \<not> is_ok (validate_request req))
     then AgentError
     else if \<not> hc_access cfg \<or> \<not> hc_accounts cfg then Unauthorized
     else '''')"

text \<open>The record the request was checked against, for the device this connection still holds.\<close>

definition access_expected :: "nat \<Rightarrow> hub \<Rightarrow> (string \<times> nat \<times> device) option" where
  "access_expected from h = map_option (\<lambda>(did, d). (did, ds_ident d, ds_record d))
     (find (\<lambda>(_, d). ds_conn d = Some from) (hb_devices h))"

fun invalidate_loop :: "string \<Rightarrow> (string \<times> task) list \<Rightarrow> hub \<Rightarrow> hub" where
  "invalidate_loop did [] h = h"
| "invalidate_loop did ((rid, t) # es) h =
    (if tk_device t \<noteq> did then invalidate_loop did es h
     else invalidate_loop did es (finish_invocation rid
            (post (tk_client t) (Err (tk_request t) ResultUnknown) (tell_device did (cancel_message rid) h))))"

fun evict_loop :: "string \<Rightarrow> (nat \<times> client_slot) list \<Rightarrow> hub \<Rightarrow> hub" where
  "evict_loop did [] h = h"
| "evict_loop did ((c, b) # cs) h =
    (if cs_target b = did then evict_loop did cs (shut c (h\<lparr>hb_clients := mdel c (hb_clients h)\<rparr>))
     else evict_loop did cs h)"

definition invalidate_ownership :: "string \<Rightarrow> hub \<Rightarrow> hub" where
  "invalidate_ownership did h =
    (let h1 = invalidate_loop did (hb_inflight h) h in evict_loop did (hb_clients h1) h1)"

text \<open>The answer of \<open>Manage\<close> arrives; \<open>shown\<close> is the marshalled state it returned.\<close>

definition access_commit ::
  "hub_config \<Rightarrow> nat \<Rightarrow> string \<Rightarrow> nat \<Rightarrow> device \<Rightarrow> string \<Rightarrow> string \<Rightarrow> failure + mutation \<Rightarrow> string \<Rightarrow> hub \<Rightarrow> hub" where
  "access_commit cfg from did ident expected key action answer shown h =
    (case answer of
       Inl e \<Rightarrow>
         (let code = access_error_code e
          in if code = RelayError \<and> action \<noteq> ''status''
             then shut from (post from (access_reply key code) (stop_device_routing from h))
             else post from (access_reply key code) h)
     | Inr mu \<Rightarrow>
         (let h1 = (case mget (hb_devices h) did of
                None \<Rightarrow> h
              | Some d \<Rightarrow>
                  if ds_ident d \<noteq> ident then h
                  else let h' = (if dev_ownership expected \<noteq> dev_ownership (mu_device mu)
                                 then invalidate_ownership did h else h)
                       in h'\<lparr>hb_devices := mput did (d\<lparr>ds_record := mu_device mu\<rparr>) (hb_devices h'),
                             hb_access := mput did (device_binding (mu_device mu)) (hb_access h')\<rparr>)
          in case send from ((access_reply key '''')\<lparr>m_payload := shown,
                    m_device_context := Some (hub_device_context cfg (mu_device mu))\<rparr>) h1 of
               (h2, EnqOk) \<Rightarrow> h2
             | (h2, _) \<Rightarrow> shut from (stop_device_routing from h2)))"

section \<open>Renewing execution authority: \<open>hub_delegation.go\<close>, \<open>hub_execution_lease.go\<close>\<close>

definition lease_reply :: "message \<Rightarrow> string \<Rightarrow> int \<Rightarrow> message" where
  "lease_reply m code ms = message0\<lparr>m_type := TypeExecutionLease, m_request_id := bounded_key (m_request_id m),
     m_code := code, m_lease_ms := ms\<rparr>"

text \<open>\<open>errors.Is(err, delegation.ErrDenied)\<close> or another error; a granted time in nanoseconds.\<close>

datatype renewal = RenewDenied | RenewFailed | RenewGranted int

fun renewal_reply :: "message \<Rightarrow> renewal \<Rightarrow> message" where
  "renewal_reply m RenewDenied = lease_reply m Unauthorized 0"
| "renewal_reply m RenewFailed = lease_reply m RelayError 0"
| "renewal_reply m (RenewGranted ttl) = lease_reply m '''' (ttl div nanos_per_milli)"

definition renew_valid :: "hub_config \<Rightarrow> string \<Rightarrow> message \<Rightarrow> bool" where
  "renew_valid cfg role m \<longleftrightarrow> \<not> (role \<noteq> RoleDevice \<or> m_request_id m = '''' \<or> 128 < length (m_request_id m)
     \<or> MaxDelegationBytes < length (m_delegation m) \<or> \<not> hc_execution cfg)"

definition ready_device_of :: "nat \<Rightarrow> hub \<Rightarrow> (string \<times> string) option" where
  "ready_device_of from h = map_option (\<lambda>(did, d). (did, dev_uid (ds_record d)))
     (find (\<lambda>(_, d). ds_conn d = Some from \<and> ds_ready d) (hb_devices h))"

definition renew_commit ::
  "nat \<Rightarrow> string \<Rightarrow> string \<Rightarrow> message \<Rightarrow> renewal \<Rightarrow> bool \<Rightarrow> hub \<Rightarrow> hub" where
  "renew_commit from did uid m answer ended h =
    (case mget (hb_devices h) did of
       None \<Rightarrow> h
     | Some d \<Rightarrow> if ds_conn d = Some from \<and> dev_uid (ds_record d) = uid \<and> \<not> ended
                 then post from (renewal_reply m answer) h else h)"

definition renew_route_valid :: "hub_config \<Rightarrow> string \<Rightarrow> message \<Rightarrow> bool" where
  "renew_route_valid cfg role m \<longleftrightarrow> \<not> (role \<noteq> RoleDevice \<or> m_request_id m = '''' \<or> 128 < length (m_request_id m)
     \<or> m_exec_id m = '''' \<or> 128 < length (m_exec_id m) \<or> m_delegation m \<noteq> '''' \<or> \<not> hc_execution cfg)"

definition live_execution_route :: "nat \<Rightarrow> task option \<Rightarrow> hub \<Rightarrow> bool" where
  "live_execution_route from route h \<longleftrightarrow>
    (case route of
       None \<Rightarrow> False
     | Some t \<Rightarrow>
        \<not> (tk_cancelled t \<or> tk_operation t \<noteq> OpExec \<or> ctx_err (tk_client t) h \<or> ctx_err from h)
        \<and> mget (hb_clients h) (tk_client t) \<noteq> None
        \<and> (case mget (hb_devices h) (tk_device t) of
             None \<Rightarrow> False
           | Some d \<Rightarrow> ds_ready d \<and> ds_conn d = Some from \<and> dev_inbound (ds_record d)
               \<and> binding_matches (cs_access (tk_binding t)) (device_binding (ds_record d))
               \<and> binding_matches (cs_access (tk_binding t)) (access_of h (tk_device t))))"

text \<open>The reply after the authority answered, for the route \<open>ident\<close> seen before the question.\<close>

definition renew_route_reply :: "nat \<Rightarrow> nat \<Rightarrow> message \<Rightarrow> renewal \<Rightarrow> bool \<Rightarrow> hub \<Rightarrow> message" where
  "renew_route_reply from ident m answer ended h =
    (let route = mget (hb_inflight h) (m_exec_id m);
         same = (case route of None \<Rightarrow> False | Some t \<Rightarrow> tk_ident t = ident)
     in if \<not> same \<or> \<not> live_execution_route from route h then lease_reply m Unauthorized 0
        else if ended then lease_reply m RelayError 0
        else renewal_reply m answer)"

definition renew_route_commit :: "nat \<Rightarrow> nat \<Rightarrow> message \<Rightarrow> renewal \<Rightarrow> bool \<Rightarrow> hub \<Rightarrow> hub" where
  "renew_route_commit from ident m answer ended h =
    post from (renew_route_reply from ident m answer ended h) h"

section \<open>Dispatch: \<open>Handle\<close>\<close>

datatype route_to = Ignore | Refuse message | ToRenewRoute | ToRenew | ToAccess | ToAuth | ToInvoke | ToForward

definition dispatch :: "bool \<Rightarrow> string \<Rightarrow> message \<Rightarrow> route_to" where
  "dispatch ended role m =
    (if role = RoleClient \<and> ended then Ignore
     else if m_type m = TypeExecutionRenewRoute then ToRenewRoute
     else if m_type m = TypeExecutionRenew then ToRenew
     else if m_type m = TypeAccessRequest then
       (if role \<noteq> RoleDevice then Refuse (access_reply (m_request_id m) Unauthorized) else ToAccess)
     else if m_type m = TypeHeartbeat then Ignore
     else if m_type m = TypeDeviceSettings \<or> m_type m = TypeRevoke then
       (if role \<noteq> RoleDevice then Refuse (message0\<lparr>m_type := TypeError, m_code := Unauthorized\<rparr>) else ToAuth)
     else if m_type m = TypeInvoke then
       (if role \<noteq> RoleClient then Refuse (Nack (m_exec_id m) Unauthorized) else ToInvoke)
     else if output_message m \<or> terminal_type (m_type m) then (if role \<noteq> RoleDevice then Ignore else ToForward)
     else Ignore)"

section \<open>The relay as a transition system: \<open>server.go\<close>\<close>

text \<open>
  \<open>rl_sessions\<close> is what \<open>serveConn\<close> keeps per connection after its hello: the role and the id it bound.
  A step is one critical section of the hub, one event of an outbox, or the end of a connection. What
  ran before a section outside the mutex is arbitrary, so every interleaving of handlers is
  covered. Of the store the steps assume one documented law: an update or mutation answers with a record of the same device uid.
\<close>

record relay =
  rl_hub :: hub
  rl_sessions :: "(nat, string \<times> string) gomap"

definition same_uid :: "hub \<Rightarrow> string \<Rightarrow> nat \<Rightarrow> device \<Rightarrow> bool" where
  "same_uid h did ident rec \<longleftrightarrow> (case mget (hb_devices h) did of
     None \<Rightarrow> True | Some d \<Rightarrow> ds_ident d = ident \<longrightarrow> dev_uid rec = dev_uid (ds_record d))"

definition refuse_hello :: "nat \<Rightarrow> string \<Rightarrow> hub \<Rightarrow> hub" where
  "refuse_hello c code h = shut c (post c (message0\<lparr>m_type := TypeError, m_code := code\<rparr>) h)"

definition enrol :: "nat \<Rightarrow> string \<Rightarrow> string \<Rightarrow> hub \<times> string \<Rightarrow> relay \<Rightarrow> relay" where
  "enrol c role did r s =
    (if snd r = '''' then \<lparr>rl_hub = fst r, rl_sessions = mput c (role, did) (rl_sessions s)\<rparr>
     else s\<lparr>rl_hub := refuse_hello c (snd r) (fst r)\<rparr>)"

inductive hub_step :: "hub_config \<Rightarrow> relay \<Rightarrow> relay \<Rightarrow> bool" for cfg where
  hello_device:
    "mget (rl_sessions s) c = None \<Longrightarrow>
     hub_step cfg s (enrol c RoleDevice did (register_device cfg did sh answer ended c (rl_hub s)) s)"
| hello_client:
    "mget (rl_sessions s) c = None \<Longrightarrow>
     hub_step cfg s (enrol c RoleClient target
       (register_client cfg target want tok account loaded resolved ended c (rl_hub s)) s)"
| invoke:
    "mget (rl_sessions s) c = Some (role, target) \<Longrightarrow> dispatch (ctx_err c (rl_hub s)) role m = ToInvoke \<Longrightarrow>
     hub_step cfg s (s\<lparr>rl_hub := handle_invoke cfg c target m code fresh issued (rl_hub s)\<rparr>)"
| forward:
    "mget (rl_sessions s) c = Some (role, did) \<Longrightarrow> dispatch ended role m = ToForward \<Longrightarrow>
     hub_step cfg s (s\<lparr>rl_hub := forward_to_client c m (rl_hub s)\<rparr>)"
| dropped_output:
    "output_message m \<Longrightarrow> hub_step cfg s (s\<lparr>rl_hub := note_dropped_output c m (rl_hub s)\<rparr>)"
| settings:
    "mget (rl_sessions s) c = Some (RoleDevice, did) \<Longrightarrow>
     (\<forall>rec. answer = Inr rec \<longrightarrow> same_uid (rl_hub s) did ident rec) \<Longrightarrow>
     hub_step cfg s (s\<lparr>rl_hub := settings_commit cfg c did ident m answer (rl_hub s)\<rparr>)"
| manage_access:
    "mget (rl_sessions s) c = Some (RoleDevice, did) \<Longrightarrow>
     (\<forall>mu. answer = Inr mu \<longrightarrow> same_uid (rl_hub s) did ident (mu_device mu)) \<Longrightarrow>
     hub_step cfg s (s\<lparr>rl_hub := access_commit cfg c did ident expected key action answer shown (rl_hub s)\<rparr>)"
| replied:
    "hub_step cfg s (s\<lparr>rl_hub := post c m (rl_hub s)\<rparr>)"
| over_quota:
    "hub_step cfg s (s\<lparr>rl_hub := shut c (post c m (rl_hub s))\<rparr>)"
| rejected:
    "mget (rl_sessions s) c = Some (RoleDevice, did) \<Longrightarrow>
     hub_step cfg s (s\<lparr>rl_hub := reject_identity c code (rl_hub s)\<rparr>)"
| renew:
    "hub_step cfg s (s\<lparr>rl_hub := renew_commit c did uid m granted ended (rl_hub s)\<rparr>)"
| renew_route:
    "hub_step cfg s (s\<lparr>rl_hub := renew_route_commit c ident m granted ended (rl_hub s)\<rparr>)"
| disconnect:
    "mget (rl_sessions s) c = Some (role, did) \<Longrightarrow>
     hub_step cfg s \<lparr>rl_hub = shut c (drop_conn c role did (rl_hub s)), rl_sessions = mdel c (rl_sessions s)\<rparr>"
| outbox_event:
    "hub_step cfg s (s\<lparr>rl_hub := (rl_hub s)\<lparr>hb_conns := (hb_conns (rl_hub s))(c := ob_step e (hb_conns (rl_hub s) c))\<rparr>\<rparr>)"

inductive hub_reachable :: "hub_config \<Rightarrow> relay \<Rightarrow> bool" for cfg where
  hub_start: "new_service limit = Some p \<Longrightarrow> hub_reachable cfg \<lparr>rl_hub = new_hub p, rl_sessions = []\<rparr>"
| hub_next: "hub_reachable cfg s \<Longrightarrow> hub_step cfg s s' \<Longrightarrow> hub_reachable cfg s'"

inductive_cases hub_stepE: "hub_step cfg s s'"

end
