(* ===== verification/HubInvariant.thy ===== *)
theory HubInvariant
  imports Hub
begin

text \<open>
  The invariant of the router and its preservation by every section: the two route tables are inverse
  to each other, every route holds exactly one lease, and every route has a registered caller and a
  connected device. \<open>thinned\<close> is what the cleanup loops do.
\<close>

declare map_of_eq_Some_iff [simp del] Some_eq_map_of_iff [simp del] split_paired_All [simp del]
  split_paired_Ex [simp del]

section \<open>Frames of sending\<close>

lemma post_frame [simp]:
  "hb_devices (post c m h) = hb_devices h" "hb_access (post c m h) = hb_access h"
  "hb_clients (post c m h) = hb_clients h" "hb_inflight (post c m h) = hb_inflight h"
  "hb_requests (post c m h) = hb_requests h" "hb_admission (post c m h) = hb_admission h"
  "hb_next (post c m h) = hb_next h"
  by (simp_all add: post_def send_def Let_def split: prod.split)

lemma send_frame:
  assumes "send c m h = (h', r)"
  shows "h' = post c m h" "hb_devices h' = hb_devices h" "hb_access h' = hb_access h"
    "hb_clients h' = hb_clients h" "hb_inflight h' = hb_inflight h" "hb_requests h' = hb_requests h"
    "hb_admission h' = hb_admission h" "hb_next h' = hb_next h"
  using assms by (auto simp: post_def send_def Let_def split: prod.splits)

lemma shut_frame [simp]:
  "hb_devices (shut c h) = hb_devices h" "hb_access (shut c h) = hb_access h"
  "hb_clients (shut c h) = hb_clients h" "hb_inflight (shut c h) = hb_inflight h"
  "hb_requests (shut c h) = hb_requests h" "hb_admission (shut c h) = hb_admission h"
  "hb_next (shut c h) = hb_next h"
  by (simp_all add: shut_def)

lemma tell_device_frame [simp]:
  "hb_devices (tell_device d m h) = hb_devices h" "hb_access (tell_device d m h) = hb_access h"
  "hb_clients (tell_device d m h) = hb_clients h" "hb_inflight (tell_device d m h) = hb_inflight h"
  "hb_requests (tell_device d m h) = hb_requests h" "hb_admission (tell_device d m h) = hb_admission h"
  "hb_next (tell_device d m h) = hb_next h"
  by (simp_all add: tell_device_def split: option.split)

section \<open>The invariant\<close>

definition routes_ok :: "hub \<Rightarrow> bool" where
  "routes_ok h \<longleftrightarrow> mdistinct (hb_inflight h) \<and> mdistinct (hb_requests h)
     \<and> (\<forall>rid t. mget (hb_inflight h) rid = Some t \<longrightarrow> mget (hb_requests h) (tk_client t, tk_request t) = Some rid)
     \<and> (\<forall>k rid. mget (hb_requests h) k = Some rid \<longrightarrow>
          (\<exists>t. mget (hb_inflight h) rid = Some t \<and> k = (tk_client t, tk_request t)))"

definition held_by :: "string \<Rightarrow> (string, task) gomap \<Rightarrow> nat" where
  "held_by uid m = count_entries (\<lambda>_ t. device (tk_lease t) = uid) m"

definition leases_ok :: "hub \<Rightarrow> bool" where
  "leases_ok h \<longleftrightarrow> (\<forall>u. active_count (hb_admission h) u = int (held_by u (hb_inflight h)))
     \<and> (\<forall>u. active_count (hb_admission h) u \<le> per_device (hb_admission h))
     \<and> (\<forall>rid t. mget (hb_inflight h) rid = Some t \<longrightarrow> \<not> released (tk_lease t))"

definition task_ok :: "hub \<Rightarrow> task \<Rightarrow> bool" where
  "task_ok h t \<longleftrightarrow> mget (hb_clients h) (tk_client t) = Some (tk_binding t)
     \<and> cs_target (tk_binding t) = tk_device t
     \<and> device (tk_lease t) = b_device_uid (cs_access (tk_binding t))
     \<and> (\<exists>d c. mget (hb_devices h) (tk_device t) = Some d \<and> ds_conn d = Some c
          \<and> dev_uid (ds_record d) = b_device_uid (cs_access (tk_binding t)))
     \<and> 0 \<le> tk_out t \<and> tk_out t \<le> MaxExecOutputBytes"

definition live_ok :: "hub \<Rightarrow> bool" where
  "live_ok h \<longleftrightarrow> mdistinct (hb_clients h) \<and> (\<forall>rid t. mget (hb_inflight h) rid = Some t \<longrightarrow> task_ok h t)"

definition hub_inv :: "hub \<Rightarrow> bool" where
  "hub_inv h \<longleftrightarrow> routes_ok h \<and> leases_ok h \<and> live_ok h"

definition session_ok :: "relay \<Rightarrow> bool" where
  "session_ok s \<longleftrightarrow> mdistinct (hb_devices (rl_hub s))
     \<and> (\<forall>did d c. mget (hb_devices (rl_hub s)) did = Some d \<and> ds_conn d = Some c
          \<longrightarrow> mget (rl_sessions s) c = Some (RoleDevice, did))
     \<and> (\<forall>c b. mget (hb_clients (rl_hub s)) c = Some b
          \<longrightarrow> mget (rl_sessions s) c = Some (RoleClient, cs_target b))"

text \<open>Only these fields matter.\<close>

lemma hub_inv_cong:
  assumes "hub_inv h" "hb_devices h' = hb_devices h" "hb_clients h' = hb_clients h"
    "hb_inflight h' = hb_inflight h" "hb_requests h' = hb_requests h" "hb_admission h' = hb_admission h"
  shows "hub_inv h'"
  using assms(1) unfolding hub_inv_def routes_ok_def leases_ok_def live_ok_def task_ok_def assms(2-6) .

lemma post_inv [intro]: "hub_inv h \<Longrightarrow> hub_inv (post c m h)"
  by (erule hub_inv_cong) simp_all

lemma shut_inv [intro]: "hub_inv h \<Longrightarrow> hub_inv (shut c h)"
  by (erule hub_inv_cong) simp_all

lemma tell_device_inv [intro]: "hub_inv h \<Longrightarrow> hub_inv (tell_device d m h)"
  by (erule hub_inv_cong) simp_all

section \<open>Removing routes\<close>

lemma release_pool:
  "\<not> released l \<Longrightarrow> 0 < active_count s (device l) \<Longrightarrow>
   active_count (snd (release l s)) = (active_count s)(device l := active_count s (device l) - 1)
   \<and> per_device (snd (release l s)) = per_device s"
  using pool.give_back_used pool.give_back_cap by (simp add: release_def)

lemma finish_routes:
  assumes "routes_ok h" shows "routes_ok (finish_invocation rid h)"
proof (cases "mget (hb_inflight h) rid")
  case None
  then show ?thesis using assms by (simp add: finish_invocation_def)
next
  case (Some t)
  have inj: "r = rid" if "mget (hb_inflight h) r = Some t'" "tk_client t' = tk_client t" "tk_request t' = tk_request t" for r t'
    using that Some assms unfolding routes_ok_def by (metis option.inject)
  let ?h = "finish_invocation rid h"
  have h': "hb_inflight ?h = mdel rid (hb_inflight h)"
    "hb_requests ?h = mdel (tk_client t, tk_request t) (hb_requests h)"
    using Some by (simp_all add: finish_invocation_def)
  have d: "mdistinct (hb_inflight h)" "mdistinct (hb_requests h)"
    and fwd: "\<And>r t'. mget (hb_inflight h) r = Some t' \<Longrightarrow> mget (hb_requests h) (tk_client t', tk_request t') = Some r"
    and bwd: "\<And>k r. mget (hb_requests h) k = Some r \<Longrightarrow>
      \<exists>t'. mget (hb_inflight h) r = Some t' \<and> k = (tk_client t', tk_request t')"
    using assms by (auto simp: routes_ok_def)
  have "mget (hb_requests ?h) (tk_client t', tk_request t') = Some r"
    if "mget (hb_inflight ?h) r = Some t'" for r t'
    using that fwd inj by (auto simp: h' split: if_splits)
  moreover have "\<exists>t'. mget (hb_inflight ?h) r = Some t' \<and> k = (tk_client t', tk_request t')"
    if "mget (hb_requests ?h) k = Some r" for k r
    using that bwd [of k r] Some by (auto simp: h' split: if_splits)
  ultimately show ?thesis using d by (simp add: routes_ok_def h')
qed

lemma held_by_mdel:
  "mdistinct m \<Longrightarrow> mget m rid = Some t \<Longrightarrow>
   int (held_by u (mdel rid m)) = int (held_by u m) - (if device (tk_lease t) = u then 1 else 0)"
  using count_entries_mdel [of m rid t "\<lambda>_ t. device (tk_lease t) = u"] by (auto simp: held_by_def split: if_splits)

lemma finish_leases:
  assumes "routes_ok h" "leases_ok h" shows "leases_ok (finish_invocation rid h)"
proof (cases "mget (hb_inflight h) rid")
  case None
  then show ?thesis using assms by (simp add: finish_invocation_def)
next
  case (Some t)
  have d: "mdistinct (hb_inflight h)" using assms(1) by (simp add: routes_ok_def)
  have l: "\<not> released (tk_lease t)" using assms(2) Some by (auto simp: leases_ok_def)
  note del = held_by_mdel [OF d Some]
  have "int (held_by (device (tk_lease t)) (mdel rid (hb_inflight h))) \<ge> 0" by simp
  then have pos: "0 < active_count (hb_admission h) (device (tk_lease t))"
    using assms(2) del [of "device (tk_lease t)"] by (auto simp: leases_ok_def)
  note r = release_pool [OF l pos]
  show ?thesis using assms(2) Some r del
    unfolding finish_invocation_def leases_ok_def
    by (auto split: if_splits intro: order_trans) (smt (verit))+
qed

text \<open>\<open>thinned R h h'\<close>: \<open>h'\<close> is \<open>h\<close> with the routes \<open>R\<close> finished and messages sent.\<close>

definition thinned :: "string set \<Rightarrow> hub \<Rightarrow> hub \<Rightarrow> bool" where
  "thinned R h h' \<longleftrightarrow> hb_devices h' = hb_devices h \<and> hb_access h' = hb_access h \<and> hb_clients h' = hb_clients h
     \<and> hb_next h' = hb_next h
     \<and> (\<forall>rid. mget (hb_inflight h') rid = (if rid \<in> R then None else mget (hb_inflight h) rid))
     \<and> (routes_ok h \<longrightarrow> routes_ok h') \<and> (routes_ok h \<and> leases_ok h \<longrightarrow> leases_ok h')"

lemma thinned_id: "(\<forall>rid \<in> R. mget (hb_inflight h) rid = None) \<Longrightarrow> thinned R h h"
  by (simp add: thinned_def)

lemma thinned_trans: "thinned R h u \<Longrightarrow> thinned S u v \<Longrightarrow> thinned (R \<union> S) h v"
  by (auto simp: thinned_def)

text \<open>Sending and closing touch the outboxes only.\<close>

definition conns_only :: "hub \<Rightarrow> hub \<Rightarrow> bool" where
  "conns_only h u \<longleftrightarrow> (\<exists>cs. u = h\<lparr>hb_conns := cs\<rparr>)"

lemma conns_only_refl [simp]: "conns_only h h"
  unfolding conns_only_def by (rule exI [of _ "hb_conns h"]) simp

lemma conns_only_trans: "conns_only h u \<Longrightarrow> conns_only u v \<Longrightarrow> conns_only h v"
  by (auto simp: conns_only_def)

lemma conns_only_update [simp]: "conns_only h (h\<lparr>hb_conns := cs\<rparr>)"
  unfolding conns_only_def by (rule exI) (rule refl)

lemma conns_only_post [simp]: "conns_only h (post c m h)"
  by (simp add: post_def send_def Let_def split: prod.split)

lemma conns_only_shut [simp]: "conns_only h (shut c h)"
  by (simp add: shut_def)

lemma conns_only_tell [simp]: "conns_only h (tell_device d m h)"
  by (simp add: tell_device_def split: option.split)

lemma ok_fields [simp]:
  "routes_ok (h\<lparr>hb_conns := cs\<rparr>) = routes_ok h" "leases_ok (h\<lparr>hb_conns := cs\<rparr>) = leases_ok h"
  "routes_ok (h\<lparr>hb_devices := ds\<rparr>) = routes_ok h" "leases_ok (h\<lparr>hb_devices := ds\<rparr>) = leases_ok h"
  "routes_ok (h\<lparr>hb_access := as\<rparr>) = routes_ok h" "leases_ok (h\<lparr>hb_access := as\<rparr>) = leases_ok h"
  "routes_ok (h\<lparr>hb_clients := bs\<rparr>) = routes_ok h" "leases_ok (h\<lparr>hb_clients := bs\<rparr>) = leases_ok h"
  "routes_ok (h\<lparr>hb_next := n\<rparr>) = routes_ok h" "leases_ok (h\<lparr>hb_next := n\<rparr>) = leases_ok h"
  "routes_ok (h\<lparr>hb_admission := p\<rparr>) = routes_ok h" "leases_ok (h\<lparr>hb_requests := rs\<rparr>) = leases_ok h"
  by (simp_all add: routes_ok_def leases_ok_def)

lemma thinned_conns: "thinned R h u \<Longrightarrow> conns_only u v \<Longrightarrow> thinned R h v"
  by (elim conns_only_def [THEN iffD1, elim_format] exE) (simp add: thinned_def)

lemma thinned_from: "thinned R u v \<Longrightarrow> conns_only h u \<Longrightarrow> thinned R h v"
  by (elim conns_only_def [THEN iffD1, elim_format] exE) (simp add: thinned_def)

lemma thinned_finish: "thinned {rid} h (finish_invocation rid h)"
proof -
  have "mget (hb_inflight (finish_invocation rid h)) r = (if r \<in> {rid} then None else mget (hb_inflight h) r)" for r
    by (auto simp: finish_invocation_def split: option.split)
  moreover have "hb_devices (finish_invocation rid h) = hb_devices h" "hb_access (finish_invocation rid h) = hb_access h"
    "hb_clients (finish_invocation rid h) = hb_clients h" "hb_next (finish_invocation rid h) = hb_next h"
    by (auto simp: finish_invocation_def split: option.split)
  ultimately show ?thesis using finish_routes finish_leases by (simp add: thinned_def)
qed

lemma thinned_inv:
  assumes "thinned R h h'" "hub_inv h" shows "hub_inv h'"
proof -
  have "live_ok h'"
    using assms by (auto simp: thinned_def hub_inv_def live_ok_def task_ok_def split: if_splits)
  then show ?thesis using assms by (auto simp: thinned_def hub_inv_def)
qed

text \<open>The three cleanup loops have one shape: for the matching routes, send something and finish.\<close>

lemma loop_thins:
  assumes nil: "\<And>h. loop [] h = h"
    and cons: "\<And>rid t es h. loop ((rid, t) # es) h =
      (if P t then loop es (finish_invocation rid (f rid t h)) else loop es h)"
    and frame: "\<And>rid t h. conns_only h (f rid t h)"
  shows "thinned {rid. \<exists>t. (rid, t) \<in> set es \<and> P t} h (loop es h)"
proof (induction es arbitrary: h)
  case Nil
  then show ?case by (simp add: thinned_def nil)
next
  case (Cons e es)
  obtain rid t where e: "e = (rid, t)" by (rule prod.exhaust)
  let ?R = "{rid. \<exists>t. (rid, t) \<in> set es \<and> P t}"
  show ?case
  proof (cases "P t")
    case True
    have "thinned {rid} h (finish_invocation rid (f rid t h))"
      by (rule thinned_from [OF thinned_finish frame])
    from thinned_trans [OF this Cons.IH] have "thinned ({rid} \<union> ?R) h (loop (e # es) h)"
      by (simp add: e True cons)
    moreover have "{rid} \<union> ?R = {rid. \<exists>t. (rid, t) \<in> set (e # es) \<and> P t}" using True by (auto simp: e)
    ultimately show ?thesis by simp
  next
    case False
    then have "?R = {rid. \<exists>t. (rid, t) \<in> set (e # es) \<and> P t}" by (auto simp: e)
    then show ?thesis using Cons.IH [of h] False by (simp add: e cons)
  qed
qed

definition routes_where :: "(task \<Rightarrow> bool) \<Rightarrow> hub \<Rightarrow> string set" where
  "routes_where P h = {rid. \<exists>t. (rid, t) \<in> set (hb_inflight h) \<and> P t}"

lemma fail_device_thins: "thinned (routes_where (\<lambda>t. tk_device t = did) h) h (fail_device did code h)"
  unfolding fail_device_def routes_where_def
  by (rule loop_thins [where f = "\<lambda>rid t h. post (tk_client t) (Err (tk_request t) code) h"]) simp_all

lemma cancel_client_thins: "thinned (routes_where (\<lambda>t. tk_client t = from) h) h (cancel_client from h)"
  unfolding cancel_client_def routes_where_def
  by (rule loop_thins [where f = "\<lambda>rid t h. tell_device (tk_device t) (cancel_message rid) h"]) simp_all

lemma conns_only_two: "conns_only h (post c m (tell_device d n h))"
  by (rule conns_only_trans [of _ "tell_device d n h"]) simp_all

lemma invalidate_thins:
  "thinned (routes_where (\<lambda>t. tk_device t = did) h) h (invalidate_loop did (hb_inflight h) h)"
  unfolding routes_where_def
  by (rule loop_thins [where f = "\<lambda>rid t h. post (tk_client t) (Err (tk_request t) ResultUnknown)
        (tell_device did (cancel_message rid) h)"]) (simp_all add: conns_only_two)

text \<open>With distinct keys the finished routes are exactly the matching ones.\<close>

lemma thinned_where:
  assumes "routes_ok h" "thinned (routes_where P h) h h'"
  shows "mget (hb_inflight h') rid = (case mget (hb_inflight h) rid of
     None \<Rightarrow> None | Some t \<Rightarrow> if P t then None else Some t)"
proof -
  have "rid \<in> routes_where P h \<longleftrightarrow> (\<exists>t. mget (hb_inflight h) rid = Some t \<and> P t)"
    using assms(1) by (simp add: routes_where_def routes_ok_def map_of_eq_Some_iff)
  then show ?thesis using assms(2) by (auto simp: thinned_def split: option.split)
qed

section \<open>Preservation: removing connections and routes\<close>

lemma hub_inv_conns: "hub_inv h \<Longrightarrow> conns_only h u \<Longrightarrow> hub_inv u"
  by (elim conns_only_def [THEN iffD1, elim_format] exE)
     (simp add: hub_inv_def live_ok_def task_ok_def)

lemma finish_inv: "hub_inv h \<Longrightarrow> hub_inv (finish_invocation rid h)"
  by (rule thinned_inv [OF thinned_finish])

lemma fail_device_inv: "hub_inv h \<Longrightarrow> hub_inv (fail_device did code h)"
  by (rule thinned_inv [OF fail_device_thins])

lemma fail_device_frame [simp]:
  "hb_devices (fail_device did code h) = hb_devices h" "hb_access (fail_device did code h) = hb_access h"
  "hb_clients (fail_device did code h) = hb_clients h" "hb_next (fail_device did code h) = hb_next h"
  using fail_device_thins [of did h code] by (simp_all add: thinned_def)

lemma cancel_client_frame [simp]:
  "hb_devices (cancel_client c h) = hb_devices h" "hb_access (cancel_client c h) = hb_access h"
  "hb_clients (cancel_client c h) = hb_clients h" "hb_next (cancel_client c h) = hb_next h"
  using cancel_client_thins [of c h] by (simp_all add: thinned_def)

definition unrouted :: "string \<Rightarrow> hub \<Rightarrow> bool" where
  "unrouted did h \<longleftrightarrow> (\<forall>rid t. mget (hb_inflight h) rid = Some t \<longrightarrow> tk_device t \<noteq> did)"

lemma unrouted_conns: "unrouted did h \<Longrightarrow> conns_only h u \<Longrightarrow> unrouted did u"
  by (elim conns_only_def [THEN iffD1, elim_format] exE) (simp add: unrouted_def)

lemma fail_device_unrouted: "hub_inv h \<Longrightarrow> unrouted did (fail_device did code h)"
  using thinned_where [OF _ fail_device_thins [of did h code]]
  by (auto simp: hub_inv_def unrouted_def split: option.splits if_splits)

lemma cancel_client_gone:
  "hub_inv h \<Longrightarrow> mget (hb_inflight (cancel_client c h)) rid = Some t \<Longrightarrow>
   mget (hb_inflight h) rid = Some t \<and> tk_client t \<noteq> c"
  using thinned_where [OF _ cancel_client_thins [of c h], of rid]
  by (auto simp: hub_inv_def split: option.splits if_splits)

lemma idle_device_unrouted:
  assumes "hub_inv h" "case mget (hb_devices h) did of None \<Rightarrow> True | Some d \<Rightarrow> ds_conn d = None"
  shows "unrouted did h"
  using assms by (force simp: hub_inv_def live_ok_def task_ok_def unrouted_def split: option.splits)

text \<open>Any change to the slot, or to the access entry, of a device without routes.\<close>

lemma replace_slot_inv:
  assumes "hub_inv h" "unrouted did h" "\<forall>k. k \<noteq> did \<longrightarrow> mget ds k = mget (hb_devices h) k"
  shows "hub_inv (h\<lparr>hb_devices := ds\<rparr>)"
proof -
  have "task_ok (h\<lparr>hb_devices := ds\<rparr>) t" if "mget (hb_inflight h) rid = Some t" for rid t
    using assms that by (auto simp: hub_inv_def live_ok_def unrouted_def task_ok_def)
  then show ?thesis using assms(1) by (simp add: hub_inv_def live_ok_def)
qed

lemma hub_inv_access [simp]: "hub_inv (h\<lparr>hb_access := a\<rparr>) = hub_inv h"
  by (simp add: hub_inv_def live_ok_def task_ok_def)

lemma hub_inv_next [simp]: "hub_inv (h\<lparr>hb_next := n\<rparr>) = hub_inv h"
  by (simp add: hub_inv_def live_ok_def task_ok_def)

lemma detach_inv: "hub_inv h \<Longrightarrow> unrouted did h \<Longrightarrow> hub_inv (detach did h)"
  by (auto simp: detach_def split: option.split intro: replace_slot_inv)

lemma fail_detach_inv: "hub_inv h \<Longrightarrow> hub_inv (detach did (fail_device did code h))"
  by (intro detach_inv fail_device_inv fail_device_unrouted)

lemma fail_shut_detach_inv: "hub_inv h \<Longrightarrow> hub_inv (detach did (shut c (fail_device did code h)))"
  by (intro detach_inv shut_inv fail_device_inv unrouted_conns [OF fail_device_unrouted conns_only_shut])

lemma drop_client_inv: "hub_inv h \<Longrightarrow> hub_inv (drop_client c h)"
proof -
  assume inv: "hub_inv h"
  let ?h = "cancel_client c h"
  have i: "hub_inv ?h" by (rule thinned_inv [OF cancel_client_thins inv])
  have "task_ok (drop_client c h) t" if "mget (hb_inflight ?h) rid = Some t" for rid t
    using cancel_client_gone [OF inv that] i that
    by (auto simp: drop_client_def Let_def task_ok_def hub_inv_def live_ok_def)
  then show ?thesis using i by (simp add: hub_inv_def live_ok_def drop_client_def Let_def)
qed

section \<open>Preservation: routes come and change\<close>

lemma acquire_Inr:
  assumes "acquire u p = Inr (p', l)"
  shows "l = \<lparr>released = False, device = u\<rparr>" "active_count p' = (active_count p)(u := active_count p u + 1)"
    "per_device p' = per_device p" "active_count p u < per_device p"
proof -
  have s: "acquire_slot u p = Some p'" using assms by (simp add: acquire_slot_def)
  show "active_count p' = (active_count p)(u := active_count p u + 1)" by (rule pool.take_used [OF s])
  show "per_device p' = per_device p" by (rule pool.take_cap [OF s])
  show "active_count p u < per_device p" by (rule pool.take_room [OF s])
  show "l = \<lparr>released = False, device = u\<rparr>" using assms by (auto simp: acquire_def split: if_splits)
qed

lemma add_route_inv:
  assumes inv: "hub_inv h" and fresh: "mget (hb_inflight h) rid = None"
    and key: "mget (hb_requests h) (tk_client t, tk_request t) = None"
    and acq: "acquire (b_device_uid (cs_access (tk_binding t))) (hb_admission h) = Inr (p, tk_lease t)"
    and t: "task_ok h t"
  shows "hub_inv (h\<lparr>hb_admission := p, hb_requests := mput (tk_client t, tk_request t) rid (hb_requests h),
      hb_inflight := mput rid t (hb_inflight h), hb_next := n\<rparr>)" (is "hub_inv ?h")
proof -
  note a = acquire_Inr [OF acq]
  have l: "device (tk_lease t) = b_device_uid (cs_access (tk_binding t))" "\<not> released (tk_lease t)"
    using a(1) by simp_all
  have norq: "mget (hb_requests h) k \<noteq> Some rid" for k
    using inv fresh unfolding hub_inv_def routes_ok_def by (metis option.distinct(1))
  have noin: "\<not> (tk_client t' = tk_client t \<and> tk_request t' = tk_request t)"
    if "mget (hb_inflight h) r = Some t'" for r t'
    using that inv key unfolding hub_inv_def routes_ok_def by (metis option.distinct(1))
  have fwd: "mget (hb_requests ?h) (tk_client t', tk_request t') = Some r"
    if "mget (hb_inflight ?h) r = Some t'" for r t'
    using that inv noin [of r t'] by (auto simp: hub_inv_def routes_ok_def split: if_splits)
  have bwd: "\<exists>t'. mget (hb_inflight ?h) r = Some t' \<and> k = (tk_client t', tk_request t')"
    if "mget (hb_requests ?h) k = Some r" for k r
  proof (cases "k = (tk_client t, tk_request t)")
    case True
    then show ?thesis using that by simp
  next
    case False
    then have "mget (hb_requests h) k = Some r" using that by simp
    moreover from this have "r \<noteq> rid" using norq by blast
    ultimately show ?thesis using inv unfolding hub_inv_def routes_ok_def by simp
  qed
  have "routes_ok ?h" using inv fwd bwd by (simp add: hub_inv_def routes_ok_def)
  moreover have "leases_ok ?h"
  proof -
    have "held_by u (mput rid t (hb_inflight h)) = held_by u (hb_inflight h) + (if device (tk_lease t) = u then 1 else 0)" for u
      using count_entries_fresh [OF fresh] by (simp add: held_by_def)
    then show ?thesis using inv a(2-4) l by (auto simp: hub_inv_def leases_ok_def)
  qed
  moreover have "live_ok ?h" using inv t by (auto simp: hub_inv_def live_ok_def task_ok_def)
  ultimately show ?thesis by (simp add: hub_inv_def)
qed

lemma leases_cong:
  assumes "leases_ok h" "active_count (hb_admission h') = active_count (hb_admission h)"
    "per_device (hb_admission h') = per_device (hb_admission h)" "hb_inflight h' = hb_inflight h"
  shows "leases_ok h'"
  using assms(1) unfolding leases_ok_def assms(2-4) .

lemma give_back_inv:
  assumes inv: "hub_inv h" and acq: "acquire u (hb_admission h) = Inr (p, l)"
  shows "hub_inv (give_back l (h\<lparr>hb_admission := p\<rparr>))"
proof -
  note a = acquire_Inr [OF acq]
  have nn: "0 \<le> active_count (hb_admission h) u" using inv by (simp add: hub_inv_def leases_ok_def)
  have "active_count (snd (release l p)) = active_count (hb_admission h) \<and> per_device (snd (release l p)) = per_device (hb_admission h)"
  proof -
    have l: "\<not> released l" "device l = u" using a(1) by simp_all
    have "0 < active_count p (device l)" using a(2) nn l by simp
    from release_pool [OF l(1) this] show ?thesis unfolding l a(2,3) by simp
  qed
  then have "leases_ok (give_back l (h\<lparr>hb_admission := p\<rparr>))"
    using inv by (subst leases_cong [of h]) (simp_all add: hub_inv_def give_back_def)
  then show ?thesis using inv by (simp add: hub_inv_def live_ok_def task_ok_def give_back_def)
qed

lemma give_back_post: "give_back l (post c m h) = post c m (give_back l h)"
  by (simp add: give_back_def post_def send_def Let_def split: prod.split)

definition same_route :: "task \<Rightarrow> task \<Rightarrow> bool" where
  "same_route t t' \<longleftrightarrow> tk_request t' = tk_request t \<and> tk_client t' = tk_client t \<and> tk_device t' = tk_device t
     \<and> tk_binding t' = tk_binding t \<and> tk_lease t' = tk_lease t \<and> tk_operation t' = tk_operation t
     \<and> tk_ident t' = tk_ident t"

lemma set_task_inv:
  assumes inv: "hub_inv h" and old: "mget (hb_inflight h) rid = Some t" and same: "same_route t t'"
    and out: "0 \<le> tk_out t'" "tk_out t' \<le> MaxExecOutputBytes"
  shows "hub_inv (set_task rid t' h)"
proof -
  have "held_by u (mput rid t' (hb_inflight h)) = held_by u (hb_inflight h)" for u
    unfolding held_by_def by (rule count_entries_mput_present [OF old]) (use same in \<open>simp add: same_route_def\<close>)
  then have "leases_ok (set_task rid t' h)"
    using inv same old by (auto simp: hub_inv_def leases_ok_def set_task_def same_route_def split: if_splits)
  moreover have "routes_ok (set_task rid t' h)"
  proof -
    have r: "mdistinct (hb_inflight h)" "mdistinct (hb_requests h)"
      and fwd: "\<And>r u. mget (hb_inflight h) r = Some u \<Longrightarrow> mget (hb_requests h) (tk_client u, tk_request u) = Some r"
      and bwd: "\<And>k r. mget (hb_requests h) k = Some r \<Longrightarrow>
        \<exists>u. mget (hb_inflight h) r = Some u \<and> k = (tk_client u, tk_request u)"
      using inv by (simp_all add: hub_inv_def routes_ok_def)
    have "\<exists>u. mget (mput rid t' (hb_inflight h)) r = Some u \<and> k = (tk_client u, tk_request u)"
      if "mget (hb_requests h) k = Some r" for k r
      using bwd [OF that] same old by (cases "r = rid") (simp_all add: same_route_def)
    moreover have "mget (hb_requests h) (tk_client u, tk_request u) = Some r"
      if "mget (mput rid t' (hb_inflight h)) r = Some u" for r u
      using that fwd [of r] fwd [OF old] same by (auto simp: same_route_def split: if_splits)
    ultimately show ?thesis using r by (simp add: routes_ok_def set_task_def)
  qed
  moreover have "live_ok (set_task rid t' h)"
  proof -
    have "task_ok h t" using inv old by (simp add: hub_inv_def live_ok_def)
    then have "task_ok (set_task rid t' h) t'" using same out
      by (simp add: task_ok_def set_task_def same_route_def)
    then show ?thesis using inv by (auto simp: hub_inv_def live_ok_def set_task_def task_ok_def)
  qed
  ultimately show ?thesis by (simp add: hub_inv_def)
qed

section \<open>Preservation: the handlers\<close>

lemma detach_send_fail:
  assumes "hub_inv h" "send c m h = (h', r)"
  shows "hub_inv h'"
  using assms by (simp add: send_frame(1) [OF assms(2)] post_inv)

text \<open>After the lease, \<open>handleInvoke\<close> gives it back and says why, or records the route and sends.\<close>

definition new_route :: "nat \<Rightarrow> string \<Rightarrow> message \<Rightarrow> client_slot \<Rightarrow> lease \<Rightarrow> hub \<Rightarrow> task" where
  "new_route from target m b l h = \<lparr>tk_request = m_exec_id m, tk_device = target, tk_client = from, tk_out = 0,
     tk_trunc = False, tk_binding = b, tk_operation = m_op m, tk_cancelled = False, tk_lease = l,
     tk_ident = hb_next h\<rparr>"

definition with_route :: "string \<Rightarrow> task \<Rightarrow> hub \<Rightarrow> hub" where
  "with_route rid t h = h\<lparr>hb_requests := mput (tk_client t, tk_request t) rid (hb_requests h),
     hb_inflight := mput rid t (hb_inflight h), hb_next := Suc (hb_next h)\<rparr>"

definition proof_for :: "message \<Rightarrow> string option \<Rightarrow> string" where
  "proof_for m issued = (if m_op m = OpHandoffSubmit then (case issued of None \<Rightarrow> '''' | Some p \<Rightarrow> p) else '''')"

lemma invoke_admitted_cases:
  obtains (ended) "ctx_err from h" "invoke_admitted cfg from target m b dconn l fresh issued h = give_back l h"
  | (refused) code where
      "invoke_admitted cfg from target m b dconn l fresh issued h = give_back l (post from (Nack (m_exec_id m) code) h)"
  | (routed) rid where "\<not> ctx_err from h" "fresh = Some rid" "mget (hb_inflight h) rid = None"
      "m_op m = OpHandoffSubmit \<longrightarrow> hc_execution cfg \<and> issued \<noteq> None"
      "invoke_admitted cfg from target m b dconn l fresh issued h =
        (case send dconn (routed_message cfg b rid (proof_for m issued) m)
            (with_route rid (new_route from target m b l h) h) of
           (h2, EnqOk) \<Rightarrow> h2
         | (h2, _) \<Rightarrow> detach target (shut dconn (fail_device target DeviceOffline h2)))"
proof (cases "ctx_err from h")
  case True
  then show thesis by (intro ended) (simp_all add: invoke_admitted_def)
next
  case False
  show thesis
  proof (cases fresh)
    case None
    then show thesis using False by (intro refused [of RelayError]) (simp add: invoke_admitted_def)
  next
    case (Some rid)
    consider (taken) "mget (hb_inflight h) rid \<noteq> None"
      | (no_authority) "mget (hb_inflight h) rid = None" "m_op m = OpHandoffSubmit \<and> \<not> hc_execution cfg"
      | (not_issued) "mget (hb_inflight h) rid = None" "m_op m = OpHandoffSubmit \<and> hc_execution cfg \<and> issued = None"
      | (ok) "mget (hb_inflight h) rid = None" "m_op m = OpHandoffSubmit \<longrightarrow> hc_execution cfg \<and> issued \<noteq> None"
      by blast
    then show thesis
    proof cases
      case taken
      then show thesis using False Some by (intro refused [of RelayError]) (simp add: invoke_admitted_def)
    next
      case no_authority
      then show thesis using False Some by (intro refused [of Unauthorized]) (simp add: invoke_admitted_def)
    next
      case not_issued
      then show thesis using False Some by (intro refused [of RelayError]) (simp add: invoke_admitted_def)
    next
      case ok
      then have n: "\<not> (m_op m = OpHandoffSubmit \<and> \<not> hc_execution cfg)" "\<not> (m_op m = OpHandoffSubmit \<and> issued = None)"
        by auto
      show thesis using False Some ok n
        by (intro routed [of rid]; cases "m_op m = OpHandoffSubmit"; cases issued)
           (simp_all add: invoke_admitted_def Let_def with_route_def new_route_def proof_for_def)
    qed
  qed
qed

lemma with_route_inv:
  assumes inv: "hub_inv h" and b: "mget (hb_clients h) from = Some b" "cs_target b = target"
    and key: "mget (hb_requests h) (from, m_exec_id m) = None"
    and d: "mget (hb_devices h) target = Some d" "ds_conn d = Some dconn"
      "dev_uid (ds_record d) = b_device_uid (cs_access b)"
    and acq: "acquire (b_device_uid (cs_access b)) (hb_admission h) = Inr (p, l)"
    and fresh: "mget (hb_inflight h) rid = None"
  shows "hub_inv (with_route rid (new_route from target m b l h) (h\<lparr>hb_admission := p\<rparr>))"
proof -
  let ?t = "new_route from target m b l h"
  have "task_ok h ?t" using b d acquire_Inr(1) [OF acq] by (simp add: new_route_def task_ok_def)
  then show ?thesis using add_route_inv [OF inv fresh, of ?t p "Suc (hb_next h)"] key acq
    by (simp add: with_route_def new_route_def)
qed

lemma invoke_admitted_inv:
  assumes inv: "hub_inv h" and b: "mget (hb_clients h) from = Some b" "cs_target b = target"
    and key: "mget (hb_requests h) (from, m_exec_id m) = None"
    and d: "mget (hb_devices h) target = Some d" "ds_conn d = Some dconn"
      "dev_uid (ds_record d) = b_device_uid (cs_access b)"
    and acq: "acquire (b_device_uid (cs_access b)) (hb_admission h) = Inr (p, l)"
  shows "hub_inv (invoke_admitted cfg from target m b dconn l fresh issued (h\<lparr>hb_admission := p\<rparr>))"
proof (rule invoke_admitted_cases [of "from" "h\<lparr>hb_admission := p\<rparr>" cfg target m b dconn l fresh issued])
  assume "invoke_admitted cfg from target m b dconn l fresh issued (h\<lparr>hb_admission := p\<rparr>) = give_back l (h\<lparr>hb_admission := p\<rparr>)"
  then show ?thesis using give_back_inv [OF inv acq] by simp
next
  fix code
  assume "invoke_admitted cfg from target m b dconn l fresh issued (h\<lparr>hb_admission := p\<rparr>)
    = give_back l (post from (Nack (m_exec_id m) code) (h\<lparr>hb_admission := p\<rparr>))"
  then show ?thesis using give_back_inv [OF inv acq] by (simp add: give_back_post post_inv)
next
  fix rid
  let ?h1 = "with_route rid (new_route from target m b l (h\<lparr>hb_admission := p\<rparr>)) (h\<lparr>hb_admission := p\<rparr>)"
  assume fresh: "mget (hb_inflight (h\<lparr>hb_admission := p\<rparr>)) rid = None"
    and r: "invoke_admitted cfg from target m b dconn l fresh issued (h\<lparr>hb_admission := p\<rparr>) =
        (case send dconn (routed_message cfg b rid (proof_for m issued) m) ?h1 of
           (h2, EnqOk) \<Rightarrow> h2
         | (h2, _) \<Rightarrow> detach target (shut dconn (fail_device target DeviceOffline h2)))"
  have "new_route from target m b l (h\<lparr>hb_admission := p\<rparr>) = new_route from target m b l h"
    by (simp add: new_route_def)
  then have i: "hub_inv ?h1" using with_route_inv [OF inv b key d acq] fresh by simp
  obtain h2 e where s: "send dconn (routed_message cfg b rid (proof_for m issued) m) ?h1 = (h2, e)" by (rule prod.exhaust)
  show ?thesis unfolding r s using detach_send_fail [OF i s] fail_shut_detach_inv
    by (cases e) simp_all
qed

text \<open>\<open>handleInvoke\<close> either refuses with one nack, or reaches the admission with everything checked.\<close>

lemma invoke_section_cases:
  obtains (refused) code where "invoke_section cfg from target m fresh issued h = post from (Nack (m_exec_id m) code) h"
      "code \<noteq> ''''"
  | (admitted) b d dconn p l where
      "mget (hb_clients h) from = Some b" "cs_target b = target"
      "binding_matches (cs_access b) (access_of h target)" "m_exec_id m \<noteq> ''''"
      "mget (hb_requests h) (from, m_exec_id m) = None"
      "mget (hb_devices h) target = Some d" "ds_conn d = Some dconn" "ds_online d" "ds_ready d"
      "dev_uid (ds_record d) = b_device_uid (cs_access b)" "dev_inbound (ds_record d)"
      "acquire (b_device_uid (cs_access b)) (hb_admission h) = Inr (p, l)"
      "invoke_section cfg from target m fresh issued h
         = invoke_admitted cfg from target m b dconn l fresh issued (h\<lparr>hb_admission := p\<rparr>)"
proof (cases "mget (hb_clients h) from")
  case None
  then show thesis by (intro refused [of Unauthorized]) (simp_all add: invoke_section_def)
next
  case (Some b)
  note b = this
  consider (a) "cs_target b \<noteq> target \<or> \<not> binding_matches (cs_access b) (access_of h target)"
    | (e) "cs_target b = target" "binding_matches (cs_access b) (access_of h target)"
        "m_exec_id m = '''' \<or> mget (hb_requests h) (from, m_exec_id m) \<noteq> None"
    | (ok) "cs_target b = target" "binding_matches (cs_access b) (access_of h target)" "m_exec_id m \<noteq> ''''"
        "mget (hb_requests h) (from, m_exec_id m) = None" by blast
  then show thesis
  proof cases
    case a
    then show thesis using b by (intro refused [of Unauthorized]) (auto simp: invoke_section_def)
  next
    case e
    then show thesis using b by (intro refused [of AgentError]) (auto simp: invoke_section_def)
  next
    case ok
    note base = b ok
    show thesis
    proof (cases "\<exists>d dconn. mget (hb_devices h) target = Some d \<and> ds_conn d = Some dconn \<and> ds_online d \<and> ds_ready d
        \<and> dev_uid (ds_record d) = b_device_uid (cs_access b)")
      case False
      then show thesis using base
        by (intro refused [of DeviceOffline]) (auto simp: invoke_section_def split: option.split)
    next
      case True
      then obtain d dconn where d: "mget (hb_devices h) target = Some d" "ds_conn d = Some dconn" "ds_online d"
        "ds_ready d" "dev_uid (ds_record d) = b_device_uid (cs_access b)" by blast
      show thesis
      proof (cases "dev_inbound (ds_record d)")
        case False
        then show thesis using base d
          by (intro refused [of InboundDisabled]) (simp_all add: invoke_section_def)
      next
        case True
        show thesis
        proof (cases "acquire (b_device_uid (cs_access b)) (hb_admission h)")
          case (Inl e)
          show thesis
          proof (cases e)
            case AdmLimit
            then show thesis using base d True Inl
              by (intro refused [of QuotaExceeded]) (simp_all add: invoke_section_def)
          next
            case AdmInvalidRequest
            then show thesis using base d True Inl
              by (intro refused [of RelayError]) (simp_all add: invoke_section_def)
          qed
        next
          case (Inr pl)
          then show thesis using base d True
            by (intro admitted [of b d dconn "fst pl" "snd pl"])
               (simp_all add: invoke_section_def prod.case_eq_if)
        qed
      qed
    qed
  qed
qed

lemma invoke_section_inv:
  assumes "hub_inv h" shows "hub_inv (invoke_section cfg from target m fresh issued h)"
proof (rule invoke_section_cases [of cfg "from" target m fresh issued h])
  fix code
  assume "invoke_section cfg from target m fresh issued h = post from (Nack (m_exec_id m) code) h"
  then show ?thesis using assms by (simp add: post_inv)
next
  fix b d dconn p l
  assume "mget (hb_clients h) from = Some b" "cs_target b = target"
    "mget (hb_requests h) (from, m_exec_id m) = None"
    "mget (hb_devices h) target = Some d" "ds_conn d = Some dconn"
    "dev_uid (ds_record d) = b_device_uid (cs_access b)"
    "acquire (b_device_uid (cs_access b)) (hb_admission h) = Inr (p, l)"
    and r: "invoke_section cfg from target m fresh issued h
         = invoke_admitted cfg from target m b dconn l fresh issued (h\<lparr>hb_admission := p\<rparr>)"
  from invoke_admitted_inv [OF assms this(1-7)] show ?thesis by (simp add: r)
qed

lemma handle_cancel_inv:
  assumes "hub_inv h" shows "hub_inv (handle_cancel from eid h)"
proof -
  have "hub_inv (h\<lparr>hb_inflight := mput rid (t\<lparr>tk_cancelled := True\<rparr>) (hb_inflight h)\<rparr>)"
    if "mget (hb_inflight h) rid = Some t" for rid t
  proof -
    have "task_ok h t" using assms that by (simp add: hub_inv_def live_ok_def)
    then show ?thesis
      using set_task_inv [OF assms that, of "t\<lparr>tk_cancelled := True\<rparr>"]
      by (simp add: same_route_def set_task_def task_ok_def)
  qed
  then show ?thesis using assms
    by (auto simp: handle_cancel_def Let_def split: option.split intro!: post_inv tell_device_inv)
qed

lemma handle_invoke_inv: "hub_inv h \<Longrightarrow> hub_inv (handle_invoke cfg from target m code fresh issued h)"
  by (simp add: handle_invoke_def handle_cancel_inv post_inv invoke_section_inv)

lemma task_out: "hub_inv h \<Longrightarrow> mget (hb_inflight h) rid = Some t \<Longrightarrow> 0 \<le> tk_out t \<and> tk_out t \<le> MaxExecOutputBytes"
  by (auto simp: hub_inv_def live_ok_def task_ok_def)

lemma deliver_inv:
  assumes inv: "hub_inv h" and t: "mget (hb_inflight h) rid = Some t"
  shows "hub_inv (deliver rid t m h)"
proof -
  obtain h1 r where s: "send (tk_client t) (client_view t m) h = (h1, r)" by (rule prod.exhaust)
  have i: "hub_inv h1" "mget (hb_inflight h1) rid = Some t"
    using detach_send_fail [OF inv s] t send_frame(5) [OF s] by simp_all
  have "hub_inv (set_task rid (t\<lparr>tk_trunc := True\<rparr>) h1)"
    using task_out [OF inv t] by (intro set_task_inv [OF i]) (simp_all add: same_route_def)
  then show ?thesis using i(1) s
    by (auto simp: deliver_def split: enq_result.split intro: finish_inv shut_inv drop_client_inv)
qed

lemma forward_inv: "hub_inv h \<Longrightarrow> hub_inv (forward_to_client from m h)"
proof -
  assume inv: "hub_inv h"
  have st: "hub_inv (set_task rid (t\<lparr>tk_trunc := True\<rparr>) h)"
    "hub_inv (set_task rid (t\<lparr>tk_out := MaxExecOutputBytes, tk_trunc := True\<rparr>) h)"
    "n \<le> MaxExecOutputBytes - tk_out t \<Longrightarrow> 0 \<le> n \<Longrightarrow> hub_inv (set_task rid (t\<lparr>tk_out := tk_out t + n\<rparr>) h)"
    if "mget (hb_inflight h) rid = Some t" for rid t n
    using task_out [OF inv that] by (intro set_task_inv [OF inv that]; simp add: same_route_def)+
  have "mget (hb_inflight (set_task rid t h)) rid = Some t" for rid t by (simp add: set_task_def)
  then show ?thesis using st inv
    by (auto simp: forward_to_client_def Let_def not_less split: option.split intro!: deliver_inv)
qed

lemma note_dropped_inv: "hub_inv h \<Longrightarrow> hub_inv (note_dropped_output from m h)"
  by (auto simp: note_dropped_output_def same_route_def task_out split: option.split intro!: set_task_inv)

lemma drop_conn_inv: "hub_inv h \<Longrightarrow> hub_inv (drop_conn c role did h)"
  by (auto simp: drop_conn_def split: option.split intro: fail_detach_inv drop_client_inv)

lemma stop_device_routing_inv: "hub_inv h \<Longrightarrow> hub_inv (stop_device_routing c h)"
  by (auto simp: stop_device_routing_def split: option.split intro: fail_detach_inv)

lemma reject_identity_inv: "hub_inv h \<Longrightarrow> hub_inv (reject_identity c code h)"
  by (auto simp: reject_identity_def intro: post_inv shut_inv stop_device_routing_inv)

text \<open>A change of the record of a connected device that keeps its uid.\<close>

lemma update_record_inv:
  assumes inv: "hub_inv h" and d: "mget (hb_devices h) did = Some d"
    and d': "ds_conn d' = ds_conn d" "dev_uid (ds_record d') = dev_uid (ds_record d)"
  shows "hub_inv (h\<lparr>hb_devices := mput did d' (hb_devices h)\<rparr>)"
proof -
  have "task_ok (h\<lparr>hb_devices := mput did d' (hb_devices h)\<rparr>) t" if "mget (hb_inflight h) rid = Some t" for rid t
  proof -
    have "task_ok h t" using inv that by (simp add: hub_inv_def live_ok_def)
    then show ?thesis using d d' by (auto simp: task_ok_def)
  qed
  then show ?thesis using inv by (simp add: hub_inv_def live_ok_def)
qed

text \<open>Cancelling routes in place keeps everything else.\<close>

lemma revoke_foreground_inv: "hub_inv h \<Longrightarrow> hub_inv (revoke_foreground did h)"
proof -
  assume inv: "hub_inv h"
  let ?f = "\<lambda>rid t. if tk_device t = did \<and> tk_operation t = OpExec then t\<lparr>tk_cancelled := True\<rparr> else t"
  let ?h = "revoke_foreground did h"
  have g: "mget (hb_inflight ?h) rid = map_option (?f rid) (mget (hb_inflight h) rid)" for rid
    unfolding revoke_foreground_def using mget_map_values [of ?f "hb_inflight h" rid] by simp
  have same: "same_route t (?f rid t) \<and> tk_out (?f rid t) = tk_out t" for rid t by (simp add: same_route_def)
  have dist: "mdistinct (hb_inflight ?h)" using inv
    by (simp add: revoke_foreground_def hub_inv_def routes_ok_def comp_def case_prod_unfold)
  have fr: "hb_requests ?h = hb_requests h" "hb_admission ?h = hb_admission h" "hb_clients ?h = hb_clients h"
    "hb_devices ?h = hb_devices h"
    by (simp_all add: revoke_foreground_def)
  have held: "held_by u (hb_inflight ?h) = held_by u (hb_inflight h)" for u
  proof -
    have "count_entries (\<lambda>_ t. device (tk_lease t) = u) (map (\<lambda>(r, t). (r, ?f r t)) m)
        = count_entries (\<lambda>_ t. device (tk_lease t) = u) m" for m
      by (induction m) auto
    then show ?thesis by (simp add: held_by_def revoke_foreground_def)
  qed
  have "routes_ok ?h"
  proof -
    have fwd: "\<And>r u. mget (hb_inflight h) r = Some u \<Longrightarrow> mget (hb_requests h) (tk_client u, tk_request u) = Some r"
      and bwd: "\<And>k r. mget (hb_requests h) k = Some r \<Longrightarrow>
        \<exists>u. mget (hb_inflight h) r = Some u \<and> k = (tk_client u, tk_request u)"
      using inv by (simp_all add: hub_inv_def routes_ok_def)
    have "\<exists>u. mget (hb_inflight ?h) r = Some u \<and> k = (tk_client u, tk_request u)"
      if "mget (hb_requests h) k = Some r" for k r
    proof -
      obtain u where u: "mget (hb_inflight h) r = Some u" "k = (tk_client u, tk_request u)"
        using bwd [OF \<open>mget (hb_requests h) k = Some r\<close>] by blast
      then have "mget (hb_inflight ?h) r = Some (?f r u)" by (simp add: g)
      then show ?thesis using u(2) same [of u] unfolding same_route_def by metis
    qed
    moreover have "mget (hb_requests h) (tk_client u, tk_request u) = Some r"
      if "mget (hb_inflight ?h) r = Some u" for r u
      using that fwd same by (auto simp: g same_route_def)
    ultimately show ?thesis using dist inv by (simp add: routes_ok_def fr hub_inv_def)
  qed
  moreover have "leases_ok ?h"
    using inv same by (auto simp: hub_inv_def leases_ok_def fr held g same_route_def)
  moreover have "live_ok ?h"
    using inv same by (auto simp: hub_inv_def live_ok_def task_ok_def fr g same_route_def)
  ultimately show ?thesis by (simp add: hub_inv_def)
qed

lemma settings_commit_inv:
  assumes inv: "hub_inv h" and law: "\<And>rec. answer = Inr rec \<Longrightarrow> same_uid h did ident rec"
  shows "hub_inv (settings_commit cfg from did ident m answer h)"
proof (cases answer)
  case (Inl e)
  then show ?thesis by (simp add: settings_commit_def reject_identity_inv [OF inv])
next
  case (Inr rec)
  show ?thesis
  proof (cases "mget (hb_devices h) did")
    case None
    then show ?thesis using inv Inr by (simp add: settings_commit_def)
  next
    case (Some d)
    show ?thesis
    proof (cases "ds_ident d = ident")
      case False
      then show ?thesis using inv Inr Some by (simp add: settings_commit_def)
    next
      case True
      have uid: "dev_uid rec = dev_uid (ds_record d)" using law [OF Inr] Some True by (simp add: same_uid_def)
      show ?thesis
      proof (cases "m_type m = TypeRevoke")
        case True
        let ?h1 = "shut from (fail_device did DeviceOffline h)"
        have i: "hub_inv ?h1" "unrouted did ?h1"
          by (rule shut_inv [OF fail_device_inv [OF inv]],
              rule unrouted_conns [OF fail_device_unrouted [OF inv] conns_only_shut])
        have "hub_inv (?h1\<lparr>hb_devices := mdel did (hb_devices ?h1)\<rparr>)"
          by (rule replace_slot_inv [OF i]) simp
        then have "hub_inv (?h1\<lparr>hb_devices := mdel did (hb_devices ?h1)\<rparr>\<lparr>hb_access := mdel did (hb_access ?h1)\<rparr>)"
          by (simp only: hub_inv_access)
        then show ?thesis using True Inr Some \<open>ds_ident d = ident\<close> by (simp add: settings_commit_def Let_def)
      next
        case False
        define h1 where "h1 = h\<lparr>hb_devices := mput did (d\<lparr>ds_record := rec\<rparr>) (hb_devices h)\<rparr>
          \<lparr>hb_access := mput did (device_binding rec) (hb_access h)\<rparr>"
        define h2 where "h2 = (if dev_inbound (ds_record d) \<and> \<not> dev_inbound rec then revoke_foreground did h1 else h1)"
        obtain h3 e where s: "send from (settings_result cfg m rec) h2 = (h3, e)" by (rule prod.exhaust)
        have "hub_inv h1" unfolding h1_def hub_inv_access
          by (rule update_record_inv [OF inv Some]) (simp_all add: uid)
        then have "hub_inv h2" by (simp add: h2_def revoke_foreground_inv)
        then have i3: "hub_inv h3" using detach_send_fail [OF _ s] by simp
        have "mget (hb_devices h3) did = Some (d\<lparr>ds_record := rec\<rparr>)"
          using send_frame(2) [OF s] by (simp add: h2_def h1_def revoke_foreground_def)
        then have "hub_inv (h3\<lparr>hb_devices := mput did (d\<lparr>ds_record := rec, ds_ready := True\<rparr>) (hb_devices h3)\<rparr>)"
          by (rule update_record_inv [OF i3]) simp_all
        moreover have "settings_commit cfg from did ident m answer h = (case (h3, e) of
            (h3, EnqOk) \<Rightarrow> h3\<lparr>hb_devices := mput did (d\<lparr>ds_record := rec, ds_ready := True\<rparr>) (hb_devices h3)\<rparr>
          | (h3, _) \<Rightarrow> shut from (stop_device_routing from h3))"
          unfolding s [symmetric] h2_def h1_def
          using False Inr Some \<open>ds_ident d = ident\<close> by (simp add: settings_commit_def Let_def)
        ultimately show ?thesis using i3
          by (cases e) (auto intro: shut_inv stop_device_routing_inv)
      qed
    qed
  qed
qed

lemma evict_loop_frame:
  "hb_devices (evict_loop did cs h) = hb_devices h \<and> hb_inflight (evict_loop did cs h) = hb_inflight h
   \<and> hb_requests (evict_loop did cs h) = hb_requests h \<and> hb_admission (evict_loop did cs h) = hb_admission h
   \<and> hb_access (evict_loop did cs h) = hb_access h \<and> hb_next (evict_loop did cs h) = hb_next h"
  by (induction did cs h rule: evict_loop.induct) simp_all

lemma evict_loop_clients:
  "mget (hb_clients (evict_loop did cs h)) c =
     (if \<exists>b. (c, b) \<in> set cs \<and> cs_target b = did then None else mget (hb_clients h) c)"
  by (induction did cs h rule: evict_loop.induct) auto

lemma evict_clients_of:
  "mdistinct (hb_clients h) \<Longrightarrow> mget (hb_clients (evict_loop did (hb_clients h) h)) c =
     (case mget (hb_clients h) c of None \<Rightarrow> None | Some b \<Rightarrow> if cs_target b = did then None else Some b)"
proof (cases "mget (hb_clients h) c")
  case None
  assume "mdistinct (hb_clients h)"
  then show ?thesis using None by (simp add: evict_loop_clients)
next
  case (Some b)
  assume d: "mdistinct (hb_clients h)"
  then have "(c, b') \<in> set (hb_clients h) \<longleftrightarrow> b' = b" for b'
    using mget_in_set [OF d, of c b'] Some by auto
  then show ?thesis using Some by (simp add: evict_loop_clients)
qed

lemma invalidate_ownership_inv:
  assumes inv: "hub_inv h" shows "hub_inv (invalidate_ownership did h)"
proof -
  let ?h1 = "invalidate_loop did (hb_inflight h) h"
  have i: "hub_inv ?h1" by (rule thinned_inv [OF invalidate_thins inv])
  have u: "tk_device t \<noteq> did" if "mget (hb_inflight ?h1) rid = Some t" for rid t
    using thinned_where [OF _ invalidate_thins [of did h], of rid] inv that
    by (auto simp: hub_inv_def split: option.splits if_splits)
  note f = evict_loop_frame [of did "hb_clients ?h1" ?h1]
  have "task_ok (evict_loop did (hb_clients ?h1) ?h1) t" if t: "mget (hb_inflight ?h1) rid = Some t" for rid t
  proof -
    have ok: "task_ok ?h1 t" using i t by (simp add: hub_inv_def live_ok_def)
    have "mget (hb_clients (evict_loop did (hb_clients ?h1) ?h1)) (tk_client t) = Some (tk_binding t)"
    proof -
      have "cs_target (tk_binding t) \<noteq> did" using ok u [OF t] by (simp add: task_ok_def)
      moreover have "mget (hb_clients ?h1) (tk_client t) = Some (tk_binding t)" using ok by (simp add: task_ok_def)
      ultimately show ?thesis using i by (simp add: evict_clients_of hub_inv_def live_ok_def)
    qed
    then show ?thesis using ok f by (simp add: task_ok_def)
  qed
  moreover have "mdistinct (hb_clients (evict_loop did cs g))" if "mdistinct (hb_clients g)" for cs g
    using that by (induction did cs g rule: evict_loop.induct) simp_all
  ultimately have "live_ok (invalidate_ownership did h)" using f i
    by (simp add: live_ok_def invalidate_ownership_def Let_def hub_inv_def)
  moreover have "routes_ok (invalidate_ownership did h)"
    using i f unfolding hub_inv_def routes_ok_def invalidate_ownership_def Let_def by simp
  moreover have "leases_ok (invalidate_ownership did h)"
    using i f by (subst leases_cong [of ?h1]) (simp_all add: hub_inv_def invalidate_ownership_def Let_def)
  ultimately show ?thesis by (simp add: hub_inv_def)
qed

lemma invalidate_frame [simp]:
  "hb_devices (invalidate_ownership did h) = hb_devices h" "hb_access (invalidate_ownership did h) = hb_access h"
  "hb_next (invalidate_ownership did h) = hb_next h"
  using evict_loop_frame [of did] invalidate_thins [of did h]
  by (simp_all add: invalidate_ownership_def Let_def thinned_def)

lemma access_commit_inv:
  assumes inv: "hub_inv h" and law: "\<And>mu. answer = Inr mu \<Longrightarrow> same_uid h did ident (mu_device mu)"
  shows "hub_inv (access_commit cfg from did ident expected key action answer shown h)"
proof (cases answer)
  case (Inl e)
  then show ?thesis using inv
    by (auto simp: access_commit_def Let_def intro!: shut_inv post_inv stop_device_routing_inv)
next
  case (Inr mu)
  define h1 where "h1 = (case mget (hb_devices h) did of
                None \<Rightarrow> h
              | Some d \<Rightarrow>
                  if ds_ident d \<noteq> ident then h
                  else let h' = (if dev_ownership expected \<noteq> dev_ownership (mu_device mu)
                                 then invalidate_ownership did h else h)
                       in h'\<lparr>hb_devices := mput did (d\<lparr>ds_record := mu_device mu\<rparr>) (hb_devices h'),
                             hb_access := mput did (device_binding (mu_device mu)) (hb_access h')\<rparr>)"
  have i1: "hub_inv h1"
  proof (cases "mget (hb_devices h) did")
    case None
    then show ?thesis using inv by (simp add: h1_def)
  next
    case (Some d)
    show ?thesis
    proof (cases "ds_ident d = ident")
      case False
      then show ?thesis using inv Some by (simp add: h1_def)
    next
      case True
      define h' where "h' = (if dev_ownership expected \<noteq> dev_ownership (mu_device mu)
                                 then invalidate_ownership did h else h)"
      have i': "hub_inv h'" "hb_devices h' = hb_devices h"
        using inv invalidate_ownership_inv by (simp_all add: h'_def)
      have "hub_inv (h'\<lparr>hb_devices := mput did (d\<lparr>ds_record := mu_device mu\<rparr>) (hb_devices h')\<rparr>)"
        using law [OF Inr] True Some i'(2)
        by (intro update_record_inv [OF i'(1), of did d]) (simp_all add: same_uid_def)
      then have "hub_inv (h'\<lparr>hb_devices := mput did (d\<lparr>ds_record := mu_device mu\<rparr>) (hb_devices h')\<rparr>
          \<lparr>hb_access := mput did (device_binding (mu_device mu)) (hb_access h')\<rparr>)"
        by (simp only: hub_inv_access)
      then show ?thesis using Some True by (simp add: h1_def h'_def Let_def)
    qed
  qed
  obtain h2 e where s: "send from ((access_reply key '''')\<lparr>m_payload := shown,
      m_device_context := Some (hub_device_context cfg (mu_device mu))\<rparr>) h1 = (h2, e)"
    by (rule prod.exhaust)
  have "access_commit cfg from did ident expected key action answer shown h
      = (case (h2, e) of (h2, EnqOk) \<Rightarrow> h2 | (h2, _) \<Rightarrow> shut from (stop_device_routing from h2))"
    unfolding s [symmetric] h1_def by (simp add: access_commit_def Inr Let_def)
  then show ?thesis using detach_send_fail [OF i1 s]
    by (cases e) (auto intro: shut_inv stop_device_routing_inv)
qed

lemma evict_old_inv:
  assumes inv: "hub_inv h" and fresh: "\<And>d. mget (hb_devices h) did = Some d \<Longrightarrow> ds_conn d \<noteq> Some conn"
  shows "hub_inv (evict_old did conn h)" "unrouted did (evict_old did conn h)"
proof -
  have "hub_inv (evict_old did conn h) \<and> unrouted did (evict_old did conn h)"
  proof (cases "\<exists>d c. mget (hb_devices h) did = Some d \<and> ds_conn d = Some c")
    case True
    then obtain d c where d: "mget (hb_devices h) did = Some d" "ds_conn d = Some c" by blast
    then have "c \<noteq> conn" using fresh by blast
    then have "evict_old did conn h = shut c (fail_device did DeviceOffline h)" using d by (simp add: evict_old_def)
    then show ?thesis using shut_inv [OF fail_device_inv [OF inv]]
        unrouted_conns [OF fail_device_unrouted [OF inv] conns_only_shut] by simp
  next
    case False
    then have "evict_old did conn h = h" by (auto simp: evict_old_def split: option.split)
    moreover have "unrouted did h"
      using False by (intro idle_device_unrouted [OF inv]) (auto split: option.split)
    ultimately show ?thesis using inv by simp
  qed
  then show "hub_inv (evict_old did conn h)" "unrouted did (evict_old did conn h)" by simp_all
qed

lemma evict_old_frame [simp]:
  "hb_devices (evict_old did conn h) = hb_devices h" "hb_access (evict_old did conn h) = hb_access h"
  "hb_clients (evict_old did conn h) = hb_clients h" "hb_next (evict_old did conn h) = hb_next h"
  by (simp_all add: evict_old_def split: option.split)

lemma publish_device_inv:
  assumes "hub_inv h" "unrouted did h" shows "hub_inv (publish_device did rec conn h)"
proof -
  let ?ds = "mput did \<lparr>ds_conn = Some conn, ds_record = rec, ds_online = True, ds_ready = False,
     ds_ident = hb_next h\<rparr> (hb_devices h)"
  have "hub_inv (h\<lparr>hb_devices := ?ds\<rparr>)" by (rule replace_slot_inv [OF assms]) simp
  then have "hub_inv (h\<lparr>hb_devices := ?ds\<rparr>\<lparr>hb_access := mput did (device_binding rec) (hb_access h)\<rparr>
      \<lparr>hb_next := Suc (hb_next h)\<rparr>)"
    by (simp only: hub_inv_access hub_inv_next)
  then show ?thesis by (simp add: publish_device_def)
qed

lemma error_codes_nonempty [simp]:
  "identity_error_code e \<noteq> ''''" "principal_error_code e \<noteq> ''''" "access_error_code e \<noteq> ''''"
  by (cases e; simp)+

text \<open>Registering either publishes the connection and answers with no code, or changes outboxes only.\<close>

lemma register_device_cases:
  obtains (up) rec where "register_device cfg did sh answer ended conn h =
      (publish_device did rec conn (evict_old did conn (post conn (hello_ok RoleDevice None) h)), '''')"
  | (refused) code u where "register_device cfg did sh answer ended conn h = (u, code)" "code \<noteq> ''''" "conns_only h u"
proof (cases answer)
  case (Inl e)
  then show thesis
    by (intro refused [of h "if hc_store cfg then identity_error_code e else RelayError"])
       (simp_all add: register_device_def)
next
  case (Inr rec0)
  let ?bad = "ended \<or> \<not> hc_store cfg \<and> (case mget (hb_devices h) did of None \<Rightarrow> False
      | Some d \<Rightarrow> dev_secret_hash (ds_record d) \<noteq> sh)"
  show thesis
  proof (cases ?bad)
    case True
    then show thesis using Inr
      by (intro refused [of h "if ended then RelayError else Unauthorized"]) (auto simp: register_device_def Let_def)
  next
    case False
    obtain h1 e where s: "send conn (hello_ok RoleDevice None) h = (h1, e)" by (rule prod.exhaust)
    let ?rec = "if hc_store cfg then rec0 else case mget (hb_devices h) did of None \<Rightarrow> rec0 | Some d \<Rightarrow> ds_record d"
    have r: "register_device cfg did sh answer ended conn h = (case (h1, e) of
        (h1, EnqOk) \<Rightarrow> (publish_device did ?rec conn (evict_old did conn h1), '''') | (h1, _) \<Rightarrow> (h1, RelayError))"
      using False Inr unfolding s [symmetric]
      by (cases "hc_store cfg") (simp_all add: register_device_def Let_def)
    have c: "conns_only h h1" by (simp add: send_frame(1) [OF s])
    show thesis
      using r c send_frame(1) [OF s] by (cases e) (auto intro: up [of ?rec] refused [of h1 RelayError])
  qed
qed

lemma register_device_inv:
  assumes inv: "hub_inv h" and fresh: "\<And>d. mget (hb_devices h) did = Some d \<Longrightarrow> ds_conn d \<noteq> Some conn"
  shows "hub_inv (fst (register_device cfg did sh answer ended conn h))"
proof (rule register_device_cases [of cfg did sh answer ended conn h])
  fix rec
  let ?h1 = "post conn (hello_ok RoleDevice None) h"
  have f: "\<And>d. mget (hb_devices ?h1) did = Some d \<Longrightarrow> ds_conn d \<noteq> Some conn" using fresh by simp
  assume "register_device cfg did sh answer ended conn h = (publish_device did rec conn (evict_old did conn ?h1), '''')"
  then show ?thesis using publish_device_inv evict_old_inv [OF post_inv [OF inv] f] by simp
qed (use hub_inv_conns [OF inv] in auto)

lemma client_identity_code: "client_identity cfg tok account = Inl code \<Longrightarrow> code \<noteq> ''''"
  by (auto simp: client_identity_def split: if_splits sum.splits)

lemma client_record_code: "client_record cfg loaded resolved = Inl code \<Longrightarrow> code \<noteq> ''''"
  by (auto simp: client_record_def split: if_splits sum.splits)

definition publish_client :: "string \<Rightarrow> device \<Rightarrow> client_slot \<Rightarrow> nat \<Rightarrow> hub \<Rightarrow> hub" where
  "publish_client target rec b conn h = h\<lparr>hb_access := mput target (device_binding rec) (hb_access h),
     hb_clients := mput conn b (hb_clients h)\<rparr>"

lemma register_client_section_cases:
  obtains (up) rec b mode where "register_client_section target want who found ended conn h =
      (publish_client target rec b conn (post conn (hello_ok RoleClient mode) h), '''')"
      "cs_target b = target" "cs_access b = device_binding rec" "cs_identity b = fst who"
      "\<not> ended"
      "(case found of None \<Rightarrow> map_option (\<lambda>d. (ds_record d, no_authorization)) (mget (hb_devices h) target)
          | Some x \<Rightarrow> Some x) = Some (rec, cs_authorization b)
       \<or> dev_ownership rec = '''' \<and> dev_grant_hash rec \<noteq> '''' \<and> dev_grant_hash rec = want"
  | (refused) code u where "register_client_section target want who found ended conn h = (u, code)"
      "code \<noteq> ''''" "conns_only h u"
proof (cases "ended")
  case True
  then show thesis by (intro refused [of h RelayError]) (simp_all add: register_client_section_def)
next
  case False
  note run = this
  let ?found = "case found of None \<Rightarrow> map_option (\<lambda>d. (ds_record d, no_authorization)) (mget (hb_devices h) target)
          | Some x \<Rightarrow> Some x"
  show thesis
  proof (cases ?found)
    case None
    then show thesis using run
      by (intro refused [of h UnknownDevice]) (simp_all add: register_client_section_def)
  next
    case (Some p)
    obtain rec decided where p: "p = (rec, decided)" by (rule prod.exhaust)
    let ?bad = "dev_ownership rec = '''' \<and> (dev_grant_hash rec = '''' \<or> dev_grant_hash rec \<noteq> want
             \<or> dev_uid rec = '''' \<or> dev_grant_id rec = '''')"
    show thesis
    proof (cases ?bad)
      case True
      then show thesis using run Some p
        by (intro refused [of h Unauthorized]) (simp_all add: register_client_section_def)
    next
      case False
      let ?decision = "if dev_ownership rec = ''''
                           then no_authorization\<lparr>a_binding := device_binding rec, a_permissions := all_permissions\<rparr>
                           else decided"
      let ?b = "\<lparr>cs_target = target, cs_access = device_binding rec,
                          cs_identity = fst who, cs_authorization = ?decision\<rparr>"
      obtain h1 e where s: "send conn (hello_ok RoleClient (Some (snd who))) h = (h1, e)" by (rule prod.exhaust)
      have r: "register_client_section target want who found ended conn h = (case (h1, e) of
          (h1, EnqOk) \<Rightarrow> (publish_client target rec ?b conn h1, '''') | (h1, _) \<Rightarrow> (h1, RelayError))"
        unfolding s [symmetric] using run Some p False
        by (simp add: register_client_section_def Let_def publish_client_def)
      have c: "conns_only h h1" by (simp add: send_frame(1) [OF s])
      show thesis
      proof (cases e)
        case EnqOk
        show thesis
          by (rule up [of rec ?b "Some (snd who)"]) (use r EnqOk send_frame(1) [OF s] run Some p False in auto)
      next
        case EnqDropped
        then show thesis using r c by (intro refused [of h1 RelayError]) simp_all
      next
        case EnqClosed
        then show thesis using r c by (intro refused [of h1 RelayError]) simp_all
      qed
    qed
  qed
qed

lemma register_client_cases:
  obtains (up) rec b mode where "register_client cfg target want tok account loaded resolved ended conn h =
      (publish_client target rec b conn (post conn (hello_ok RoleClient mode) h), '''')"
      "cs_target b = target" "cs_access b = device_binding rec"
  | (refused) code u where "register_client cfg target want tok account loaded resolved ended conn h = (u, code)"
      "code \<noteq> ''''" "conns_only h u"
proof (cases "client_identity cfg tok account")
  case (Inl code)
  then show thesis using client_identity_code
    by (intro refused [of h code]) (simp_all add: register_client_def)
next
  case (Inr who)
  note w = this
  show thesis
  proof (cases "client_record cfg loaded resolved")
    case (Inl code)
    then show thesis using w client_record_code
      by (intro refused [of h code]) (simp_all add: register_client_def)
  next
    case (Inr found)
    have r: "register_client cfg target want tok account loaded resolved ended conn h
        = register_client_section target want who found ended conn h"
      using w Inr by (simp add: register_client_def)
    show thesis
      by (rule register_client_section_cases [of target want who found ended conn h])
         (use r up refused in auto)
  qed
qed

lemma register_client_inv:
  assumes inv: "hub_inv h" and fresh: "mget (hb_clients h) conn = None"
  shows "hub_inv (fst (register_client cfg target want tok account loaded resolved ended conn h))"
proof (rule register_client_cases [of cfg target want tok account loaded resolved ended conn h])
  fix rec b mode
  let ?h1 = "post conn (hello_ok RoleClient mode) h"
  assume r: "register_client cfg target want tok account loaded resolved ended conn h
    = (publish_client target rec b conn ?h1, '''')"
  have i: "hub_inv ?h1" using inv by (rule post_inv)
  have "task_ok (publish_client target rec b conn ?h1) t" if "mget (hb_inflight ?h1) rid = Some t" for rid t
    using i that fresh by (auto simp: publish_client_def hub_inv_def live_ok_def task_ok_def)
  then show ?thesis using i unfolding r by (simp add: hub_inv_def live_ok_def publish_client_def)
qed (use hub_inv_conns [OF inv] in auto)

end
