(* ===== verification/HubSession.thy ===== *)
theory HubSession
  imports HubInvariant
begin

text \<open>
  The connection between the router and the sessions of \<open>serveConn\<close>: a device slot or a client binding
  names a connection only while that connection's session has this role and target. \<open>calmer\<close> is what every
  section except a registration does to the connections: it may drop them, never add or move one.
\<close>

section \<open>Sections that add no connection\<close>

definition calmer :: "hub \<Rightarrow> hub \<Rightarrow> bool" where
  "calmer h h' \<longleftrightarrow> (mdistinct (hb_devices h) \<longrightarrow> mdistinct (hb_devices h'))
     \<and> (\<forall>did d c. mget (hb_devices h') did = Some d \<and> ds_conn d = Some c
          \<longrightarrow> (\<exists>d'. mget (hb_devices h) did = Some d' \<and> ds_conn d' = Some c))
     \<and> (\<forall>c b. mget (hb_clients h') c = Some b \<longrightarrow> mget (hb_clients h) c = Some b)"

lemma calmer_trans: "calmer h u \<Longrightarrow> calmer u v \<Longrightarrow> calmer h v"
  unfolding calmer_def by metis

lemma calmer_same: "hb_devices h' = hb_devices h \<Longrightarrow> hb_clients h' = hb_clients h \<Longrightarrow> calmer h h'"
  by (simp add: calmer_def)

lemma calmer_refl [simp, intro]: "calmer h h"
  by (rule calmer_same) simp_all

lemma calmer_then: "calmer h u \<Longrightarrow> hb_devices v = hb_devices u \<Longrightarrow> hb_clients v = hb_clients u \<Longrightarrow> calmer h v"
  by (erule calmer_trans) (rule calmer_same)

lemma calmer_post [intro]: "calmer h u \<Longrightarrow> calmer h (post c m u)"
  by (erule calmer_then) simp_all

lemma calmer_shut [intro]: "calmer h u \<Longrightarrow> calmer h (shut c u)"
  by (erule calmer_then) simp_all

lemma calmer_tell [intro]: "calmer h u \<Longrightarrow> calmer h (tell_device did m u)"
  by (erule calmer_then) simp_all

lemma calmer_fail [intro]: "calmer h u \<Longrightarrow> calmer h (fail_device did code u)"
  by (erule calmer_then) simp_all

lemma calmer_finish [intro]: "calmer h u \<Longrightarrow> calmer h (finish_invocation rid u)"
  using thinned_finish [of rid u] by (elim calmer_then) (simp_all add: thinned_def)

lemma calmer_set_task [intro]: "calmer h u \<Longrightarrow> calmer h (set_task rid t u)"
  by (erule calmer_then) (simp_all add: set_task_def)

lemma calmer_send: "calmer h u \<Longrightarrow> send c m u = (v, r) \<Longrightarrow> calmer h v"
  by (erule calmer_then) (simp_all add: send_frame)

lemma calmer_detach [intro]: "calmer h u \<Longrightarrow> calmer h (detach did u)"
  by (erule calmer_trans) (auto simp: calmer_def detach_def split: option.splits if_splits)

lemma calmer_drop_client [intro]: "calmer h u \<Longrightarrow> calmer h (drop_client c u)"
  by (erule calmer_trans) (auto simp: calmer_def drop_client_def Let_def split: if_splits)

lemma calmer_slot:
  assumes "calmer h u" "mget (hb_devices u) did = Some d" "ds_conn d' = ds_conn d"
    "hb_devices v = mput did d' (hb_devices u)" "hb_clients v = hb_clients u"
  shows "calmer h v"
  by (rule calmer_trans [OF assms(1)]) (use assms(2-) in \<open>auto simp: calmer_def\<close>)

lemma calmer_remove:
  assumes "calmer h u" "hb_devices v = mdel did (hb_devices u)" "hb_clients v = hb_clients u"
  shows "calmer h v"
  by (rule calmer_trans [OF assms(1)]) (use assms(2-) in \<open>auto simp: calmer_def split: if_splits\<close>)

section \<open>The handlers\<close>

lemma calmer_stop [intro]: "calmer h u \<Longrightarrow> calmer h (stop_device_routing c u)"
  by (auto simp: stop_device_routing_def split: option.split)

lemma calmer_drop_conn [intro]: "calmer h u \<Longrightarrow> calmer h (drop_conn c role did u)"
  by (auto simp: drop_conn_def split: option.split)

lemma calmer_reject: "calmer h (reject_identity c code h)"
  by (auto simp: reject_identity_def)

lemma calmer_cancel: "calmer h (handle_cancel c eid h)"
  unfolding handle_cancel_def Let_def
  by (auto split: option.split intro!: calmer_post calmer_tell calmer_same)

lemma calmer_invoke_admitted:
  "calmer h (invoke_admitted cfg from target m b dconn l fresh issued h)"
proof (rule invoke_admitted_cases [of "from" h cfg target m b dconn l fresh issued])
  fix rid
  let ?h1 = "with_route rid (new_route from target m b l h) h"
  assume r: "invoke_admitted cfg from target m b dconn l fresh issued h =
        (case send dconn (routed_message cfg b rid (proof_for m issued) m) ?h1 of
           (h2, EnqOk) \<Rightarrow> h2
         | (h2, _) \<Rightarrow> detach target (shut dconn (fail_device target DeviceOffline h2)))"
  obtain h2 e where s: "send dconn (routed_message cfg b rid (proof_for m issued) m) ?h1 = (h2, e)" by (rule prod.exhaust)
  have "calmer h ?h1" by (rule calmer_same) (simp_all add: with_route_def)
  from calmer_send [OF this s] show ?thesis unfolding r s by (cases e) auto
qed (auto simp: give_back_def intro: calmer_same)

lemma calmer_invoke: "calmer h (handle_invoke cfg from target m code fresh issued h)"
proof -
  have "calmer h (invoke_section cfg from target m fresh issued h)"
  proof (rule invoke_section_cases [of cfg "from" target m fresh issued h])
    fix b dconn p l
    assume "invoke_section cfg from target m fresh issued h
         = invoke_admitted cfg from target m b dconn l fresh issued (h\<lparr>hb_admission := p\<rparr>)"
    moreover have "calmer h (h\<lparr>hb_admission := p\<rparr>)" by (rule calmer_same) simp_all
    ultimately show ?thesis using calmer_invoke_admitted calmer_trans by metis
  qed auto
  then show ?thesis by (auto simp: handle_invoke_def calmer_cancel)
qed

lemma calmer_deliver: "calmer h u \<Longrightarrow> calmer h (deliver rid t m u)"
proof -
  assume c: "calmer h u"
  obtain v r where s: "send (tk_client t) (client_view t m) u = (v, r)" by (rule prod.exhaust)
  from calmer_send [OF c s] show ?thesis unfolding deliver_def s by (cases r) auto
qed

lemma calmer_forward: "calmer h (forward_to_client c m h)"
  by (auto simp: forward_to_client_def Let_def split: option.split intro!: calmer_deliver)

lemma calmer_note: "calmer h (note_dropped_output c m h)"
  by (auto simp: note_dropped_output_def split: option.split)

lemma calmer_settings: "calmer h (settings_commit cfg from did ident m answer h)"
proof (cases answer)
  case (Inl e)
  then show ?thesis by (simp add: settings_commit_def calmer_reject)
next
  case (Inr rec)
  show ?thesis
  proof (cases "mget (hb_devices h) did")
    case None
    then show ?thesis using Inr by (simp add: settings_commit_def)
  next
    case (Some d)
    consider (other) "ds_ident d \<noteq> ident" | (revoke) "ds_ident d = ident" "m_type m = TypeRevoke"
      | (set) "ds_ident d = ident" "m_type m \<noteq> TypeRevoke" by blast
    then show ?thesis
    proof cases
      case other
      then show ?thesis using Inr Some by (simp add: settings_commit_def)
    next
      case revoke
      have "calmer h (shut from (fail_device did DeviceOffline h))" by auto
      from calmer_remove [OF this, of "settings_commit cfg from did ident m answer h" did]
      show ?thesis using Inr Some revoke by (simp add: settings_commit_def Let_def)
    next
      case set
      define h1 where "h1 = h\<lparr>hb_devices := mput did (d\<lparr>ds_record := rec\<rparr>) (hb_devices h),
                        hb_access := mput did (device_binding rec) (hb_access h)\<rparr>"
      define h2 where "h2 = (if dev_inbound (ds_record d) \<and> \<not> dev_inbound rec then revoke_foreground did h1 else h1)"
      obtain h3 e where s: "send from (settings_result cfg m rec) h2 = (h3, e)" by (rule prod.exhaust)
      have c1: "calmer h h1"
        by (rule calmer_slot [of h h did d "d\<lparr>ds_record := rec\<rparr>"]) (simp_all add: Some h1_def)
      have c2: "calmer h h2" unfolding h2_def using c1
        by (simp add: calmer_then [OF c1] revoke_foreground_def)
      have d3: "mget (hb_devices h3) did = Some (d\<lparr>ds_record := rec\<rparr>)"
        using send_frame(2) [OF s] by (simp add: h2_def h1_def revoke_foreground_def)
      have "settings_commit cfg from did ident m answer h = (case (h3, e) of
          (h3, EnqOk) \<Rightarrow> h3\<lparr>hb_devices := mput did (d\<lparr>ds_record := rec, ds_ready := True\<rparr>) (hb_devices h3)\<rparr>
        | (h3, _) \<Rightarrow> shut from (stop_device_routing from h3))"
        unfolding s [symmetric] h2_def h1_def using Inr Some set by (simp add: settings_commit_def Let_def)
      note r = this
      show ?thesis
      proof (cases e)
        case EnqOk
        then show ?thesis unfolding r
          by (intro calmer_slot [OF calmer_send [OF c2 s] d3, of "d\<lparr>ds_record := rec, ds_ready := True\<rparr>"]) simp_all
      next
        case EnqDropped
        then show ?thesis unfolding r using calmer_shut [OF calmer_stop [OF calmer_send [OF c2 s]]] by simp
      next
        case EnqClosed
        then show ?thesis unfolding r using calmer_shut [OF calmer_stop [OF calmer_send [OF c2 s]]] by simp
      qed
    qed
  qed
qed

lemma calmer_invalidate: "calmer h (invalidate_ownership did h)"
proof -
  let ?h1 = "invalidate_loop did (hb_inflight h) h"
  have t: "hb_devices ?h1 = hb_devices h" "hb_clients ?h1 = hb_clients h"
    using invalidate_thins [of did h] by (simp_all add: thinned_def)
  have c: "mget (hb_clients (invalidate_ownership did h)) c = Some b \<Longrightarrow> mget (hb_clients h) c = Some b" for c b
    using t(2) by (simp add: invalidate_ownership_def Let_def evict_loop_clients split: if_splits)
  show ?thesis unfolding calmer_def invalidate_frame using c by blast
qed

lemma calmer_access: "calmer h (access_commit cfg from did ident expected key action answer shown h)"
proof (cases answer)
  case (Inl e)
  then show ?thesis by (auto simp: access_commit_def Let_def)
next
  case (Inr mu)
  define h1 where "h1 = (case mget (hb_devices h) did of
                None \<Rightarrow> h
              | Some d \<Rightarrow>
                  if ds_ident d \<noteq> ident then h
                  else let h' = (if dev_ownership expected \<noteq> dev_ownership (mu_device mu)
                                 then invalidate_ownership did h else h)
                       in h'\<lparr>hb_devices := mput did (d\<lparr>ds_record := mu_device mu\<rparr>) (hb_devices h'),
                             hb_access := mput did (device_binding (mu_device mu)) (hb_access h')\<rparr>)"
  have c1: "calmer h h1"
  proof (cases "mget (hb_devices h) did")
    case (Some d)
    define h' where "h' = (if dev_ownership expected \<noteq> dev_ownership (mu_device mu)
                                 then invalidate_ownership did h else h)"
    have c: "calmer h h'" "hb_devices h' = hb_devices h" by (simp_all add: h'_def calmer_invalidate)
    show ?thesis
    proof (cases "ds_ident d = ident")
      case True
      have "h1 = h'\<lparr>hb_devices := mput did (d\<lparr>ds_record := mu_device mu\<rparr>) (hb_devices h'),
                             hb_access := mput did (device_binding (mu_device mu)) (hb_access h')\<rparr>"
        unfolding h1_def h'_def Let_def by (simp only: Some True option.case simp_thms if_False)
      then show ?thesis using Some c
        by - (rule calmer_slot [of h h' did d "d\<lparr>ds_record := mu_device mu\<rparr>"], simp_all)
    qed (simp add: h1_def Some)
  qed (simp add: h1_def)
  obtain h2 e where s: "send from ((access_reply key '''')\<lparr>m_payload := shown,
      m_device_context := Some (hub_device_context cfg (mu_device mu))\<rparr>) h1 = (h2, e)"
    by (rule prod.exhaust)
  have "access_commit cfg from did ident expected key action answer shown h
      = (case (h2, e) of (h2, EnqOk) \<Rightarrow> h2 | (h2, _) \<Rightarrow> shut from (stop_device_routing from h2))"
    unfolding s [symmetric] h1_def by (simp add: access_commit_def Inr Let_def)
  then show ?thesis using calmer_send [OF c1 s] by (cases e) auto
qed

section \<open>Sessions\<close>

lemma session_calmer:
  assumes "session_ok s" "calmer (rl_hub s) h'"
  shows "session_ok (s\<lparr>rl_hub := h'\<rparr>)"
  using assms unfolding session_ok_def calmer_def by simp metis

lemma session_fresh:
  assumes "session_ok s" "mget (rl_sessions s) c = None"
  shows "mget (hb_clients (rl_hub s)) c = None"
    "mget (hb_devices (rl_hub s)) did = Some d \<Longrightarrow> ds_conn d \<noteq> Some c"
  using assms unfolding session_ok_def by (metis option.distinct(1) option.exhaust)+

lemma calmer_conns_only: "conns_only h u \<Longrightarrow> calmer h u"
  by (auto simp: conns_only_def intro: calmer_same)

lemma calmer_conns [simp]: "calmer h (h\<lparr>hb_conns := cs\<rparr>)"
  by (rule calmer_same) simp_all

lemma session_refused:
  assumes "session_ok s" "conns_only (rl_hub s) u" "code \<noteq> ''''"
  shows "session_ok (enrol c role did (u, code) s)"
  using assms calmer_conns_only [OF assms(2)]
  by (auto simp: enrol_def refuse_hello_def intro!: session_calmer)

lemma evict_old_calmer: "calmer h (evict_old did conn h)"
  by (rule calmer_same) simp_all

lemma session_device:
  assumes ok: "session_ok s" and new: "mget (rl_sessions s) c = None"
  shows "session_ok (enrol c RoleDevice did (register_device cfg did sh answer ended c (rl_hub s)) s)"
proof (rule register_device_cases [of cfg did sh answer ended c "rl_hub s"])
  fix rec
  let ?h = "publish_device did rec c (evict_old did c (post c (hello_ok RoleDevice None) (rl_hub s)))"
  assume r: "register_device cfg did sh answer ended c (rl_hub s) = (?h, '''')"
  have "mdistinct (hb_devices ?h)" using ok by (simp add: publish_device_def session_ok_def)
  moreover have "mget (mput c (RoleDevice, did) (rl_sessions s)) x = Some (RoleDevice, k)"
    if "mget (hb_devices ?h) k = Some d \<and> ds_conn d = Some x" for k d x
  proof (cases "k = did")
    case True
    then show ?thesis using that by (auto simp: publish_device_def)
  next
    case False
    then have d: "mget (hb_devices (rl_hub s)) k = Some d" "ds_conn d = Some x"
      using that by (simp_all add: publish_device_def)
    then have "x \<noteq> c" using session_fresh(2) [OF ok new] by auto
    then show ?thesis using ok d unfolding session_ok_def by simp
  qed
  moreover have "mget (mput c (RoleDevice, did) (rl_sessions s)) x = Some (RoleClient, cs_target b)"
    if "mget (hb_clients ?h) x = Some b" for x b
  proof -
    have b: "mget (hb_clients (rl_hub s)) x = Some b" using that by (simp add: publish_device_def)
    then have "x \<noteq> c" using session_fresh(1) [OF ok new] by auto
    then show ?thesis using ok b unfolding session_ok_def by simp
  qed
  ultimately show ?thesis unfolding r enrol_def session_ok_def by simp
qed (use session_refused [OF ok] in auto)

lemma session_client:
  assumes ok: "session_ok s" and new: "mget (rl_sessions s) c = None"
  shows "session_ok (enrol c RoleClient target
     (register_client cfg target want tok account loaded resolved ended c (rl_hub s)) s)"
proof (rule register_client_cases [of cfg target want tok account loaded resolved ended c "rl_hub s"])
  fix rec b mode
  let ?h = "publish_client target rec b c (post c (hello_ok RoleClient mode) (rl_hub s))"
  assume r: "register_client cfg target want tok account loaded resolved ended c (rl_hub s) = (?h, '''')"
    and t: "cs_target b = target"
  have "mdistinct (hb_devices ?h)" using ok by (simp add: publish_client_def session_ok_def)
  moreover have "mget (mput c (RoleClient, target) (rl_sessions s)) x = Some (RoleDevice, k)"
    if "mget (hb_devices ?h) k = Some d \<and> ds_conn d = Some x" for k d x
  proof -
    have d: "mget (hb_devices (rl_hub s)) k = Some d" "ds_conn d = Some x"
      using that by (simp_all add: publish_client_def)
    then have "x \<noteq> c" using session_fresh(2) [OF ok new] by auto
    then show ?thesis using ok d unfolding session_ok_def by simp
  qed
  moreover have "mget (mput c (RoleClient, target) (rl_sessions s)) x = Some (RoleClient, cs_target b')"
    if "mget (hb_clients ?h) x = Some b'" for x b'
    using that ok t by (cases "x = c") (auto simp: publish_client_def session_ok_def)
  ultimately show ?thesis unfolding r enrol_def session_ok_def by simp
qed (use session_refused [OF ok] in auto)

text \<open>The end of a connection removes every use of it.\<close>

lemma session_disconnect:
  assumes ok: "session_ok s" and role: "mget (rl_sessions s) c = Some (role, did)"
  shows "session_ok \<lparr>rl_hub = shut c (drop_conn c role did (rl_hub s)), rl_sessions = mdel c (rl_sessions s)\<rparr>"
proof -
  let ?h = "shut c (drop_conn c role did (rl_hub s))"
  have cm: "calmer (rl_hub s) ?h" by auto
  then have m: "mdistinct (hb_devices ?h)" using ok by (simp only: calmer_def session_ok_def)
  have nd: "ds_conn d \<noteq> Some c" if d: "mget (hb_devices ?h) k = Some d" for k d
  proof
    assume c: "ds_conn d = Some c"
    then obtain d' where d': "mget (hb_devices (rl_hub s)) k = Some d'" "ds_conn d' = Some c"
      using cm d unfolding calmer_def by metis
    then have k: "role = RoleDevice" "k = did" using ok role unfolding session_ok_def by auto
    then have "mget (hb_devices ?h) did = Some (d'\<lparr>ds_online := False, ds_conn := None\<rparr>)"
      using d' by (simp add: drop_conn_def detach_def)
    then show False using d c k by auto
  qed
  have nc: "mget (hb_clients ?h) c = None"
  proof (cases "role = RoleDevice")
    case True
    then have "mget (hb_clients (rl_hub s)) c = None"
      using ok role unfolding session_ok_def by (cases "mget (hb_clients (rl_hub s)) c") auto
    then show ?thesis using cm unfolding calmer_def by (metis option.exhaust option.distinct(1))
  next
    case False
    then show ?thesis by (simp add: drop_conn_def drop_client_def Let_def)
  qed
  have dev: "mget (mdel c (rl_sessions s)) x = Some (RoleDevice, k)"
    if "mget (hb_devices ?h) k = Some d \<and> ds_conn d = Some x" for k d x
    using session_calmer [OF ok cm] that nd [of k d] unfolding session_ok_def by auto
  have cl: "mget (mdel c (rl_sessions s)) x = Some (RoleClient, cs_target b)"
    if "mget (hb_clients ?h) x = Some b" for x b
    using session_calmer [OF ok cm] that nc unfolding session_ok_def by auto
  show ?thesis unfolding session_ok_def using m dev cl by simp
qed

section \<open>Every reachable state\<close>

lemma hub_step_session: "hub_step cfg s s' \<Longrightarrow> session_ok s \<Longrightarrow> session_ok s'"
  by (induction rule: hub_step.induct)
     (auto intro: session_device session_client session_disconnect session_calmer calmer_invoke calmer_forward
        calmer_note calmer_settings calmer_access calmer_conns_only calmer_reject
        simp: renew_commit_def renew_route_commit_def split: option.split)

lemma enrol_inv: "hub_inv (fst r) \<Longrightarrow> hub_inv (rl_hub (enrol c role did r s))"
  by (auto simp: enrol_def refuse_hello_def)

lemma hub_step_inv: "hub_step cfg s s' \<Longrightarrow> session_ok s \<Longrightarrow> hub_inv (rl_hub s) \<Longrightarrow> hub_inv (rl_hub s')"
proof (induction rule: hub_step.induct)
  case (hello_device s c did sh answer ended)
  then show ?case using session_fresh(2) by (blast intro: enrol_inv register_device_inv)
next
  case (hello_client s c target want tok account loaded resolved ended)
  then show ?case using session_fresh(1) by (blast intro: enrol_inv register_client_inv)
next
  case (settings s c did answer ident m)
  then show ?case by (simp add: settings_commit_inv)
next
  case (manage_access s c did answer ident expected key action shown)
  then show ?case by (simp add: access_commit_inv)
next
  case (outbox_event s e c)
  then show ?case using hub_inv_conns [OF _ conns_only_update] by simp
qed (auto simp: handle_invoke_inv forward_inv note_dropped_inv drop_conn_inv reject_identity_inv renew_commit_def renew_route_commit_def
   split: option.split)

lemma hub_start_inv: "new_service limit = Some p \<Longrightarrow> hub_inv (new_hub p)"
  by (auto simp: hub_inv_def routes_ok_def leases_ok_def live_ok_def new_hub_def held_by_def new_service_def
     active_count_def split: if_splits)

lemma reachable_ok: "hub_reachable cfg s \<Longrightarrow> hub_inv (rl_hub s) \<and> session_ok s"
proof (induction rule: hub_reachable.induct)
  case (hub_start limit p)
  then show ?case using hub_start_inv by (auto simp: session_ok_def new_hub_def)
next
  case (hub_next s s')
  then show ?case using hub_step_inv hub_step_session by blast
qed

end
