(* ===== verification/HubMoves.thy ===== *)
theory HubMoves
  imports HubSession
begin

text \<open>
  Every section of the router is a sequence of small moves: put a message into one outbox, close one, finish
  a route, record one, mark one, or replace a table that concerns no route. What each move keeps, every
  handler and every reachable state keep: the bounds of all outboxes, and the fact that a cancelled route stays cancelled.
\<close>

inductive move :: "hub \<Rightarrow> hub \<Rightarrow> bool" where
  posted: "move h (post c m h)"
| closed: "move h (shut c h)"
| finished: "move h (finish_invocation rid h)"
| marked: "mget (hb_inflight h) rid = Some t \<Longrightarrow> same_route t t' \<Longrightarrow> (tk_cancelled t \<longrightarrow> tk_cancelled t') \<Longrightarrow>
     move h (set_task rid t' h)"
| recorded: "tk_ident t = hb_next h \<Longrightarrow> move h (with_route rid t h)"
| tables: "hb_conns u = hb_conns h \<Longrightarrow> hb_inflight u = hb_inflight h \<Longrightarrow> hb_next h \<le> hb_next u \<Longrightarrow> move h u"
| foreground: "move h (revoke_foreground did h)"

definition moves :: "hub \<Rightarrow> hub \<Rightarrow> bool" where
  "moves h u \<longleftrightarrow> move\<^sup>*\<^sup>* h u"

named_theorems move_intros

lemma moves_refl [move_intros]: "moves h h" by (simp add: moves_def)

lemma moves_trans: "moves h u \<Longrightarrow> moves u v \<Longrightarrow> moves h v" by (simp add: moves_def)

lemma moves_then: "moves h u \<Longrightarrow> move u v \<Longrightarrow> moves h v" by (auto simp: moves_def)

lemma moves_tables:
  "moves h u \<Longrightarrow> hb_conns v = hb_conns u \<Longrightarrow> hb_inflight v = hb_inflight u \<Longrightarrow> hb_next u \<le> hb_next v \<Longrightarrow> moves h v"
  by (erule moves_then) (rule tables)

lemma moves_post [move_intros]: "moves h u \<Longrightarrow> moves h (post c m u)"
  by (erule moves_then) (rule posted)

lemma moves_shut [move_intros]: "moves h u \<Longrightarrow> moves h (shut c u)"
  by (erule moves_then) (rule closed)

lemma moves_finish [move_intros]: "moves h u \<Longrightarrow> moves h (finish_invocation rid u)"
  by (erule moves_then) (rule finished)

lemma moves_tell [move_intros]: "moves h u \<Longrightarrow> moves h (tell_device did m u)"
  by (auto simp: tell_device_def intro: move_intros split: option.split)

lemma moves_send: "moves h u \<Longrightarrow> send c m u = (v, r) \<Longrightarrow> moves h v"
  using moves_post [of h u c m] by (simp add: send_frame(1) [symmetric])

lemma moves_detach [move_intros]: "moves h u \<Longrightarrow> moves h (detach did u)"
  by (erule moves_tables) (auto simp: detach_def split: option.split)

lemma moves_fail_loop: "moves h u \<Longrightarrow> moves h (fail_loop did code es u)"
  by (induction did code es u rule: fail_loop.induct) (auto intro: move_intros)

lemma moves_fail [move_intros]: "moves h u \<Longrightarrow> moves h (fail_device did code u)"
  by (simp add: fail_device_def moves_fail_loop)

lemma moves_cancel_loop: "moves h u \<Longrightarrow> moves h (cancel_loop c es u)"
  by (induction c es u rule: cancel_loop.induct) (auto intro: move_intros)

lemma moves_drop_client [move_intros]: "moves h u \<Longrightarrow> moves h (drop_client c u)"
  by (rule moves_tables [OF moves_cancel_loop [of h u c "hb_inflight u"]])
     (simp_all add: drop_client_def cancel_client_def Let_def)

lemma moves_stop [move_intros]: "moves h u \<Longrightarrow> moves h (stop_device_routing c u)"
  by (auto simp: stop_device_routing_def intro: move_intros split: option.split)

lemma moves_reject: "moves h (reject_identity c code h)"
  by (auto simp: reject_identity_def intro: move_intros)

lemma moves_drop_conn [move_intros]: "moves h u \<Longrightarrow> moves h (drop_conn c role did u)"
  by (auto simp: drop_conn_def intro: move_intros split: option.split)

lemma moves_marked:
  "moves h u \<Longrightarrow> mget (hb_inflight u) rid = Some t \<Longrightarrow> same_route t t' \<Longrightarrow> tk_cancelled t' = tk_cancelled t \<Longrightarrow>
   moves h (set_task rid t' u)"
  by (erule moves_then) (auto intro: marked)

section \<open>The handlers as moves\<close>

lemma moves_invalidate_loop: "moves h u \<Longrightarrow> moves h (invalidate_loop did es u)"
  by (induction did es u rule: invalidate_loop.induct) (auto intro: move_intros)

lemma moves_evict_loop: "moves h u \<Longrightarrow> moves h (evict_loop did cs u)"
proof (induction did cs u rule: evict_loop.induct)
  case (2 did c b cs u)
  have "moves h (u\<lparr>hb_clients := mdel c (hb_clients u)\<rparr>)" by (rule moves_tables [OF 2(3)]) simp_all
  then show ?case using 2 by (auto intro: move_intros)
qed simp

lemma moves_invalidate: "moves h u \<Longrightarrow> moves h (invalidate_ownership did u)"
  by (simp add: invalidate_ownership_def Let_def moves_evict_loop moves_invalidate_loop)

lemma moves_cancel: "moves h (handle_cancel c eid h)"
proof -
  have "moves h (h\<lparr>hb_inflight := mput rid (t\<lparr>tk_cancelled := True\<rparr>) (hb_inflight h)\<rparr>)"
    if "mget (hb_inflight h) rid = Some t" for rid t
    using moves_then [OF moves_refl marked [OF that, of "t\<lparr>tk_cancelled := True\<rparr>"]]
    by (simp add: same_route_def set_task_def)
  then show ?thesis
    by (auto simp: handle_cancel_def Let_def split: option.split intro!: moves_post moves_tell moves_refl)
qed

lemma moves_give_back: "moves h u \<Longrightarrow> moves h (give_back l u)"
  by (erule moves_tables) (simp_all add: give_back_def)

lemma moves_invoke_admitted:
  assumes base: "moves h0 h" shows "moves h0 (invoke_admitted cfg from target m b dconn l fresh issued h)"
proof (rule invoke_admitted_cases [of "from" h cfg target m b dconn l fresh issued])
  fix rid
  let ?h1 = "with_route rid (new_route from target m b l h) h"
  assume r: "invoke_admitted cfg from target m b dconn l fresh issued h =
        (case send dconn (routed_message cfg b rid (proof_for m issued) m) ?h1 of
           (h2, EnqOk) \<Rightarrow> h2
         | (h2, _) \<Rightarrow> detach target (shut dconn (fail_device target DeviceOffline h2)))"
  obtain h2 e where s: "send dconn (routed_message cfg b rid (proof_for m issued) m) ?h1 = (h2, e)" by (rule prod.exhaust)
  have "move h ?h1" by (rule recorded) (simp add: new_route_def)
  from moves_send [OF moves_then [OF base this] s] show ?thesis unfolding r s
    by (cases e) (auto intro: move_intros)
qed (auto intro: moves_give_back moves_post base)

lemma moves_invoke: "moves h (handle_invoke cfg from target m code fresh issued h)"
proof -
  have "moves h (invoke_section cfg from target m fresh issued h)"
  proof (rule invoke_section_cases [of cfg "from" target m fresh issued h])
    fix b dconn p l
    assume r: "invoke_section cfg from target m fresh issued h
         = invoke_admitted cfg from target m b dconn l fresh issued (h\<lparr>hb_admission := p\<rparr>)"
    have "moves h (h\<lparr>hb_admission := p\<rparr>)" by (rule moves_tables [OF moves_refl]) simp_all
    then show ?thesis unfolding r by (rule moves_invoke_admitted)
  qed (auto intro: move_intros)
  then show ?thesis by (auto simp: handle_invoke_def moves_cancel intro: move_intros)
qed

lemma moves_deliver:
  assumes c: "moves h u" and t: "mget (hb_inflight u) rid = Some t"
  shows "moves h (deliver rid t m u)"
proof -
  obtain v r where s: "send (tk_client t) (client_view t m) u = (v, r)" by (rule prod.exhaust)
  have "mget (hb_inflight v) rid = Some t" using t send_frame(5) [OF s] by simp
  from moves_send [OF c s] moves_marked [OF moves_send [OF c s] this, of "t\<lparr>tk_trunc := True\<rparr>"]
  show ?thesis unfolding deliver_def s by (cases r) (auto simp: same_route_def intro: move_intros)
qed

lemma moves_forward: "moves h (forward_to_client c m h)"
proof -
  have st: "moves h (set_task rid t' h)"
    if "mget (hb_inflight h) rid = Some t" "same_route t t'" "tk_cancelled t' = tk_cancelled t" for rid t t'
    by (rule moves_marked [OF moves_refl that])
  have s: "mget (hb_inflight (set_task rid t h)) rid = Some t" for rid t by (simp add: set_task_def)
  show ?thesis
    by (auto simp: forward_to_client_def Let_def same_route_def split: option.split
        intro!: moves_deliver [OF st] moves_deliver [OF moves_refl] st s moves_refl)
qed

lemma moves_note: "moves h (note_dropped_output c m h)"
  by (auto simp: note_dropped_output_def same_route_def split: option.split
      intro!: moves_marked [OF moves_refl] moves_refl)

lemma moves_settings: "moves h (settings_commit cfg from did ident m answer h)"
proof (cases answer)
  case (Inl e)
  then show ?thesis by (simp add: settings_commit_def moves_reject)
next
  case (Inr rec)
  show ?thesis
  proof (cases "mget (hb_devices h) did")
    case None
    then show ?thesis using Inr by (simp add: settings_commit_def moves_refl)
  next
    case (Some d)
    consider (other) "ds_ident d \<noteq> ident" | (revoke) "ds_ident d = ident" "m_type m = TypeRevoke"
      | (set) "ds_ident d = ident" "m_type m \<noteq> TypeRevoke" by blast
    then show ?thesis
    proof cases
      case other
      then show ?thesis using Inr Some by (simp add: settings_commit_def moves_refl)
    next
      case revoke
      have "moves h (shut from (fail_device did DeviceOffline h))" by (intro move_intros)
      from moves_tables [OF this, of "settings_commit cfg from did ident m answer h"]
      show ?thesis using Inr Some revoke by (simp add: settings_commit_def Let_def)
    next
      case set
      define h1 where "h1 = h\<lparr>hb_devices := mput did (d\<lparr>ds_record := rec\<rparr>) (hb_devices h),
                        hb_access := mput did (device_binding rec) (hb_access h)\<rparr>"
      define h2 where "h2 = (if dev_inbound (ds_record d) \<and> \<not> dev_inbound rec then revoke_foreground did h1 else h1)"
      obtain h3 e where s: "send from (settings_result cfg m rec) h2 = (h3, e)" by (rule prod.exhaust)
      have c1: "moves h h1" unfolding h1_def by (rule moves_tables [OF moves_refl]) simp_all
      have c2: "moves h h2" unfolding h2_def using c1 moves_then [OF c1 foreground] by simp
      note c3 = moves_send [OF c2 s]
      have r: "settings_commit cfg from did ident m answer h = (case (h3, e) of
          (h3, EnqOk) \<Rightarrow> h3\<lparr>hb_devices := mput did (d\<lparr>ds_record := rec, ds_ready := True\<rparr>) (hb_devices h3)\<rparr>
        | (h3, _) \<Rightarrow> shut from (stop_device_routing from h3))"
        unfolding s [symmetric] h2_def h1_def using Inr Some set by (simp add: settings_commit_def Let_def)
      show ?thesis unfolding r
        using moves_shut [OF moves_stop [OF c3], of "from" "from"]
          moves_tables [OF c3, of "h3\<lparr>hb_devices := mput did (d\<lparr>ds_record := rec, ds_ready := True\<rparr>) (hb_devices h3)\<rparr>"]
        by (cases e) simp_all
    qed
  qed
qed

lemma moves_access: "moves h (access_commit cfg from did ident expected key action answer shown h)"
proof (cases answer)
  case (Inl e)
  then show ?thesis by (auto simp: access_commit_def Let_def intro: move_intros)
next
  case (Inr mu)
  define h' where "h' = (if dev_ownership expected \<noteq> dev_ownership (mu_device mu)
                                 then invalidate_ownership did h else h)"
  define h1 where "h1 = (case mget (hb_devices h) did of
                None \<Rightarrow> h
              | Some d \<Rightarrow> if ds_ident d \<noteq> ident then h
                  else h'\<lparr>hb_devices := mput did (d\<lparr>ds_record := mu_device mu\<rparr>) (hb_devices h'),
                          hb_access := mput did (device_binding (mu_device mu)) (hb_access h')\<rparr>)"
  have c': "moves h h'" by (simp add: h'_def moves_refl moves_invalidate)
  have c1: "moves h h1"
  proof (cases "\<exists>d. mget (hb_devices h) did = Some d \<and> ds_ident d = ident")
    case True
    then show ?thesis by (intro moves_tables [OF c']) (auto simp: h1_def)
  qed (auto simp: h1_def moves_refl split: option.split)
  obtain h2 e where s: "send from ((access_reply key '''')\<lparr>m_payload := shown,
      m_device_context := Some (hub_device_context cfg (mu_device mu))\<rparr>) h1 = (h2, e)"
    by (rule prod.exhaust)
  have "access_commit cfg from did ident expected key action answer shown h
      = (case (h2, e) of (h2, EnqOk) \<Rightarrow> h2 | (h2, _) \<Rightarrow> shut from (stop_device_routing from h2))"
    unfolding s [symmetric] h1_def h'_def by (simp only: access_commit_def Inr Let_def sum.case)
  then show ?thesis using moves_send [OF c1 s] by (cases e) (auto intro: move_intros)
qed

lemma moves_conns_refused: "moves h u \<Longrightarrow> moves h (refuse_hello c code u)"
  by (auto simp: refuse_hello_def intro: move_intros)

lemma moves_register_device: "moves h (fst (register_device cfg did sh answer ended conn h))"
proof (cases answer)
  case (Inr rec0)
  obtain h1 e where s: "send conn (hello_ok RoleDevice None) h = (h1, e)" by (rule prod.exhaust)
  note c1 = moves_send [OF moves_refl s]
  have "moves h (publish_device did rec conn (evict_old did conn h1))" for rec
  proof -
    have "moves h (evict_old did conn h1)"
      by (auto simp: evict_old_def intro: c1 move_intros split: option.split)
    then show ?thesis by (rule moves_tables) (simp_all add: publish_device_def)
  qed
  then show ?thesis using c1 s Inr
    by (cases e) (simp_all add: register_device_def Let_def moves_refl)
qed (simp add: register_device_def moves_refl)

lemma moves_register_client:
  "moves h (fst (register_client cfg target want tok account loaded resolved ended conn h))"
proof -
  have sec: "moves h (fst (register_client_section target want who found ended conn h))" for who found
  proof -
    obtain h1 e where s: "send conn (hello_ok RoleClient (Some (snd who))) h = (h1, e)" by (rule prod.exhaust)
    note c1 = moves_send [OF moves_refl s]
    have "moves h (h1\<lparr>hb_access := a, hb_clients := b\<rparr>)" for a b by (rule moves_tables [OF c1]) simp_all
    then show ?thesis using c1 s
      by (cases e) (auto simp: register_client_section_def Let_def moves_refl split: option.split)
  qed
  then show ?thesis
    by (auto simp: register_client_def moves_refl split: sum.split)
qed

lemma moves_enrol: "moves h (fst r) \<Longrightarrow> rl_hub s = h \<Longrightarrow> moves h (rl_hub (enrol c role did r s))"
  by (simp add: enrol_def moves_conns_refused)

section \<open>Every step\<close>

lemma hub_step_moves:
  "hub_step cfg s s' \<Longrightarrow> moves (rl_hub s) (rl_hub s')
   \<or> (\<exists>c e. s' = s\<lparr>rl_hub := (rl_hub s)\<lparr>hb_conns := (hb_conns (rl_hub s))(c := ob_step e (hb_conns (rl_hub s) c))\<rparr>\<rparr>)"
proof (induction rule: hub_step.induct)
  case (outbox_event s c e)
  then show ?case by blast
qed (auto simp: moves_enrol moves_register_device moves_register_client moves_invoke moves_forward moves_note
   moves_settings moves_access moves_reject renew_commit_def renew_route_commit_def intro: move_intros split: option.split)

lemma moves_induct [consumes 2]:
  assumes "moves h u" "P h" "\<And>v w. P v \<Longrightarrow> move v w \<Longrightarrow> P w"
  shows "P u"
  using assms(1,2) unfolding moves_def by (induction rule: rtranclp_induct) (auto intro: assms(3))

lemma hub_step_keeps:
  assumes "hub_step cfg s s'" "P (rl_hub s)" "\<And>v w. P v \<Longrightarrow> move v w \<Longrightarrow> P w"
    "\<And>v c e. P v \<Longrightarrow> P (v\<lparr>hb_conns := (hb_conns v)(c := ob_step e (hb_conns v c))\<rparr>)"
  shows "P (rl_hub s')"
  using hub_step_moves [OF assms(1)]
proof
  assume "moves (rl_hub s) (rl_hub s')"
  then show ?thesis using assms(2) by (rule moves_induct) (rule assms(3))
qed (use assms(2,4) in auto)

end
