(* ===== verification/HubProps.thy ===== *)
theory HubProps
  imports HubMoves
begin

text \<open>
  What the router guarantees: in every reachable state, and of single sections. The demo run at the
  end of the first section registers a device and a client and routes one invocation; the witnesses use it.
\<close>

section \<open>A run\<close>

definition demo_cfg :: hub_config where
  "demo_cfg = \<lparr>hc_store = False, hc_accounts = False, hc_access = False, hc_execution = True, hc_authority = ''''\<rparr>"

definition hub_device :: device where
  "hub_device = \<lparr>dev_uid = ''u'', dev_secret_hash = ''sh'', dev_inbound = True, dev_grant_id = ''g'',
     dev_grant_hash = ''gh'', dev_ownership = '''', dev_owner_tenant = '''', dev_owner_principal = ''''\<rparr>"

definition demo_limit :: service where
  "demo_limit = \<lparr>per_device = 2, active = []\<rparr>"

definition exec_message :: message where
  "exec_message = message0\<lparr>m_type := TypeInvoke, m_exec_id := ''r1'', m_op := OpExec, m_payload := ''ls'', m_secret := ''x''\<rparr>"

definition settings_message :: message where
  "settings_message = message0\<lparr>m_type := TypeDeviceSettings, m_request_id := ''k''\<rparr>"

definition demo0 :: relay where
  "demo0 = \<lparr>rl_hub = new_hub demo_limit, rl_sessions = []\<rparr>"

definition demo1 :: relay where
  "demo1 = enrol 1 RoleDevice ''d''
     (register_device demo_cfg ''d'' ''sh'' (Inr hub_device) False 1 (rl_hub demo0)) demo0"

definition demo2 :: relay where
  "demo2 = demo1\<lparr>rl_hub := settings_commit demo_cfg 1 ''d'' 0 settings_message (Inr hub_device) (rl_hub demo1)\<rparr>"

definition demo3 :: relay where
  "demo3 = enrol 2 RoleClient ''d''
     (register_client demo_cfg ''d'' ''gh'' False (Inl AccessDenied) (Inl AccessDenied) (Inl AccessDenied) False 2
        (rl_hub demo2)) demo2"

definition demo4 :: relay where
  "demo4 = demo3\<lparr>rl_hub := handle_invoke demo_cfg 2 ''d'' exec_message '''' (Some ''i1'') None (rl_hub demo3)\<rparr>"

lemmas demo_defs = demo_cfg_def hub_device_def demo_limit_def exec_message_def settings_message_def demo0_def
  demo1_def demo2_def demo3_def demo4_def

lemma demo4_reachable: "hub_reachable demo_cfg demo4"
proof -
  have r0: "hub_reachable demo_cfg demo0"
    using hub_start [of 2 demo_limit demo_cfg] by (simp add: new_service_def demo_limit_def demo0_def)
  have r1: "hub_reachable demo_cfg demo1"
    by (rule hub_next [OF r0]) (use hello_device [of demo0 1 demo_cfg] in \<open>simp add: demo1_def demo0_def\<close>)
  have "same_uid (rl_hub demo1) ''d'' 0 hub_device" by code_simp
  moreover have "mget (rl_sessions demo1) 1 = Some (RoleDevice, ''d'')" by code_simp
  ultimately have "hub_step demo_cfg demo1 demo2" unfolding demo2_def by (intro settings) simp_all
  from hub_next [OF r1 this] have r2: "hub_reachable demo_cfg demo2" .
  have "hub_step demo_cfg demo2 demo3" unfolding demo3_def by (rule hello_client) code_simp
  from hub_next [OF r2 this] have r3: "hub_reachable demo_cfg demo3" .
  have "hub_step demo_cfg demo3 demo4" unfolding demo4_def
    by (rule invoke [where role = RoleClient]) (code_simp, code_simp)
  from hub_next [OF r3 this] show ?thesis .
qed

definition demo_route :: task where
  "demo_route = snd (hd (hb_inflight (rl_hub demo4)))"

lemma demo4_route: "mget (hb_inflight (rl_hub demo4)) ''i1'' = Some demo_route"
  by code_simp

section \<open>Every reachable state\<close>

definition outboxes_ok :: "hub \<Rightarrow> bool" where
  "outboxes_ok h \<longleftrightarrow> (\<forall>c. ob_reachable (hb_conns h c))"

lemma enqueue_reachable: "ob_reachable b \<Longrightarrow> ob_reachable (fst (enqueue m b))"
  using ob_next [of b "EvEnqueue m"] by simp

lemma close_reachable: "ob_reachable b \<Longrightarrow> ob_reachable (close_outbox b)"
  using ob_next [of b EvClose] by simp

lemma move_outboxes: "move h u \<Longrightarrow> outboxes_ok h \<Longrightarrow> outboxes_ok u"
proof (induction rule: move.induct)
  case (posted h c m)
  have "hb_conns (post c m h) = (hb_conns h)(c := fst (enqueue m (hb_conns h c)))"
    by (simp add: post_def send_def Let_def prod.case_eq_if)
  then show ?case using posted by (simp add: outboxes_ok_def enqueue_reachable)
qed (auto simp: outboxes_ok_def shut_def finish_invocation_def set_task_def with_route_def
        revoke_foreground_def close_reachable split: option.split)

lemma reachable_outboxes: "hub_reachable cfg s \<Longrightarrow> outboxes_ok (rl_hub s)"
proof (induction rule: hub_reachable.induct)
  case (hub_start limit p)
  then show ?case by (simp add: outboxes_ok_def new_hub_def ob_start)
next
  case (hub_next s s')
  show ?case
    by (rule hub_step_keeps [OF hub_next(2), of outboxes_ok, OF hub_next(3)])
       (auto simp: outboxes_ok_def intro: ob_next move_outboxes [unfolded outboxes_ok_def, rule_format])
qed

text \<open>C3. Every route has both of its ends. In every state the relay can reach, a route in flight is found under its
  caller's own request id and under no other, its caller is still the registered client connection with the binding the
  route was admitted under, and its device has a live connection whose record carries the same device uid; the two
  connections are open sessions of those roles, and the output counted against it lies between 0 and 4 MiB.\<close>

theorem routes_have_both_ends:
  assumes "hub_reachable cfg s" "mget (hb_inflight (rl_hub s)) rid = Some t"
  shows "mget (hb_requests (rl_hub s)) (tk_client t, tk_request t) = Some rid
    \<and> (\<forall>k. mget (hb_requests (rl_hub s)) k = Some rid \<longrightarrow> k = (tk_client t, tk_request t))
    \<and> mget (hb_clients (rl_hub s)) (tk_client t) = Some (tk_binding t)
    \<and> mget (rl_sessions s) (tk_client t) = Some (RoleClient, tk_device t)
    \<and> (\<exists>d c. mget (hb_devices (rl_hub s)) (tk_device t) = Some d \<and> ds_conn d = Some c
         \<and> dev_uid (ds_record d) = b_device_uid (cs_access (tk_binding t))
         \<and> mget (rl_sessions s) c = Some (RoleDevice, tk_device t))
    \<and> 0 \<le> tk_out t \<and> tk_out t \<le> MaxExecOutputBytes"
proof -
  have inv: "hub_inv (rl_hub s)" and ok: "session_ok s" using reachable_ok [OF assms(1)] by auto
  have t: "task_ok (rl_hub s) t" using inv assms(2) by (auto simp: hub_inv_def live_ok_def)
  have r: "routes_ok (rl_hub s)" using inv by (simp add: hub_inv_def)
  obtain d c where d: "mget (hb_devices (rl_hub s)) (tk_device t) = Some d" "ds_conn d = Some c"
    "dev_uid (ds_record d) = b_device_uid (cs_access (tk_binding t))" using t by (auto simp: task_ok_def)
  have "mget (rl_sessions s) c = Some (RoleDevice, tk_device t)" using ok d by (simp add: session_ok_def)
  moreover have "mget (rl_sessions s) (tk_client t) = Some (RoleClient, tk_device t)"
    using ok t unfolding session_ok_def task_ok_def by metis
  moreover have "k = (tk_client t, tk_request t)" if "mget (hb_requests (rl_hub s)) k = Some rid" for k
    using r that assms(2) unfolding routes_ok_def by (metis option.inject)
  moreover have "mget (hb_requests (rl_hub s)) (tk_client t, tk_request t) = Some rid"
    using r assms(2) by (simp add: routes_ok_def)
  moreover have "mget (hb_clients (rl_hub s)) (tk_client t) = Some (tk_binding t)"
    "0 \<le> tk_out t" "tk_out t \<le> MaxExecOutputBytes" using t unfolding task_ok_def by blast+
  ultimately show ?thesis using d by blast
qed

theorem routes_have_both_ends_witness:
  "mget (hb_requests (rl_hub demo4)) (tk_client demo_route, tk_request demo_route) = Some ''i1''
   \<and> tk_client demo_route = 2"
  by (rule conjI [OF conjunct1 [OF routes_have_both_ends [OF demo4_reachable demo4_route]]]) code_simp

text \<open>C4. Admission and routing agree. In every state the relay can reach, the number of leases the admission service
  counts for a device uid is the number of routes in flight for it, at most the configured limit, and no lease is lost or kept twice:
  every route in flight holds a lease that was not released.\<close>

theorem leases_match_routes:
  assumes "hub_reachable cfg s"
  shows "active_count (hb_admission (rl_hub s)) uid
      = int (length (filter (\<lambda>(rid, t). b_device_uid (cs_access (tk_binding t)) = uid) (hb_inflight (rl_hub s))))
    \<and> active_count (hb_admission (rl_hub s)) uid \<le> per_device (hb_admission (rl_hub s))
    \<and> (\<forall>(rid, t) \<in> set (hb_inflight (rl_hub s)). \<not> released (tk_lease t))"
proof -
  have inv: "hub_inv (rl_hub s)" using reachable_ok [OF assms] by auto
  then have l: "leases_ok (rl_hub s)" and dist: "mdistinct (hb_inflight (rl_hub s))"
    by (auto simp: hub_inv_def routes_ok_def)
  have t: "task_ok (rl_hub s) t \<and> \<not> released (tk_lease t)" if "(rid, t) \<in> set (hb_inflight (rl_hub s))" for rid t
    using inv that mget_in_set [OF dist, of rid t] by (auto simp: hub_inv_def live_ok_def leases_ok_def)
  have "held_by uid (hb_inflight (rl_hub s))
      = length (filter (\<lambda>(rid, t). b_device_uid (cs_access (tk_binding t)) = uid) (hb_inflight (rl_hub s)))"
    unfolding held_by_def count_entries_def using t
    by (intro arg_cong [of _ _ length] filter_cong) (auto simp: task_ok_def)
  moreover have "active_count (hb_admission (rl_hub s)) uid = int (held_by uid (hb_inflight (rl_hub s)))"
    "active_count (hb_admission (rl_hub s)) uid \<le> per_device (hb_admission (rl_hub s))"
    using l unfolding leases_ok_def by blast+
  ultimately show ?thesis using t by auto
qed

theorem leases_match_routes_witness:
  "active_count (hb_admission (rl_hub demo4)) ''u''
     = int (length (filter (\<lambda>(rid, t). b_device_uid (cs_access (tk_binding t)) = ''u'') (hb_inflight (rl_hub demo4))))
   \<and> hb_inflight (rl_hub demo4) = [(''i1'', demo_route)]"
  by (rule conjI [OF conjunct1 [OF leases_match_routes [OF demo4_reachable]]]) code_simp

text \<open>No connection can make the relay hold unbounded memory: in every state the relay can reach, whatever devices and
  clients sent and however slowly they read, each connection's queue holds at most 256 frames and the bytes \<open>protocol/limits.go\<close> allows, its byte counter is the sum of what it holds, and the output buffered for one execution is bounded.\<close>

theorem connections_bounded:
  assumes "hub_reachable cfg s"
  shows "length (ob_queue (hb_conns (rl_hub s) c)) \<le> MaxRelayQueueFrames
    \<and> ob_bytes (hb_conns (rl_hub s) c) \<le> MaxRelayQueueBytes
    \<and> ob_bytes (hb_conns (rl_hub s) c) = bytes_of (held (hb_conns (rl_hub s) c))
    \<and> count_of (ob_buffered (hb_conns (rl_hub s) c)) e \<le> MaxRelayBufferBytes"
proof -
  have "outbox_inv (hb_conns (rl_hub s) c)"
    using reachable_outboxes [OF assms] ob_reachable_inv by (simp add: outboxes_ok_def)
  then show ?thesis by (auto simp: outbox_inv_def bounded_def accounted_def)
qed

theorem connections_bounded_witness:
  "ob_bytes (hb_conns (rl_hub demo4) 1) = bytes_of (held (hb_conns (rl_hub demo4) 1))
   \<and> length (ob_queue (hb_conns (rl_hub demo4) 1)) = 3"
  by (rule conjI [OF conjunct1 [OF conjunct2 [OF conjunct2 [OF connections_bounded [OF demo4_reachable]]]]]) code_simp

section \<open>Invocations\<close>

lemma failed_send_forgets:
  assumes "mget (hb_inflight h) rid = Some t" "tk_device t = target"
  shows "mget (hb_inflight (detach target (shut c (fail_device target code h)))) rid = None"
proof -
  have "rid \<in> routes_where (\<lambda>t. tk_device t = target) h"
    using assms map_of_SomeD [of "hb_inflight h" rid t] by (auto simp: routes_where_def)
  then have "mget (hb_inflight (fail_device target code h)) rid = None"
    using fail_device_thins [of target h code] by (simp add: thinned_def)
  then show ?thesis by (auto simp: detach_def split: option.split)
qed

lemma fail_keeps_none: "mget (hb_inflight h) rid = None \<Longrightarrow> mget (hb_inflight (fail_device did code h)) rid = None"
  using fail_device_thins [of did h code] by (auto simp: thinned_def)

lemma detach_inflight [simp]: "hb_inflight (detach did h) = hb_inflight h"
  by (simp add: detach_def split: option.split)

text \<open>A new route after the admission stands for exactly one message sent.\<close>

lemma admitted_route:
  assumes old: "mget (hb_inflight h) rid = None"
    and new: "mget (hb_inflight (invoke_admitted cfg from target m b c l fresh issued h)) rid = Some t"
  shows "fresh = Some rid \<and> \<not> ctx_err from h \<and> t = new_route from target m b l h
    \<and> (m_op m = OpHandoffSubmit \<longrightarrow> hc_execution cfg \<and> issued \<noteq> None)
    \<and> snd (enqueue (routed_message cfg b rid (proof_for m issued) m) (hb_conns h c)) = EnqOk
    \<and> hb_conns (invoke_admitted cfg from target m b c l fresh issued h)
        = (hb_conns h)(c := fst (enqueue (routed_message cfg b rid (proof_for m issued) m) (hb_conns h c)))"
proof (rule invoke_admitted_cases [of "from" h cfg target m b c l fresh issued])
  fix r
  let ?h1 = "with_route r (new_route from target m b l h) h"
  assume f: "\<not> ctx_err from h" "fresh = Some r" "m_op m = OpHandoffSubmit \<longrightarrow> hc_execution cfg \<and> issued \<noteq> None"
    and e: "invoke_admitted cfg from target m b c l fresh issued h =
        (case send c (routed_message cfg b r (proof_for m issued) m) ?h1 of
           (h2, EnqOk) \<Rightarrow> h2
         | (h2, _) \<Rightarrow> detach target (shut c (fail_device target DeviceOffline h2)))"
  obtain h2 x where s: "send c (routed_message cfg b r (proof_for m issued) m) ?h1 = (h2, x)" by (rule prod.exhaust)
  have i: "mget (hb_inflight h2) k = (if k = r then Some (new_route from target m b l h) else mget (hb_inflight h) k)" for k
    using send_frame(5) [OF s] by (simp add: with_route_def)
  have x: "x = EnqOk"
  proof (rule ccontr)
    assume "x \<noteq> EnqOk"
    then have u: "invoke_admitted cfg from target m b c l fresh issued h
        = detach target (shut c (fail_device target DeviceOffline h2))" unfolding e s by (cases x) simp_all
    have "mget (hb_inflight (invoke_admitted cfg from target m b c l fresh issued h)) rid = None"
    proof (cases "rid = r")
      case True
      then have "mget (hb_inflight h2) rid = Some (new_route from target m b l h)" by (simp add: i)
      moreover have "tk_device (new_route from target m b l h) = target" by (simp add: new_route_def)
      ultimately show ?thesis unfolding u by (rule failed_send_forgets)
    next
      case False
      then show ?thesis unfolding u using old by (simp add: fail_keeps_none i)
    qed
    then show False using new by simp
  qed
  then have u: "invoke_admitted cfg from target m b c l fresh issued h = h2" unfolding e s by simp
  have r: "r = rid" "t = new_route from target m b l h" using new old unfolding u i by (simp_all split: if_splits)
  have "enqueue (routed_message cfg b rid (proof_for m issued) m) (hb_conns h c)
      = (hb_conns h2 c, EnqOk) \<and> hb_conns h2 = (hb_conns h)(c := hb_conns h2 c)"
    using s x r by (auto simp: send_def Let_def with_route_def split: prod.splits)
  then show ?thesis using f r unfolding u by auto
qed (use new old in \<open>auto simp: give_back_def\<close>)

text \<open>C2. Only an authorized invocation reaches a device. If handling an invocation adds a route, then the
  verification before the section succeeded, the caller is a registered client of that target whose binding matches the
  target's current one, its request id is non-empty and unused, the device is online, ready, accepts inbound commands and has the bound uid,
  and a lease was free; a handoff submission carries a freshly issued delegation. The route records the request as it came, and the one
  outbox that changes is the device's, which got exactly the message built for this route: operation and payload of the
  request, the scope of the caller's binding, and none of the credentials or identifiers the client wrote into its message.\<close>

theorem invocation_only_when_authorized:
  assumes "mget (hb_inflight (handle_invoke cfg from target m code fresh issued h)) rid = Some t"
    and "mget (hb_inflight h) rid = None" "m_op m \<noteq> OpCancel"
  shows "code = '''' \<and> fresh = Some rid \<and> m_exec_id m \<noteq> ''''
    \<and> mget (hb_requests h) (from, m_exec_id m) = None
    \<and> tk_request t = m_exec_id m \<and> tk_operation t = m_op m \<and> tk_client t = from \<and> tk_device t = target
    \<and> (m_op m = OpHandoffSubmit \<longrightarrow> hc_execution cfg \<and> issued \<noteq> None)
    \<and> (\<exists>b d c. mget (hb_clients h) from = Some b \<and> tk_binding t = b \<and> cs_target b = target
         \<and> binding_matches (cs_access b) (access_of h target)
         \<and> mget (hb_devices h) target = Some d \<and> ds_conn d = Some c \<and> ds_online d \<and> ds_ready d
         \<and> dev_uid (ds_record d) = b_device_uid (cs_access b) \<and> dev_inbound (ds_record d)
         \<and> active_count (hb_admission h) (b_device_uid (cs_access b)) < per_device (hb_admission h)
         \<and> hb_conns (handle_invoke cfg from target m code fresh issued h) = (hb_conns h)(c :=
             fst (enqueue (message0\<lparr>m_type := TypeInvoke, m_exec_id := rid, m_op := m_op m, m_payload := m_payload m,
               m_scope := Some (invocation_scope cfg b), m_delegation := proof_for m issued\<rparr>) (hb_conns h c))))"
proof -
  have code: "code = ''''"
    using assms by (cases "code = ''''") (simp_all add: handle_invoke_def)
  then have hi: "handle_invoke cfg from target m code fresh issued h = invoke_section cfg from target m fresh issued h"
    using assms(3) by (simp add: handle_invoke_def)
  show ?thesis
  proof (rule invoke_section_cases [of cfg "from" target m fresh issued h])
    fix c assume "invoke_section cfg from target m fresh issued h = post from (Nack (m_exec_id m) c) h"
    then show ?thesis using assms hi by simp
  next
    fix b d c p l
    assume facts: "mget (hb_clients h) from = Some b" "cs_target b = target"
      "binding_matches (cs_access b) (access_of h target)" "m_exec_id m \<noteq> ''''"
      "mget (hb_requests h) (from, m_exec_id m) = None"
      "mget (hb_devices h) target = Some d" "ds_conn d = Some c" "ds_online d" "ds_ready d"
      "dev_uid (ds_record d) = b_device_uid (cs_access b)" "dev_inbound (ds_record d)"
      and acq: "acquire (b_device_uid (cs_access b)) (hb_admission h) = Inr (p, l)"
      and r: "invoke_section cfg from target m fresh issued h
         = invoke_admitted cfg from target m b c l fresh issued (h\<lparr>hb_admission := p\<rparr>)"
    let ?hp = "h\<lparr>hb_admission := p\<rparr>"
    have old: "mget (hb_inflight ?hp) rid = None" using assms(2) by simp
    have new: "mget (hb_inflight (invoke_admitted cfg from target m b c l fresh issued ?hp)) rid = Some t"
      using assms(1) unfolding hi r .
    note ar = admitted_route [OF old new]
    then have a: "fresh = Some rid" "t = new_route from target m b l ?hp"
      "m_op m = OpHandoffSubmit \<longrightarrow> hc_execution cfg \<and> issued \<noteq> None"
      "hb_conns (handle_invoke cfg from target m code fresh issued h)
        = (hb_conns ?hp)(c := fst (enqueue (routed_message cfg b rid (proof_for m issued) m) (hb_conns ?hp c)))"
      unfolding hi r by blast+
    have conns: "hb_conns ?hp = hb_conns h" by simp
    have n: "active_count (hb_admission h) (b_device_uid (cs_access b)) < per_device (hb_admission h)"
      by (rule acquire_Inr(4) [OF acq])
    have w: "tk_binding t = b" "tk_request t = m_exec_id m" "tk_operation t = m_op m" "tk_client t = from" "tk_device t = target"
      by (simp_all add: a(2) new_route_def)
    show ?thesis using code a(1,3) a(4) [unfolded conns] facts n w unfolding routed_message_def by blast
  qed
qed

theorem invocation_only_when_authorized_witness:
  "tk_client demo_route = 2 \<and> (\<exists>b. mget (hb_clients (rl_hub demo3)) 2 = Some b \<and> tk_binding demo_route = b)"
proof -
  have n: "mget (hb_inflight (handle_invoke demo_cfg 2 ''d'' exec_message '''' (Some ''i1'') None (rl_hub demo3))) ''i1''
      = Some demo_route" using demo4_route by (simp add: demo4_def)
  have o: "mget (hb_inflight (rl_hub demo3)) ''i1'' = None" "m_op exec_message \<noteq> OpCancel" by code_simp+
  show ?thesis using invocation_only_when_authorized [OF n o] by metis
qed

text \<open>An invocation that satisfies the conditions is routed: the route is recorded under the caller's request id with a
  lease taken, and the device's outbox gets the message, with everything else unchanged.\<close>

theorem invocation_is_routed:
  assumes "mget (hb_clients h) from = Some b" "cs_target b = target"
    "binding_matches (cs_access b) (access_of h target)" "m_exec_id m \<noteq> ''''" "m_op m \<noteq> OpCancel"
    "mget (hb_requests h) (from, m_exec_id m) = None" "mget (hb_inflight h) rid = None"
    "mget (hb_devices h) target = Some d" "ds_conn d = Some c" "ds_online d" "ds_ready d"
    "dev_uid (ds_record d) = b_device_uid (cs_access b)" "dev_inbound (ds_record d)"
    "active_count (hb_admission h) (b_device_uid (cs_access b)) < per_device (hb_admission h)" "\<not> ctx_err from h"
    "m_op m = OpHandoffSubmit \<longrightarrow> hc_execution cfg \<and> issued \<noteq> None"
    "enqueue (routed_message cfg b rid (proof_for m issued) m) (hb_conns h c) = (q, EnqOk)"
  shows "handle_invoke cfg from target m '''' (Some rid) issued h =
    h\<lparr>hb_admission := (hb_admission h)\<lparr>active := mput (b_device_uid (cs_access b))
          (active_count (hb_admission h) (b_device_uid (cs_access b)) + 1) (active (hb_admission h))\<rparr>,
      hb_requests := mput (from, m_exec_id m) rid (hb_requests h),
      hb_inflight := mput rid \<lparr>tk_request = m_exec_id m, tk_device = target, tk_client = from, tk_out = 0,
         tk_trunc = False, tk_binding = b, tk_operation = m_op m, tk_cancelled = False,
         tk_lease = \<lparr>released = False, device = b_device_uid (cs_access b)\<rparr>, tk_ident = hb_next h\<rparr> (hb_inflight h),
      hb_next := Suc (hb_next h), hb_conns := (hb_conns h)(c := q)\<rparr>"
proof -
  have u: "b_device_uid (cs_access b) \<noteq> ''''" using assms(3) unfolding binding_matches_def by blast
  have n: "\<not> (m_op m = OpHandoffSubmit \<and> \<not> hc_execution cfg)" "\<not> (m_op m = OpHandoffSubmit \<and> issued = None)"
    using assms(16) by auto
  have x: "\<not> ctx_err from (h\<lparr>hb_admission := p\<rparr>)" for p using assms(15) by (simp add: ctx_err_def)
  have pf: "(if m_op m = OpHandoffSubmit then (case issued of None \<Rightarrow> '''' | Some p \<Rightarrow> p) else '''') = proof_for m issued"
    by (simp add: proof_for_def)
  have a: "acquire (b_device_uid (cs_access b)) (hb_admission h) = Inr ((hb_admission h)\<lparr>active := mput (b_device_uid (cs_access b))
          (active_count (hb_admission h) (b_device_uid (cs_access b)) + 1) (active (hb_admission h))\<rparr>,
      \<lparr>released = False, device = b_device_uid (cs_access b)\<rparr>)"
    using u assms(14) by (simp add: acquire_def active_count_def)
  have i: "invoke_section cfg from target m (Some rid) issued h
      = invoke_admitted cfg from target m b c \<lparr>released = False, device = b_device_uid (cs_access b)\<rparr> (Some rid) issued
          (h\<lparr>hb_admission := (hb_admission h)\<lparr>active := mput (b_device_uid (cs_access b))
          (active_count (hb_admission h) (b_device_uid (cs_access b)) + 1) (active (hb_admission h))\<rparr>\<rparr>)"
    using assms(1-13) a by (simp add: invoke_section_def)
  show ?thesis
  proof (cases "m_op m = OpHandoffSubmit")
    case True
    then obtain p where "hc_execution cfg" "issued = Some p" using assms(16) by blast
    then show ?thesis unfolding handle_invoke_def i invoke_admitted_def pf
      using assms(5,7,17) x True by (simp add: send_def Let_def)
  next
    case False
    then show ?thesis unfolding handle_invoke_def i invoke_admitted_def pf
      using assms(5,7,17) x by (simp add: send_def Let_def)
  qed
qed

definition demo_slot :: device_slot where
  "demo_slot = snd (hd (hb_devices (rl_hub demo3)))"

theorem invocation_is_routed_witness:
  "mget (hb_requests (handle_invoke demo_cfg 2 ''d'' exec_message '''' (Some ''i1'') None (rl_hub demo3))) (2, ''r1'') = Some ''i1''"
proof -
  let ?h = "rl_hub demo3" and ?b = "tk_binding demo_route"
  let ?q = "enqueue (routed_message demo_cfg ?b ''i1'' (proof_for exec_message None) exec_message) (hb_conns ?h 1)"
  have q: "?q = (fst ?q, EnqOk)" unfolding prod_eq_iff by (rule conjI) (simp, code_simp)
  have f: "mget (hb_clients ?h) 2 = Some ?b" "cs_target ?b = ''d''" "binding_matches (cs_access ?b) (access_of ?h ''d'')"
    "m_exec_id exec_message \<noteq> ''''" "m_op exec_message \<noteq> OpCancel" "mget (hb_requests ?h) (2, m_exec_id exec_message) = None"
    "mget (hb_inflight ?h) ''i1'' = None" "mget (hb_devices ?h) ''d'' = Some demo_slot" "ds_conn demo_slot = Some 1"
    "ds_online demo_slot" "ds_ready demo_slot" "dev_uid (ds_record demo_slot) = b_device_uid (cs_access ?b)"
    "dev_inbound (ds_record demo_slot)"
    "active_count (hb_admission ?h) (b_device_uid (cs_access ?b)) < per_device (hb_admission ?h)"
    "\<not> ctx_err 2 ?h" "m_op exec_message = OpHandoffSubmit \<longrightarrow> hc_execution demo_cfg \<and> (None :: string option) \<noteq> None"
    by code_simp+
  have e: "m_exec_id exec_message = ''r1''" by code_simp
  show ?thesis unfolding invocation_is_routed [OF f q] by (simp add: e)
qed

end
