(* ===== verification/HubRevoke.thy ===== *)
theory HubRevoke
  imports HubProps
begin

text \<open>
  Whom a section reaches and what a revocation leaves: forwarding touches the route's caller only, a terminal
  message ends the route, a second connection of a device replaces the first, a change of
  ownership removes every client and route of the device, and a cancelled route never gets execution time again.
\<close>

section \<open>Isolation\<close>

lemma finish_conns [simp]: "hb_conns (finish_invocation rid h) = hb_conns h"
  by (simp add: finish_invocation_def split: option.split)

lemma finish_devices [simp]: "hb_devices (finish_invocation rid h) = hb_devices h"
  by (simp add: finish_invocation_def split: option.split)

lemma post_conns: "x \<noteq> c \<Longrightarrow> hb_conns (post c m h) x = hb_conns h x"
  by (simp add: post_def send_def Let_def prod.case_eq_if)

lemma tell_conns:
  "(\<And>d. mget (hb_devices h) did = Some d \<Longrightarrow> ds_conn d \<noteq> Some x) \<Longrightarrow> hb_conns (tell_device did m h) x = hb_conns h x"
  by (auto simp: tell_device_def post_conns split: option.split)

lemma cancel_loop_conns:
  assumes "\<And>rid t d. (rid, t) \<in> set es \<Longrightarrow> tk_client t = c \<Longrightarrow> mget (hb_devices h) (tk_device t) = Some d \<Longrightarrow> ds_conn d \<noteq> Some x"
  shows "hb_conns (cancel_loop c es h) x = hb_conns h x"
  using assms
proof (induction c es h rule: cancel_loop.induct)
  case (2 c rid t es h)
  show ?case
  proof (cases "tk_client t = c")
    case False
    then show ?thesis using 2 by auto
  next
    case True
    let ?h = "finish_invocation rid (tell_device (tk_device t) (cancel_message rid) h)"
    have "hb_conns (cancel_loop c es ?h) x = hb_conns ?h x"
      by (rule 2(2)) (use True 2(3) in auto)
    moreover have "hb_conns ?h x = hb_conns h x"
      using 2(3) [of rid t] True by (simp add: tell_conns)
    ultimately show ?thesis using True by simp
  qed
qed simp

lemma same_client_same_device:
  assumes "hub_inv h" "mget (hb_inflight h) rid = Some t" "mget (hb_inflight h) rid' = Some t'" "tk_client t' = tk_client t"
  shows "tk_device t' = tk_device t"
proof -
  have "task_ok h t" "task_ok h t'" using assms(1-3) by (auto simp: hub_inv_def live_ok_def)
  then show ?thesis using assms(4) unfolding task_ok_def by (metis option.inject)
qed

lemma drop_client_conns:
  assumes inv: "hub_inv h" and t: "mget (hb_inflight h) rid = Some t"
    and d: "mget (hb_devices h) (tk_device t) = Some d" "ds_conn d \<noteq> Some x"
  shows "hb_conns (drop_client (tk_client t) h) x = hb_conns h x"
proof -
  have "mdistinct (hb_inflight h)" using inv by (simp add: hub_inv_def routes_ok_def)
  then have "tk_device t' = tk_device t" if "(r, t') \<in> set (hb_inflight h)" "tk_client t' = tk_client t" for r t'
    using same_client_same_device [OF inv t _ that(2)] that(1) mget_in_set by metis
  then have "ds_conn d' \<noteq> Some x" if "(r, t') \<in> set (hb_inflight h)" "tk_client t' = tk_client t"
      "mget (hb_devices h) (tk_device t') = Some d'" for r t' d'
    using d that by simp
  then have "hb_conns (cancel_loop (tk_client t) (hb_inflight h) h) x = hb_conns h x"
    by (rule cancel_loop_conns)
  then show ?thesis by (simp add: drop_client_def cancel_client_def Let_def)
qed

lemma deliver_conns:
  assumes inv: "hub_inv h" and t: "mget (hb_inflight h) rid = Some t"
    and d: "mget (hb_devices h) (tk_device t) = Some d" "ds_conn d = Some from"
    and x: "x \<noteq> from" "x \<noteq> tk_client t"
  shows "hb_conns (deliver rid t m h) x = hb_conns h x"
proof -
  obtain h1 r where s: "send (tk_client t) (client_view t m) h = (h1, r)" by (rule prod.exhaust)
  have c1: "hb_conns h1 x = hb_conns h x" using x send_frame(1) [OF s] by (simp add: post_conns)
  have "hb_conns (drop_client (tk_client t) h1) x = hb_conns h1 x"
    using detach_send_fail [OF inv s] send_frame [OF s] t d x(1) by (intro drop_client_conns [where d = d]) simp_all
  then show ?thesis using c1 s x by (cases r) (auto simp: deliver_def set_task_def shut_def)
qed

text \<open>C30. Output goes to its own caller. In a reachable state, a message a device connection sends for a route changes no outbox
  but that of the route's caller and, when the caller's own queue has closed and its routes are cancelled, that of the sending
  device. A message for a route of another device, or for no route, changes nothing at all.\<close>

theorem forward_isolated:
  assumes "hub_reachable cfg s"
  shows "(\<forall>x. hb_conns (forward_to_client from m (rl_hub s)) x \<noteq> hb_conns (rl_hub s) x \<longrightarrow>
        x = from \<or> (\<exists>t. mget (hb_inflight (rl_hub s)) (m_exec_id m) = Some t \<and> x = tk_client t))
    \<and> ((\<forall>t d. mget (hb_inflight (rl_hub s)) (m_exec_id m) = Some t \<longrightarrow>
           mget (hb_devices (rl_hub s)) (tk_device t) = Some d \<longrightarrow> ds_conn d \<noteq> Some from)
       \<longrightarrow> forward_to_client from m (rl_hub s) = rl_hub s)"
proof -
  let ?h = "rl_hub s" and ?rid = "m_exec_id m"
  have inv: "hub_inv ?h" using reachable_ok [OF assms] by auto
  have same: "hb_conns (forward_to_client from m ?h) x = hb_conns ?h x"
    if x: "x \<noteq> from" "\<And>t. mget (hb_inflight ?h) ?rid = Some t \<Longrightarrow> x \<noteq> tk_client t" for x
  proof (cases "\<exists>t d. mget (hb_inflight ?h) ?rid = Some t \<and> mget (hb_devices ?h) (tk_device t) = Some d \<and> ds_conn d = Some from")
    case False
    then show ?thesis by (auto simp: forward_to_client_def Let_def split: option.split)
  next
    case True
    then obtain t d where t: "mget (hb_inflight ?h) ?rid = Some t"
      and d: "mget (hb_devices ?h) (tk_device t) = Some d" "ds_conn d = Some from" by blast
    have x': "x \<noteq> tk_client t" using x(2) t by simp
    have base: "hb_conns (deliver ?rid t m ?h) x = hb_conns ?h x"
      by (rule deliver_conns [OF inv t d x(1) x'])
    let ?t1 = "t\<lparr>tk_out := tk_out t + int (length (m_data m))\<rparr>"
    have more: "hb_conns (deliver ?rid ?t1 m (set_task ?rid ?t1 ?h)) x = hb_conns ?h x"
      if "int (length (m_data m)) \<le> MaxExecOutputBytes - tk_out t"
    proof -
      have "hub_inv (set_task ?rid ?t1 ?h)"
        using that task_out [OF inv t] by (intro set_task_inv [OF inv t]) (simp_all add: same_route_def)
      from deliver_conns [OF this, of ?rid ?t1 d "from" x m] d x(1) x' show ?thesis by (simp add: set_task_def)
    qed
    show ?thesis using base more t d
      by (simp add: forward_to_client_def Let_def set_task_def)
  qed
  have "forward_to_client from m ?h = ?h"
    if "\<forall>t d. mget (hb_inflight ?h) ?rid = Some t \<longrightarrow> mget (hb_devices ?h) (tk_device t) = Some d \<longrightarrow> ds_conn d \<noteq> Some from"
    using that by (auto simp: forward_to_client_def Let_def split: option.split)
  then show ?thesis using same by blast
qed

definition exit_message :: message where
  "exit_message = message0\<lparr>m_type := TypeExit, m_exec_id := ''i1'', m_exit_code := Some 0\<rparr>"

theorem forward_isolated_witness:
  "forward_to_client 9 exit_message (rl_hub demo4) = rl_hub demo4"
proof -
  have "mget (hb_devices (rl_hub demo4)) (tk_device demo_route) = mget (hb_devices (rl_hub demo4)) ''d''" by code_simp
  moreover have "map_option ds_conn (mget (hb_devices (rl_hub demo4)) ''d'') = Some (Some 1)" by code_simp
  moreover have "m_exec_id exit_message = ''i1''" by code_simp
  ultimately show ?thesis
    using forward_isolated [OF demo4_reachable, of 9 exit_message] demo4_route by auto
qed

section \<open>The end of a route\<close>

text \<open>A terminal message ends its route. When a device reports the exit, an error or a refusal for its route and the
  caller's queue takes it, then in a reachable state the caller's outbox gets that message under the caller's own request id, the
  route and its request entry are gone, its lease is back, and all other routes are as they were.\<close>

theorem terminal_message_ends_route:
  assumes "hub_reachable cfg s" "mget (hb_inflight (rl_hub s)) (m_exec_id m) = Some t"
    "mget (hb_devices (rl_hub s)) (tk_device t) = Some d" "ds_conn d = Some from"
    "terminal_type (m_type m)" "\<not> output_message m"
    "enqueue (client_view t m) (hb_conns (rl_hub s) (tk_client t)) = (q, EnqOk)"
  shows "hb_conns (forward_to_client from m (rl_hub s)) = (hb_conns (rl_hub s))(tk_client t := q)
    \<and> mget (hb_requests (forward_to_client from m (rl_hub s))) (tk_client t, tk_request t) = None
    \<and> (\<forall>rid. mget (hb_inflight (forward_to_client from m (rl_hub s))) rid =
         (if rid = m_exec_id m then None else mget (hb_inflight (rl_hub s)) rid))
    \<and> active_count (hb_admission (forward_to_client from m (rl_hub s))) (device (tk_lease t))
         = active_count (hb_admission (rl_hub s)) (device (tk_lease t)) - 1"
proof -
  let ?h = "rl_hub s"
  let ?h1 = "?h\<lparr>hb_conns := (hb_conns ?h)(tk_client t := q)\<rparr>"
  have inv: "hub_inv ?h" using reachable_ok [OF assms(1)] by auto
  have f: "forward_to_client from m ?h = finish_invocation (m_exec_id m) ?h1"
    using assms(2-7) by (simp add: forward_to_client_def deliver_def send_def Let_def)
  have l: "leases_ok ?h" and dist: "mdistinct (hb_inflight ?h)" using inv by (simp_all add: hub_inv_def routes_ok_def)
  have rel: "\<not> released (tk_lease t)" using l assms(2) unfolding leases_ok_def by blast
  have "int (held_by (device (tk_lease t)) (mdel (m_exec_id m) (hb_inflight ?h))) \<ge> 0" by simp
  then have "0 < active_count (hb_admission ?h) (device (tk_lease t))"
    using l held_by_mdel [OF dist assms(2), of "device (tk_lease t)"] unfolding leases_ok_def by simp
  from release_pool [OF rel this] have "active_count (hb_admission (forward_to_client from m ?h)) (device (tk_lease t))
         = active_count (hb_admission ?h) (device (tk_lease t)) - 1"
    unfolding f using assms(2) by (simp add: finish_invocation_def)
  moreover have "hb_conns (forward_to_client from m ?h) = (hb_conns ?h)(tk_client t := q)"
    "mget (hb_requests (forward_to_client from m ?h)) (tk_client t, tk_request t) = None"
    "\<forall>rid. mget (hb_inflight (forward_to_client from m ?h)) rid = (if rid = m_exec_id m then None else mget (hb_inflight ?h) rid)"
    unfolding f using assms(2) by (simp_all add: finish_invocation_def)
  ultimately show ?thesis by blast
qed

theorem terminal_message_ends_route_witness:
  "mget (hb_inflight (forward_to_client 1 exit_message (rl_hub demo4))) ''i1'' = None"
proof -
  let ?q = "enqueue (client_view demo_route exit_message) (hb_conns (rl_hub demo4) (tk_client demo_route))"
  have q: "?q = (fst ?q, EnqOk)" unfolding prod_eq_iff by (rule conjI) (simp, code_simp)
  have e: "m_exec_id exit_message = ''i1''" by code_simp
  have f: "mget (hb_inflight (rl_hub demo4)) (m_exec_id exit_message) = Some demo_route"
    "mget (hb_devices (rl_hub demo4)) (tk_device demo_route) = Some demo_slot" "ds_conn demo_slot = Some 1"
    "terminal_type (m_type exit_message)" "\<not> output_message exit_message"
    by code_simp+
  show ?thesis using terminal_message_ends_route [OF demo4_reachable f q] by (simp add: e)
qed

section \<open>A device connects again\<close>

lemma move_closing: "move h u \<Longrightarrow> ob_closing (hb_conns h c) \<Longrightarrow> ob_closing (hb_conns u c)"
proof (induction rule: move.induct)
  case (posted h d m)
  then show ?case using enqueue_phase [of m "hb_conns h d"]
    by (cases "c = d") (simp_all add: post_def send_def Let_def prod.case_eq_if)
qed (auto simp: shut_def close_outbox_def set_task_def with_route_def revoke_foreground_def)

lemma moves_closing: "moves h u \<Longrightarrow> ob_closing (hb_conns h c) \<Longrightarrow> ob_closing (hb_conns u c)"
  by (induction rule: moves_induct) (auto intro: move_closing)

lemma shut_closing [simp]: "ob_closing (hb_conns (shut c h) c)"
  by (simp add: shut_def close_outbox_def)

text \<open>One connection per device. When a device identity registers on a connection in a reachable state, it owns the slot with
  this connection, not yet ready for invocations; a previous connection of the same identity is closed, every route that ran over
  it is gone from both tables, and no route of another device is touched.\<close>

theorem device_takeover:
  assumes "hub_reachable cfg s" "mget (rl_sessions s) c = None"
    "register_device cfg did sh answer ended c (rl_hub s) = (h', '''')"
  shows "(\<exists>d. mget (hb_devices h') did = Some d \<and> ds_conn d = Some c \<and> ds_online d \<and> \<not> ds_ready d
        \<and> access_of h' did = device_binding (ds_record d))
    \<and> (\<forall>d old. mget (hb_devices (rl_hub s)) did = Some d \<and> ds_conn d = Some old \<longrightarrow>
        old \<noteq> c \<and> ob_closing (hb_conns h' old))
    \<and> (\<forall>rid. mget (hb_inflight h') rid = (case mget (hb_inflight (rl_hub s)) rid of
         None \<Rightarrow> None | Some t \<Rightarrow> if tk_device t = did then None else Some t))"
proof (rule register_device_cases [of cfg did sh answer ended c "rl_hub s"])
  fix code u
  assume "register_device cfg did sh answer ended c (rl_hub s) = (u, code)" "code \<noteq> ''''"
  then show ?thesis using assms(3) by simp
next
  fix rec
  let ?h = "rl_hub s" and ?h1 = "post c (hello_ok RoleDevice None) (rl_hub s)"
  assume "register_device cfg did sh answer ended c (rl_hub s) = (publish_device did rec c (evict_old did c ?h1), '''')"
  then have h': "h' = publish_device did rec c (evict_old did c ?h1)" using assms(3) by simp
  have inv: "hub_inv ?h" and ok: "session_ok s" using reachable_ok [OF assms(1)] by auto
  have slot: "\<exists>d. mget (hb_devices h') did = Some d \<and> ds_conn d = Some c \<and> ds_online d \<and> \<not> ds_ready d
        \<and> access_of h' did = device_binding (ds_record d)"
    unfolding h' by (simp add: publish_device_def access_of_def)
  have new: "ds_conn d \<noteq> Some c" if "mget (hb_devices ?h) did = Some d" for d
    using session_fresh(2) [OF ok assms(2) that] .
  have old: "x \<noteq> c \<and> ob_closing (hb_conns h' x)" if d: "mget (hb_devices ?h) did = Some d" "ds_conn d = Some x" for d x
  proof -
    have "x \<noteq> c" using new [OF d(1)] d(2) by simp
    then show ?thesis using d unfolding h' by (simp add: publish_device_def evict_old_def)
  qed
  have i: "hub_inv ?h1" using inv by (rule post_inv)
  have "mget (hb_inflight h') rid = (case mget (hb_inflight ?h) rid of
         None \<Rightarrow> None | Some t \<Rightarrow> if tk_device t = did then None else Some t)" for rid
  proof (cases "\<exists>d x. mget (hb_devices ?h) did = Some d \<and> ds_conn d = Some x")
    case True
    then obtain d x where d: "mget (hb_devices ?h) did = Some d" "ds_conn d = Some x" by blast
    then have "x \<noteq> c" using new by auto
    then have "hb_inflight h' = hb_inflight (fail_device did DeviceOffline ?h1)"
      using d unfolding h' by (simp add: publish_device_def evict_old_def)
    moreover have "routes_ok ?h1" using i by (simp add: hub_inv_def)
    ultimately show ?thesis using thinned_where [OF _ fail_device_thins [of did ?h1 DeviceOffline], of rid] by simp
  next
    case False
    then have e: "hb_inflight h' = hb_inflight ?h"
      unfolding h' by (auto simp: publish_device_def evict_old_def split: option.split)
    have "unrouted did ?h" using False by (intro idle_device_unrouted [OF inv]) (auto split: option.split)
    then show ?thesis unfolding e unrouted_def by (auto split: option.split)
  qed
  then show ?thesis using slot old by blast
qed

theorem device_takeover_witness:
  "\<exists>h'. register_device demo_cfg ''d'' ''sh'' (Inr hub_device) False 7 (rl_hub demo4) = (h', '''')
    \<and> mget (hb_inflight h') ''i1'' = None \<and> ob_closing (hb_conns h' 1)"
proof -
  let ?r = "register_device demo_cfg ''d'' ''sh'' (Inr hub_device) False 7 (rl_hub demo4)"
  have r: "?r = (fst ?r, '''')" unfolding prod_eq_iff by (rule conjI) (simp, code_simp)
  have n: "mget (rl_sessions demo4) 7 = None" by code_simp
  have d: "mget (hb_devices (rl_hub demo4)) ''d'' = Some demo_slot" "ds_conn demo_slot = Some 1"
    "tk_device demo_route = ''d''" by code_simp+
  note t = device_takeover [OF demo4_reachable n r]
  have "mget (hb_inflight (fst ?r)) ''i1'' = None" using t demo4_route d(3) by simp
  moreover have "ob_closing (hb_conns (fst ?r) 1)" using t d by blast
  ultimately show ?thesis using r by blast
qed

section \<open>Ownership changes\<close>

lemma evict_loop_closes:
  "(c, b) \<in> set cs \<Longrightarrow> cs_target b = did \<Longrightarrow> ob_closing (hb_conns (evict_loop did cs h) c)"
proof (induction did cs h rule: evict_loop.induct)
  case (2 did c' b' cs h)
  show ?case
  proof (cases "(c, b) = (c', b')")
    case True
    then show ?thesis using 2(4) moves_closing [OF moves_evict_loop [OF moves_refl, where cs = cs]] by simp
  next
    case False
    then have "(c, b) \<in> set cs" using 2(3) by auto
    then show ?thesis using 2(1,2,4) by (cases "cs_target b' = did") simp_all
  qed
qed simp

lemma invalidate_facts:
  assumes inv: "hub_inv h"
  shows "unrouted did (invalidate_ownership did h)"
    "mget (hb_clients (invalidate_ownership did h)) c = Some b \<Longrightarrow> cs_target b \<noteq> did"
    "mget (hb_clients h) c = Some b \<Longrightarrow> cs_target b = did \<Longrightarrow> ob_closing (hb_conns (invalidate_ownership did h) c)"
proof -
  let ?h1 = "invalidate_loop did (hb_inflight h) h"
  have same: "hb_clients ?h1 = hb_clients h" using invalidate_thins [of did h] by (simp add: thinned_def)
  have "hb_inflight (invalidate_ownership did h) = hb_inflight ?h1"
    using evict_loop_frame [of did] by (simp add: invalidate_ownership_def Let_def)
  moreover have "tk_device t \<noteq> did" if "mget (hb_inflight ?h1) rid = Some t" for rid t
    using thinned_where [OF _ invalidate_thins [of did h], of rid] inv that
    by (simp add: hub_inv_def split: option.splits if_splits)
  ultimately show "unrouted did (invalidate_ownership did h)" unfolding unrouted_def by simp
  have d: "mdistinct (hb_clients h)" using inv by (simp add: hub_inv_def live_ok_def)
  have "mget (hb_clients (invalidate_ownership did h)) c = (case mget (hb_clients h) c of
      None \<Rightarrow> None | Some b \<Rightarrow> if cs_target b = did then None else Some b)" for c
    using evict_clients_of [of ?h1 did c] d by (simp add: same invalidate_ownership_def Let_def)
  then show "mget (hb_clients (invalidate_ownership did h)) c = Some b \<Longrightarrow> cs_target b \<noteq> did"
    by (simp split: option.splits if_splits)
  assume b: "mget (hb_clients h) c = Some b" "cs_target b = did"
  have "(c, b) \<in> set (hb_clients h)" by (rule map_of_SomeD [OF b(1)])
  then show "ob_closing (hb_conns (invalidate_ownership did h) c)"
    unfolding invalidate_ownership_def Let_def same using b(2) by (rule evict_loop_closes)
qed

lemma stop_shrinks:
  assumes "mget (hb_inflight (stop_device_routing c h)) rid = Some t"
  shows "mget (hb_inflight h) rid = Some t"
proof (cases "device_of_conn c h")
  case None
  then show ?thesis using assms by (simp add: stop_device_routing_def)
next
  case (Some did)
  then have "mget (hb_inflight (fail_device did DeviceOffline h)) rid = Some t"
    using assms by (simp add: stop_device_routing_def)
  then show ?thesis using fail_device_thins [of did h DeviceOffline] by (simp add: thinned_def split: if_splits)
qed

lemma stop_clients [simp]: "hb_clients (stop_device_routing c h) = hb_clients h"
  by (auto simp: stop_device_routing_def detach_def split: option.split)

text \<open>C5. A change of owner takes effect at once. When the access service answers a request of a device connection with a record of
  another ownership, then after the section no client connection is bound to this device, no route runs on it, every client
  connection that was bound to it is closing, and the binding that later requests are compared with is that of the new record: what the
  former owner's sessions were allowed ends with the answer.\<close>

theorem ownership_change_cuts_access:
  assumes "hub_reachable cfg s" "mget (hb_devices (rl_hub s)) did = Some d" "ds_ident d = ident"
    "dev_ownership expected \<noteq> dev_ownership (mu_device mu)"
    "h' = access_commit cfg from did ident expected key action (Inr mu) shown (rl_hub s)"
  shows "(\<forall>c b. mget (hb_clients h') c = Some b \<longrightarrow> cs_target b \<noteq> did)
    \<and> (\<forall>rid t. mget (hb_inflight h') rid = Some t \<longrightarrow> tk_device t \<noteq> did)
    \<and> (\<forall>c b. mget (hb_clients (rl_hub s)) c = Some b \<and> cs_target b = did \<longrightarrow> ob_closing (hb_conns h' c))
    \<and> access_of h' did = device_binding (mu_device mu)"
proof -
  let ?h = "rl_hub s" and ?i = "invalidate_ownership did (rl_hub s)"
  have inv: "hub_inv ?h" using reachable_ok [OF assms(1)] by auto
  note f = invalidate_facts [OF inv, where did = did]
  define h1 where "h1 = ?i\<lparr>hb_devices := mput did (d\<lparr>ds_record := mu_device mu\<rparr>) (hb_devices ?i),
      hb_access := mput did (device_binding (mu_device mu)) (hb_access ?i)\<rparr>"
  obtain h2 e where s: "send from ((access_reply key '''')\<lparr>m_payload := shown,
      m_device_context := Some (hub_device_context cfg (mu_device mu))\<rparr>) h1 = (h2, e)"
    by (rule prod.exhaust)
  have r: "h' = (case (h2, e) of (h2, EnqOk) \<Rightarrow> h2 | (h2, _) \<Rightarrow> shut from (stop_device_routing from h2))"
    unfolding s [symmetric] h1_def assms(5) using assms(2-4) by (simp add: access_commit_def Let_def)
  have moved: "moves h1 h'" unfolding r using moves_send [OF moves_refl s]
    by (cases e) (auto intro: move_intros)
  have c: "hb_clients h' = hb_clients ?i" unfolding r using send_frame(4) [OF s]
    by (cases e) (simp_all add: h1_def)
  have a: "hb_access h' = hb_access h1" unfolding r using send_frame(3) [OF s]
    by (cases e) (auto simp: stop_device_routing_def detach_def split: option.split)
  have sub: "mget (hb_inflight ?i) rid = Some t" if "mget (hb_inflight h') rid = Some t" for rid t
    using that stop_shrinks [of "from" h2 rid t] send_frame(5) [OF s] unfolding r h1_def by (cases e) simp_all
  have "ob_closing (hb_conns h' x)" if "mget (hb_clients ?h) x = Some b" "cs_target b = did" for x b
    using moves_closing [OF moved, of x] f(3) [OF that] by (simp add: h1_def)
  moreover have "access_of h' did = device_binding (mu_device mu)" by (simp add: access_of_def a h1_def)
  moreover have "tk_device t \<noteq> did" if "mget (hb_inflight h') rid = Some t" for rid t
    using f(1) sub [OF that] unfolding unrouted_def by blast
  ultimately show ?thesis using f(2) unfolding c by blast
qed

definition demo_mutation :: mutation where
  "demo_mutation = \<lparr>mu_device = hub_device\<lparr>dev_ownership := ''o''\<rparr>, mu_state = \<lparr>st_device_uid = ''u'', st_ownership = ''o'',
     st_owner_tenant = ''t'', st_owner_principal = ''p'', st_shares = []\<rparr>\<rparr>"

theorem ownership_change_cuts_access_witness:
  "ob_closing (hb_conns (access_commit demo_cfg 1 ''d'' 0 hub_device ''k'' ''claim'' (Inr demo_mutation) '''' (rl_hub demo4)) 2)"
proof -
  have d: "mget (hb_devices (rl_hub demo4)) ''d'' = Some demo_slot" "ds_ident demo_slot = 0"
    "dev_ownership hub_device \<noteq> dev_ownership (mu_device demo_mutation)"
    "mget (hb_clients (rl_hub demo4)) 2 = Some (tk_binding demo_route)" "cs_target (tk_binding demo_route) = ''d''"
    by code_simp+
  show ?thesis
    using ownership_change_cuts_access [OF demo4_reachable d(1-3) refl] d(4,5) by blast
qed

section \<open>Cancelled routes\<close>

definition route_dead :: "string \<Rightarrow> nat \<Rightarrow> hub \<Rightarrow> bool" where
  "route_dead rid i h \<longleftrightarrow> i < hb_next h
     \<and> (\<forall>t. mget (hb_inflight h) rid = Some t \<and> tk_ident t = i \<longrightarrow> tk_cancelled t)"

lemma move_dead: "move h u \<Longrightarrow> route_dead rid i h \<Longrightarrow> route_dead rid i u"
proof (induction rule: move.induct)
  case (finished h r)
  then show ?case by (auto simp: route_dead_def finish_invocation_def split: option.split)
next
  case (marked h r t t')
  then show ?case by (auto simp: route_dead_def set_task_def same_route_def)
next
  case (recorded t h r)
  then show ?case by (auto simp: route_dead_def with_route_def)
next
  case (foreground h did)
  have "mget (hb_inflight (revoke_foreground did h)) rid = map_option (\<lambda>t. if tk_device t = did \<and> tk_operation t = OpExec
      then t\<lparr>tk_cancelled := True\<rparr> else t) (mget (hb_inflight h) rid)"
    unfolding revoke_foreground_def
    using mget_map_values [of "\<lambda>rid t. if tk_device t = did \<and> tk_operation t = OpExec then t\<lparr>tk_cancelled := True\<rparr> else t"
        "hb_inflight h" rid] by simp
  then show ?case using foreground by (auto simp: route_dead_def revoke_foreground_def)
qed (auto simp: route_dead_def)

lemma steps_dead: "(hub_step cfg)\<^sup>*\<^sup>* s s' \<Longrightarrow> route_dead rid i (rl_hub s) \<Longrightarrow> route_dead rid i (rl_hub s')"
proof (induction rule: rtranclp_induct)
  case (step s s')
  show ?case
    by (rule hub_step_keeps [OF step(2), of "route_dead rid i", OF step(3) [OF step(4)] move_dead])
       (simp_all add: route_dead_def)
qed simp

definition idents_ok :: "hub \<Rightarrow> bool" where
  "idents_ok h \<longleftrightarrow> (\<forall>rid t. mget (hb_inflight h) rid = Some t \<longrightarrow> tk_ident t < hb_next h)"


lemma move_idents: "move h u \<Longrightarrow> idents_ok h \<Longrightarrow> idents_ok u"
proof (induction rule: move.induct)
  case (finished h r)
  then show ?case by (auto simp: idents_ok_def finish_invocation_def split: option.split if_splits)
next
  case (marked h r t t')
  then show ?case by (auto simp: idents_ok_def set_task_def same_route_def)
next
  case (recorded t h r)
  then show ?case by (auto simp: idents_ok_def with_route_def less_Suc_eq)
next
  case (foreground h did)
  have "mget (hb_inflight (revoke_foreground did h)) rid = map_option (\<lambda>t. if tk_device t = did \<and> tk_operation t = OpExec
      then t\<lparr>tk_cancelled := True\<rparr> else t) (mget (hb_inflight h) rid)" for rid
    unfolding revoke_foreground_def
    using mget_map_values [of "\<lambda>rid t. if tk_device t = did \<and> tk_operation t = OpExec then t\<lparr>tk_cancelled := True\<rparr> else t"
        "hb_inflight h" rid] by simp
  then show ?case using foreground by (auto simp: idents_ok_def revoke_foreground_def)
next
  case (tables u h)
  then show ?case unfolding idents_ok_def by (metis order_less_le_trans)
qed (auto simp: idents_ok_def)

lemma reachable_idents: "hub_reachable cfg s \<Longrightarrow> idents_ok (rl_hub s)"
proof (induction rule: hub_reachable.induct)
  case (hub_start limit p)
  then show ?case by (simp add: idents_ok_def new_hub_def)
next
  case (hub_next s s')
  show ?case
    by (rule hub_step_keeps [OF hub_next(2), of idents_ok, OF hub_next(3) move_idents])
       (simp_all add: idents_ok_def)
qed

lemma dead_never_renews:
  "route_dead (m_exec_id m) i h \<Longrightarrow> renew_route_reply from i m answer ended h = lease_reply m Unauthorized 0"
  by (auto simp: renew_route_reply_def route_dead_def live_execution_route_def Let_def split: option.split)

text \<open>C1. Cancellation is permanent. Once a reachable state holds a route that was cancelled, by its caller or by the device turning inbound commands
  off, every later request of the device to renew the execution time of that very route is answered Unauthorized with no
  time, whatever the execution authority granted for it in the meantime and even if another route takes the same id.\<close>

theorem cancelled_route_never_renews:
  assumes "hub_reachable cfg s" "mget (hb_inflight (rl_hub s)) (m_exec_id m) = Some t" "tk_cancelled t"
    "(hub_step cfg)\<^sup>*\<^sup>* s s'"
  shows "renew_route_reply from (tk_ident t) m answer ended (rl_hub s') = lease_reply m Unauthorized 0"
proof -
  have "route_dead (m_exec_id m) (tk_ident t) (rl_hub s)"
    using reachable_idents [OF assms(1)] assms(2,3) by (auto simp: route_dead_def idents_ok_def)
  from steps_dead [OF assms(4) this] show ?thesis by (rule dead_never_renews)
qed

text \<open>C29. Turning inbound commands off reaches what already runs. When the store accepts a settings change that disables inbound
  commands of a device in a reachable state, then from that section on, in every later state, no foreground
  execution that was in flight on it can renew its time.\<close>

theorem inbound_off_stops_executions:
  assumes "hub_reachable cfg s" "mget (rl_sessions s) c = Some (RoleDevice, did)"
    "mget (hb_devices (rl_hub s)) did = Some d" "dev_inbound (ds_record d)" "\<not> dev_inbound rec"
    "dev_uid rec = dev_uid (ds_record d)" "m_type q \<noteq> TypeRevoke"
    "mget (hb_inflight (rl_hub s)) (m_exec_id m) = Some t" "tk_device t = did" "tk_operation t = OpExec"
    "(hub_step cfg)\<^sup>*\<^sup>* (s\<lparr>rl_hub := settings_commit cfg c did (ds_ident d) q (Inr rec) (rl_hub s)\<rparr>) s'"
  shows "renew_route_reply from (tk_ident t) m answer ended (rl_hub s') = lease_reply m Unauthorized 0"
proof -
  let ?h = "rl_hub s" and ?rid = "m_exec_id m" and ?i = "tk_ident t"
  let ?h1 = "?h\<lparr>hb_devices := mput did (d\<lparr>ds_record := rec\<rparr>) (hb_devices ?h),
                        hb_access := mput did (device_binding rec) (hb_access ?h)\<rparr>"
  let ?h2 = "revoke_foreground did ?h1"
  obtain h3 e where x: "send c (settings_result cfg q rec) ?h2 = (h3, e)" by (rule prod.exhaust)
  have r: "settings_commit cfg c did (ds_ident d) q (Inr rec) ?h = (case (h3, e) of
          (h3, EnqOk) \<Rightarrow> h3\<lparr>hb_devices := mput did (d\<lparr>ds_record := rec, ds_ready := True\<rparr>) (hb_devices h3)\<rparr>
        | (h3, _) \<Rightarrow> shut c (stop_device_routing c h3))"
    unfolding x [symmetric] using assms(3-7) by (simp add: settings_commit_def Let_def)
  have fg: "mget (hb_inflight ?h2) ?rid = Some (t\<lparr>tk_cancelled := True\<rparr>)"
    unfolding revoke_foreground_def
    using assms(8-10) mget_map_values [of "\<lambda>rid t. if tk_device t = did \<and> tk_operation t = OpExec
      then t\<lparr>tk_cancelled := True\<rparr> else t" "hb_inflight ?h1" ?rid] by simp
  have "?i < hb_next ?h" using reachable_idents [OF assms(1)] assms(8) unfolding idents_ok_def by blast
  then have "route_dead ?rid ?i ?h2" using fg by (simp add: route_dead_def revoke_foreground_def)
  moreover have "moves ?h2 (settings_commit cfg c did (ds_ident d) q (Inr rec) ?h)"
    unfolding r using moves_send [OF moves_refl x] moves_tables [OF moves_send [OF moves_refl x],
        of "h3\<lparr>hb_devices := mput did (d\<lparr>ds_record := rec, ds_ready := True\<rparr>) (hb_devices h3)\<rparr>"]
    by (cases e) (auto intro: move_intros)
  ultimately have "route_dead ?rid ?i (settings_commit cfg c did (ds_ident d) q (Inr rec) ?h)"
    using moves_induct [of ?h2 _ "route_dead ?rid ?i"] move_dead by blast
  then show ?thesis using steps_dead [OF assms(11)] by (intro dead_never_renews) simp
qed

text \<open>Witnesses: the demo's route, cancelled by its caller or by the device.\<close>

definition demo5 :: relay where
  "demo5 = demo4\<lparr>rl_hub := handle_invoke demo_cfg 2 ''d'' (cancel_message ''r1'') '''' None None (rl_hub demo4)\<rparr>"

lemma demo5_reachable: "hub_reachable demo_cfg demo5"
proof -
  have "hub_step demo_cfg demo4 demo5" unfolding demo5_def
    by (rule invoke [where role = RoleClient]) (code_simp, code_simp)
  from hub_next [OF demo4_reachable this] show ?thesis .
qed

definition renew_message :: message where
  "renew_message = message0\<lparr>m_type := TypeExecutionRenewRoute, m_request_id := ''k'', m_exec_id := ''i1''\<rparr>"

theorem cancelled_route_never_renews_witness:
  "renew_route_reply 1 1 renew_message (RenewGranted 5000000000) False (rl_hub demo5) = lease_reply renew_message Unauthorized 0
   \<and> renew_route_reply 1 1 renew_message (RenewGranted 5000000000) False (rl_hub demo4) = lease_reply renew_message '''' 5000"
proof -
  have t: "mget (hb_inflight (rl_hub demo5)) (m_exec_id renew_message) = Some (demo_route\<lparr>tk_cancelled := True\<rparr>)"
    "tk_ident demo_route = 1" by code_simp+
  have "renew_route_reply 1 1 renew_message (RenewGranted 5000000000) False (rl_hub demo5) = lease_reply renew_message Unauthorized 0"
    using cancelled_route_never_renews [OF demo5_reachable t(1)] t(2) by simp
  then show ?thesis by (rule conjI) code_simp
qed

theorem inbound_off_stops_executions_witness:
  "renew_route_reply 1 1 renew_message (RenewGranted 5000000000) False
     (settings_commit demo_cfg 1 ''d'' 0 settings_message (Inr (hub_device\<lparr>dev_inbound := False\<rparr>)) (rl_hub demo4))
   = lease_reply renew_message Unauthorized 0"
proof -
  have t: "mget (rl_sessions demo4) 1 = Some (RoleDevice, ''d'')" "mget (hb_devices (rl_hub demo4)) ''d'' = Some demo_slot"
    "dev_inbound (ds_record demo_slot)" "\<not> dev_inbound (hub_device\<lparr>dev_inbound := False\<rparr>)"
    "dev_uid (hub_device\<lparr>dev_inbound := False\<rparr>) = dev_uid (ds_record demo_slot)" "m_type settings_message \<noteq> TypeRevoke"
    "mget (hb_inflight (rl_hub demo4)) (m_exec_id renew_message) = Some demo_route"
    "tk_device demo_route = ''d''" "tk_operation demo_route = OpExec" by code_simp+
  have i: "tk_ident demo_route = 1" "ds_ident demo_slot = 0" by code_simp+
  show ?thesis using inbound_off_stops_executions [OF demo4_reachable t rtranclp.rtrancl_refl] i by simp
qed

end
