(* ===== verification/Account.thy ===== *)
theory Account
  imports AccessService
begin

text \<open>
  The account service, \<open>internal/account/service.go\<close>: creating principals and organizations, issuing
  and revoking credentials, suspending memberships, on the tables of \<open>Storage\<close>. The identifiers, the
  token and the clock (nanoseconds) that a run draws are \<open>account_env\<close>; \<open>sha\<close> stands for
  \<open>protocol.SHA256Hex\<close>.
\<close>

section \<open>Requests and operations\<close>

record account_env =
  ae_ids :: "(string \<times> string \<times> string) option"
  ae_credential :: "string option"
  ae_token :: "string option"
  ae_now :: int

record create_request =
  cq_name :: string
  cq_kind :: string
  cq_tenant :: string
  cq_ttl :: int

record enrollment =
  er_token :: string
  er_identity :: principal

definition valid_id :: "string \<Rightarrow> bool" where
  "valid_id v \<longleftrightarrow> length v = 32 \<and> list_all lower_hex v"

definition validate_principal_request :: "create_request \<Rightarrow> failure + unit" where
  "validate_principal_request rq =
    (if \<not> valid_enrollment (cq_name rq) (cq_kind rq) (cq_ttl rq) then Inl InvalidAccountRequest
     else if cq_tenant rq \<noteq> '''' \<and> \<not> valid_id (cq_tenant rq) then Inl InvalidAccountRequest
     else Inr ())"

definition issue ::
  "(string \<Rightarrow> string) \<Rightarrow> account_env \<Rightarrow> member_row \<Rightarrow> int \<Rightarrow> db \<Rightarrow> failure + db \<times> enrollment" where
  "issue sha en m ttl t =
    (if \<not> mr_active m then Inl PrincipalUnauthorized
     else case ae_credential en of
       None \<Rightarrow> Inl RandomFailure
     | Some cid \<Rightarrow> (case ae_token en of
         None \<Rightarrow> Inl RandomFailure
       | Some token \<Rightarrow>
          (let expires = (ae_now en + ttl) div nanos_per_second
           in case insert_credential \<lparr>c_id = cid, c_token_hash = sha token, c_membership = mr_id m,
                     c_expires = expires, c_revoked = False\<rparr> t of
                Inl e \<Rightarrow> Inl e
              | Inr t' \<Rightarrow> Inr (t', \<lparr>er_token = token, er_identity =
                  \<lparr>p_authority = db_authority t, p_principal = mr_principal m, p_tenant = mr_tenant m,
                   p_membership = mr_id m, p_version = mr_version m, p_credential = cid,
                   p_expires = expires\<rparr>\<rparr>))))"

definition create_principal_body ::
  "(string \<Rightarrow> string) \<Rightarrow> account_env \<Rightarrow> create_request \<Rightarrow> db \<Rightarrow> failure + db \<times> enrollment" where
  "create_principal_body sha en rq t =
    (case ae_ids en of
       None \<Rightarrow> Inl RandomFailure
     | Some (pid, tid, mid) \<Rightarrow>
        (let name = trim_space (cq_name rq);
             tenant = (if cq_tenant rq = '''' then tid else cq_tenant rq);
             m = \<lparr>mr_id = mid, mr_tenant = tenant, mr_principal = pid,
                  mr_role = (if cq_tenant rq = '''' then ''owner'' else ''member''),
                  mr_active = True, mr_version = 1\<rparr>
         in case (if cq_tenant rq = ''''
                  then insert_tenant \<lparr>t_id = tid, t_name = name, t_kind = ''personal''\<rparr> t
                  else Inr t) of
              Inl e \<Rightarrow> Inl e
            | Inr t1 \<Rightarrow> (case insert_principal \<lparr>pr_id = pid, pr_name = name, pr_kind = cq_kind rq\<rparr> t1 of
                Inl e \<Rightarrow> Inl e
              | Inr t2 \<Rightarrow> (case insert_membership m t2 of
                  Inl e \<Rightarrow> Inl e
                | Inr t3 \<Rightarrow> issue sha en m (cq_ttl rq) t3))))"

definition create_principal ::
  "(string \<Rightarrow> string) \<Rightarrow> attempt list \<Rightarrow> account_env \<Rightarrow> create_request \<Rightarrow> db \<Rightarrow> db \<times> (failure + enrollment)" where
  "create_principal sha as en rq t =
    (case validate_principal_request rq of
       Inl e \<Rightarrow> (t, Inl e) | Inr _ \<Rightarrow> store_transaction as (create_principal_body sha en rq) t)"

definition issue_credential_body ::
  "(string \<Rightarrow> string) \<Rightarrow> account_env \<Rightarrow> string \<Rightarrow> int \<Rightarrow> db \<Rightarrow> failure + db \<times> enrollment" where
  "issue_credential_body sha en mid ttl t =
    (case load_membership mid t of Inl e \<Rightarrow> Inl e | Inr m \<Rightarrow> issue sha en m ttl t)"

definition issue_credential ::
  "(string \<Rightarrow> string) \<Rightarrow> attempt list \<Rightarrow> account_env \<Rightarrow> string \<Rightarrow> int \<Rightarrow> db \<Rightarrow> db \<times> (failure + enrollment)" where
  "issue_credential sha as en mid ttl t =
    (if \<not> valid_id mid \<or> ttl < nanos_per_minute \<or> ninety_days < ttl then (t, Inl InvalidAccountRequest)
     else store_transaction as (issue_credential_body sha en mid ttl) t)"

definition silent :: "(db \<Rightarrow> failure + db) \<Rightarrow> db \<Rightarrow> failure + db \<times> unit" where
  "silent f t = (case f t of Inl e \<Rightarrow> Inl e | Inr t' \<Rightarrow> Inr (t', ()))"

definition create_organization ::
  "attempt list \<Rightarrow> string option \<Rightarrow> string \<Rightarrow> db \<Rightarrow> db \<times> (failure + string)" where
  "create_organization as fresh name t =
    (let name' = trim_space name in
     if name' = '''' \<or> 200 < length name' then (t, Inl InvalidAccountRequest)
     else case fresh of
       None \<Rightarrow> (t, Inl RandomFailure)
     | Some tid \<Rightarrow>
        (case store_transaction as (silent (insert_tenant
                \<lparr>t_id = tid, t_name = name', t_kind = ''organization''\<rparr>)) t of
           (t', Inl e) \<Rightarrow> (t', Inl e)
         | (t', Inr _) \<Rightarrow> (t', Inr tid)))"

definition revoke_credential :: "attempt list \<Rightarrow> string \<Rightarrow> db \<Rightarrow> db \<times> (failure + unit)" where
  "revoke_credential as cid t =
    (if \<not> valid_id cid then (t, Inl InvalidAccountRequest)
     else store_transaction as (silent (revoke_credential_row cid)) t)"

definition set_membership_active :: "attempt list \<Rightarrow> string \<Rightarrow> bool \<Rightarrow> db \<Rightarrow> db \<times> (failure + unit)" where
  "set_membership_active as mid a t =
    (if \<not> valid_id mid then (t, Inl InvalidAccountRequest)
     else store_transaction as (silent (set_member_active mid a)) t)"

section \<open>Integrity\<close>

lemma issue_ok: "db_ok t \<Longrightarrow> issue sha en m ttl t = Inr (t', er) \<Longrightarrow> db_ok t'"
  by (auto simp: issue_def Let_def split: if_splits option.splits sum.splits intro: insert_credential_ok)

lemma create_principal_parts:
  assumes "create_principal_body sha en rq t = Inr (t', er)"
  obtains t1 t2 t3 m p where "t1 = t \<or> (\<exists>r. insert_tenant r t = Inr t1)"
    "insert_principal p t1 = Inr t2" "insert_membership m t2 = Inr t3" "mr_active m"
    "issue sha en m (cq_ttl rq) t3 = Inr (t', er)"
  using assms
  by (simp add: create_principal_body_def Let_def split: option.splits prod.splits sum.splits if_splits)
     (metis member_row.select_convs(5))+

lemma create_principal_body_ok:
  assumes "db_ok t" "create_principal_body sha en rq t = Inr (t', er)" shows "db_ok t'"
  using assms(2)
proof (rule create_principal_parts)
  fix t1 t2 t3 m p
  assume s: "t1 = t \<or> (\<exists>r. insert_tenant r t = Inr t1)" "insert_principal p t1 = Inr t2"
    "insert_membership m t2 = Inr t3" "issue sha en m (cq_ttl rq) t3 = Inr (t', er)"
  have "db_ok t1" using s(1) assms(1) insert_tenant_ok by auto
  then show ?thesis using s(2-4) by (blast intro: insert_principal_ok insert_membership_ok issue_ok)
qed

lemma issue_credential_body_ok:
  "db_ok t \<Longrightarrow> issue_credential_body sha en mid ttl t = Inr (t', er) \<Longrightarrow> db_ok t'"
  by (auto simp: issue_credential_body_def split: sum.splits intro: issue_ok)

lemma silent_ok:
  "(\<And>t t'. db_ok t \<Longrightarrow> f t = Inr t' \<Longrightarrow> db_ok t') \<Longrightarrow> db_ok t \<Longrightarrow> silent f t = Inr (t', u) \<Longrightarrow> db_ok t'"
  by (auto simp: silent_def split: sum.splits)

section \<open>Properties\<close>

lemma member_row_kept:
  assumes "members_ok t" "mr \<in> set (tb_members t)"
  shows "find (\<lambda>m. mr_id m = mr_id mr) (tb_members t) = Some mr"
  using assms find_keyed [of mr_id "tb_members t" "mr_id mr" mr] by (simp add: members_ok_def)

lemma issue_reads_back:
  assumes ok: "db_ok t" and m: "m \<in> set (tb_members t)" and r: "issue sha en m ttl t = Inr (t', er)"
  shows "credential_by_token_hash t' (sha (er_token er)) = Inr \<lparr>cr_identity = er_identity er,
      cr_revoked = False, cr_member_active = True\<rparr>"
    and "ae_token en = Some (er_token er)"
    and "p_expires (er_identity er) = (ae_now en + ttl) div nanos_per_second"
    and "p_membership (er_identity er) = mr_id m"
proof -
  obtain cid token where c: "ae_credential en = Some cid" "ae_token en = Some token" "mr_active m"
    and i: "insert_credential \<lparr>c_id = cid, c_token_hash = sha token, c_membership = mr_id m,
        c_expires = (ae_now en + ttl) div nanos_per_second, c_revoked = False\<rparr> t = Inr t'"
    and er: "er = \<lparr>er_token = token, er_identity =
                  \<lparr>p_authority = db_authority t, p_principal = mr_principal m, p_tenant = mr_tenant m,
                   p_membership = mr_id m, p_version = mr_version m, p_credential = cid,
                   p_expires = (ae_now en + ttl) div nanos_per_second\<rparr>\<rparr>"
    using r by (auto simp: issue_def Let_def split: if_splits option.splits sum.splits)
  show "ae_token en = Some (er_token er)" "p_membership (er_identity er) = mr_id m"
    "p_expires (er_identity er) = (ae_now en + ttl) div nanos_per_second"
    using c(2) by (simp_all add: er)
  have fresh: "\<forall>x \<in> set (tb_credentials t). c_token_hash x \<noteq> sha token"
    and t': "t' = t\<lparr>tb_credentials := tb_credentials t @ [\<lparr>c_id = cid, c_token_hash = sha token,
      c_membership = mr_id m, c_expires = (ae_now en + ttl) div nanos_per_second, c_revoked = False\<rparr>]\<rparr>"
    using i by (auto simp: insert_credential_def split: if_splits)
  have "find (\<lambda>c. c_token_hash c = sha token) (tb_credentials t) = None"
    using fresh by (auto simp: find_no_row)
  then show "credential_by_token_hash t' (sha (er_token er)) = Inr \<lparr>cr_identity = er_identity er,
      cr_revoked = False, cr_member_active = True\<rparr>"
    using member_row_kept [OF _ m] ok c(3)
    by (simp add: credential_by_token_hash_def find_credential_def t' er find_append credential_view_def db_ok_def)
qed

lemma load_membership_row: "load_membership mid t = Inr m \<Longrightarrow> m \<in> set (tb_members t) \<and> mr_id m = mid"
  by (auto simp: load_membership_def split: option.splits dest: find_row)

text \<open>C31. An issued token works until it expires and not longer: after \<open>IssueCredential\<close> or
  \<open>CreatePrincipal\<close> succeeds, authenticating the returned token against the tables yields exactly the
  returned identity before its expiry second, and \<open>ErrUnauthorized\<close> from that second on.\<close>

theorem issued_token_authenticates:
  assumes "db_ok t"
    and "issue_credential_body sha en mid ttl t = Inr (t', er) \<or> create_principal_body sha en rq t = Inr (t', er)"
    and "\<forall>token. ae_token en = Some token \<longrightarrow> valid_token token"
  shows "authenticate (credential_by_token_hash t') sha False now (er_token er) =
     (if now < p_expires (er_identity er) then Inr (er_identity er) else Inl PrincipalUnauthorized)"
proof -
  obtain u m l where u: "db_ok u" "m \<in> set (tb_members u)" "issue sha en m l u = Inr (t', er)"
  proof (cases "issue_credential_body sha en mid ttl t = Inr (t', er)")
    case True
    then obtain m where "load_membership mid t = Inr m" "issue sha en m ttl t = Inr (t', er)"
      by (auto simp: issue_credential_body_def split: sum.splits)
    then show thesis using that [of t m ttl] assms(1) load_membership_row by blast
  next
    case False
    then have "create_principal_body sha en rq t = Inr (t', er)" using assms(2) by blast
    then show thesis
    proof (rule create_principal_parts)
      fix t1 t2 t3 m p
      assume s: "t1 = t \<or> (\<exists>r. insert_tenant r t = Inr t1)" "insert_principal p t1 = Inr t2"
        "insert_membership m t2 = Inr t3" "issue sha en m (cq_ttl rq) t3 = Inr (t', er)"
      have "db_ok t1" using s(1) assms(1) insert_tenant_ok by auto
      then have "db_ok t3" using s(2,3) by (blast intro: insert_principal_ok insert_membership_ok)
      moreover have "m \<in> set (tb_members t3)" using s(3) by (auto simp: insert_membership_def split: if_splits)
      ultimately show thesis using that [OF _ _ s(4)] by simp
    qed
  qed
  show ?thesis
    using issue_reads_back(1,2) [OF u] assms(3)
    by (auto simp: authenticate_def credential_valid_at_def)
qed

definition demo_account_env :: account_env where
  "demo_account_env = \<lparr>ae_ids = None, ae_credential = Some ''c3'',
     ae_token = Some (token_prefix @ replicate 64 CHR ''a''), ae_now = 10 * nanos_per_second\<rparr>"

lemma demo_issue:
  "issue_credential_body (\<lambda>s. ''h'' @ s) demo_account_env ''mb'' nanos_per_minute demo_db
   = Inr (demo_db\<lparr>tb_credentials := tb_credentials demo_db @ [\<lparr>c_id = ''c3'',
       c_token_hash = ''h'' @ token_prefix @ replicate 64 CHR ''a'', c_membership = ''mb'', c_expires = 70,
       c_revoked = False\<rparr>]\<rparr>,
     \<lparr>er_token = token_prefix @ replicate 64 CHR ''a'',
      er_identity = bob\<lparr>p_credential := ''c3'', p_expires := 70\<rparr>\<rparr>)"
  by (simp add: issue_credential_body_def load_membership_def issue_def demo_db_def demo_account_env_def
      insert_credential_def bob_def token_prefix_def Let_def)

theorem issued_token_authenticates_witness:
  "\<exists>t' er. issue_credential_body (\<lambda>s. ''h'' @ s) demo_account_env ''mb'' nanos_per_minute demo_db = Inr (t', er)
     \<and> authenticate (credential_by_token_hash t') (\<lambda>s. ''h'' @ s) False 69 (er_token er) = Inr (er_identity er)"
proof -
  have v: "\<forall>token. ae_token demo_account_env = Some token \<longrightarrow> valid_token token"
    by (simp add: demo_account_env_def valid_token_def lower_hex_def list_all_iff)
  show ?thesis
    using issued_token_authenticates [OF demo_db_ok disjI1 [OF demo_issue] v, of 69] demo_issue
    by (simp add: bob_def)
qed

text \<open>An identity is dead once its credential is revoked or its membership version has moved on.\<close>

definition dead :: "principal \<Rightarrow> db \<Rightarrow> bool" where
  "dead who t \<longleftrightarrow> (\<exists>c \<in> set (tb_credentials t). c_id c = p_credential who
     \<and> (c_revoked c \<or> (\<exists>m \<in> set (tb_members t). mr_id m = c_membership c \<and> p_version who < mr_version m)))"

lemma credential_by_id_row:
  assumes "credential_by_id t cid = Inr k"
  obtains c m where "c \<in> set (tb_credentials t)" "c_id c = cid" "m \<in> set (tb_members t)"
    "mr_id m = c_membership c" "k = credential_view t c m"
proof -
  obtain c m where f: "find (\<lambda>c. c_id c = cid) (tb_credentials t) = Some c"
    "find (\<lambda>m. mr_id m = c_membership c) (tb_members t) = Some m" "k = credential_view t c m"
    using assms by (auto simp: credential_by_id_def find_credential_def split: option.splits)
  show thesis using that [of c m] find_row [OF f(1)] find_row [OF f(2)] f(3) by simp
qed

lemma dead_refused:
  assumes "members_ok t" "dead who t" shows "verify_identity (credential_by_id t) ended now who \<noteq> Inr ()"
proof
  assume "verify_identity (credential_by_id t) ended now who = Inr ()"
  then obtain k where k: "credential_by_id t (p_credential who) = Inr k" "cr_identity k = who" "\<not> cr_revoked k"
    by (auto simp: verify_identity_ok)
  from k(1) obtain c m where r: "c \<in> set (tb_credentials t)" "c_id c = p_credential who"
    "m \<in> set (tb_members t)" "mr_id m = c_membership c" and v: "k = credential_view t c m"
    by (rule credential_by_id_row)
  obtain c' where c': "c' \<in> set (tb_credentials t)" "c_id c' = p_credential who"
    "c_revoked c' \<or> (\<exists>m \<in> set (tb_members t). mr_id m = c_membership c' \<and> p_version who < mr_version m)"
    using assms(2) by (auto simp: dead_def)
  have "c' = c" using assms(1) r c' by (auto simp: members_ok_def distinct_map inj_on_def)
  moreover have "m' = m" if "m' \<in> set (tb_members t)" "mr_id m' = mr_id m" for m'
    using assms(1) r that by (auto simp: members_ok_def distinct_map inj_on_def)
  moreover have "p_version who = mr_version m" "\<not> c_revoked c"
    using k(2,3) unfolding v by (auto simp: credential_view_def)
  ultimately show False using c'(3) r(4) by fastforce
qed

lemma dead_mono:
  assumes "dead who t" "\<And>c. c \<in> set (tb_credentials t) \<Longrightarrow> \<exists>c' \<in> set (tb_credentials t').
      c_id c' = c_id c \<and> c_membership c' = c_membership c \<and> (c_revoked c \<longrightarrow> c_revoked c')"
    "\<And>m. m \<in> set (tb_members t) \<Longrightarrow> \<exists>m' \<in> set (tb_members t'). mr_id m' = mr_id m \<and> mr_version m \<le> mr_version m'"
  shows "dead who t'"
proof -
  obtain c where c: "c \<in> set (tb_credentials t)" "c_id c = p_credential who"
    "c_revoked c \<or> (\<exists>m \<in> set (tb_members t). mr_id m = c_membership c \<and> p_version who < mr_version m)"
    using assms(1) by (auto simp: dead_def)
  obtain c' where c': "c' \<in> set (tb_credentials t')" "c_id c' = c_id c" "c_membership c' = c_membership c"
    "c_revoked c \<longrightarrow> c_revoked c'" using assms(2) [OF c(1)] by blast
  show ?thesis
  proof (cases "c_revoked c")
    case True
    then show ?thesis using c c' by (auto simp: dead_def)
  next
    case False
    then obtain m where m: "m \<in> set (tb_members t)" "mr_id m = c_membership c" "p_version who < mr_version m"
      using c(3) by blast
    obtain m' where "m' \<in> set (tb_members t')" "mr_id m' = mr_id m" "mr_version m \<le> mr_version m'"
      using assms(3) [OF m(1)] by blast
    then show ?thesis using c c' m by (force simp: dead_def)
  qed
qed

end
