(* ===== verification/RelayStore.thy ===== *)
theory RelayStore
  imports Account
begin

text \<open>
  Every operation the relay runs against its store, and its histories. \<open>relay_op\<close> lists the writing operations of
  the device store, the access service and the account service; \<open>relay_body\<close> is the callback each
  gives to the retry loop. The contract of the store (\<open>access/store.go\<close>, \<open>account/store.go\<close>: all writes
  commit before success, an error changes nothing) is the locale \<open>transactional\<close>; its client is any
  sequence of operations under any faults.
\<close>

section \<open>Operations\<close>

datatype relay_op =
    DoRegister "string option" string string bool int
  | DoUpdate "string option" string device int
  | DoDelete string string string
  | DoManage access_env string device principal access_request
  | DoCreate account_env create_request
  | DoIssue account_env string int
  | DoTenant tenant_row
  | DoRevoke string
  | DoSuspend string bool

definition forget :: "failure + db \<times> 'a \<Rightarrow> failure + db \<times> unit" where
  "forget r = (case r of Inl e \<Rightarrow> Inl e | Inr (t, _) \<Rightarrow> Inr (t, ()))"

fun relay_body :: "(string \<Rightarrow> string) \<Rightarrow> relay_op \<Rightarrow> db \<Rightarrow> failure + db \<times> unit" where
  "relay_body sha (DoRegister fresh did secret inbound now) t =
     (case new_device fresh secret inbound of
        Inl e \<Rightarrow> Inl e | Inr cand \<Rightarrow> forget (register_body cand did secret inbound now t))"
| "relay_body sha (DoUpdate fresh did requested now) t = forget (update_body fresh did requested now t)"
| "relay_body sha (DoDelete did uid secret) t = forget (delete_device_body did uid secret t)"
| "relay_body sha (DoManage en did expected actor rq) t =
     (case validate_request rq of
        Inl e \<Rightarrow> Inl e | Inr _ \<Rightarrow> forget (manage_body en did expected actor rq t))"
| "relay_body sha (DoCreate en rq) t =
     (case validate_principal_request rq of
        Inl e \<Rightarrow> Inl e | Inr _ \<Rightarrow> forget (create_principal_body sha en rq t))"
| "relay_body sha (DoIssue en mid ttl) t = forget (issue_credential_body sha en mid ttl t)"
| "relay_body sha (DoTenant r) t = silent (insert_tenant r) t"
| "relay_body sha (DoRevoke cid) t = silent (revoke_credential_row cid) t"
| "relay_body sha (DoSuspend mid a) t = silent (set_member_active mid a) t"

fun run_history :: "('r \<Rightarrow> db \<Rightarrow> failure + db \<times> unit) \<Rightarrow> (attempt list \<times> 'r) list \<Rightarrow> db \<Rightarrow> db" where
  "run_history body [] t = t"
| "run_history body ((as, r) # h) t = run_history body h (fst (store_transaction as (body r) t))"

text \<open>What runs while a retry sleeps keeps a condition.\<close>

fun others_keep :: "(db \<Rightarrow> bool) \<Rightarrow> attempt list \<Rightarrow> bool" where
  "others_keep P [] \<longleftrightarrow> True"
| "others_keep P (StatementFails bsy rb over oth # as) \<longleftrightarrow> (\<forall>t. P t \<longrightarrow> P (oth t)) \<and> others_keep P as"
| "others_keep P (a # as) \<longleftrightarrow> others_keep P as"

section \<open>The store's contract\<close>

locale transactional =
  fixes P :: "db \<Rightarrow> bool"
    and body :: "'r \<Rightarrow> db \<Rightarrow> failure + db \<times> unit"
  assumes body_keeps: "P t \<Longrightarrow> body r t = Inr (t', u) \<Longrightarrow> P t'"
begin

lemma transaction_keeps: "P t \<Longrightarrow> others_keep P as \<Longrightarrow> P (fst (store_transaction as (body r) t))"
proof (induction as "body r" t rule: store_transaction.induct)
  case (5 over com as t)
  then show ?case using body_keeps [of t r]
    by (auto split: sum.split prod.split commit_outcome.split)
qed auto

lemma history_keeps:
  "P t \<Longrightarrow> (\<forall>(as, r) \<in> set h. others_keep P as) \<Longrightarrow> P (run_history body h t)"
  by (induction h arbitrary: t) (auto simp: transaction_keeps)

end

section \<open>Integrity is kept by every operation\<close>

lemma forget_Inr: "forget r = Inr (t', u) \<longleftrightarrow> (\<exists>x. r = Inr (t', x))"
  by (auto simp: forget_def split: sum.splits)

lemma silent_Inr: "silent f t = Inr (t', u) \<longleftrightarrow> f t = Inr t'"
  by (auto simp: silent_def split: sum.splits)

lemma relay_body_ok: "db_ok t \<Longrightarrow> relay_body sha r t = Inr (t', u) \<Longrightarrow> db_ok t'"
  by (cases r)
     (auto simp: forget_Inr silent_Inr split: sum.splits
       intro: register_body_ok update_body_ok delete_device_body_ok manage_body_ok create_principal_body_ok
         issue_credential_body_ok insert_tenant_ok revoke_credential_row_ok set_member_active_ok)

interpretation integrity: transactional db_ok "relay_body sha" for sha
  by unfold_locales (rule relay_body_ok)

text \<open>The accounts part: rows of credentials and members are never dropped, a revocation never undone and a version never lowered.\<close>

definition accounts_grow :: "db \<Rightarrow> db \<Rightarrow> bool" where
  "accounts_grow t t' \<longleftrightarrow>
     (\<forall>c \<in> set (tb_credentials t). \<exists>c' \<in> set (tb_credentials t').
        c_id c' = c_id c \<and> c_membership c' = c_membership c \<and> (c_revoked c \<longrightarrow> c_revoked c'))
     \<and> (\<forall>m \<in> set (tb_members t). \<exists>m' \<in> set (tb_members t'). mr_id m' = mr_id m \<and> mr_version m \<le> mr_version m')"

lemma accounts_same:
  "tb_credentials t' = tb_credentials t \<Longrightarrow> tb_members t' = tb_members t \<Longrightarrow> accounts_grow t t'"
  unfolding accounts_grow_def by (intro conjI ballI bexI) auto

lemma accounts_appended:
  "tb_credentials t' = tb_credentials t @ cs \<Longrightarrow> tb_members t' = tb_members t @ ms \<Longrightarrow> accounts_grow t t'"
  unfolding accounts_grow_def by (intro conjI ballI bexI) auto

lemma accounts_grow_trans: "accounts_grow t u \<Longrightarrow> accounts_grow u v \<Longrightarrow> accounts_grow t v"
  unfolding accounts_grow_def by (intro conjI ballI; metis order_trans)

lemma manage_body_accounts:
  assumes "db_ok t" "manage_body en did expected actor rq t = Inr (t', mu)" shows "accounts_grow t t'"
  using assms(2)
proof (rule manage_body_parts)
  fix d assume "load_device did t = Inr d" "apply_action en actor d rq t = Inr t'"
  then have "same_outside (dev_uid d) (dev_ownership d) t t'" by (rule apply_action_frame [OF assms(1)])
  then show ?thesis by (intro accounts_same) (simp_all add: same_outside_def)
qed

lemma issue_accounts: "issue sha en m ttl t = Inr (t', er) \<Longrightarrow> accounts_grow t t'"
  by (auto simp: issue_def insert_credential_def Let_def split: if_splits option.splits sum.splits
      intro!: accounts_appended [where ms = "[]"])

lemma create_principal_accounts:
  assumes "create_principal_body sha en rq t = Inr (t', er)" shows "accounts_grow t t'"
  using assms
proof (rule create_principal_parts)
  fix t1 t2 t3 m p
  assume s: "t1 = t \<or> (\<exists>r. insert_tenant r t = Inr t1)" "insert_principal p t1 = Inr t2"
    "insert_membership m t2 = Inr t3" "issue sha en m (cq_ttl rq) t3 = Inr (t', er)"
  have "tb_credentials t3 = tb_credentials t @ []" "tb_members t3 = tb_members t @ [m]"
    using s(1-3) by (auto simp: insert_tenant_def insert_principal_def insert_membership_def split: if_splits)
  then have "accounts_grow t t3" by (rule accounts_appended)
  then show ?thesis using issue_accounts [OF s(4)] by (rule accounts_grow_trans)
qed

lemma device_ops_accounts:
  "register_body c did h i now t = Inr (t', x) \<Longrightarrow> accounts_grow t t'"
  "update_body f did d now t = Inr (t', x) \<Longrightarrow> accounts_grow t t'"
  "delete_device_body did uid h t = Inr (t', w) \<Longrightarrow> accounts_grow t t'"
  by (rule accounts_same;
      auto simp: register_body_def update_body_def delete_device_body_def put_grant_def drop_ownerships_def Let_def
        split: sum.splits failure.splits if_splits)+

lemma accounts_mapped:
  assumes "tb_credentials t' = map f (tb_credentials t)" "tb_members t' = map g (tb_members t)"
    and "\<And>c. c_id (f c) = c_id c \<and> c_membership (f c) = c_membership c \<and> (c_revoked c \<longrightarrow> c_revoked (f c))"
    and "\<And>m. mr_id (g m) = mr_id m \<and> mr_version m \<le> mr_version (g m)"
  shows "accounts_grow t t'"
  using assms(3,4) by (auto simp: accounts_grow_def assms(1,2))

lemma revoke_accounts: "revoke_credential_row cid t = Inr t' \<Longrightarrow> accounts_grow t t'"
  by (rule accounts_mapped [where f = "\<lambda>c. if c_id c = cid then c\<lparr>c_revoked := True\<rparr> else c" and g = "\<lambda>m. m"])
     (auto simp: revoke_credential_row_def split: if_splits)

lemma suspend_accounts: "set_member_active mid a t = Inr t' \<Longrightarrow> accounts_grow t t'"
  by (rule accounts_mapped [where f = "\<lambda>c. c"
        and g = "\<lambda>m. if mr_id m = mid then m\<lparr>mr_active := a, mr_version := mr_version m + 1\<rparr> else m"])
     (auto simp: set_member_active_def split: if_splits)

lemma relay_body_accounts:
  "db_ok t \<Longrightarrow> relay_body sha r t = Inr (t', u) \<Longrightarrow> accounts_grow t t'"
  by (cases r)
     (auto simp: forget_Inr silent_Inr issue_credential_body_def insert_tenant_def split: sum.splits if_splits
       intro: device_ops_accounts manage_body_accounts create_principal_accounts issue_accounts
         revoke_accounts suspend_accounts accounts_same)

lemma dead_stays: "dead who t \<Longrightarrow> accounts_grow t t' \<Longrightarrow> dead who t'"
  by (rule dead_mono) (auto simp: accounts_grow_def)

interpretation dying: transactional "\<lambda>t. db_ok t \<and> dead who t" "relay_body sha" for who sha
  by unfold_locales (blast intro: relay_body_ok dead_stays relay_body_accounts)

section \<open>Properties\<close>

text \<open>The tables stay sound along every history of the relay: starting from a new database, after any
  sequence of operations by any callers, with any failed, retried or uncertain transaction, the keys
  are unique, the references resolve, and no ownership has more than 128 shares.\<close>

theorem history_keeps_integrity:
  assumes "\<forall>(as, r) \<in> set h. others_keep db_ok as"
  shows "db_ok (run_history (relay_body sha) h (new_db a))"
  by (rule integrity.history_keeps [OF db_ok_new assms])

theorem history_keeps_integrity_witness:
  "db_ok (run_history (relay_body id)
     [([StatementFails True True False (\<lambda>t. t), Runs False (CommitLost True)], DoRegister (Some ''u'') ''1'' ''s'' True 5)]
     (new_db ''z''))"
  by (rule history_keeps_integrity) simp

lemma revoked_dead:
  assumes "db_ok t" "silent (revoke_credential_row (p_credential who)) t = Inr (t', u)"
  shows "db_ok t' \<and> dead who t'"
proof -
  have r: "revoke_credential_row (p_credential who) t = Inr t'" using assms(2) by (simp add: silent_Inr)
  have "\<exists>c \<in> set (tb_credentials t). c_id c = p_credential who"
  proof (rule ccontr)
    assume "\<not> ?thesis"
    then have "filter (\<lambda>c. c_id c = p_credential who) (tb_credentials t) = []" by (simp add: filter_empty_conv)
    then show False using r by (simp add: revoke_credential_row_def)
  qed
  then obtain c where "c \<in> set (tb_credentials t)" "c_id c = p_credential who" by blast
  moreover have "tb_credentials t' = map (\<lambda>c. if c_id c = p_credential who then c\<lparr>c_revoked := True\<rparr> else c)
      (tb_credentials t)"
    using r by (auto simp: revoke_credential_row_def split: if_splits)
  ultimately have "c\<lparr>c_revoked := True\<rparr> \<in> set (tb_credentials t')" by force
  then have "dead who t'"
    unfolding dead_def by (rule bexI [rotated]) (simp add: \<open>c_id c = p_credential who\<close>)
  then show ?thesis using revoke_credential_row_ok [OF assms(1) r] by simp
qed

lemma suspended_dead:
  assumes "db_ok t" "set_member_active (p_membership who) a t = Inr t'"
    and "verify_identity (credential_by_id t) e now who = Inr ()"
  shows "db_ok t' \<and> dead who t'"
proof -
  obtain k where k: "credential_by_id t (p_credential who) = Inr k" "cr_identity k = who"
    using assms(3) by (auto simp: verify_identity_ok)
  from k(1) obtain c m where r: "c \<in> set (tb_credentials t)" "c_id c = p_credential who"
    "m \<in> set (tb_members t)" "mr_id m = c_membership c" and v: "k = credential_view t c m"
    by (rule credential_by_id_row)
  have p: "p_membership who = mr_id m" "p_version who = mr_version m"
    using k(2) unfolding v by (auto simp: credential_view_def)
  let ?m = "m\<lparr>mr_active := a, mr_version := mr_version m + 1\<rparr>"
  have "?m \<in> set (tb_members t')" "tb_credentials t' = tb_credentials t"
    using assms(2) r(3) p by (auto simp: set_member_active_def split: if_splits)
  moreover have "mr_id ?m = c_membership c" "p_version who < mr_version ?m" using r(4) p by simp_all
  ultimately have "dead who t'" using r unfolding dead_def by metis
  then show ?thesis using set_member_active_ok [OF assms(1,2)] by simp
qed



end
