(* ===== verification/Inbox.thy ===== *)
theory Inbox
  imports Outbox
begin

text \<open>
  The bounded reader queue of a relay connection, \<open>internal/relay/inbox.go\<close>. The reader goroutine
  (\<open>newInbox\<close>, \<open>offer\<close>) and the consumer (the loop at the end of \<open>serveConn\<close>) share
  a channel and an atomic counter, without a lock: each atomic access is one step here. \<open>ib_reader\<close> is where the
  reader stands inside \<open>offer\<close>; \<open>ib_taken\<close> is a frame the consumer received and whose bytes it has
  not yet subtracted. \<open>offer_alone\<close> is the whole function when the consumer does not move meanwhile.
\<close>

record frame =
  f_msg :: message
  f_bytes :: int

datatype reader = ReadIdle | Checked frame | Added frame | ReadEnded

record inbox =
  ib_frames :: "frame list"
  ib_bytes :: int
  ib_reader :: reader
  ib_taken :: "frame option"
  ib_dropped :: "message list"

definition new_inbox :: inbox where
  "new_inbox = \<lparr>ib_frames = [], ib_bytes = 0, ib_reader = ReadIdle, ib_taken = None, ib_dropped = []\<rparr>"

text \<open>Refusing: output is dropped (and \<open>drop\<close> told), anything else ends the reader.\<close>

definition refuse_frame :: "message \<Rightarrow> inbox \<Rightarrow> inbox" where
  "refuse_frame m i = (if output_message m then i\<lparr>ib_reader := ReadIdle, ib_dropped := ib_dropped i @ [m]\<rparr>
     else i\<lparr>ib_reader := ReadEnded\<rparr>)"

definition inbox_limit :: "message \<Rightarrow> int" where
  "inbox_limit m = (if output_message m then MaxRelayInboxBytes - RelayControlReserveBytes else MaxRelayInboxBytes)"

text \<open>The steps of \<open>offer\<close>: the two loads, the add, the send on the channel with its default branch.\<close>

definition offer_check :: "message \<Rightarrow> inbox \<Rightarrow> inbox" where
  "offer_check m i =
    (if ib_reader i \<noteq> ReadIdle then i
     else if inbox_limit m < ib_bytes i + retained_bytes m
        \<or> output_message m \<and> MaxRelayInboxFrames - RelayControlReserveFrames \<le> length (ib_frames i)
     then refuse_frame m i
     else i\<lparr>ib_reader := Checked \<lparr>f_msg = m, f_bytes = retained_bytes m\<rparr>\<rparr>)"

definition offer_add :: "inbox \<Rightarrow> inbox" where
  "offer_add i = (case ib_reader i of
     Checked f \<Rightarrow> i\<lparr>ib_bytes := ib_bytes i + f_bytes f, ib_reader := Added f\<rparr> | _ \<Rightarrow> i)"

definition offer_send :: "inbox \<Rightarrow> inbox" where
  "offer_send i = (case ib_reader i of
     Added f \<Rightarrow>
       (if length (ib_frames i) < MaxRelayInboxFrames
        then i\<lparr>ib_frames := ib_frames i @ [f], ib_reader := ReadIdle\<rparr>
        else refuse_frame (f_msg f) (i\<lparr>ib_bytes := ib_bytes i - f_bytes f\<rparr>))
   | _ \<Rightarrow> i)"

definition offer_alone :: "message \<Rightarrow> inbox \<Rightarrow> inbox" where
  "offer_alone m i = offer_send (offer_add (offer_check m i))"

text \<open>The consumer: receive, then settle; the frame goes to \<open>Handle\<close> afterwards.\<close>

definition consume_take :: "inbox \<Rightarrow> inbox" where
  "consume_take i = (case (ib_taken i, ib_frames i) of
     (None, f # fs) \<Rightarrow> i\<lparr>ib_taken := Some f, ib_frames := fs\<rparr> | _ \<Rightarrow> i)"

definition consume_settle :: "inbox \<Rightarrow> inbox" where
  "consume_settle i = (case ib_taken i of
     None \<Rightarrow> i | Some f \<Rightarrow> i\<lparr>ib_taken := None, ib_bytes := ib_bytes i - f_bytes f\<rparr>)"

definition end_reader :: "inbox \<Rightarrow> inbox" where
  "end_reader i = (if ib_reader i = ReadIdle then i\<lparr>ib_reader := ReadEnded\<rparr> else i)"

inductive inbox_step :: "inbox \<Rightarrow> inbox \<Rightarrow> bool" where
  "inbox_step i (offer_check m i)"
| "inbox_step i (offer_add i)"
| "inbox_step i (offer_send i)"
| "inbox_step i (consume_take i)"
| "inbox_step i (consume_settle i)"
| "inbox_step i (end_reader i)"

inductive inbox_reachable :: "inbox \<Rightarrow> bool" where
  inbox_start: "inbox_reachable new_inbox"
| inbox_next: "inbox_reachable i \<Longrightarrow> inbox_step i j \<Longrightarrow> inbox_reachable j"

section \<open>The bounds\<close>

definition frames_bytes :: "frame list \<Rightarrow> int" where
  "frames_bytes fs = sum_list (map f_bytes fs)"

lemma frames_bytes_simps [simp]:
  "frames_bytes [] = 0" "frames_bytes (f # fs) = f_bytes f + frames_bytes fs"
  "frames_bytes (fs @ gs) = frames_bytes fs + frames_bytes gs"
  by (simp_all add: frames_bytes_def)

definition taken_bytes :: "inbox \<Rightarrow> int" where
  "taken_bytes i = (case ib_taken i of None \<Rightarrow> 0 | Some f \<Rightarrow> f_bytes f)"

definition added_bytes :: "inbox \<Rightarrow> int" where
  "added_bytes i = (case ib_reader i of Added f \<Rightarrow> f_bytes f | _ \<Rightarrow> 0)"

definition frame_ok :: "frame \<Rightarrow> bool" where
  "frame_ok f \<longleftrightarrow> f_bytes f = retained_bytes (f_msg f)"

definition inbox_inv :: "inbox \<Rightarrow> bool" where
  "inbox_inv i \<longleftrightarrow> length (ib_frames i) \<le> MaxRelayInboxFrames
     \<and> ib_bytes i = frames_bytes (ib_frames i) + taken_bytes i + added_bytes i
     \<and> list_all frame_ok (ib_frames i) \<and> (\<forall>f. ib_taken i = Some f \<longrightarrow> frame_ok f)
     \<and> ib_bytes i \<le> MaxRelayInboxBytes
     \<and> (case ib_reader i of
          Checked f \<Rightarrow> frame_ok f \<and> ib_bytes i + f_bytes f \<le> inbox_limit (f_msg f)
        | Added f \<Rightarrow> frame_ok f | _ \<Rightarrow> True)"

lemma inbox_limit_le: "inbox_limit m \<le> MaxRelayInboxBytes"
  by (simp add: inbox_limit_def limit_defs)

lemma frame_ok_pos: "frame_ok f \<Longrightarrow> 512 \<le> f_bytes f"
  by (simp add: frame_ok_def retained_bytes_pos)

lemma inbox_step_inv:
  assumes "inbox_step i j" "inbox_inv i" shows "inbox_inv j"
  using assms
proof (cases rule: inbox_step.cases)
  case (1 m)
  then show ?thesis using assms(2)
    by (auto simp: inbox_inv_def offer_check_def refuse_frame_def taken_bytes_def added_bytes_def frame_ok_def)
next
  case 2
  show ?thesis
  proof (cases "ib_reader i")
    case (Checked f)
    then show ?thesis using assms(2) inbox_limit_le [of "f_msg f"]
      by (simp add: 2 inbox_inv_def offer_add_def taken_bytes_def added_bytes_def)
  qed (use 2 assms(2) in \<open>simp_all add: offer_add_def\<close>)
next
  case 3
  show ?thesis
  proof (cases "ib_reader i")
    case (Added f)
    then have p: "512 \<le> f_bytes f" using assms(2) by (simp add: inbox_inv_def frame_ok_pos)
    then show ?thesis using assms(2) Added
      by (auto simp: 3 inbox_inv_def offer_send_def refuse_frame_def taken_bytes_def added_bytes_def)
  qed (use 3 assms(2) in \<open>simp_all add: offer_send_def\<close>)
next
  case 4
  show ?thesis
  proof (cases "ib_taken i = None \<and> ib_frames i \<noteq> []")
    case True
    then obtain f fs where "ib_frames i = f # fs" by (auto simp: neq_Nil_conv)
    then show ?thesis using assms(2) True
      by (simp add: 4 inbox_inv_def consume_take_def taken_bytes_def added_bytes_def split: reader.splits)
  next
    case False
    then have "j = i" by (auto simp: 4 consume_take_def split: option.split list.split)
    then show ?thesis using assms(2) by simp
  qed
next
  case 5
  show ?thesis
  proof (cases "ib_taken i")
    case (Some f)
    then have p: "512 \<le> f_bytes f" using assms(2) by (simp add: inbox_inv_def frame_ok_pos)
    then show ?thesis using assms(2) Some
      by (auto simp: 5 inbox_inv_def consume_settle_def taken_bytes_def added_bytes_def split: reader.splits)
  qed (use 5 assms(2) in \<open>simp add: consume_settle_def\<close>)
next
  case 6
  then show ?thesis using assms(2)
    by (auto simp: inbox_inv_def end_reader_def taken_bytes_def added_bytes_def)
qed

lemma inbox_reachable_inv: "inbox_reachable i \<Longrightarrow> inbox_inv i"
proof (induction rule: inbox_reachable.induct)
  case inbox_start
  then show ?case by (simp add: inbox_inv_def new_inbox_def taken_bytes_def added_bytes_def limit_defs)
next
  case (inbox_next i j)
  then show ?case using inbox_step_inv by blast
qed

lemma output_needs_room:
  "output_message m \<Longrightarrow> ib_reader i = ReadIdle \<Longrightarrow> ib_reader (offer_check m i) = Checked f \<Longrightarrow>
   length (ib_frames i) < MaxRelayInboxFrames - RelayControlReserveFrames
   \<and> ib_bytes i + retained_bytes m \<le> MaxRelayInboxBytes - RelayControlReserveBytes"
  by (auto simp: offer_check_def refuse_frame_def inbox_limit_def split: if_splits)

text \<open>The reader of a connection never holds more than its budget. In every interleaving of the reader goroutine and
  the consumer, at most 64 frames wait, the atomic byte counter is exactly the bytes of the frames that wait, of the frame in the
  consumer's hand and of the one being sent, and it never exceeds the inbox limit; and a frame that is not output is refused only
  when the budget is really used: with fewer than 64 frames waiting and room for its bytes, \<open>offer\<close> queues it.\<close>

theorem inbox_bounded:
  assumes "inbox_reachable i"
  shows "length (ib_frames i) \<le> MaxRelayInboxFrames
    \<and> ib_bytes i = frames_bytes (ib_frames i) + taken_bytes i + added_bytes i
    \<and> ib_bytes i \<le> MaxRelayInboxBytes
    \<and> (ib_reader i = ReadIdle \<and> \<not> output_message m \<and> length (ib_frames i) < MaxRelayInboxFrames
         \<and> ib_bytes i + retained_bytes m \<le> MaxRelayInboxBytes
       \<longrightarrow> offer_alone m i = i\<lparr>ib_frames := ib_frames i @ [\<lparr>f_msg = m, f_bytes = retained_bytes m\<rparr>],
             ib_bytes := ib_bytes i + retained_bytes m\<rparr>)"
proof -
  have "inbox_inv i" by (rule inbox_reachable_inv [OF assms])
  moreover have "offer_alone m i = i\<lparr>ib_frames := ib_frames i @ [\<lparr>f_msg = m, f_bytes = retained_bytes m\<rparr>],
             ib_bytes := ib_bytes i + retained_bytes m\<rparr>"
    if "ib_reader i = ReadIdle" "\<not> output_message m" "length (ib_frames i) < MaxRelayInboxFrames"
      "ib_bytes i + retained_bytes m \<le> MaxRelayInboxBytes"
    using that by (simp add: offer_alone_def offer_check_def offer_add_def offer_send_def inbox_limit_def)
  ultimately show ?thesis unfolding inbox_inv_def by blast
qed

definition inbox_demo :: inbox where
  "inbox_demo = consume_take (offer_alone (Nack ''e'' AgentError) new_inbox)"

theorem inbox_bounded_witness:
  "ib_bytes inbox_demo = frames_bytes (ib_frames inbox_demo) + taken_bytes inbox_demo + added_bytes inbox_demo
   \<and> ib_taken inbox_demo \<noteq> None"
proof -
  have "inbox_reachable inbox_demo" unfolding inbox_demo_def offer_alone_def
    by (rule inbox_next [OF inbox_next [OF inbox_next [OF inbox_next [OF inbox_start inbox_step.intros(1)]
        inbox_step.intros(2)] inbox_step.intros(3)] inbox_step.intros(4)])
  from inbox_bounded [OF this] show ?thesis by (intro conjI) (blast, code_simp)
qed

end
