(* ===== verification/Quota.thy ===== *)
theory Quota
  imports Protocol
begin

text \<open>
  The per-address limits of the relay, \<open>internal/relay/quota.go\<close>. Times are nanoseconds (\<open>int\<close>); the
  clock is an argument, read under the limiter's mutex, so its values grow along the calls. A nil or disabled limiter
  is \<open>q_enabled = False\<close>. \<open>ClientIP\<close> (HTTP headers) is not modelled: the address is an argument.
\<close>

record quota =
  q_enabled :: bool
  q_devices :: int
  q_hellos :: int
  q_bytes_minute :: int

definition with_defaults :: "quota \<Rightarrow> quota" where
  "with_defaults q = q\<lparr>q_devices := (if q_devices q \<le> 0 then 8 else q_devices q),
     q_hellos := (if q_hellos q \<le> 0 then 30 else q_hellos q),
     q_bytes_minute := (if q_bytes_minute q \<le> 0 then 64 * 2 ^ 20 else q_bytes_minute q)\<rparr>"

text \<open>\<open>ip_window\<close> is \<open>None\<close> for the zero time.\<close>

record ip_stat =
  ip_hellos :: "int list"
  ip_devices :: int
  ip_bytes :: int
  ip_window :: "int option"

record limiter =
  lm_cfg :: quota
  lm_ips :: "(string, ip_stat) gomap"

abbreviation minute_ns :: int where "minute_ns \<equiv> 60000000000"

definition new_limiter :: "quota \<Rightarrow> limiter" where
  "new_limiter q = \<lparr>lm_cfg = with_defaults q, lm_ips = []\<rparr>"

definition stat_of :: "limiter \<Rightarrow> string \<Rightarrow> ip_stat" where
  "stat_of l ip = (case mget (lm_ips l) ip of
     None \<Rightarrow> \<lparr>ip_hellos = [], ip_devices = 0, ip_bytes = 0, ip_window = None\<rparr> | Some st \<Rightarrow> st)"

definition set_stat :: "string \<Rightarrow> ip_stat \<Rightarrow> limiter \<Rightarrow> limiter" where
  "set_stat ip st l = l\<lparr>lm_ips := mput ip st (lm_ips l)\<rparr>"

definition allow_device_hello :: "string \<Rightarrow> int \<Rightarrow> limiter \<Rightarrow> limiter \<times> string" where
  "allow_device_hello ip now l =
    (if \<not> q_enabled (lm_cfg l) then (l, '''')
     else
       (let st = stat_of l ip;
            hellos = filter (\<lambda>t. now - minute_ns < t) (ip_hellos st) @ [now];
            l1 = set_stat ip (st\<lparr>ip_hellos := hellos\<rparr>) l
        in if q_hellos (lm_cfg l) < int (length hellos) then (l1, QuotaExceeded)
           else if q_devices (lm_cfg l) \<le> ip_devices st then (l1, QuotaExceeded)
           else (l1, '''')))"

definition on_device_up :: "string \<Rightarrow> limiter \<Rightarrow> limiter" where
  "on_device_up ip l =
    (if \<not> q_enabled (lm_cfg l) then l
     else let st = stat_of l ip in set_stat ip (st\<lparr>ip_devices := ip_devices st + 1\<rparr>) l)"

definition on_device_down :: "string \<Rightarrow> limiter \<Rightarrow> limiter" where
  "on_device_down ip l =
    (if \<not> q_enabled (lm_cfg l) then l
     else let st = stat_of l ip
          in set_stat ip (if 0 < ip_devices st then st\<lparr>ip_devices := ip_devices st - 1\<rparr> else st) l)"

definition add_bytes :: "string \<Rightarrow> int \<Rightarrow> int \<Rightarrow> limiter \<Rightarrow> limiter \<times> string" where
  "add_bytes ip n now l =
    (if \<not> q_enabled (lm_cfg l) \<or> n \<le> 0 then (l, '''')
     else
       (let st = stat_of l ip;
            st1 = (if (case ip_window st of None \<Rightarrow> True | Some w \<Rightarrow> minute_ns \<le> now - w)
                   then st\<lparr>ip_window := Some now, ip_bytes := 0\<rparr> else st);
            st2 = st1\<lparr>ip_bytes := ip_bytes st1 + n\<rparr>
        in (set_stat ip st2 l, if q_bytes_minute (lm_cfg l) < ip_bytes st2 then QuotaExceeded else '''')))"

section \<open>Runs\<close>

text \<open>What the connections of the relay do to the limiter, with the clock of each call.\<close>

datatype quota_op = Hello string int | Up string | Down string | Charge string int int

fun quota_step :: "quota_op \<Rightarrow> limiter \<Rightarrow> limiter \<times> string" where
  "quota_step (Hello ip now) l = allow_device_hello ip now l"
| "quota_step (Up ip) l = (on_device_up ip l, '''')"
| "quota_step (Down ip) l = (on_device_down ip l, '''')"
| "quota_step (Charge ip n now) l = add_bytes ip n now l"

fun quota_run :: "quota_op list \<Rightarrow> limiter \<Rightarrow> limiter" where
  "quota_run [] l = l"
| "quota_run (e # es) l = quota_run es (fst (quota_step e l))"

fun op_time :: "quota_op \<Rightarrow> int option" where
  "op_time (Hello _ t) = Some t"
| "op_time (Charge _ _ t) = Some t"
| "op_time _ = None"

fun hello_times :: "string \<Rightarrow> quota_op list \<Rightarrow> int list" where
  "hello_times ip [] = []"
| "hello_times ip (Hello ip' t # es) = (if ip' = ip then t # hello_times ip es else hello_times ip es)"
| "hello_times ip (_ # es) = hello_times ip es"

definition clock_grows :: "quota_op list \<Rightarrow> bool" where
  "clock_grows es \<longleftrightarrow> sorted (List.map_filter op_time es)"

section \<open>The sliding window\<close>

lemma stat_set [simp]: "stat_of (set_stat ip st l) ip' = (if ip' = ip then st else stat_of l ip')"
  by (simp add: stat_of_def set_stat_def)

lemma cfg_set [simp]: "lm_cfg (set_stat ip st l) = lm_cfg l"
  by (simp add: set_stat_def)

lemma quota_step_cfg [simp]: "lm_cfg (fst (quota_step e l)) = lm_cfg l"
  by (cases e) (simp_all add: allow_device_hello_def on_device_up_def on_device_down_def add_bytes_def Let_def)

lemma quota_run_cfg [simp]: "lm_cfg (quota_run es l) = lm_cfg l"
  by (induction es arbitrary: l) simp_all

lemma quota_run_append: "quota_run (es @ fs) l = quota_run fs (quota_run es l)"
  by (induction es arbitrary: l) simp_all

lemma hello_times_append: "hello_times ip (es @ fs) = hello_times ip es @ hello_times ip fs"
  by (induction ip es rule: hello_times.induct) simp_all

lemma clock_grows_append: "clock_grows (es @ [e]) \<Longrightarrow> clock_grows es"
  by (simp add: clock_grows_def List.map_filter_def sorted_append)

lemma hello_times_subset: "set (hello_times ip es) \<subseteq> set (List.map_filter op_time es)"
  by (induction ip es rule: hello_times.induct) (auto simp: List.map_filter_def)

lemma hello_times_before:
  "clock_grows (es @ [Hello ip now]) \<Longrightarrow> t \<in> set (hello_times ip' es) \<Longrightarrow> t \<le> now"
  using hello_times_subset [of ip' es] by (auto simp: clock_grows_def List.map_filter_def sorted_append)

text \<open>The list kept for an address holds at least every attempt of the last minute, in order.\<close>

lemma hellos_kept:
  assumes "q_enabled (lm_cfg l)" "lm_ips l = []" "clock_grows es" "\<forall>t \<in> set (hello_times ip es). t \<le> now"
  shows "filter (\<lambda>t. now - minute_ns < t) (ip_hellos (stat_of (quota_run es l) ip))
       = filter (\<lambda>t. now - minute_ns < t) (hello_times ip es)"
  using assms(3,4)
proof (induction es arbitrary: now rule: rev_induct)
  case Nil
  then show ?case using assms(2) by (simp add: stat_of_def)
next
  case (snoc e es)
  have g: "clock_grows es" by (rule clock_grows_append [OF snoc.prems(1)])
  have le: "\<forall>t \<in> set (hello_times ip es). t \<le> now" using snoc.prems(2) by (simp add: hello_times_append)
  note ih = snoc.IH [OF g le]
  have en: "q_enabled (lm_cfg (quota_run es l))" using assms(1) by simp
  show ?case
  proof (cases "\<exists>t. e = Hello ip t")
    case True
    then obtain t where e: "e = Hello ip t" by blast
    have lt: "\<forall>u \<in> set (hello_times ip es). u \<le> t" using hello_times_before snoc.prems(1) e by blast
    have tn: "t \<le> now" using snoc.prems(2) by (simp add: e hello_times_append)
    have sub: "filter (\<lambda>u. now - minute_ns < u) (filter (\<lambda>u. t - minute_ns < u) xs) = filter (\<lambda>u. now - minute_ns < u) xs" for xs
      using tn by (induction xs) auto
    have "ip_hellos (stat_of (quota_run (es @ [e]) l) ip)
        = filter (\<lambda>u. t - minute_ns < u) (ip_hellos (stat_of (quota_run es l) ip)) @ [t]"
      using en by (simp add: quota_run_append e allow_device_hello_def Let_def)
    then have "filter (\<lambda>u. now - minute_ns < u) (ip_hellos (stat_of (quota_run (es @ [e]) l) ip))
        = filter (\<lambda>u. now - minute_ns < u) (ip_hellos (stat_of (quota_run es l) ip)) @ filter (\<lambda>u. now - minute_ns < u) [t]"
      by (simp only: filter_append sub)
    then show ?thesis by (simp only: ih e hello_times_append hello_times.simps filter_append if_True simp_thms)
  next
    case False
    then have "hello_times ip [e] = []" by (cases e) auto
    moreover have "ip_hellos (stat_of (quota_run (es @ [e]) l) ip) = ip_hellos (stat_of (quota_run es l) ip)"
      using False by (cases e) (auto simp: quota_run_append allow_device_hello_def on_device_up_def on_device_down_def
          add_bytes_def Let_def split: if_splits)
    ultimately show ?thesis using ih by (simp add: hello_times_append)
  qed
qed

text \<open>The hello limit is a true sliding window. Along any sequence of limiter calls whose clock does not go back, a hello from an
  address is allowed only if at most the configured number of hellos from it, allowed or not and this one included, fall into the last
  minute, and only while fewer than the configured number of its devices are connected.\<close>

theorem hello_window:
  assumes "q_enabled q" "clock_grows (es @ [Hello ip now])"
    and "allow_device_hello ip now (quota_run es (new_limiter q)) = (l, '''')"
  shows "int (length (filter (\<lambda>t. now - minute_ns < t) (hello_times ip (es @ [Hello ip now])))) \<le> q_hellos (with_defaults q)
    \<and> ip_devices (stat_of (quota_run es (new_limiter q)) ip) < q_devices (with_defaults q)"
proof -
  have en: "q_enabled (lm_cfg (new_limiter q))" using assms(1) by (simp add: new_limiter_def with_defaults_def)
  have le: "\<forall>t \<in> set (hello_times ip es). t \<le> now" using hello_times_before assms(2) by blast
  have k: "filter (\<lambda>t. now - minute_ns < t) (ip_hellos (stat_of (quota_run es (new_limiter q)) ip))
       = filter (\<lambda>t. now - minute_ns < t) (hello_times ip es)"
    by (rule hellos_kept [OF en _ clock_grows_append [OF assms(2)] le]) (simp add: new_limiter_def)
  have c: "lm_cfg (new_limiter q) = with_defaults q" by (simp add: new_limiter_def)
  have e: "q_enabled (with_defaults q)" using assms(1) by (simp add: with_defaults_def)
  show ?thesis using assms(3) e
    by (auto simp: allow_device_hello_def c k hello_times_append Let_def split: if_splits)
qed

definition small_quota :: quota where
  "small_quota = \<lparr>q_enabled = True, q_devices = 2, q_hellos = 1, q_bytes_minute = 10\<rparr>"

theorem hello_window_witness:
  "int (length (filter (\<lambda>t. 70000000000 - minute_ns < t) (hello_times ''a'' ([Hello ''a'' 1, Up ''a''] @ [Hello ''a'' 70000000000])))) \<le> 1"
proof -
  have g: "clock_grows ([Hello ''a'' 1, Up ''a''] @ [Hello ''a'' 70000000000])" and e: "q_enabled small_quota" by code_simp+
  let ?r = "allow_device_hello ''a'' 70000000000 (quota_run [Hello ''a'' 1, Up ''a''] (new_limiter small_quota))"
  have r: "?r = (fst ?r, '''')" unfolding prod_eq_iff by (rule conjI) (simp, code_simp)
  have "q_hellos (with_defaults small_quota) = 1" by code_simp
  then show ?thesis using hello_window [OF e g r] by simp
qed

end
