(* ===== verification/Gate.thy ===== *)
theory Gate
  imports Prelude
begin

text \<open>
  The identity gates of the relay, \<open>internal/relay/identity_gate.go\<close>: a mutex per device id whose entry exists only
  while someone uses it. A waiter keeps the pointer it read, so entries have an identity (\<open>gt_heap\<close>); a caller
  is a number. \<open>gate_enter\<close> is the section before the select, \<open>gate_take\<close>, \<open>gate_abandon\<close> and \<open>gate_late\<close> its
  outcomes (the token, the ended context, the token with a context that ended meanwhile), \<open>gate_leave\<close> the function \<open>acquire\<close> returned.
\<close>

record gate =
  gt_token :: bool
  gt_users :: int

datatype caller = Waiting string nat | Owning string nat

record gates =
  gt_entries :: "(string, nat) gomap"
  gt_heap :: "nat \<Rightarrow> gate"
  gt_fresh :: nat
  gt_callers :: "(nat, caller) gomap"

definition new_gates :: gates where
  "new_gates = \<lparr>gt_entries = [], gt_heap = (\<lambda>_. \<lparr>gt_token = True, gt_users = 0\<rparr>), gt_fresh = 0, gt_callers = []\<rparr>"

definition set_gate :: "nat \<Rightarrow> gate \<Rightarrow> gates \<Rightarrow> gates" where
  "set_gate e x g = g\<lparr>gt_heap := (gt_heap g)(e := x)\<rparr>"

definition gate_release :: "string \<Rightarrow> nat \<Rightarrow> gates \<Rightarrow> gates" where
  "gate_release name e g =
    (let n = gt_users (gt_heap g e) - 1;
         g1 = set_gate e ((gt_heap g e)\<lparr>gt_users := n\<rparr>) g
     in if n = 0 then g1\<lparr>gt_entries := mdel name (gt_entries g1)\<rparr> else g1)"

definition gate_enter :: "nat \<Rightarrow> string \<Rightarrow> gates \<Rightarrow> gates" where
  "gate_enter w name g =
    (if mget (gt_callers g) w \<noteq> None then g
     else
       (let (e, g1) = (case mget (gt_entries g) name of
                Some e \<Rightarrow> (e, g)
              | None \<Rightarrow> (gt_fresh g, (set_gate (gt_fresh g) \<lparr>gt_token = True, gt_users = 0\<rparr> g)
                          \<lparr>gt_entries := mput name (gt_fresh g) (gt_entries g), gt_fresh := Suc (gt_fresh g)\<rparr>));
            x = gt_heap g1 e
        in (set_gate e (x\<lparr>gt_users := gt_users x + 1\<rparr>) g1)\<lparr>gt_callers := mput w (Waiting name e) (gt_callers g1)\<rparr>))"

definition gate_take :: "nat \<Rightarrow> gates \<Rightarrow> gates" where
  "gate_take w g = (case mget (gt_callers g) w of
     Some (Waiting name e) \<Rightarrow>
       (if gt_token (gt_heap g e)
        then (set_gate e ((gt_heap g e)\<lparr>gt_token := False\<rparr>) g)\<lparr>gt_callers := mput w (Owning name e) (gt_callers g)\<rparr>
        else g)
   | _ \<Rightarrow> g)"

definition gate_abandon :: "nat \<Rightarrow> gates \<Rightarrow> gates" where
  "gate_abandon w g = (case mget (gt_callers g) w of
     Some (Waiting name e) \<Rightarrow> (gate_release name e g)\<lparr>gt_callers := mdel w (gt_callers g)\<rparr>
   | _ \<Rightarrow> g)"

definition gate_leave :: "nat \<Rightarrow> gates \<Rightarrow> gates" where
  "gate_leave w g = (case mget (gt_callers g) w of
     Some (Owning name e) \<Rightarrow>
       (gate_release name e (set_gate e ((gt_heap g e)\<lparr>gt_token := True\<rparr>) g))\<lparr>gt_callers := mdel w (gt_callers g)\<rparr>
   | _ \<Rightarrow> g)"

definition gate_late :: "nat \<Rightarrow> gates \<Rightarrow> gates" where
  "gate_late w g = gate_leave w (gate_take w g)"

inductive gate_step :: "gates \<Rightarrow> gates \<Rightarrow> bool" where
  "gate_step g (gate_enter w name g)"
| "gate_step g (gate_take w g)"
| "gate_step g (gate_abandon w g)"
| "gate_step g (gate_leave w g)"

inductive gate_reachable :: "gates \<Rightarrow> bool" where
  gate_start: "gate_reachable new_gates"
| gate_next: "gate_reachable g \<Longrightarrow> gate_step g g' \<Longrightarrow> gate_reachable g'"

section \<open>Mutual exclusion and reclaiming\<close>

fun at_gate :: "nat \<Rightarrow> caller \<Rightarrow> bool" where
  "at_gate e (Waiting _ e') \<longleftrightarrow> e' = e"
| "at_gate e (Owning _ e') \<longleftrightarrow> e' = e"

fun owns_gate :: "nat \<Rightarrow> caller \<Rightarrow> bool" where
  "owns_gate e (Owning _ e') \<longleftrightarrow> e' = e"
| "owns_gate e (Waiting _ _) \<longleftrightarrow> False"

fun gate_of :: "caller \<Rightarrow> string \<times> nat" where
  "gate_of (Waiting name e) = (name, e)"
| "gate_of (Owning name e) = (name, e)"

definition users_of :: "nat \<Rightarrow> gates \<Rightarrow> nat" where
  "users_of e g = count_entries (\<lambda>_. at_gate e) (gt_callers g)"

definition owners_of :: "nat \<Rightarrow> gates \<Rightarrow> nat" where
  "owners_of e g = count_entries (\<lambda>_. owns_gate e) (gt_callers g)"

definition gates_ok :: "gates \<Rightarrow> bool" where
  "gates_ok g \<longleftrightarrow> mdistinct (gt_entries g) \<and> mdistinct (gt_callers g)
     \<and> (\<forall>w c. mget (gt_callers g) w = Some c \<longrightarrow> mget (gt_entries g) (fst (gate_of c)) = Some (snd (gate_of c)))
     \<and> (\<forall>id e. mget (gt_entries g) id = Some e \<longrightarrow> e < gt_fresh g \<and> 0 < users_of e g)
     \<and> (\<forall>id id' e. mget (gt_entries g) id = Some e \<and> mget (gt_entries g) id' = Some e \<longrightarrow> id' = id)
     \<and> (\<forall>e < gt_fresh g. gt_users (gt_heap g e) = int (users_of e g)
          \<and> owners_of e g = (if gt_token (gt_heap g e) then 0 else 1))"

lemma at_gate_of: "at_gate e c \<longleftrightarrow> snd (gate_of c) = e"
  by (cases c) auto

lemma users_callers:
  "mdistinct (gt_callers g) \<Longrightarrow> mget (gt_callers g) w = Some c \<Longrightarrow> at_gate e c \<Longrightarrow> 0 < users_of e g"
  unfolding users_of_def using count_entries_mdel [of "gt_callers g" w c "\<lambda>_. at_gate e"] by (auto split: if_splits)

lemma count_no_entry:
  "(\<And>k v. mget m k = Some v \<Longrightarrow> \<not> P k v) \<Longrightarrow> mdistinct m \<Longrightarrow> count_entries P m = 0"
  by (fastforce simp: count_entries_def filter_empty_conv)

lemma fresh_unused: "gates_ok g \<Longrightarrow> gt_fresh g \<le> e \<Longrightarrow> users_of e g = 0 \<and> owners_of e g = 0"
proof -
  assume ok: "gates_ok g" and e: "gt_fresh g \<le> e"
  have n: "\<not> at_gate e c" if "mget (gt_callers g) w = Some c" for w c
    using ok e that unfolding gates_ok_def at_gate_of by (metis leD)
  have o: "\<not> owns_gate e c" if "mget (gt_callers g) w = Some c" for w c
    using n [OF that] by (cases c) auto
  show ?thesis using ok n o count_no_entry [of "gt_callers g" "\<lambda>_. at_gate e"]
      count_no_entry [of "gt_callers g" "\<lambda>_. owns_gate e"]
    by (simp add: users_of_def owners_of_def gates_ok_def)
qed

lemma gates_okD:
  assumes "gates_ok g"
  shows "mdistinct (gt_entries g)" "mdistinct (gt_callers g)"
    "mget (gt_callers g) w = Some c \<Longrightarrow> mget (gt_entries g) (fst (gate_of c)) = Some (snd (gate_of c))"
    "mget (gt_entries g) name = Some e \<Longrightarrow> e < gt_fresh g \<and> 0 < users_of e g"
    "mget (gt_entries g) name = Some e \<Longrightarrow> mget (gt_entries g) name' = Some e \<Longrightarrow> name' = name"
    "e < gt_fresh g \<Longrightarrow> gt_users (gt_heap g e) = int (users_of e g)
          \<and> owners_of e g = (if gt_token (gt_heap g e) then 0 else 1)"
  using assms unfolding gates_ok_def by blast+

text \<open>A caller joins at an entry that exists, with its counters.\<close>

lemma join_ok:
  assumes ok: "gates_ok g" and w: "mget (gt_callers g) w = None" and e: "mget (gt_entries g) name = Some e"
  shows "gates_ok ((set_gate e ((gt_heap g e)\<lparr>gt_users := gt_users (gt_heap g e) + 1\<rparr>) g)
      \<lparr>gt_callers := mput w (Waiting name e) (gt_callers g)\<rparr>)" (is "gates_ok ?g")
proof -
  have u: "users_of x ?g = users_of x g + (if x = e then 1 else 0)" for x
    using count_entries_fresh [OF w, of "\<lambda>_. at_gate x" "Waiting name e"] by (simp add: users_of_def)
  have o: "owners_of x ?g = owners_of x g" for x
    using count_entries_fresh [OF w, of "\<lambda>_. owns_gate x" "Waiting name e"] by (simp add: owners_of_def)
  have f: "gt_entries ?g = gt_entries g" "gt_fresh ?g = gt_fresh g" "gt_callers ?g = mput w (Waiting name e) (gt_callers g)"
    "gt_heap ?g = (gt_heap g)(e := (gt_heap g e)\<lparr>gt_users := gt_users (gt_heap g e) + 1\<rparr>)"
    by (simp_all add: set_gate_def)
  note d = gates_okD [OF ok]
  show ?thesis unfolding gates_ok_def f u o
  proof (intro conjI allI impI; (elim conjE)?)
    show "mdistinct (gt_entries g)" by (rule d(1))
    show "mdistinct (mput w (Waiting name e) (gt_callers g))" by (rule mdistinct_mput [OF d(2)])
    show "mget (gt_entries g) (fst (gate_of c)) = Some (snd (gate_of c))"
      if "mget (mput w (Waiting name e) (gt_callers g)) v = Some c" for v c
      using that d(3) e by (auto split: if_splits)
    show "x < gt_fresh g" "0 < users_of x g + (if x = e then 1 else 0)" if "mget (gt_entries g) n = Some x" for n x
      using d(4) [OF that] by simp_all
    show "n' = n" if "mget (gt_entries g) n = Some x" "mget (gt_entries g) n' = Some x" for n n' x
      by (rule d(5) [OF that])
    show "gt_users (((gt_heap g)(e := (gt_heap g e)\<lparr>gt_users := gt_users (gt_heap g e) + 1\<rparr>)) x)
        = int (users_of x g + (if x = e then 1 else 0))"
      "owners_of x g = (if gt_token (((gt_heap g)(e := (gt_heap g e)\<lparr>gt_users := gt_users (gt_heap g e) + 1\<rparr>)) x) then 0 else 1)"
      if "x < gt_fresh g" for x
      using d(6) [OF that] by (auto split: if_splits)
  qed
qed

lemma leave_ok:
  assumes ok: "gates_ok g" and w: "mget (gt_callers g) w = Some c" and c: "gate_of c = (name, e)"
    and tok: "tok = (gt_token (gt_heap g e) \<or> owns_gate e c)"
  shows "gates_ok ((gate_release name e (set_gate e ((gt_heap g e)\<lparr>gt_token := tok\<rparr>) g))
      \<lparr>gt_callers := mdel w (gt_callers g)\<rparr>)" (is "gates_ok ?g")
proof -
  note d = gates_okD [OF ok]
  have at: "at_gate e c" using c by (simp add: at_gate_of)
  have ent: "mget (gt_entries g) name = Some e" using d(3) [OF w] c by simp
  have own: "owns_gate x c \<Longrightarrow> x = e" for x using c by (cases c) auto
  have u: "users_of x ?g = users_of x g - (if x = e then 1 else 0)" for x
    using count_entries_mdel [OF d(2) w, of "\<lambda>_. at_gate x"] at c
    by (simp add: users_of_def at_gate_of split: if_splits)
  have up: "0 < users_of e g" using d(4) [OF ent] by simp
  have o: "owners_of x ?g = owners_of x g - (if owns_gate x c then 1 else 0)" for x
    using count_entries_mdel [OF d(2) w, of "\<lambda>_. owns_gate x"] by (simp add: owners_of_def split: if_splits)
  have n: "gt_users (gt_heap g e) = int (users_of e g)" using d(4) [OF ent] d(6) by blast
  have f: "gt_entries ?g = (if users_of e g = 1 then mdel name (gt_entries g) else gt_entries g)"
    "gt_fresh ?g = gt_fresh g" "gt_callers ?g = mdel w (gt_callers g)"
    "gt_heap ?g = (gt_heap g)(e := (gt_heap g e)\<lparr>gt_token := tok, gt_users := int (users_of e g) - 1\<rparr>)"
    using n by (simp_all add: gate_release_def set_gate_def Let_def)
  show ?thesis unfolding gates_ok_def f u o
  proof (intro conjI allI impI; (elim conjE)?)
    show "mdistinct (if users_of e g = 1 then mdel name (gt_entries g) else gt_entries g)" using d(1) by simp
    show "mdistinct (mdel w (gt_callers g))" using d(2) by simp
    show "mget (if users_of e g = 1 then mdel name (gt_entries g) else gt_entries g) (fst (gate_of b)) = Some (snd (gate_of b))"
      if b: "mget (mdel w (gt_callers g)) v = Some b" for v b
    proof -
      have v: "mget (gt_callers g) v = Some b" "v \<noteq> w" using b by (auto split: if_splits)
      note vb = d(3) [OF v(1)]
      have "fst (gate_of b) \<noteq> name" if "users_of e g = 1"
      proof
        assume "fst (gate_of b) = name"
        then have "at_gate e b" using vb ent by (simp add: at_gate_of)
        moreover have "mget (gt_callers ?g) v = Some b" using b unfolding f(3) .
        moreover have "mdistinct (gt_callers ?g)" using d(2) unfolding f(3) by simp
        ultimately have "0 < users_of e ?g" by (intro users_callers)
        then show False using u [of e] that by simp
      qed
      then show ?thesis using vb by simp
    qed
    show "x < gt_fresh g" "0 < users_of x g - (if x = e then 1 else 0)"
      if "mget (if users_of e g = 1 then mdel name (gt_entries g) else gt_entries g) n = Some x" for n x
    proof -
      have x: "mget (gt_entries g) n = Some x" using that by (auto split: if_splits)
      show "x < gt_fresh g" using d(4) [OF x] by simp
      show "0 < users_of x g - (if x = e then 1 else 0)"
        using d(4) [OF x] d(5) [OF ent, of n] that x up by (auto split: if_splits)
    qed
    show "n' = n"
      if "mget (if users_of e g = 1 then mdel name (gt_entries g) else gt_entries g) n = Some x"
        "mget (if users_of e g = 1 then mdel name (gt_entries g) else gt_entries g) n' = Some x" for n n' x
      using that d(5) [of n x n'] by (auto split: if_splits)
    show "gt_users (((gt_heap g)(e := (gt_heap g e)\<lparr>gt_token := tok, gt_users := int (users_of e g) - 1\<rparr>)) x)
        = int (users_of x g - (if x = e then 1 else 0))" if "x < gt_fresh g" for x
      using d(6) [OF that] up by auto
    show "owners_of x g - (if owns_gate x c then 1 else 0)
        = (if gt_token (((gt_heap g)(e := (gt_heap g e)\<lparr>gt_token := tok, gt_users := int (users_of e g) - 1\<rparr>)) x) then 0 else 1)"
      if "x < gt_fresh g" for x
    proof (cases "x = e")
      case False
      then show ?thesis using d(6) [OF that] own [of x] by auto
    next
      case True
      then show ?thesis using d(6) [OF that] by (auto simp: tok)
    qed
  qed
qed

lemma take_ok:
  assumes ok: "gates_ok g" and w: "mget (gt_callers g) w = Some (Waiting name e)" and t: "gt_token (gt_heap g e)"
  shows "gates_ok ((set_gate e ((gt_heap g e)\<lparr>gt_token := False\<rparr>) g)\<lparr>gt_callers := mput w (Owning name e) (gt_callers g)\<rparr>)"
    (is "gates_ok ?g")
proof -
  note d = gates_okD [OF ok]
  have ent: "mget (gt_entries g) name = Some e" using d(3) [OF w] by simp
  have u: "users_of x ?g = users_of x g" for x
    using count_entries_replace [OF w, of "\<lambda>_. at_gate x" "Owning name e"] by (simp add: users_of_def)
  have o: "owners_of x ?g = owners_of x g + (if x = e then 1 else 0)" for x
    using count_entries_replace [OF w, of "\<lambda>_. owns_gate x" "Owning name e"] by (simp add: owners_of_def)
  have f: "gt_entries ?g = gt_entries g" "gt_fresh ?g = gt_fresh g" "gt_callers ?g = mput w (Owning name e) (gt_callers g)"
    "gt_heap ?g = (gt_heap g)(e := (gt_heap g e)\<lparr>gt_token := False\<rparr>)"
    by (simp_all add: set_gate_def)
  show ?thesis unfolding gates_ok_def f u o
  proof (intro conjI allI impI; (elim conjE)?)
    show "mdistinct (gt_entries g)" by (rule d(1))
    show "mdistinct (mput w (Owning name e) (gt_callers g))" by (rule mdistinct_mput [OF d(2)])
    show "mget (gt_entries g) (fst (gate_of c)) = Some (snd (gate_of c))"
      if "mget (mput w (Owning name e) (gt_callers g)) v = Some c" for v c
      using that d(3) ent by (auto split: if_splits)
    show "x < gt_fresh g" "0 < users_of x g" if "mget (gt_entries g) n = Some x" for n x using d(4) [OF that] by simp_all
    show "n' = n" if "mget (gt_entries g) n = Some x" "mget (gt_entries g) n' = Some x" for n n' x by (rule d(5) [OF that])
    show "gt_users (((gt_heap g)(e := (gt_heap g e)\<lparr>gt_token := False\<rparr>)) x) = int (users_of x g)"
      "owners_of x g + (if x = e then 1 else 0) = (if gt_token (((gt_heap g)(e := (gt_heap g e)\<lparr>gt_token := False\<rparr>)) x) then 0 else 1)"
      if "x < gt_fresh g" for x
      using d(6) [OF that] t by auto
  qed
qed

lemma new_entry_ok:
  assumes ok: "gates_ok g" and n: "mget (gt_entries g) name = None" and w: "mget (gt_callers g) w = None"
  shows "gates_ok (gate_enter w name g)"
proof -
  let ?e = "gt_fresh g" and ?g = "gate_enter w name g"
  note d = gates_okD [OF ok]
  have f: "gt_entries ?g = mput name ?e (gt_entries g)" "gt_fresh ?g = Suc ?e"
    "gt_callers ?g = mput w (Waiting name ?e) (gt_callers g)" "gt_heap ?g = (gt_heap g)(?e := \<lparr>gt_token = True, gt_users = 1\<rparr>)"
    using n w by (auto simp: gate_enter_def set_gate_def Let_def)
  have z: "users_of ?e g = 0" "owners_of ?e g = 0" using fresh_unused [OF ok, of ?e] by simp_all
  have u: "users_of x ?g = users_of x g + (if x = ?e then 1 else 0)" for x
    using count_entries_fresh [OF w, of "\<lambda>_. at_gate x" "Waiting name ?e"] by (simp add: users_of_def f)
  have o: "owners_of x ?g = owners_of x g" for x
    using count_entries_fresh [OF w, of "\<lambda>_. owns_gate x" "Waiting name ?e"] by (simp add: owners_of_def f)
  show ?thesis unfolding gates_ok_def u o unfolding f
  proof (intro conjI allI impI; (elim conjE)?)
    show "mdistinct (mput name ?e (gt_entries g))" by (rule mdistinct_mput [OF d(1)])
    show "mdistinct (mput w (Waiting name ?e) (gt_callers g))" by (rule mdistinct_mput [OF d(2)])
    show "mget (mput name ?e (gt_entries g)) (fst (gate_of c)) = Some (snd (gate_of c))"
      if "mget (mput w (Waiting name ?e) (gt_callers g)) v = Some c" for v c
      using that d(3) [of v c] n by (auto split: if_splits)
    show "x < Suc ?e" "0 < users_of x g + (if x = ?e then 1 else 0)" if "mget (mput name ?e (gt_entries g)) k = Some x" for k x
      using that d(4) [of k x] by (auto split: if_splits)
    show "k' = k" if "mget (mput name ?e (gt_entries g)) k = Some x" "mget (mput name ?e (gt_entries g)) k' = Some x" for k k' x
      using that d(4) [of k x] d(4) [of k' x] d(5) [of k x k'] by (auto split: if_splits)
    show "gt_users (((gt_heap g)(?e := \<lparr>gt_token = True, gt_users = 1\<rparr>)) x) = int (users_of x g + (if x = ?e then 1 else 0))"
      "owners_of x g = (if gt_token (((gt_heap g)(?e := \<lparr>gt_token = True, gt_users = 1\<rparr>)) x) then 0 else 1)"
      if "x < Suc ?e" for x
      using d(6) [of x] that z by (auto simp: less_Suc_eq)
  qed
qed

lemma gate_step_ok: "gate_step g g' \<Longrightarrow> gates_ok g \<Longrightarrow> gates_ok g'"
proof (induction rule: gate_step.induct)
  case (1 g w name)
  show ?case
  proof (cases "mget (gt_callers g) w")
    case None
    show ?thesis
    proof (cases "mget (gt_entries g) name")
      case None
      then show ?thesis using new_entry_ok 1 \<open>mget (gt_callers g) w = None\<close> by blast
    next
      case (Some e)
      then show ?thesis using join_ok [OF 1 \<open>mget (gt_callers g) w = None\<close> Some] \<open>mget (gt_callers g) w = None\<close>
        by (simp add: gate_enter_def Let_def set_gate_def)
    qed
  qed (use 1 in \<open>simp add: gate_enter_def\<close>)
next
  case (2 g w)
  then show ?case using take_ok by (auto simp: gate_take_def split: option.split caller.split)
next
  case (3 g w)
  have "set_gate e ((gt_heap g e)\<lparr>gt_token := gt_token (gt_heap g e)\<rparr>) g = g" for e
    by (simp add: set_gate_def)
  then show ?case using 3 leave_ok [OF 3, of w "Waiting name e" name e "gt_token (gt_heap g e)" for name e]
    by (auto simp: gate_abandon_def split: option.split caller.split)
next
  case (4 g w)
  then show ?case using leave_ok [OF 4, of w "Owning name e" name e True for name e]
    by (auto simp: gate_leave_def split: option.split caller.split)
qed

lemma gate_reachable_ok: "gate_reachable g \<Longrightarrow> gates_ok g"
proof (induction rule: gate_reachable.induct)
  case gate_start
  then show ?case by (simp add: gates_ok_def new_gates_def)
next
  case (gate_next g g')
  then show ?case using gate_step_ok by blast
qed

text \<open>Identity operations of one device are serialized, and nothing is left behind. In every interleaving of callers that
  wait, are cancelled, enter and leave, two callers never own the gate of the same device at once, and a device has an entry
  exactly while some caller waits for it or owns it.\<close>

theorem identity_gate_exclusive:
  assumes "gate_reachable g"
  shows "(\<forall>w v name e e'. mget (gt_callers g) w = Some (Owning name e) \<and> mget (gt_callers g) v = Some (Owning name e') \<longrightarrow> w = v)
    \<and> (\<forall>name. mget (gt_entries g) name = None
         \<longleftrightarrow> (\<forall>w c. mget (gt_callers g) w = Some c \<longrightarrow> fst (gate_of c) \<noteq> name))"
proof -
  note ok = gate_reachable_ok [OF assms]
  note d = gates_okD [OF ok]
  have excl: "w = v" if w: "mget (gt_callers g) w = Some (Owning name e)" and v: "mget (gt_callers g) v = Some (Owning name e')"
    for w v name e e'
  proof (rule ccontr)
    assume "w \<noteq> v"
    have e: "mget (gt_entries g) name = Some e" "e' = e" using d(3) [OF w] d(3) [OF v] by simp_all
    have v': "mget (mdel w (gt_callers g)) v = Some (Owning name e)" using v e \<open>w \<noteq> v\<close> by simp
    have "mdistinct (mdel w (gt_callers g))" using d(2) by simp
    then have "owners_of e g \<ge> 2"
      using count_entries_mdel [OF d(2) w, of "\<lambda>_. owns_gate e"] count_entries_mdel [OF _ v', of "\<lambda>_. owns_gate e"]
      by (simp add: owners_of_def)
    then show False using d(4) [OF e(1)] d(6) [of e] by (auto split: if_splits)
  qed
  have "\<exists>w c. mget (gt_callers g) w = Some c \<and> fst (gate_of c) = name" if "mget (gt_entries g) name = Some e" for name e
  proof -
    have "0 < count_entries (\<lambda>_. at_gate e) (gt_callers g)" using d(4) [OF that] by (simp add: users_of_def)
    then obtain w c where c: "mget (gt_callers g) w = Some c" "at_gate e c"
      using count_no_entry [of "gt_callers g" "\<lambda>_. at_gate e"] d(2) by auto
    then have "fst (gate_of c) = name" using d(3) [OF c(1)] d(5) [OF that] by (simp add: at_gate_of)
    then show ?thesis using c(1) by blast
  qed
  then have "mget (gt_entries g) name = None \<longleftrightarrow> (\<forall>w c. mget (gt_callers g) w = Some c \<longrightarrow> fst (gate_of c) \<noteq> name)" for name
    using d(3) by (metis not_None_eq)
  then show ?thesis using excl by blast
qed

definition gate_demo :: gates where
  "gate_demo = gate_enter 2 ''d'' (gate_take 1 (gate_enter 1 ''d'' new_gates))"

theorem identity_gate_exclusive_witness:
  "mget (gt_callers gate_demo) 2 \<noteq> Some (Owning ''d'' 0) \<and> mget (gt_entries gate_demo) ''d'' \<noteq> None"
proof -
  have r: "gate_reachable gate_demo" unfolding gate_demo_def
    by (rule gate_next [OF gate_next [OF gate_next [OF gate_start gate_step.intros(1)] gate_step.intros(2)] gate_step.intros(1)])
  have o: "mget (gt_callers gate_demo) 1 = Some (Owning ''d'' 0)" by code_simp
  have n: "(1 :: nat) \<noteq> 2" by simp
  note i = identity_gate_exclusive [OF r]
  have "mget (gt_callers gate_demo) 2 \<noteq> Some (Owning ''d'' 0)" using i o n by metis
  moreover have "mget (gt_entries gate_demo) ''d'' \<noteq> None" using i o by fastforce
  ultimately show ?thesis ..
qed

end
