(* ===== verification/Base64.thy ===== *)
theory Base64
  imports Prelude
begin

text \<open>
  \<open>base64.RawURLEncoding\<close> of Go's standard library, as the code uses it: no padding, the URL alphabet, line
  breaks skipped by the decoder, trailing bits not checked. A byte is a \<open>char\<close>.
\<close>

definition b64_alphabet :: string where
  "b64_alphabet = ''ABCDEFGHIJKLMNOPQRSTUVWXYZabcdefghijklmnopqrstuvwxyz0123456789-_''"

definition b64_char :: "nat \<Rightarrow> char" where
  "b64_char n = b64_alphabet ! n"

definition b64_value :: "char \<Rightarrow> nat option" where
  "b64_value c = (if c \<in> set b64_alphabet then Some (length (takeWhile (\<lambda>d. d \<noteq> c) b64_alphabet)) else None)"

text \<open>The four sixes of three bytes, and back; a missing byte counts as zero.\<close>

definition six1 :: "nat \<Rightarrow> nat" where "six1 a = a div 4"
definition six2 :: "nat \<Rightarrow> nat \<Rightarrow> nat" where "six2 a b = a mod 4 * 16 + b div 16"
definition six3 :: "nat \<Rightarrow> nat \<Rightarrow> nat" where "six3 b c = b mod 16 * 4 + c div 64"
definition six4 :: "nat \<Rightarrow> nat" where "six4 c = c mod 64"

definition byte_of :: "nat \<Rightarrow> char" where
  "byte_of n = char_of (n mod 256)"

definition eight1 :: "nat \<Rightarrow> nat \<Rightarrow> char" where "eight1 w x = byte_of (w * 4 + x div 16)"
definition eight2 :: "nat \<Rightarrow> nat \<Rightarrow> char" where "eight2 x y = byte_of (x mod 16 * 16 + y div 4)"
definition eight3 :: "nat \<Rightarrow> nat \<Rightarrow> char" where "eight3 y z = byte_of (y mod 4 * 64 + z)"

fun b64_encode :: "string \<Rightarrow> string" where
  "b64_encode [] = []"
| "b64_encode [a] = [b64_char (six1 (ord a)), b64_char (six2 (ord a) 0)]"
| "b64_encode [a, b] = [b64_char (six1 (ord a)), b64_char (six2 (ord a) (ord b)), b64_char (six3 (ord b) 0)]"
| "b64_encode (a # b # c # s) = b64_char (six1 (ord a)) # b64_char (six2 (ord a) (ord b))
     # b64_char (six3 (ord b) (ord c)) # b64_char (six4 (ord c)) # b64_encode s"

fun b64_values :: "string \<Rightarrow> nat list option" where
  "b64_values [] = Some []"
| "b64_values (c # s) = (case b64_value c of None \<Rightarrow> None
     | Some v \<Rightarrow> (case b64_values s of None \<Rightarrow> None | Some vs \<Rightarrow> Some (v # vs)))"

fun b64_quanta :: "nat list \<Rightarrow> string option" where
  "b64_quanta [] = Some []"
| "b64_quanta [w] = None"
| "b64_quanta [w, x] = Some [eight1 w x]"
| "b64_quanta [w, x, y] = Some [eight1 w x, eight2 x y]"
| "b64_quanta (w # x # y # z # vs) = (case b64_quanta vs of None \<Rightarrow> None
     | Some s \<Rightarrow> Some (eight1 w x # eight2 x y # eight3 y z # s))"

definition b64_decode :: "string \<Rightarrow> string option" where
  "b64_decode s = (case b64_values (filter (\<lambda>c. ord c \<noteq> 10 \<and> ord c \<noteq> 13) s) of
     None \<Rightarrow> None | Some vs \<Rightarrow> b64_quanta vs)"

section \<open>Round trip\<close>

lemma byte_of_ord [simp]: "byte_of (ord c) = c"
  using ord_lt [of c] by (simp add: byte_of_def ord_def)

lemma b64_char_all: "\<forall>n \<in> set [0..<64]. b64_value (b64_char n) = Some n \<and> ord (b64_char n) \<noteq> 10 \<and> ord (b64_char n) \<noteq> 13
   \<and> ord (b64_char n) \<noteq> 46"
  by code_simp

lemma b64_char: "n < 64 \<Longrightarrow> b64_value (b64_char n) = Some n \<and> ord (b64_char n) \<noteq> 10 \<and> ord (b64_char n) \<noteq> 13
   \<and> ord (b64_char n) \<noteq> 46"
  using b64_char_all by simp

lemma six_bits:
  "a < 256 \<Longrightarrow> six1 a < 64" "b < 256 \<Longrightarrow> six2 a b < 64" "c < 256 \<Longrightarrow> six3 b c < 64" "six4 c < 64"
  unfolding six1_def six2_def six3_def six4_def by linarith+

lemma eight_bits:
  "x < 256 \<Longrightarrow> eight1 (six1 (ord a)) (six2 (ord a) x) = a"
  "x < 256 \<Longrightarrow> eight2 (six2 m (ord a)) (six3 (ord a) x) = a"
  "eight3 (six3 m (ord a)) (six4 (ord a)) = a"
proof -
  assume "x < 256"
  then have "(ord a mod 4 * 16 + x div 16) div 16 = ord a mod 4" by linarith
  then have "ord a div 4 * 4 + (ord a mod 4 * 16 + x div 16) div 16 = ord a" by simp
  then show "eight1 (six1 (ord a)) (six2 (ord a) x) = a" unfolding eight1_def six1_def six2_def by simp
next
  assume "x < 256"
  then have "(ord a mod 16 * 4 + x div 64) div 4 = ord a mod 16" by linarith
  moreover have "ord a div 16 < 16" using ord_lt [of a] by linarith
  ultimately show "eight2 (six2 m (ord a)) (six3 (ord a) x) = a" unfolding eight2_def six2_def six3_def by simp
next
  have "ord a div 64 < 4" using ord_lt [of a] by linarith
  then show "eight3 (six3 m (ord a)) (six4 (ord a)) = a" unfolding eight3_def six3_def six4_def by simp
qed

lemma b64_encode_plain: "list_all (\<lambda>c. ord c \<noteq> 10 \<and> ord c \<noteq> 13 \<and> ord c \<noteq> 46) (b64_encode s)"
  by (induction s rule: b64_encode.induct) (simp_all add: b64_char six_bits)

lemma b64_encode_values:
  "\<exists>vs. b64_values (b64_encode s) = Some vs \<and> b64_quanta vs = Some s"
proof (induction s rule: b64_encode.induct)
  case (4 a b c s)
  then obtain vs where "b64_values (b64_encode s) = Some vs" "b64_quanta vs = Some s" by blast
  then show ?case by (simp add: b64_char six_bits eight_bits)
qed (simp_all add: b64_char six_bits eight_bits)

lemma b64_roundtrip [simp]: "b64_decode (b64_encode s) = Some s"
proof -
  have "filter (\<lambda>c. ord c \<noteq> 10 \<and> ord c \<noteq> 13) (b64_encode s) = b64_encode s"
    using b64_encode_plain [of s] by (simp add: filter_id_conv list_all_iff)
  then show ?thesis using b64_encode_values [of s] by (auto simp: b64_decode_def)
qed

lemma b64_no_dot: "CHR ''.'' \<notin> set (b64_encode s)"
  using b64_encode_plain [of s] by (auto simp: list_all_iff ord_def)

end
