(* ===== verification/Delegation.thy ===== *)
theory Delegation
  imports Base64 Hub
begin

text \<open>
  Renewable execution authority, \<open>internal/delegation\<close>. \<open>authority\<close> is the struct \<open>Authority\<close>, a nil
  service being \<open>False\<close>; the answers of the device store and of the two verifiers, and the clock at each
  reading, are arguments, in nanoseconds. HMAC-SHA256 (\<open>sign\<close>) and \<open>encoding/json\<close> on \<open>claims\<close> (\<open>json\<close>,
  \<open>unjson\<close>) are parameters. The first part is the relay's side (\<open>authority.go\<close>), the second the
  device's lease loop (\<open>guard.go\<close>).
\<close>

section \<open>Issuing and renewing: \<open>authority.go\<close>\<close>

record authority =
  au_key :: string
  au_devices :: bool
  au_accounts :: bool
  au_access :: bool
  au_name :: string

record claims =
  cl_authority :: string
  cl_device :: string
  cl_binding :: binding
  cl_identity :: principal
  cl_authorization :: authorization
  cl_expires :: int

definition zero_key :: string where
  "zero_key = replicate 32 (char_of (0 :: nat))"

abbreviation DelegationProofLifetime :: int where "DelegationProofLifetime \<equiv> 11 * nanos_per_minute"
abbreviation ExecutionLeaseDuration :: int where "ExecutionLeaseDuration \<equiv> 20 * nanos_per_second"
abbreviation ExecutionRenewInterval :: int where "ExecutionRenewInterval \<equiv> 5 * nanos_per_second"
abbreviation ExecutionRenewTimeout :: int where "ExecutionRenewTimeout \<equiv> 5 * nanos_per_second"

definition unix_milli :: "int \<Rightarrow> int" where
  "unix_milli t = t div nanos_per_milli"

definition issue_claims :: "authority \<Rightarrow> string \<Rightarrow> binding \<Rightarrow> principal \<Rightarrow> authorization \<Rightarrow> int \<Rightarrow> claims" where
  "issue_claims a did b i z now = \<lparr>cl_authority = au_name a, cl_device = did, cl_binding = b, cl_identity = i,
     cl_authorization = z, cl_expires = unix_milli (now + DelegationProofLifetime)\<rparr>"

definition proof_of :: "(string \<Rightarrow> string \<Rightarrow> string) \<Rightarrow> string \<Rightarrow> string \<Rightarrow> string" where
  "proof_of sign key data = b64_encode data @ ''.'' @ b64_encode (sign key data)"

definition issue_proof ::
  "(string \<Rightarrow> string \<Rightarrow> string) \<Rightarrow> (claims \<Rightarrow> string) \<Rightarrow> authority \<Rightarrow> string \<Rightarrow> binding \<Rightarrow> principal
   \<Rightarrow> authorization \<Rightarrow> int \<Rightarrow> string option" where
  "issue_proof sign json a did b i z now =
    (if \<not> au_devices a \<or> \<not> binding_matches b b \<or> au_key a = zero_key then None
     else let p = proof_of sign (au_key a) (json (issue_claims a did b i z now))
          in if MaxDelegationBytes < length p then None else Some p)"

definition denied :: "failure \<Rightarrow> bool" where
  "denied e \<longleftrightarrow> e = AccessDenied \<or> e = PrincipalUnauthorized"

text \<open>The loop over the expiries: an expiry of zero does not count.\<close>

definition sooner :: "int \<Rightarrow> int \<Rightarrow> int" where
  "sooner limit expires = (if 0 < limit \<and> limit < expires then limit else expires)"

definition lease_end :: "claims \<Rightarrow> int \<Rightarrow> int" where
  "lease_end c now = sooner (a_expires (cl_authorization c) * nanos_per_second)
     (sooner (p_expires (cl_identity c) * nanos_per_second)
       (sooner (cl_expires c * nanos_per_milli) (now + ExecutionLeaseDuration)))"

text \<open>\<open>loaded\<close>, \<open>granted\<close> and \<open>known\<close> are the answers of \<open>LoadDevice\<close>, \<open>access.Verify\<close> and \<open>accounts.Verify\<close>.\<close>

definition renew_claims ::
  "authority \<Rightarrow> failure + device \<Rightarrow> failure + unit \<Rightarrow> failure + unit \<Rightarrow> bool \<Rightarrow> int \<Rightarrow> claims \<Rightarrow> renewal" where
  "renew_claims a loaded granted known ended now c =
    (if \<not> au_devices a \<or> \<not> binding_matches (cl_binding c) (cl_binding c) then RenewDenied
     else case loaded of
       Inl e \<Rightarrow> if e = DeviceNotFound then RenewDenied else RenewFailed
     | Inr d \<Rightarrow>
        if \<not> dev_inbound d \<or> \<not> binding_matches (cl_binding c) (device_binding d) then RenewDenied
        else case (if b_ownership (cl_binding c) \<noteq> '''' then (if au_access a then granted else Inl AccessDenied)
                   else if p_principal (cl_identity c) \<noteq> '''' then (if au_accounts a then known else Inl AccessDenied)
                   else Inr ()) of
          Inl e \<Rightarrow> if denied e then RenewDenied else RenewFailed
        | Inr _ \<Rightarrow>
            if ended then RenewFailed
            else let ttl = lease_end c now - now in if ttl \<le> 0 then RenewDenied else RenewGranted ttl)"

definition renew_proof ::
  "(string \<Rightarrow> string \<Rightarrow> string) \<Rightarrow> (string \<Rightarrow> claims option) \<Rightarrow> authority \<Rightarrow> string \<Rightarrow> string \<Rightarrow> int
   \<Rightarrow> failure + device \<Rightarrow> failure + unit \<Rightarrow> failure + unit \<Rightarrow> bool \<Rightarrow> int \<Rightarrow> string \<Rightarrow> renewal" where
  "renew_proof sign unjson a did uid seen loaded granted known ended now p =
    (if p = '''' \<or> MaxDelegationBytes < length p \<or> \<not> au_devices a \<or> au_key a = zero_key then RenewDenied
     else case split_at_char (CHR ''.'') p of
       [x, y] \<Rightarrow> (case b64_decode x of None \<Rightarrow> RenewDenied | Some data \<Rightarrow>
         (case b64_decode y of None \<Rightarrow> RenewDenied | Some signature \<Rightarrow>
            if signature \<noteq> sign (au_key a) data then RenewDenied
            else case unjson data of None \<Rightarrow> RenewDenied | Some c \<Rightarrow>
              if cl_authority c \<noteq> au_name a \<or> cl_device c \<noteq> did \<or> b_device_uid (cl_binding c) \<noteq> uid
                 \<or> cl_expires c \<le> unix_milli seen
              then RenewDenied else renew_claims a loaded granted known ended now c))
     | _ \<Rightarrow> RenewDenied)"

definition renew_foreground ::
  "authority \<Rightarrow> failure + device \<Rightarrow> failure + unit \<Rightarrow> failure + unit \<Rightarrow> bool \<Rightarrow> int \<Rightarrow> string \<Rightarrow> binding
   \<Rightarrow> principal \<Rightarrow> authorization \<Rightarrow> renewal" where
  "renew_foreground a loaded granted known ended now did b i z =
    renew_claims a loaded granted known ended now \<lparr>cl_authority = '''', cl_device = did, cl_binding = b,
      cl_identity = i, cl_authorization = z, cl_expires = 0\<rparr>"

section \<open>The lease loop: \<open>guard.go\<close>\<close>

text \<open>
  \<open>Maintain\<close>: one authority request, then a goroutine that renews it. A request is described by the
  clock when it starts, when its answer is checked against the deadline and against the new expiry, and whether its
  context ended. \<open>Live\<close> is the head of the loop, \<open>Asleep\<close> the timer.
\<close>

datatype guard_error = GuardDenied | GuardExpired | GuardFailed

record request_times =
  rt_start :: int
  rt_reply :: int
  rt_last :: int
  rt_ended :: bool

definition guard_request :: "int \<Rightarrow> request_times \<Rightarrow> renewal \<Rightarrow> guard_error + int" where
  "guard_request deadline t answer =
    (let limit = min deadline (rt_start t + ExecutionRenewTimeout)
     in case answer of
       RenewDenied \<Rightarrow> Inl GuardDenied
     | RenewFailed \<Rightarrow> Inl GuardFailed
     | RenewGranted ttl \<Rightarrow>
         if rt_ended t then Inl GuardFailed
         else if limit \<le> rt_reply t then Inl GuardExpired
         else if ttl \<le> 0 \<or> ExecutionLeaseDuration < ttl then Inl GuardDenied
         else if rt_start t + ttl \<le> rt_last t then Inl GuardExpired
         else Inr (rt_start t + ttl))"

definition guard_wait :: "int \<Rightarrow> int" where
  "guard_wait remaining =
    (let w1 = remaining div 3;
         w2 = (if ExecutionRenewInterval < w1 then ExecutionRenewInterval else w1);
         w3 = (if w2 < 10 * nanos_per_milli then 10 * nanos_per_milli else w2)
     in if remaining < w3 then remaining else w3)"

datatype guard = Live int | Asleep int int | Over guard_error | Cancelled

definition guard_start :: "int \<Rightarrow> request_times \<Rightarrow> renewal \<Rightarrow> guard" where
  "guard_start now t answer =
    (case guard_request (now + ExecutionRenewTimeout) t answer of Inl e \<Rightarrow> Over e | Inr x \<Rightarrow> Live x)"

definition guard_turn :: "int \<Rightarrow> int \<Rightarrow> guard" where
  "guard_turn now x = (if x - now \<le> 0 then Over GuardExpired else Asleep x (now + guard_wait (x - now)))"

definition guard_renew :: "int \<Rightarrow> request_times \<Rightarrow> renewal \<Rightarrow> bool \<Rightarrow> guard" where
  "guard_renew x t answer ended =
    (case guard_request x t answer of
       Inr next \<Rightarrow> Live next
     | Inl e \<Rightarrow> if e = GuardDenied then Over GuardDenied else if ended then Cancelled else Live x)"

text \<open>A run with the leases it confirmed, newest first, each with the start of its request; the timer may fire late.\<close>

inductive guard_run :: "(int \<times> int) list \<Rightarrow> guard \<Rightarrow> bool" where
  guard_begin: "guard_request (now + ExecutionRenewTimeout) t (RenewGranted ttl) = Inr x \<Longrightarrow>
     guard_run [(rt_start t, ttl)] (guard_start now t (RenewGranted ttl))"
| guard_refused: "guard_request (now + ExecutionRenewTimeout) t answer = Inl e \<Longrightarrow>
     guard_run [] (guard_start now t answer)"
| guard_head: "guard_run cs (Live x) \<Longrightarrow> guard_run cs (guard_turn now x)"
| guard_renewed: "guard_run cs (Asleep x u) \<Longrightarrow> u \<le> rt_start t \<Longrightarrow> guard_request x t (RenewGranted ttl) = Inr y \<Longrightarrow>
     guard_run ((rt_start t, ttl) # cs) (guard_renew x t (RenewGranted ttl) ended)"
| guard_kept: "guard_run cs (Asleep x u) \<Longrightarrow> u \<le> rt_start t \<Longrightarrow> guard_request x t answer = Inl e \<Longrightarrow>
     guard_run cs (guard_renew x t answer ended)"
| guard_cancel: "guard_run cs g \<Longrightarrow> guard_run cs Cancelled"

section \<open>Lemmas\<close>

lemma sooner_le: "sooner l e \<le> e" "0 < l \<Longrightarrow> sooner l e \<le> l"
  by (auto simp: sooner_def)

lemma lease_end_le:
  "lease_end c now \<le> now + ExecutionLeaseDuration"
  "0 < cl_expires c \<Longrightarrow> lease_end c now \<le> cl_expires c * nanos_per_milli"
  "0 < p_expires (cl_identity c) \<Longrightarrow> lease_end c now \<le> p_expires (cl_identity c) * nanos_per_second"
  "0 < a_expires (cl_authorization c) \<Longrightarrow> lease_end c now \<le> a_expires (cl_authorization c) * nanos_per_second"
  by (auto simp: lease_end_def sooner_def)

lemma renew_claims_granted:
  assumes "renew_claims a loaded granted known ended now c = RenewGranted ttl"
  shows "\<exists>d. loaded = Inr d \<and> dev_inbound d \<and> binding_matches (cl_binding c) (device_binding d)"
    "b_ownership (cl_binding c) \<noteq> '''' \<longrightarrow> au_access a \<and> granted = Inr ()"
    "b_ownership (cl_binding c) = '''' \<and> p_principal (cl_identity c) \<noteq> '''' \<longrightarrow> au_accounts a \<and> known = Inr ()"
    "\<not> ended" "ttl = lease_end c now - now" "0 < ttl"
  using assms by (auto simp: renew_claims_def Let_def split: if_splits sum.splits)

lemma guard_request_ok:
  "guard_request dl t answer = Inr x \<Longrightarrow>
   \<exists>ttl. answer = RenewGranted ttl \<and> x = rt_start t + ttl \<and> 0 < ttl \<and> ttl \<le> ExecutionLeaseDuration"
  by (auto simp: guard_request_def Let_def split: renewal.splits if_splits)

lemma guard_wait_bounds:
  "0 < r \<Longrightarrow> 0 < guard_wait r \<and> guard_wait r \<le> r \<and> guard_wait r \<le> ExecutionRenewInterval"
  by (auto simp: guard_wait_def Let_def)

fun guard_ok :: "(int \<times> int) list \<Rightarrow> guard \<Rightarrow> bool" where
  "guard_ok cs (Live x) \<longleftrightarrow> (\<exists>s ttl rest. cs = (s, ttl) # rest \<and> x = s + ttl)"
| "guard_ok cs (Asleep x u) \<longleftrightarrow> (\<exists>s ttl rest. cs = (s, ttl) # rest \<and> x = s + ttl) \<and> u \<le> x"
| "guard_ok cs _ \<longleftrightarrow> True"

lemma guard_run_ok: "guard_run cs g \<Longrightarrow> guard_ok cs g"
proof (induction rule: guard_run.induct)
  case (guard_begin now t ttl x)
  then show ?case using guard_request_ok [OF guard_begin] by (auto simp: guard_start_def)
next
  case (guard_refused now t answer e)
  then show ?case by (simp add: guard_start_def)
next
  case (guard_head cs x now)
  then show ?case using guard_wait_bounds [of "x - now"] by (auto simp: guard_turn_def)
next
  case (guard_renewed cs x u t ttl y ended)
  then show ?case using guard_request_ok [OF guard_renewed(3)] by (auto simp: guard_renew_def)
next
  case (guard_kept cs x u t answer e ended)
  then show ?case by (cases e) (auto simp: guard_renew_def)
qed simp

lemma guard_run_leases: "guard_run cs g \<Longrightarrow> (s, ttl) \<in> set cs \<Longrightarrow> 0 < ttl \<and> ttl \<le> ExecutionLeaseDuration"
proof (induction rule: guard_run.induct)
  case (guard_begin now t ttl' x)
  then show ?case using guard_request_ok [OF guard_begin(1)] by auto
next
  case (guard_renewed cs x u t ttl' y ended)
  then show ?case using guard_request_ok [OF guard_renewed(3)] by auto
qed auto

section \<open>Properties\<close>

text \<open>C32. A renewal never outlives what it rests on. Whenever the relay grants execution time, for a live route or for a proof, the device
  record read for it accepts inbound commands and has exactly the binding the caller was admitted under, the access service
  or the account service confirmed the caller (whichever the binding needs), and the time is positive, at most 20 seconds and ends
  no later than the proof, the caller's credential and the share, when they have an end.\<close>

theorem renewal_never_outlives:
  assumes "renew_claims a loaded granted known ended now c = RenewGranted ttl"
  shows "(\<exists>d. loaded = Inr d \<and> dev_inbound d \<and> device_binding d = cl_binding c)
    \<and> (b_ownership (cl_binding c) \<noteq> '''' \<longrightarrow> au_access a \<and> granted = Inr ())
    \<and> (b_ownership (cl_binding c) = '''' \<and> p_principal (cl_identity c) \<noteq> '''' \<longrightarrow> au_accounts a \<and> known = Inr ())
    \<and> 0 < ttl \<and> ttl \<le> 20000000000
    \<and> (0 < cl_expires c \<longrightarrow> now + ttl \<le> cl_expires c * 1000000)
    \<and> (0 < p_expires (cl_identity c) \<longrightarrow> now + ttl \<le> p_expires (cl_identity c) * 1000000000)
    \<and> (0 < a_expires (cl_authorization c) \<longrightarrow> now + ttl \<le> a_expires (cl_authorization c) * 1000000000)"
proof -
  note g = renew_claims_granted [OF assms]
  obtain d where "loaded = Inr d" "dev_inbound d" "binding_matches (cl_binding c) (device_binding d)" using g(1) by blast
  then have "\<exists>d. loaded = Inr d \<and> dev_inbound d \<and> device_binding d = cl_binding c" by (metis binding_matches_def)
  moreover have "now + ttl = lease_end c now" using g(5) by simp
  ultimately show ?thesis using g(2,3,6) lease_end_le [of c now] by simp
qed

definition demo_authority :: authority where
  "demo_authority = \<lparr>au_key = replicate 32 CHR ''k'', au_devices = True, au_accounts = True, au_access = True, au_name = ''relay''\<rparr>"

definition shared_device :: device where
  "shared_device = \<lparr>dev_uid = ''u'', dev_secret_hash = ''sh'', dev_inbound = True, dev_grant_id = ''g'',
     dev_grant_hash = ''gh'', dev_ownership = '''', dev_owner_tenant = '''', dev_owner_principal = ''''\<rparr>"

definition demo_claims :: claims where
  "demo_claims = issue_claims demo_authority ''d'' (device_binding shared_device) no_principal no_authorization 1000000000"

theorem renewal_never_outlives_witness:
  "renew_claims demo_authority (Inr shared_device) (Inl AccessDenied) (Inl AccessDenied) False 650000000000 demo_claims
     = RenewGranted 11000000000 \<and> 650000000000 + (11000000000 :: int) \<le> cl_expires demo_claims * 1000000"
proof -
  have r: "renew_claims demo_authority (Inr shared_device) (Inl AccessDenied) (Inl AccessDenied) False 650000000000 demo_claims
     = RenewGranted 11000000000" by code_simp
  have p: "0 < cl_expires demo_claims" by code_simp
  from renewal_never_outlives [OF r] p show ?thesis using r by blast
qed

text \<open>A proof carries the caller through. A proof the relay issues for a connection is accepted back from the same device and with the
  same key until its eleven minutes are over: the renewal is then decided on exactly the binding, identity and authorization the
  proof was issued for. The hypotheses on \<open>json\<close> say that the marshalled claims parse back.\<close>

theorem delegation_roundtrip:
  assumes "issue_proof sign json a did b i z now = Some p"
    and "unjson (json (issue_claims a did b i z now)) = Some (issue_claims a did b i z now)"
    and "unix_milli seen < unix_milli (now + DelegationProofLifetime)"
  shows "renew_proof sign unjson a did (b_device_uid b) seen loaded granted known ended later p
    = renew_claims a loaded granted known ended later (issue_claims a did b i z now)"
proof -
  let ?c = "issue_claims a did b i z now"
  have p: "p = b64_encode (json ?c) @ CHR ''.'' # b64_encode (sign (au_key a) (json ?c))"
    and c: "au_devices a" "au_key a \<noteq> zero_key" "length p \<le> MaxDelegationBytes"
    using assms(1) by (auto simp: issue_proof_def proof_of_def Let_def split: if_splits)
  have s: "split_at_char (CHR ''.'') p = [b64_encode (json ?c), b64_encode (sign (au_key a) (json ?c))]"
    unfolding p by (rule split_two [OF b64_no_dot b64_no_dot])
  have "p \<noteq> ''''" by (simp add: p)
  moreover have f: "cl_authority ?c = au_name a" "cl_device ?c = did" "cl_binding ?c = b"
    "cl_expires ?c = unix_milli (now + DelegationProofLifetime)" by (simp_all add: issue_claims_def)
  ultimately show ?thesis unfolding renew_proof_def s using c assms(2,3) by simp
qed

theorem delegation_roundtrip_witness:
  "renew_proof (\<lambda>k d. take 4 k) (\<lambda>_. Some demo_claims) demo_authority ''d'' ''u'' 2000000000 (Inr shared_device)
     (Inl AccessDenied) (Inl AccessDenied) False 2000000000
     (b64_encode ''claims'' @ ''.'' @ b64_encode ''kkkk'') = RenewGranted 20000000000"
proof -
  have i: "issue_proof (\<lambda>k d. take 4 k) (\<lambda>_. ''claims'') demo_authority ''d'' (device_binding shared_device) no_principal
      no_authorization 1000000000 = Some (b64_encode ''claims'' @ ''.'' @ b64_encode ''kkkk'')" by code_simp
  have u: "unix_milli 2000000000 < unix_milli (1000000000 + DelegationProofLifetime)" by code_simp
  have b: "b_device_uid (device_binding shared_device) = ''u''" by code_simp
  have r: "renew_claims demo_authority (Inr shared_device) (Inl AccessDenied) (Inl AccessDenied) False 2000000000 demo_claims
     = RenewGranted 20000000000" by code_simp
  show ?thesis
    using delegation_roundtrip [OF i, of "\<lambda>_. Some demo_claims" 2000000000 "Inr shared_device" "Inl AccessDenied"
        "Inl AccessDenied" False 2000000000] u r
    unfolding b demo_claims_def by simp
qed

text \<open>Nothing but a signed proof is renewed. If a proof of any content is granted time, then it is the base64 of some data and of the
  signature of that data under the relay's key, the data parses to claims for this relay, this device and this device uid that have
  not expired, and the time is what those claims allow.\<close>

theorem forged_proof_denied:
  assumes "renew_proof sign unjson a did uid seen loaded granted known ended now p = RenewGranted ttl"
  shows "\<exists>x y data c. p = x @ ''.'' @ y \<and> b64_decode x = Some data \<and> b64_decode y = Some (sign (au_key a) data)
    \<and> au_key a \<noteq> zero_key \<and> unjson data = Some c \<and> cl_authority c = au_name a \<and> cl_device c = did
    \<and> b_device_uid (cl_binding c) = uid \<and> unix_milli seen < cl_expires c
    \<and> renew_claims a loaded granted known ended now c = RenewGranted ttl"
proof -
  obtain x y where s: "split_at_char (CHR ''.'') p = [x, y]"
    using assms by (auto simp: renew_proof_def split: list.splits if_splits)
  obtain data where d: "b64_decode x = Some data" using assms s
    by (auto simp: renew_proof_def split: if_splits option.splits)
  obtain c where c: "unjson data = Some c" using assms s d
    by (auto simp: renew_proof_def split: if_splits option.splits)
  have "p = x @ ''.'' @ y" using split_join [OF s] by simp
  moreover have "b64_decode y = Some (sign (au_key a) data)" "au_key a \<noteq> zero_key" "cl_authority c = au_name a"
    "cl_device c = did" "b_device_uid (cl_binding c) = uid" "unix_milli seen < cl_expires c"
    "renew_claims a loaded granted known ended now c = RenewGranted ttl"
    using assms s d c by (auto simp: renew_proof_def split: if_splits option.splits)
  ultimately show ?thesis using d c by blast
qed

theorem forged_proof_denied_witness:
  "\<exists>x y data. ''YQ.a2traw'' = x @ ''.'' @ y \<and> b64_decode x = Some data \<and> b64_decode y = Some ''kkkk''"
proof -
  have r: "renew_proof (\<lambda>k d. take 4 k) (\<lambda>_. Some demo_claims) demo_authority ''d'' ''u'' 2000000000 (Inr shared_device)
     (Inl AccessDenied) (Inl AccessDenied) False 2000000000 ''YQ.a2traw'' = RenewGranted 20000000000"
    and k: "take 4 (au_key demo_authority) = ''kkkk''" by code_simp+
  show ?thesis using forged_proof_denied [OF r] unfolding k by blast
qed

text \<open>The device never extends its own authority. In every run of the lease loop, the expiry it runs on is the start of some
  request, taken before the request was sent, plus the time the relay confirmed for it, which was positive and at most 20 seconds; a
  failed request keeps the old expiry, a denied one ends the run, and when the loop looks at its lease at or after that expiry, it ends.\<close>

theorem guard_never_extends:
  assumes "guard_run cs g"
  shows "(case g of
      Live x \<Rightarrow> (\<exists>s ttl. (s, ttl) = hd cs \<and> cs \<noteq> [] \<and> x = s + ttl \<and> 0 < ttl \<and> ttl \<le> 20000000000)
        \<and> (\<forall>now. x \<le> now \<longrightarrow> guard_turn now x = Over GuardExpired)
        \<and> (\<forall>now. now < x \<longrightarrow> (\<exists>u. guard_turn now x = Asleep x u \<and> now < u \<and> u \<le> x \<and> u \<le> now + 5000000000))
    | Asleep x u \<Rightarrow> (\<exists>s ttl. (s, ttl) = hd cs \<and> cs \<noteq> [] \<and> x = s + ttl \<and> 0 < ttl \<and> ttl \<le> 20000000000)
        \<and> (\<forall>t. guard_renew x t RenewDenied False = Over GuardDenied \<and> guard_renew x t RenewFailed False = Live x)
    | _ \<Rightarrow> True)"
proof -
  have l: "0 < ttl \<and> ttl \<le> 20000000000" if "cs = (s, ttl) # rest" for s ttl rest
    using guard_run_leases [OF assms, of s ttl] that by simp
  show ?thesis
  proof (cases g)
    case (Live x)
    then obtain s ttl rest where c: "cs = (s, ttl) # rest" "x = s + ttl" using guard_run_ok [OF assms] by auto
    have "\<exists>u. guard_turn now x = Asleep x u \<and> now < u \<and> u \<le> x \<and> u \<le> now + 5000000000" if "now < x" for now
      using that guard_wait_bounds [of "x - now"] by (simp add: guard_turn_def)
    moreover have "guard_turn now x = Over GuardExpired" if "x \<le> now" for now using that by (simp add: guard_turn_def)
    ultimately show ?thesis using Live c l [OF c(1)] by auto
  next
    case (Asleep x u)
    then obtain s ttl rest where c: "cs = (s, ttl) # rest" "x = s + ttl" using guard_run_ok [OF assms] by auto
    then show ?thesis using Asleep l [OF c(1)] by (auto simp: guard_renew_def guard_request_def)
  qed auto
qed

definition prompt_reply :: request_times where
  "prompt_reply = \<lparr>rt_start = 100, rt_reply = 200, rt_last = 200, rt_ended = False\<rparr>"

theorem guard_never_extends_witness:
  "guard_start 100 prompt_reply (RenewGranted 20000000000) = Live 20000000100
   \<and> guard_turn 20000000100 20000000100 = Over GuardExpired"
proof -
  have q: "guard_request (100 + ExecutionRenewTimeout) prompt_reply (RenewGranted 20000000000) = Inr 20000000100"
    and s: "guard_start 100 prompt_reply (RenewGranted 20000000000) = Live 20000000100" by code_simp+
  from guard_never_extends [OF guard_begin [OF q]] s show ?thesis by simp
qed

end
