(* ===== verification/Job.thy ===== *)
theory Job
  imports Invocation
begin

text \<open>
  Durable occupancy of local jobs, \<open>internal/job\<close>. A ledger works on the file \<open>jobs.json\<close> (\<open>jobs option\<close>:
  \<open>None\<close> is no file), which an OS lock gives to one ledger at a time and \<open>atomicfile.Write\<close> replaces whole; \<open>written\<close>
  is the outcome of a replacement, \<open>WrLost\<close> one that happened but was reported as failed. The functions take
  and return the ledger and the file. \<open>world\<close> puts ledgers, owners, the operating system's processes and crashes together.
\<close>

section \<open>The ledger: \<open>ledger.go\<close>, \<open>start.go\<close>, \<open>kind.go\<close>\<close>

abbreviation JobCapacityLimit :: nat where "JobCapacityLimit \<equiv> 4"
abbreviation HandoffCapacityLimit :: nat where "HandoffCapacityLimit \<equiv> 2"
abbreviation KindExec :: string where "KindExec \<equiv> ''exec''"
abbreviation KindHandoff :: string where "KindHandoff \<equiv> ''handoff''"

definition valid_kind :: "string \<Rightarrow> bool" where
  "valid_kind k \<longleftrightarrow> k = KindExec \<or> k = KindHandoff"

record job_record =
  jr_id :: string
  jr_scope :: scope
  jr_kind :: string
  jr_key :: string
  jr_state :: string

type_synonym jobs = "(string, job_record) gomap"

record ledger =
  lg_jobs :: "jobs option"
  lg_closed :: bool
  lg_failed :: bool
  lg_locked :: bool

definition new_ledger :: ledger where
  "new_ledger = \<lparr>lg_jobs = None, lg_closed = False, lg_failed = False, lg_locked = False\<rparr>"

datatype written = WrOk | WrFailed | WrLost

text \<open>What the file system answers to an initialization: the directory, the lock, opening and decoding the file, writing.\<close>

record ledger_io =
  io_dir :: bool
  io_lock :: bool
  io_read :: bool
  io_write :: written

datatype job_error = JobInvalid | JobUnavailable | JobUncertain | JobFull | JobActive | JobRandom

type_synonym filed = "ledger \<times> jobs option"

definition valid_record :: "string \<Rightarrow> job_record \<Rightarrow> bool" where
  "valid_record i r \<longleftrightarrow> length i = 32 \<and> list_all lower_hex i \<and> i = jr_id r \<and> scope_valid (jr_scope r)
     \<and> valid_kind (jr_kind r) \<and> 0 < length (jr_key r) \<and> length (jr_key r) \<le> 128
     \<and> (jr_state r = ''reserved'' \<or> jr_state r = ''occupied'' \<or> jr_state r = ''uncertain'')"

definition save_locked :: "written \<Rightarrow> jobs \<Rightarrow> filed \<Rightarrow> filed \<times> bool" where
  "save_locked w js s = (case w of
     WrOk \<Rightarrow> (((fst s)\<lparr>lg_jobs := Some js\<rparr>, Some js), True)
   | WrFailed \<Rightarrow> (((fst s)\<lparr>lg_failed := True\<rparr>, snd s), False)
   | WrLost \<Rightarrow> (((fst s)\<lparr>lg_failed := True\<rparr>, Some js), False))"

definition recover_jobs :: "jobs \<Rightarrow> jobs" where
  "recover_jobs js = map (\<lambda>(i, r). (i, r\<lparr>jr_state := ''uncertain''\<rparr>)) (filter (\<lambda>(i, r). jr_state r \<noteq> ''reserved'') js)"

definition initialize_locked :: "ledger_io \<Rightarrow> filed \<Rightarrow> filed \<times> bool" where
  "initialize_locked io s =
    (let l = fst s in
     if lg_closed l \<or> lg_failed l then (s, False)
     else if lg_jobs l \<noteq> None then (s, True)
     else if \<not> io_dir io \<or> \<not> io_lock io then ((l\<lparr>lg_failed := True\<rparr>, snd s), False)
     else let l1 = l\<lparr>lg_locked := True, lg_jobs := Some []\<rparr> in
       case snd s of
         None \<Rightarrow> ((l1, None), True)
       | Some js \<Rightarrow>
          if \<not> io_read io \<or> JobCapacityLimit < length js \<or> \<not> list_all (\<lambda>(i, r). valid_record i r) js
          then ((l1\<lparr>lg_failed := True\<rparr>, snd s), False)
          else let l2 = l1\<lparr>lg_jobs := Some (recover_jobs js)\<rparr>
               in if js \<noteq> [] then save_locked (io_write io) (recover_jobs js) (l2, snd s) else ((l2, snd s), True))"

definition held_jobs :: "filed \<Rightarrow> jobs" where
  "held_jobs s = (case lg_jobs (fst s) of None \<Rightarrow> [] | Some js \<Rightarrow> js)"

definition same_job :: "scope \<Rightarrow> string \<Rightarrow> string \<Rightarrow> job_record \<Rightarrow> bool" where
  "same_job sc kind key r \<longleftrightarrow> jr_scope r = sc \<and> jr_kind r = kind \<and> jr_key r = key"

text \<open>\<open>first\<close> is the outcome of the write at the initialization, \<open>second\<close> of the one that publishes the change.\<close>

definition reserve_job ::
  "ledger_io \<Rightarrow> written \<Rightarrow> string option \<Rightarrow> scope \<Rightarrow> string \<Rightarrow> string \<Rightarrow> filed \<Rightarrow> filed \<times> (job_error + string)" where
  "reserve_job io w fresh sc kind key s =
    (if \<not> scope_valid sc \<or> \<not> valid_kind kind \<or> key = '''' \<or> 128 < length key then (s, Inl JobInvalid)
     else case initialize_locked io s of
       (s1, False) \<Rightarrow> (s1, Inl JobUnavailable)
     | (s1, True) \<Rightarrow>
        (let js = held_jobs s1 in
         if list_ex (\<lambda>(i, r). same_job sc kind key r) js then (s1, Inl JobUncertain)
         else if JobCapacityLimit \<le> length js
              \<or> kind = KindHandoff \<and> HandoffCapacityLimit \<le> count_entries (\<lambda>_ r. jr_kind r = KindHandoff) js
         then (s1, Inl JobFull)
         else case fresh of
           None \<Rightarrow> (s1, Inl JobRandom)
         | Some i \<Rightarrow>
            if mget js i \<noteq> None then (s1, Inl JobUnavailable)
            else case save_locked w (mput i \<lparr>jr_id = i, jr_scope = sc, jr_kind = kind, jr_key = key,
                    jr_state = ''reserved''\<rparr> js) s1 of
              (s2, True) \<Rightarrow> (s2, Inr i)
            | (s2, False) \<Rightarrow> (s2, Inl JobUnavailable)))"

definition reserve_exec :: "ledger_io \<Rightarrow> written \<Rightarrow> string option \<Rightarrow> scope \<Rightarrow> string \<Rightarrow> filed \<Rightarrow> filed \<times> (job_error + string)" where
  "reserve_exec io w fresh sc = reserve_job io w fresh sc KindExec"

definition reserve_handoff :: "ledger_io \<Rightarrow> written \<Rightarrow> string option \<Rightarrow> scope \<Rightarrow> string \<Rightarrow> filed \<Rightarrow> filed \<times> (job_error + string)" where
  "reserve_handoff io w fresh sc = reserve_job io w fresh sc KindHandoff"

definition prepare_start :: "written \<Rightarrow> string \<Rightarrow> filed \<Rightarrow> filed \<times> bool" where
  "prepare_start w i s =
    (if lg_closed (fst s) \<or> lg_failed (fst s) then (s, False)
     else case mget (held_jobs s) i of
       None \<Rightarrow> (s, False)
     | Some r \<Rightarrow>
        if jr_state r = ''occupied'' then (s, True)
        else if jr_state r = ''reserved'' then save_locked w (mput i (r\<lparr>jr_state := ''occupied''\<rparr>) (held_jobs s)) s
        else (s, False))"

definition finish_job :: "ledger_io \<Rightarrow> written \<Rightarrow> string \<Rightarrow> bool \<Rightarrow> filed \<Rightarrow> filed \<times> (job_error + unit)" where
  "finish_job io w i uncertain s =
    (case initialize_locked io s of
       (s1, False) \<Rightarrow> (s1, Inl JobUnavailable)
     | (s1, True) \<Rightarrow> (case mget (held_jobs s1) i of
         None \<Rightarrow> (s1, Inl JobUnavailable)
       | Some r \<Rightarrow>
          (case save_locked w (if uncertain then mput i (r\<lparr>jr_state := ''uncertain''\<rparr>) (held_jobs s1)
                               else mdel i (held_jobs s1)) s1 of
             (s2, False) \<Rightarrow> (s2, Inl JobUnavailable)
           | (s2, True) \<Rightarrow> (s2, if uncertain then Inl JobUncertain else Inr ()))))"

definition snapshot_jobs :: "ledger_io \<Rightarrow> filed \<Rightarrow> filed \<times> (job_error + job_record list)" where
  "snapshot_jobs io s = (case initialize_locked io s of
     (s1, False) \<Rightarrow> (s1, Inl JobUnavailable) | (s1, True) \<Rightarrow> (s1, Inr (map snd (held_jobs s1))))"

definition close_ledger :: "ledger \<Rightarrow> ledger" where
  "close_ledger l = (if lg_closed l then l else l\<lparr>lg_closed := True, lg_locked := False\<rparr>)"

section \<open>Owners, processes and crashes: \<open>owner.go\<close>\<close>

text \<open>
  A child is a supervised process boundary: running, settled, or settled without confirmed cleanup
  (\<open>process.ErrCleanup\<close>). \<open>ow_busy\<close> is the owner's mutex held through \<open>process.Start\<close>.
\<close>

datatype boundary = Running | Settled | Unclean

record owner =
  ow_ledger :: nat
  ow_id :: string
  ow_child :: "nat option"
  ow_uncertain :: bool
  ow_closed :: bool
  ow_busy :: bool

record world =
  wd_file :: "jobs option"
  wd_lock :: "nat option"
  wd_ledgers :: "nat \<Rightarrow> ledger"
  wd_owners :: "(nat, owner) gomap"
  wd_children :: "(string \<times> boundary) list"

definition new_world :: world where
  "new_world = \<lparr>wd_file = None, wd_lock = None, wd_ledgers = (\<lambda>_. new_ledger), wd_owners = [], wd_children = []\<rparr>"

definition filed_of :: "nat \<Rightarrow> world \<Rightarrow> filed" where
  "filed_of n w = (wd_ledgers w n, wd_file w)"

text \<open>A ledger operation in the world: the file lock follows \<open>lg_locked\<close>.\<close>

definition put_filed :: "nat \<Rightarrow> filed \<Rightarrow> world \<Rightarrow> world" where
  "put_filed n s w = w\<lparr>wd_ledgers := (wd_ledgers w)(n := fst s), wd_file := snd s,
     wd_lock := (if lg_locked (fst s) then Some n else if wd_lock w = Some n then None else wd_lock w)\<rparr>"

definition set_owner_rec :: "nat \<Rightarrow> owner \<Rightarrow> world \<Rightarrow> world" where
  "set_owner_rec k ow w = w\<lparr>wd_owners := mput k ow (wd_owners w)\<rparr>"

text \<open>\<open>Owner.Start\<close> up to \<open>process.Start\<close>; the boundary is that of the owner's current child.\<close>

definition owner_begin :: "written \<Rightarrow> boundary option \<Rightarrow> owner \<Rightarrow> filed \<Rightarrow> (filed \<times> owner) \<times> job_error option" where
  "owner_begin w child ow s =
    (if ow_closed ow \<or> ow_uncertain ow then ((s, ow), Some JobUnavailable)
     else if child = Some Unclean then ((s, ow\<lparr>ow_uncertain := True\<rparr>), Some JobUncertain)
     else if child = Some Running then ((s, ow), Some JobActive)
     else case prepare_start w (ow_id ow) s of
       (s1, False) \<Rightarrow> ((s1, ow\<lparr>ow_child := None\<rparr>), Some JobUnavailable)
     | (s1, True) \<Rightarrow> ((s1, ow\<lparr>ow_child := None, ow_busy := True\<rparr>), None))"

text \<open>\<open>process.Start\<close> returned: a child, nothing, or an error with a process that may exist.\<close>

datatype launch = Launched | NotLaunched | LaunchDoubt

definition owner_launch :: "launch \<Rightarrow> nat \<Rightarrow> owner \<Rightarrow> owner \<times> (string \<times> boundary) list" where
  "owner_launch r k ow = (case r of
     Launched \<Rightarrow> (ow\<lparr>ow_busy := False, ow_child := Some k\<rparr>, [(ow_id ow, Running)])
   | NotLaunched \<Rightarrow> (ow\<lparr>ow_busy := False\<rparr>, [])
   | LaunchDoubt \<Rightarrow> (ow\<lparr>ow_busy := False, ow_uncertain := True\<rparr>, [(ow_id ow, Unclean)]))"

text \<open>\<open>Owner.Finish\<close>, once its child's boundary has settled.\<close>

definition owner_finish ::
  "ledger_io \<Rightarrow> written \<Rightarrow> boundary option \<Rightarrow> owner \<Rightarrow> filed \<Rightarrow> (filed \<times> owner) \<times> (job_error + unit)" where
  "owner_finish io w child ow s =
    (let doubt = (ow_uncertain ow \<or> child = Some Unclean)
     in case finish_job io w (ow_id ow) doubt s of
          (s1, r) \<Rightarrow> ((s1, ow\<lparr>ow_closed := True, ow_uncertain := doubt\<rparr>), r))"

definition child_of :: "owner \<Rightarrow> world \<Rightarrow> boundary option" where
  "child_of ow w = (case ow_child ow of None \<Rightarrow> None | Some k \<Rightarrow> Some (snd (wd_children w ! k)))"

text \<open>
  The steps. The lock is granted only while no other ledger holds it. \<open>Close\<close> waits for starts in progress; a
  crash does not, and takes the owners of its ledger with it, while what the operating system was asked to start may still start.
\<close>

definition lock_free :: "nat \<Rightarrow> world \<Rightarrow> ledger_io \<Rightarrow> bool" where
  "lock_free n w io \<longleftrightarrow> (io_lock io \<longrightarrow> wd_lock w = None \<or> wd_lock w = Some n)"

inductive job_step :: "world \<Rightarrow> world \<Rightarrow> bool" where
  reserve_fails: "lock_free n w io \<Longrightarrow> reserve_job io wr fresh sc kind key (filed_of n w) = (s, Inl e) \<Longrightarrow>
     job_step w (put_filed n s w)"
| reserve: "lock_free n w io \<Longrightarrow> reserve_job io wr fresh sc kind key (filed_of n w) = (s, Inr i) \<Longrightarrow>
     mget (wd_owners w) k = None \<Longrightarrow>
     job_step w (set_owner_rec k \<lparr>ow_ledger = n, ow_id = i, ow_child = None, ow_uncertain = False, ow_closed = False,
        ow_busy = False\<rparr> (put_filed n s w))"
| begin_start: "mget (wd_owners w) k = Some ow \<Longrightarrow> \<not> ow_busy ow \<Longrightarrow>
     owner_begin wr (child_of ow w) ow (filed_of (ow_ledger ow) w) = ((s, ow'), e) \<Longrightarrow>
     job_step w (set_owner_rec k ow' (put_filed (ow_ledger ow) s w))"
| launch: "mget (wd_owners w) k = Some ow \<Longrightarrow> ow_busy ow \<Longrightarrow>
     owner_launch r (length (wd_children w)) ow = (ow', cs) \<Longrightarrow>
     job_step w (set_owner_rec k ow' (w\<lparr>wd_children := wd_children w @ cs\<rparr>))"
| settle: "n < length (wd_children w) \<Longrightarrow> snd (wd_children w ! n) = Running \<Longrightarrow> st \<noteq> Running \<Longrightarrow>
     job_step w (w\<lparr>wd_children := (wd_children w)[n := (fst (wd_children w ! n), st)]\<rparr>)"
| finish: "mget (wd_owners w) k = Some ow \<Longrightarrow> \<not> ow_busy ow \<Longrightarrow> \<not> ow_closed ow \<Longrightarrow> child_of ow w \<noteq> Some Running \<Longrightarrow>
     lock_free (ow_ledger ow) w io \<Longrightarrow>
     owner_finish io wr (child_of ow w) ow (filed_of (ow_ledger ow) w) = ((s, ow'), e) \<Longrightarrow>
     job_step w (set_owner_rec k ow' (put_filed (ow_ledger ow) s w))"
| snapshot: "lock_free n w io \<Longrightarrow> snapshot_jobs io (filed_of n w) = (s, r) \<Longrightarrow> job_step w (put_filed n s w)"
| close: "(\<forall>k ow. mget (wd_owners w) k = Some ow \<and> ow_ledger ow = n \<longrightarrow> \<not> ow_busy ow) \<Longrightarrow>
     job_step w (put_filed n (close_ledger (wd_ledgers w n), wd_file w) w)"
| crash: "job_step w ((put_filed n (close_ledger (wd_ledgers w n), wd_file w) w)
     \<lparr>wd_owners := map (\<lambda>(k, ow). (k, if ow_ledger ow = n then ow\<lparr>ow_closed := True\<rparr> else ow)) (wd_owners w)\<rparr>)"

inductive job_reachable :: "world \<Rightarrow> bool" where
  job_start: "job_reachable new_world"
| job_next: "job_reachable w \<Longrightarrow> job_step w w' \<Longrightarrow> job_reachable w'"

end
