(* ===== verification/JobSafety.thy ===== *)
theory JobSafety
  imports Job
begin

text \<open>
  What the ledger guarantees across crashes, restarts and lost writes. \<open>book_ok\<close> speaks of the file only,
  \<open>core\<close> relates it to the owners and the processes; a ledger is \<open>usable\<close> while it holds the lock and no write failed.
\<close>

declare map_of_eq_Some_iff [simp del] Some_eq_map_of_iff [simp del]

section \<open>The file\<close>

definition jobs_in :: "jobs option \<Rightarrow> jobs" where
  "jobs_in f = (case f of None \<Rightarrow> [] | Some js \<Rightarrow> js)"

definition handoffs :: "jobs \<Rightarrow> nat" where
  "handoffs js = count_entries (\<lambda>_ r. jr_kind r = KindHandoff) js"

definition job_key :: "job_record \<Rightarrow> scope \<times> string \<times> string" where
  "job_key r = (jr_scope r, jr_kind r, jr_key r)"

definition keys_unique :: "jobs \<Rightarrow> bool" where
  "keys_unique js \<longleftrightarrow> (\<forall>i i' r r'. mget js i = Some r \<longrightarrow> mget js i' = Some r' \<longrightarrow> job_key r = job_key r' \<longrightarrow> i = i')"

definition book_ok :: "jobs \<Rightarrow> bool" where
  "book_ok js \<longleftrightarrow> mdistinct js \<and> length js \<le> JobCapacityLimit \<and> handoffs js \<le> HandoffCapacityLimit \<and> keys_unique js"

text \<open>A map whose records come from the other's, with the same keys.\<close>

lemma keys_from:
  assumes u: "keys_unique js" and from_js: "\<And>i r. mget js' i = Some r \<Longrightarrow> \<exists>q. mget js i = Some q \<and> job_key q = job_key r"
  shows "keys_unique js'"
  unfolding keys_unique_def
proof (intro allI impI)
  fix i i' r r'
  assume r: "mget js' i = Some r" "mget js' i' = Some r'" "job_key r = job_key r'"
  obtain q q' where "mget js i = Some q" "job_key q = job_key r" "mget js i' = Some q'" "job_key q' = job_key r'"
    using from_js [OF r(1)] from_js [OF r(2)] by blast
  then show "i = i'" using u r(3) unfolding keys_unique_def by metis
qed

lemma state_key [simp]: "job_key (r\<lparr>jr_state := st\<rparr>) = job_key r"
  by (simp add: job_key_def)

definition started :: "job_record \<Rightarrow> bool" where
  "started r \<longleftrightarrow> jr_state r = ''occupied'' \<or> jr_state r = ''uncertain''"

lemma recover_get:
  "mget (recover_jobs js) i = (case mget (filter (\<lambda>(i, r). jr_state r \<noteq> ''reserved'') js) i of
     None \<Rightarrow> None | Some r \<Rightarrow> Some (r\<lparr>jr_state := ''uncertain''\<rparr>))"
  unfolding recover_jobs_def by (induction js) auto

lemma filter_get: "mdistinct js \<Longrightarrow>
  mget (filter (\<lambda>(i, r). P r) js) i = (case mget js i of None \<Rightarrow> None | Some r \<Rightarrow> if P r then Some r else None)"
proof (induction js)
  case (Cons e js)
  obtain k r where e: "e = (k, r)" by (rule prod.exhaust)
  then have "mget js k = None" using Cons.prems by (simp add: map_of_eq_None_iff)
  then show ?case using Cons by (auto simp: e)
qed simp

lemma recover_gets: "mdistinct js \<Longrightarrow>
  mget (recover_jobs js) i = (case mget js i of None \<Rightarrow> None
     | Some r \<Rightarrow> if jr_state r \<noteq> ''reserved'' then Some (r\<lparr>jr_state := ''uncertain''\<rparr>) else None)"
  unfolding recover_get by (simp add: filter_get [of js "\<lambda>r. jr_state r \<noteq> ''reserved''"] split: option.split)

lemma recover_distinct: "mdistinct js \<Longrightarrow> mdistinct (recover_jobs js)"
proof -
  assume d: "mdistinct js"
  have "map fst (recover_jobs js) = map fst (filter (\<lambda>(i, r). jr_state r \<noteq> ''reserved'') js)"
    by (simp add: recover_jobs_def case_prod_unfold)
  then show ?thesis using distinct_map_filter [OF d] by simp
qed

lemma recover_handoffs: "handoffs (recover_jobs js) \<le> handoffs js"
  by (induction js) (auto simp: handoffs_def recover_jobs_def)

lemma recover_ok: "book_ok js \<Longrightarrow> book_ok (recover_jobs js)"
proof -
  assume b: "book_ok js"
  then have d: "mdistinct js" by (simp add: book_ok_def)
  have "length (recover_jobs js) \<le> length js" by (simp add: recover_jobs_def)
  moreover have "keys_unique (recover_jobs js)"
  proof (rule keys_from [of js])
    show "keys_unique js" using b by (simp add: book_ok_def)
    show "\<exists>q. mget js i = Some q \<and> job_key q = job_key r" if "mget (recover_jobs js) i = Some r" for i r
      using that by (auto simp: recover_gets [OF d] split: option.splits if_splits)
  qed
  ultimately show ?thesis using b recover_distinct [OF d] recover_handoffs [of js]
    unfolding book_ok_def by (meson order_trans)
qed

lemma delete_ok: "book_ok js \<Longrightarrow> book_ok (mdel i js)"
proof -
  assume b: "book_ok js"
  have "handoffs (mdel i js) \<le> handoffs js"
    by (induction js) (auto simp: handoffs_def)
  moreover have "length (mdel i js) \<le> length js" by (rule length_mdel_le)
  moreover have "keys_unique (mdel i js)"
    by (rule keys_from [of js]) (use b in \<open>simp_all add: book_ok_def split: if_splits\<close>)
  ultimately show ?thesis using b unfolding book_ok_def by simp
qed

text \<open>Only the state of a record changes.\<close>

lemma restate_ok:
  assumes b: "book_ok js" and r: "mget js i = Some r"
  shows "book_ok (mput i (r\<lparr>jr_state := st\<rparr>) js)"
proof -
  have "handoffs (mput i (r\<lparr>jr_state := st\<rparr>) js) = handoffs js"
    unfolding handoffs_def by (rule count_entries_mput_present [OF r]) simp
  moreover have "length (mput i (r\<lparr>jr_state := st\<rparr>) js) = length js" by (rule length_mput_present) (simp add: r)
  moreover have "keys_unique (mput i (r\<lparr>jr_state := st\<rparr>) js)"
  proof (rule keys_from [of js])
    show "keys_unique js" using b by (simp add: book_ok_def)
    show "\<exists>q. mget js k = Some q \<and> job_key q = job_key z" if "mget (mput i (r\<lparr>jr_state := st\<rparr>) js) k = Some z" for k z
      using that r by (cases "k = i") auto
  qed
  ultimately show ?thesis using b unfolding book_ok_def by simp
qed

lemma add_ok:
  assumes b: "book_ok js" and n: "mget js i = None" and s: "\<not> list_ex (\<lambda>(i, r). same_job sc kind key r) js"
    and room: "length js < JobCapacityLimit" "kind = KindHandoff \<longrightarrow> handoffs js < HandoffCapacityLimit"
    and r: "jr_scope r = sc" "jr_kind r = kind" "jr_key r = key"
  shows "book_ok (mput i r js)"
proof -
  have "handoffs (mput i r js) = handoffs js + (if kind = KindHandoff then 1 else 0)"
    unfolding handoffs_def using count_entries_fresh [OF n, of "\<lambda>_ r. jr_kind r = KindHandoff" r] r by simp
  then have h: "handoffs (mput i r js) \<le> HandoffCapacityLimit" using room(2) b by (auto simp: book_ok_def)
  have l: "length (mput i r js) = Suc (length js)" by (rule length_mput_fresh [OF n])
  have old: "job_key q \<noteq> job_key r" if "mget js k = Some q" for k q
    using s map_of_SomeD [OF that] r by (auto simp: list_ex_iff same_job_def job_key_def)
  have "keys_unique (mput i r js)" unfolding keys_unique_def
  proof (intro allI impI)
    fix k k' q q'
    assume q: "mget (mput i r js) k = Some q" "mget (mput i r js) k' = Some q'" "job_key q = job_key q'"
    have u: "k = k'" if "mget js k = Some q" "mget js k' = Some q'"
      using b that q(3) unfolding book_ok_def keys_unique_def by blast
    show "k = k'" using q old [of k q] old [of k' q'] u by (cases "k = i"; cases "k' = i") auto
  qed
  then show ?thesis using b room h l unfolding book_ok_def by simp
qed

section \<open>What an operation does to the file and the ledger\<close>

definition usable :: "ledger \<Rightarrow> bool" where
  "usable l \<longleftrightarrow> \<not> lg_closed l \<and> \<not> lg_failed l \<and> lg_jobs l \<noteq> None"

text \<open>A ledger in order: open with the lock exactly when it has read the file, and then it knows the file.\<close>

definition in_order :: "filed \<Rightarrow> bool" where
  "in_order s \<longleftrightarrow> (lg_locked (fst s) \<longleftrightarrow> \<not> lg_closed (fst s) \<and> lg_jobs (fst s) \<noteq> None)
     \<and> (usable (fst s) \<longrightarrow> lg_jobs (fst s) = Some (jobs_in (snd s)))"

lemma save_cases:
  assumes "save_locked w js s = (s', ok)" "in_order s" "usable (fst s)"
  shows "in_order s'" "lg_locked (fst s') = lg_locked (fst s)" "ok = usable (fst s')"
    "jobs_in (snd s') = js \<or> \<not> ok \<and> snd s' = snd s" "lg_closed (fst s') = lg_closed (fst s)" "lg_jobs (fst s') \<noteq> None"
  using assms by (cases w; auto simp: save_locked_def in_order_def usable_def jobs_in_def)+

lemma init_ready: "usable (fst s) \<Longrightarrow> initialize_locked io s = (s, True)"
  by (auto simp: initialize_locked_def usable_def Let_def)

text \<open>Reading the file: nothing happens, the ledger opens with the recovered jobs, or it is down.\<close>

lemma init_cases:
  assumes "initialize_locked io s = (s', ok)" "in_order s"
  obtains (ready) "s' = s" "ok" "usable (fst s)"
  | (down) "s' = s" "\<not> ok" "\<not> usable (fst s)"
  | (opened) l f where "s' = (l, f)" "ok" "usable l" "in_order s'" "lg_locked l" "\<not> lg_closed l" "\<not> lg_closed (fst s)"
      "lg_jobs (fst s) = None" "io_lock io" "jobs_in f = recover_jobs (jobs_in (snd s))"
  | (broken) l f where "s' = (l, f)" "\<not> ok" "\<not> usable l" "in_order s'" "\<not> lg_closed l" "\<not> lg_closed (fst s)"
      "lg_jobs (fst s) = None" "lg_locked l \<longrightarrow> io_lock io"
      "f = snd s \<or> lg_locked l \<and> jobs_in f = recover_jobs (jobs_in (snd s))"
proof -
  obtain l f where s: "s = (l, f)" by (rule prod.exhaust)
  show thesis
  proof (cases "lg_closed l \<or> lg_failed l \<or> lg_jobs l \<noteq> None")
    case True
    show thesis
    proof (cases "lg_closed l \<or> lg_failed l")
      case True
      then have "s' = s" "\<not> ok" using assms(1) s by (auto simp: initialize_locked_def)
      then show thesis using True s by (intro down) (auto simp: usable_def)
    next
      case False
      then have "s' = s" "ok" using assms(1) s \<open>lg_closed l \<or> lg_failed l \<or> lg_jobs l \<noteq> None\<close>
        by (auto simp: initialize_locked_def)
      then show thesis using False s \<open>lg_closed l \<or> lg_failed l \<or> lg_jobs l \<noteq> None\<close>
        by (intro ready) (auto simp: usable_def)
    qed
  next
    case False
    then have l: "\<not> lg_closed l" "\<not> lg_failed l" "lg_jobs l = None" by auto
    let ?l1 = "l\<lparr>lg_locked := True, lg_jobs := Some []\<rparr>"
    show thesis
    proof (cases "io_dir io \<and> io_lock io")
      case False
      then have "s' = (l\<lparr>lg_failed := True\<rparr>, f)" "\<not> ok" using assms(1) l s by (auto simp: initialize_locked_def)
      moreover have "\<not> lg_locked l" using assms(2) l s by (simp add: in_order_def)
      ultimately show thesis using l s by (intro broken [of "l\<lparr>lg_failed := True\<rparr>" f]) (simp_all add: in_order_def usable_def)
    next
      case io: True
      show thesis
      proof (cases f)
        case None
        then have "s' = (?l1, None)" "ok" using assms(1) l s io by (auto simp: initialize_locked_def)
        then show thesis using l s io None
          by (intro opened [of ?l1 None]) (simp_all add: in_order_def usable_def jobs_in_def recover_jobs_def)
      next
        case (Some js)
        show thesis
        proof (cases "\<not> io_read io \<or> JobCapacityLimit < length js \<or> \<not> list_all (\<lambda>(i, r). valid_record i r) js")
          case True
          then have "s' = (?l1\<lparr>lg_failed := True\<rparr>, f)" "\<not> ok" using assms(1) l s io Some by (auto simp: initialize_locked_def)
          then show thesis using l s io
            by (intro broken [of "?l1\<lparr>lg_failed := True\<rparr>" f]) (simp_all add: in_order_def usable_def)
        next
          case False
          let ?l2 = "?l1\<lparr>lg_jobs := Some (recover_jobs js)\<rparr>"
          have i: "initialize_locked io s = (if js \<noteq> [] then save_locked (io_write io) (recover_jobs js) (?l2, f) else ((?l2, f), True))"
            using l s io Some False by (simp add: initialize_locked_def)
          show thesis
          proof (cases "js = []")
            case True
            then have "s' = (?l2, f)" "ok" using assms(1) i by auto
            then show thesis using l s io Some True
              by (intro opened [of ?l2 f]) (simp_all add: in_order_def usable_def jobs_in_def recover_jobs_def)
          next
            case ne: False
            show thesis
            proof (cases "io_write io")
              case WrOk
              then have "s' = (?l2, Some (recover_jobs js))" "ok" using assms(1) i ne by (auto simp: save_locked_def)
              then show thesis using l s io Some
                by (intro opened [of ?l2 "Some (recover_jobs js)"]) (simp_all add: in_order_def usable_def jobs_in_def)
            next
              case WrFailed
              then have "s' = (?l2\<lparr>lg_failed := True\<rparr>, f)" "\<not> ok" using assms(1) i ne by (auto simp: save_locked_def)
              then show thesis using l s io Some
                by (intro broken [of "?l2\<lparr>lg_failed := True\<rparr>" f]) (simp_all add: in_order_def usable_def jobs_in_def)
            next
              case WrLost
              then have "s' = (?l2\<lparr>lg_failed := True\<rparr>, Some (recover_jobs js))" "\<not> ok" using assms(1) i ne by (auto simp: save_locked_def)
              then show thesis using l s io Some
                by (intro broken [of "?l2\<lparr>lg_failed := True\<rparr>" "Some (recover_jobs js)"]) (simp_all add: in_order_def usable_def jobs_in_def)
            qed
          qed
        qed
      qed
    qed
  qed
qed

section \<open>The world\<close>

abbreviation the_jobs :: "world \<Rightarrow> jobs" where "the_jobs w \<equiv> jobs_in (wd_file w)"

definition recorded :: "jobs \<Rightarrow> string \<Rightarrow> bool" where
  "recorded js i \<longleftrightarrow> (\<exists>r. mget js i = Some r \<and> started r)"

definition unsettled :: "world \<Rightarrow> nat \<Rightarrow> string \<Rightarrow> bool" where
  "unsettled w c i \<longleftrightarrow> c < length (wd_children w) \<and> fst (wd_children w ! c) = i \<and> snd (wd_children w ! c) \<noteq> Settled"

definition open_use :: "world \<Rightarrow> owner \<Rightarrow> bool" where
  "open_use w ow \<longleftrightarrow> \<not> ow_closed ow \<and> usable (wd_ledgers w (ow_ledger ow))"

definition owner_alone :: "world \<Rightarrow> nat \<Rightarrow> owner \<Rightarrow> bool" where
  "owner_alone w k ow \<longleftrightarrow> (\<forall>k' ow'. mget (wd_owners w) k' = Some ow' \<longrightarrow> k' \<noteq> k \<longrightarrow> open_use w ow' \<or> ow_busy ow'
     \<longrightarrow> ow_id ow' \<noteq> ow_id ow)"

definition owner_ok :: "world \<Rightarrow> nat \<Rightarrow> owner \<Rightarrow> bool" where
  "owner_ok w k ow \<longleftrightarrow> (ow_busy ow \<longrightarrow> recorded (the_jobs w) (ow_id ow))
     \<and> lg_jobs (wd_ledgers w (ow_ledger ow)) \<noteq> None
     \<and> (\<forall>c. ow_child ow = Some c \<longrightarrow> c < length (wd_children w))
     \<and> (open_use w ow \<longrightarrow>
          (\<exists>r. mget (the_jobs w) (ow_id ow) = Some r \<and> (\<not> ow_uncertain ow \<longrightarrow> jr_state r \<noteq> ''uncertain''))
          \<and> (\<not> ow_uncertain ow \<longrightarrow> (\<forall>c. unsettled w c (ow_id ow) \<longrightarrow> ow_child ow = Some c))
          \<and> (ow_busy ow \<longrightarrow> \<not> ow_uncertain ow \<and> ow_child ow = None)
          \<and> owner_alone w k ow)"

definition world_ok :: "world \<Rightarrow> bool" where
  "world_ok w \<longleftrightarrow> (\<forall>n. in_order (filed_of n w)) \<and> (\<forall>n. lg_locked (wd_ledgers w n) \<longleftrightarrow> wd_lock w = Some n)
     \<and> book_ok (the_jobs w) \<and> mdistinct (wd_owners w)
     \<and> (\<forall>c i. unsettled w c i \<longrightarrow> recorded (the_jobs w) i)
     \<and> (\<forall>k ow. mget (wd_owners w) k = Some ow \<longrightarrow> owner_ok w k ow)"

lemma world_okD:
  assumes "world_ok w"
  shows "in_order (filed_of n w)" "lg_locked (wd_ledgers w n) \<longleftrightarrow> wd_lock w = Some n" "book_ok (the_jobs w)"
    "mdistinct (wd_owners w)" "unsettled w c i \<Longrightarrow> recorded (the_jobs w) i"
    "mget (wd_owners w) k = Some ow \<Longrightarrow> owner_ok w k ow"
  using assms unfolding world_ok_def by blast+

lemma usable_lock:
  assumes "world_ok w" "usable (wd_ledgers w n)" shows "wd_lock w = Some n"
  using world_okD(1,2) [OF assms(1), of n] assms(2) by (auto simp: in_order_def usable_def filed_of_def)

lemma unread_lock:
  assumes "world_ok w" "lg_jobs (wd_ledgers w n) = None" "wd_lock w = None \<or> wd_lock w = Some n"
  shows "wd_lock w = None" "\<not> usable (wd_ledgers w m)"
proof -
  have "\<not> lg_locked (wd_ledgers w n)" using world_okD(1) [OF assms(1), of n] assms(2) by (simp add: in_order_def filed_of_def)
  then show "wd_lock w = None" using assms(3) world_okD(2) [OF assms(1), of n] by blast
  then show "\<not> usable (wd_ledgers w m)" using usable_lock [OF assms(1), of m] by auto
qed

definition needed :: "world \<Rightarrow> string \<Rightarrow> bool" where
  "needed w i \<longleftrightarrow> (\<exists>c. unsettled w c i) \<or> (\<exists>k ow. mget (wd_owners w) k = Some ow \<and> ow_busy ow \<and> ow_id ow = i)"

lemma put_filed_frame [simp]:
  "wd_owners (put_filed n s w) = wd_owners w" "wd_children (put_filed n s w) = wd_children w"
  "wd_file (put_filed n s w) = snd s" "unsettled (put_filed n s w) c i = unsettled w c i"
  by (simp_all add: put_filed_def unsettled_def)

lemma put_filed_ledger: "wd_ledgers (put_filed n s w) m = (if m = n then fst s else wd_ledgers w m)"
  by (simp add: put_filed_def)

text \<open>A ledger operation: what it must do to the file and the ledger for the invariant to survive.\<close>

lemma world_put:
  assumes ok: "world_ok w" and ord: "in_order s" and book: "book_ok (jobs_in (snd s))"
    and jobs: "lg_jobs (wd_ledgers w n) \<noteq> None \<Longrightarrow> lg_jobs (fst s) \<noteq> None"
    and lock: "lg_locked (fst s) \<Longrightarrow> lg_locked (wd_ledgers w n) \<or> wd_lock w = None"
    and use: "usable (fst s) \<Longrightarrow> usable (wd_ledgers w n) \<or> lg_jobs (wd_ledgers w n) = None"
    and other: "\<And>m. m \<noteq> n \<Longrightarrow> usable (wd_ledgers w m) \<Longrightarrow> snd s = wd_file w"
    and kept: "\<And>i. needed w i \<Longrightarrow> recorded (the_jobs w) i \<Longrightarrow> recorded (jobs_in (snd s)) i"
    and states: "\<And>k ow r. mget (wd_owners w) k = Some ow \<Longrightarrow> open_use w ow \<Longrightarrow> mget (the_jobs w) (ow_id ow) = Some r \<Longrightarrow>
        usable (fst s) \<or> ow_ledger ow \<noteq> n \<Longrightarrow>
        \<exists>r'. mget (jobs_in (snd s)) (ow_id ow) = Some r' \<and> (jr_state r \<noteq> ''uncertain'' \<longrightarrow> jr_state r' \<noteq> ''uncertain'')"
  shows "world_ok (put_filed n s w)"
proof -
  let ?w = "put_filed n s w"
  note d = world_okD [OF ok]
  have nu: "open_use w ow" if "mget (wd_owners w) k = Some ow" "open_use ?w ow" for k ow
    using that use d(6) [OF that(1)] by (auto simp: open_use_def put_filed_ledger owner_ok_def split: if_splits)
  have "in_order (filed_of m ?w)" for m
  proof (cases "m = n")
    case True
    then show ?thesis using ord by (simp add: filed_of_def put_filed_ledger)
  next
    case False
    then show ?thesis using d(1) [of m] other [OF False]
      by (auto simp: filed_of_def put_filed_ledger in_order_def)
  qed
  moreover have "lg_locked (wd_ledgers ?w m) \<longleftrightarrow> wd_lock ?w = Some m" for m
    using lock d(2) [of m] d(2) [of n] by (auto simp: put_filed_def)
  moreover have "recorded (the_jobs ?w) i" if "unsettled ?w c i" for c i
    using kept [of i] d(5) [of c i] that by (auto simp: needed_def)
  moreover have "owner_ok ?w k ow" if o: "mget (wd_owners ?w) k = Some ow" for k ow
  proof -
    have o': "mget (wd_owners w) k = Some ow" using o by simp
    note k = d(6) [OF o', unfolded owner_ok_def]
    have busy: "ow_busy ow \<longrightarrow> recorded (the_jobs ?w) (ow_id ow)"
      using kept [of "ow_id ow"] k o' by (auto simp: needed_def)
    have j: "lg_jobs (wd_ledgers ?w (ow_ledger ow)) \<noteq> None" using k jobs by (auto simp: put_filed_ledger)
    have "(\<exists>r. mget (the_jobs ?w) (ow_id ow) = Some r \<and> (\<not> ow_uncertain ow \<longrightarrow> jr_state r \<noteq> ''uncertain''))
          \<and> (\<not> ow_uncertain ow \<longrightarrow> (\<forall>c. unsettled ?w c (ow_id ow) \<longrightarrow> ow_child ow = Some c))
          \<and> (ow_busy ow \<longrightarrow> \<not> ow_uncertain ow \<and> ow_child ow = None)
          \<and> owner_alone ?w k ow" if u: "open_use ?w ow"
    proof -
      note wu = nu [OF o' u]
      obtain r where r: "mget (the_jobs w) (ow_id ow) = Some r" "\<not> ow_uncertain ow \<longrightarrow> jr_state r \<noteq> ''uncertain''"
        using k wu by blast
      have "usable (fst s) \<or> ow_ledger ow \<noteq> n" using u by (auto simp: open_use_def put_filed_ledger split: if_splits)
      from states [OF o' wu r(1) this] r(2)
      have "\<exists>r. mget (the_jobs ?w) (ow_id ow) = Some r \<and> (\<not> ow_uncertain ow \<longrightarrow> jr_state r \<noteq> ''uncertain'')" by auto
      moreover have "owner_alone ?w k ow" using k wu nu unfolding owner_alone_def put_filed_frame by blast
      moreover have "\<not> ow_uncertain ow \<longrightarrow> (\<forall>c. unsettled ?w c (ow_id ow) \<longrightarrow> ow_child ow = Some c)"
        using k wu unfolding put_filed_frame by blast
      moreover have "ow_busy ow \<longrightarrow> \<not> ow_uncertain ow \<and> ow_child ow = None" using k wu by blast
      ultimately show ?thesis by blast
    qed
    moreover have "\<forall>c. ow_child ow = Some c \<longrightarrow> c < length (wd_children ?w)" using k unfolding put_filed_frame by blast
    ultimately show ?thesis using busy j unfolding owner_ok_def by blast
  qed
  ultimately show ?thesis using book d(4) unfolding world_ok_def by simp
qed

text \<open>A change of an owner's own record.\<close>

lemma owner_rec_frame [simp]:
  "wd_file (set_owner_rec k ow w) = wd_file w" "wd_children (set_owner_rec k ow w) = wd_children w"
  "wd_ledgers (set_owner_rec k ow w) = wd_ledgers w" "wd_lock (set_owner_rec k ow w) = wd_lock w"
  "unsettled (set_owner_rec k ow w) c i = unsettled w c i" "open_use (set_owner_rec k ow w) ow' = open_use w ow'"
  "filed_of n (set_owner_rec k ow w) = filed_of n w"
  by (simp_all add: set_owner_rec_def unsettled_def open_use_def filed_of_def)

lemma set_owner_put: "set_owner_rec k ow (put_filed n s w) = put_filed n s (set_owner_rec k ow w)"
  by (simp add: set_owner_rec_def put_filed_def)

lemma world_owner:
  assumes ok: "world_ok w" and new: "owner_ok w k ow"
    and alone: "\<And>k' ow'. mget (wd_owners w) k' = Some ow' \<Longrightarrow> k' \<noteq> k \<Longrightarrow> open_use w ow' \<Longrightarrow> open_use w ow \<or> ow_busy ow \<Longrightarrow>
        ow_id ow \<noteq> ow_id ow'"
  shows "world_ok (set_owner_rec k ow w)"
proof -
  let ?w = "set_owner_rec k ow w"
  note d = world_okD [OF ok]
  have own: "mget (wd_owners ?w) k' = (if k' = k then Some ow else mget (wd_owners w) k')" for k'
    by (simp add: set_owner_rec_def)
  have "owner_ok ?w k' ow'" if "mget (wd_owners ?w) k' = Some ow'" for k' ow'
  proof (cases "k' = k")
    case True
    then have e: "ow' = ow" using that own by simp
    have "owner_alone ?w k ow" if "owner_alone w k ow" using that unfolding owner_alone_def own by simp
    then show ?thesis using new unfolding e True owner_ok_def owner_rec_frame by blast
  next
    case False
    then have o: "mget (wd_owners w) k' = Some ow'" using that own by simp
    have "owner_alone ?w k' ow'" if u: "open_use w ow'" "owner_alone w k' ow'" unfolding owner_alone_def owner_rec_frame
    proof (intro allI impI)
      fix j oj assume j: "mget (wd_owners ?w) j = Some oj" "j \<noteq> k'" "open_use w oj \<or> ow_busy oj"
      show "ow_id oj \<noteq> ow_id ow'"
      proof (cases "j = k")
        case True
        then have "oj = ow" using j(1) own by simp
        then show ?thesis using alone [OF o False u(1)] j(3) by simp
      next
        case False
        then have "mget (wd_owners w) j = Some oj" using j(1) own by simp
        then show ?thesis using u(2) j(2,3) unfolding owner_alone_def by blast
      qed
    qed
    then show ?thesis using d(6) [OF o] unfolding owner_ok_def owner_rec_frame by blast
  qed
  moreover have "mdistinct (wd_owners ?w)" using d(4) by (simp add: set_owner_rec_def mdistinct_mput)
  ultimately show ?thesis using d unfolding world_ok_def by simp
qed

section \<open>The steps\<close>

text \<open>Uncertain records stay.\<close>

definition keeps_debt :: "jobs \<Rightarrow> jobs \<Rightarrow> bool" where
  "keeps_debt js js' \<longleftrightarrow> (\<forall>i r. mget js i = Some r \<longrightarrow> jr_state r = ''uncertain'' \<longrightarrow>
     (\<exists>r'. mget js' i = Some r' \<and> jr_state r' = ''uncertain'' \<and> job_key r' = job_key r))"

lemma keeps_refl [simp]: "keeps_debt js js" by (simp add: keeps_debt_def)

lemma keeps_trans: "keeps_debt a b \<Longrightarrow> keeps_debt b c \<Longrightarrow> keeps_debt a c"
  unfolding keeps_debt_def by metis

lemma recover_keeps: "mdistinct js \<Longrightarrow> keeps_debt js (recover_jobs js)"
  by (simp add: keeps_debt_def recover_gets)

lemma recover_recorded: "mdistinct js \<Longrightarrow> recorded js i \<Longrightarrow> recorded (recover_jobs js) i"
  by (auto simp: recorded_def started_def recover_gets)

lemma filed_of_put [simp]: "filed_of n (put_filed n s w) = s"
  by (simp add: filed_of_def put_filed_ledger)

lemma put_same: "world_ok w \<Longrightarrow> put_filed n (filed_of n w) w = w"
  using world_okD(2) [of w n] by (simp add: put_filed_def filed_of_def)

lemma put_put: "lg_locked (fst t) = lg_locked (fst s) \<Longrightarrow> put_filed n t (put_filed n s w) = put_filed n t w"
  by (simp add: put_filed_def)

lemma init_world:
  assumes ok: "world_ok w" and free: "lock_free n w io" and i: "initialize_locked io (filed_of n w) = (s, b)"
  shows "world_ok (put_filed n s w) \<and> keeps_debt (the_jobs w) (jobs_in (snd s)) \<and> (b \<longleftrightarrow> usable (fst s))"
proof -
  note d = world_okD [OF ok]
  have dist: "mdistinct (the_jobs w)" using d(3) by (simp add: book_ok_def)
  have fresh: "world_ok (put_filed n (l, f) w)"
    if "in_order (l, f)" "lg_jobs (wd_ledgers w n) = None" "lg_locked l \<longrightarrow> io_lock io"
      "f = wd_file w \<or> lg_locked l \<and> jobs_in f = recover_jobs (the_jobs w)" for l f
  proof (cases "io_lock io")
    case True
    then have lock: "wd_lock w = None \<or> wd_lock w = Some n" using free by (simp add: lock_free_def)
    note u = unread_lock [OF ok that(2) lock]
    have "book_ok (jobs_in f)" using that(4) d(3) recover_ok by auto
    moreover have "recorded (the_jobs w) i \<Longrightarrow> recorded (jobs_in f) i" for i
      using that(4) recover_recorded [OF dist] by auto
    ultimately show ?thesis using that u
      by (intro world_put [OF ok]) (simp_all add: open_use_def)
  next
    case False
    then have f: "f = wd_file w" "\<not> lg_locked l" using that(3,4) by auto
    then have "\<not> usable l" using that(1) by (auto simp: in_order_def usable_def)
    then show ?thesis using that(1,2) f d(3)
      by (intro world_put [OF ok]) simp_all
  qed
  show ?thesis
  proof (rule init_cases [OF i d(1)])
    assume "s = filed_of n w" "b" "usable (fst (filed_of n w))"
    then show ?thesis using put_same [OF ok] ok by (simp add: filed_of_def)
  next
    assume "s = filed_of n w" "\<not> b" "\<not> usable (fst (filed_of n w))"
    then show ?thesis using put_same [OF ok] ok by (simp add: filed_of_def)
  next
    fix l f
    assume "s = (l, f)" "b" "usable l" "in_order s" "lg_jobs (fst (filed_of n w)) = None" "io_lock io"
      "jobs_in f = recover_jobs (jobs_in (snd (filed_of n w)))" "lg_locked l"
    then show ?thesis using fresh [of l f] recover_keeps [OF dist] by (simp add: filed_of_def)
  next
    fix l f
    assume "s = (l, f)" "\<not> b" "\<not> usable l" "in_order s" "lg_jobs (fst (filed_of n w)) = None"
      "lg_locked l \<longrightarrow> io_lock io" "f = snd (filed_of n w) \<or> lg_locked l \<and> jobs_in f = recover_jobs (jobs_in (snd (filed_of n w)))"
    then show ?thesis using fresh [of l f] recover_keeps [OF dist] by (auto simp: filed_of_def)
  qed
qed

text \<open>Publishing a change of the book from a usable ledger.\<close>

lemma save_world:
  assumes ok: "world_ok w" and u: "usable (wd_ledgers w n)" and s: "save_locked wr js (filed_of n w) = (s, b)"
    and book: "book_ok js"
    and kept: "\<And>i. needed w i \<Longrightarrow> recorded (the_jobs w) i \<Longrightarrow> recorded js i"
    and states: "\<And>k ow r. mget (wd_owners w) k = Some ow \<Longrightarrow> open_use w ow \<Longrightarrow> mget (the_jobs w) (ow_id ow) = Some r \<Longrightarrow>
        \<exists>r'. mget js (ow_id ow) = Some r' \<and> (jr_state r \<noteq> ''uncertain'' \<longrightarrow> jr_state r' \<noteq> ''uncertain'')"
  shows "world_ok (put_filed n s w)" "b \<Longrightarrow> jobs_in (snd s) = js" "b \<longleftrightarrow> usable (fst s)"
    "jobs_in (snd s) = js \<or> snd s = wd_file w" "lg_locked (fst s) = lg_locked (wd_ledgers w n)"
proof -
  note d = world_okD [OF ok]
  have u': "usable (fst (filed_of n w))" using u by (simp add: filed_of_def)
  note c = save_cases [OF s d(1) u']
  have j: "jobs_in (snd s) = js \<or> snd s = wd_file w" using c(4) by (auto simp: filed_of_def)
  then show "jobs_in (snd s) = js \<or> snd s = wd_file w" .
  show "b \<Longrightarrow> jobs_in (snd s) = js" using c(4) by simp
  show "b \<longleftrightarrow> usable (fst s)" by (rule c(3))
  show l: "lg_locked (fst s) = lg_locked (wd_ledgers w n)" using c(2) by (simp add: filed_of_def)
  have other: "m \<noteq> n \<Longrightarrow> \<not> usable (wd_ledgers w m)" for m
    using usable_lock [OF ok u] usable_lock [OF ok, of m] by auto
  have "book_ok (jobs_in (snd s))" using j book d(3) by auto
  moreover have "recorded (jobs_in (snd s)) i" if "needed w i" "recorded (the_jobs w) i" for i
    using j kept [OF that] that(2) by auto
  moreover have "\<exists>r'. mget (jobs_in (snd s)) (ow_id ow) = Some r' \<and> (jr_state r \<noteq> ''uncertain'' \<longrightarrow> jr_state r' \<noteq> ''uncertain'')"
    if "mget (wd_owners w) k = Some ow" "open_use w ow" "mget (the_jobs w) (ow_id ow) = Some r" for k ow r
    using j states [OF that] that(3) by auto
  ultimately show "world_ok (put_filed n s w)"
    using c(1,6) l u other by (intro world_put [OF ok]) simp_all
qed

lemma held_usable:
  assumes "world_ok w" "usable (wd_ledgers w n)" shows "held_jobs (filed_of n w) = the_jobs w"
  using world_okD(1) [OF assms(1), of n] assms(2) by (simp add: in_order_def held_jobs_def filed_of_def)

lemma needed_put [simp]: "needed (put_filed n s w) i = needed w i"
  by (simp add: needed_def)

lemma busy_recorded: "world_ok w \<Longrightarrow> needed w i \<Longrightarrow> recorded (the_jobs w) i"
  unfolding needed_def using world_okD(5,6) by (auto simp: owner_ok_def)

lemma mput_recorded:
  "recorded js i \<Longrightarrow> mget js k = Some r \<Longrightarrow> started r \<longrightarrow> started r' \<Longrightarrow> recorded (mput k r' js) i"
  by (auto simp: recorded_def)

lemma reserve_world:
  assumes ok: "world_ok w" and free: "lock_free n w io"
    and r: "reserve_job io wr fresh sc kind key (filed_of n w) = (s, res)"
  shows "world_ok (put_filed n s w)" "keeps_debt (the_jobs w) (jobs_in (snd s))"
    "res = Inr i \<Longrightarrow> usable (fst s) \<and> \<not> needed w i
       \<and> mget (jobs_in (snd s)) i = Some \<lparr>jr_id = i, jr_scope = sc, jr_kind = kind, jr_key = key, jr_state = ''reserved''\<rparr>
       \<and> (\<forall>k ow. mget (wd_owners w) k = Some ow \<and> open_use (put_filed n s w) ow \<longrightarrow> ow_id ow \<noteq> i)"
proof -
  have "world_ok (put_filed n s w) \<and> keeps_debt (the_jobs w) (jobs_in (snd s)) \<and> (res = Inr i \<longrightarrow> usable (fst s) \<and> \<not> needed w i
       \<and> mget (jobs_in (snd s)) i = Some \<lparr>jr_id = i, jr_scope = sc, jr_kind = kind, jr_key = key, jr_state = ''reserved''\<rparr>
       \<and> (\<forall>k ow. mget (wd_owners w) k = Some ow \<and> open_use (put_filed n s w) ow \<longrightarrow> ow_id ow \<noteq> i))"
    (is "?A \<and> ?B \<and> (res = Inr i \<longrightarrow> ?C)")
  proof (cases "\<not> scope_valid sc \<or> \<not> valid_kind kind \<or> key = '''' \<or> 128 < length key")
    case True
    then have "s = filed_of n w" "res = Inl JobInvalid" using r by (auto simp: reserve_job_def)
    then show ?thesis using ok put_same [OF ok] by (simp add: filed_of_def)
  next
    case False
    obtain s1 b where i1: "initialize_locked io (filed_of n w) = (s1, b)" by (rule prod.exhaust)
    let ?w1 = "put_filed n s1 w"
    note iw = init_world [OF ok free i1]
    show ?thesis
    proof (cases b)
      case nb: False
      then have "s = s1" "res = Inl JobUnavailable" using r False i1 by (auto simp: reserve_job_def)
      then show ?thesis using iw by simp
    next
      case True
      then have u: "usable (wd_ledgers ?w1 n)" using iw by (simp add: put_filed_ledger)
      have ok1: "world_ok ?w1" using iw by simp
      have js: "held_jobs s1 = jobs_in (snd s1)" using held_usable [OF ok1 u] by simp
      let ?js = "jobs_in (snd s1)" and ?r = "\<lparr>jr_id = i, jr_scope = sc, jr_kind = kind, jr_key = key, jr_state = ''reserved''\<rparr>"
      have bk: "book_ok ?js" using world_okD(3) [OF ok1] by simp
      show ?thesis
      proof (cases "list_ex (\<lambda>(i, r). same_job sc kind key r) ?js \<or> JobCapacityLimit \<le> length ?js
              \<or> kind = KindHandoff \<and> HandoffCapacityLimit \<le> handoffs ?js \<or> fresh = None \<or> mget ?js (the fresh) \<noteq> None")
        case full: True
        then have "s = s1" "\<exists>e. res = Inl e" using r False i1 True js
          by (auto simp: reserve_job_def Let_def handoffs_def split: if_splits option.splits)
        then show ?thesis using iw by auto
      next
        case room: False
        then obtain j where j: "fresh = Some j" "mget ?js j = None" by auto
        obtain s2 b2 where s2: "save_locked wr (mput j (?r\<lparr>jr_id := j\<rparr>) ?js) (filed_of n ?w1) = (s2, b2)" by (rule prod.exhaust)
        have res: "s = s2" "res = (if b2 then Inr j else Inl JobUnavailable)"
          using r False i1 True js room j s2 by (auto simp: reserve_job_def Let_def handoffs_def split: bool.splits)
        have bk2: "book_ok (mput j (?r\<lparr>jr_id := j\<rparr>) ?js)"
          using room j bk by (intro add_ok) auto
        have keep: "recorded (mput j (?r\<lparr>jr_id := j\<rparr>) ?js) x" if "recorded (the_jobs ?w1) x" for x
          using that j(2) by (auto simp: recorded_def)
        have st: "\<exists>r'. mget (mput j (?r\<lparr>jr_id := j\<rparr>) ?js) (ow_id ow) = Some r' \<and> (jr_state q \<noteq> ''uncertain'' \<longrightarrow> jr_state r' \<noteq> ''uncertain'')"
          if "mget (the_jobs ?w1) (ow_id ow) = Some q" for ow :: owner and q
          using that j(2) by (auto simp del: mget_mput simp: mget_mput split: if_splits)
        note sv = save_world [OF ok1 u s2 bk2 keep st]
        have pp: "put_filed n s2 ?w1 = put_filed n s2 w" using sv(5) by (intro put_put) (simp add: put_filed_ledger)
        have kd: "keeps_debt ?js (jobs_in (snd s2))" using sv(4) j(2) by (auto simp: keeps_debt_def)
        have "keeps_debt (the_jobs w) (jobs_in (snd s2))" using iw kd keeps_trans by blast
        moreover have "?C" if "res = Inr i"
        proof -
          have b2: "b2" "j = i" using that res by (auto split: if_splits)
          have nd: "\<not> needed w i" using busy_recorded [OF ok1, of i] j(2) b2 by (auto simp: recorded_def)
          have "ow_id ow \<noteq> i" if o: "mget (wd_owners w) k = Some ow" "open_use (put_filed n s2 w) ow" for k ow
          proof -
            have "usable (wd_ledgers ?w1 (ow_ledger ow))"
              using o(2) iw True by (auto simp: open_use_def put_filed_ledger split: if_splits)
            then have "open_use ?w1 ow" using o(2) by (simp add: open_use_def)
            then obtain q where "mget ?js (ow_id ow) = Some q"
              using world_okD(6) [OF ok1, of k ow] o(1) by (auto simp: owner_ok_def)
            then show ?thesis using j(2) b2 by auto
          qed
          then have "\<forall>k ow. mget (wd_owners w) k = Some ow \<and> open_use (put_filed n s2 w) ow \<longrightarrow> ow_id ow \<noteq> i" by blast
          then show ?thesis using sv(2,3) b2 res(1) nd by simp
        qed
        ultimately show ?thesis using sv(1) [unfolded pp] unfolding res(1) by blast
      qed
    qed
  qed
  then show "world_ok (put_filed n s w)" "keeps_debt (the_jobs w) (jobs_in (snd s))"
    "res = Inr i \<Longrightarrow> usable (fst s) \<and> \<not> needed w i
       \<and> mget (jobs_in (snd s)) i = Some \<lparr>jr_id = i, jr_scope = sc, jr_kind = kind, jr_key = key, jr_state = ''reserved''\<rparr>
       \<and> (\<forall>k ow. mget (wd_owners w) k = Some ow \<and> open_use (put_filed n s w) ow \<longrightarrow> ow_id ow \<noteq> i)" by blast+
qed

lemma owner_ok_put_open:
  "owner_ok w k ow \<Longrightarrow> \<not> open_use w ow \<Longrightarrow> ow_busy ow' \<longrightarrow> ow_busy ow \<Longrightarrow> ow_ledger ow' = ow_ledger ow \<Longrightarrow> ow_id ow' = ow_id ow \<Longrightarrow>
   (ow_closed ow \<longrightarrow> ow_closed ow') \<Longrightarrow> (\<forall>c. ow_child ow' = Some c \<longrightarrow> ow_child ow = Some c) \<Longrightarrow> owner_ok w k ow'"
  by (auto simp: owner_ok_def open_use_def)

text \<open>An owner closed, or made uncertain, or with a settled child forgotten.\<close>

lemma owner_less:
  assumes ok: "world_ok w" and o: "mget (wd_owners w) k = Some ow"
    and same: "ow_ledger ow' = ow_ledger ow" "ow_id ow' = ow_id ow" "ow_busy ow' = ow_busy ow"
    and less: "ow_closed ow \<longrightarrow> ow_closed ow'" "ow_uncertain ow \<longrightarrow> ow_uncertain ow'"
    and child: "ow_child ow' = ow_child ow \<or> \<not> ow_busy ow \<and> ow_child ow' = None \<and> (\<forall>c. ow_child ow = Some c \<longrightarrow> \<not> unsettled w c (ow_id ow))"
    and busy: "ow_busy ow \<longrightarrow> ow_uncertain ow' = ow_uncertain ow"
  shows "world_ok (set_owner_rec k ow' w)"
proof (rule world_owner [OF ok])
  note k = world_okD(6) [OF ok o]
  have op: "open_use w ow' \<Longrightarrow> open_use w ow" using same less by (auto simp: open_use_def)
  have al: "owner_alone w k ow'" if "owner_alone w k ow" using that same(2) by (simp add: owner_alone_def)
  have ch: "ow_child ow' = Some c \<Longrightarrow> ow_child ow = Some c" for c using child by auto
  show "owner_ok w k ow'"
    unfolding owner_ok_def same
  proof (intro conjI impI allI)
    show "ow_busy ow \<Longrightarrow> recorded (the_jobs w) (ow_id ow)" using k by (simp add: owner_ok_def)
    show "lg_jobs (wd_ledgers w (ow_ledger ow)) \<noteq> None" using k by (simp add: owner_ok_def)
    show "ow_child ow' = Some c \<Longrightarrow> c < length (wd_children w)" for c using k ch by (simp add: owner_ok_def)
    assume u: "open_use w ow'"
    note k' = k [unfolded owner_ok_def, THEN conjunct2, THEN conjunct2, THEN conjunct2, THEN mp, OF op [OF u]]
    show "\<exists>r. mget (the_jobs w) (ow_id ow) = Some r \<and> (\<not> ow_uncertain ow' \<longrightarrow> jr_state r \<noteq> ''uncertain'')"
      using k' less(2) by blast
    show "ow_child ow' = Some c" if "\<not> ow_uncertain ow'" "unsettled w c (ow_id ow)" for c
    proof -
      have "ow_child ow = Some c" using k' less(2) that by blast
      then show ?thesis using child that(2) by auto
    qed
    show "\<not> ow_uncertain ow'" if "ow_busy ow" using k' busy that by simp
    show "ow_child ow' = None" if "ow_busy ow" using k' child that by auto
    show "owner_alone w k ow'" using k' al by blast
  qed
  fix k' oj assume j: "mget (wd_owners w) k' = Some oj" "k' \<noteq> k" "open_use w oj" "open_use w ow' \<or> ow_busy ow'"
  have "owner_alone w k' oj" using world_okD(6) [OF ok j(1)] j(3) by (simp add: owner_ok_def)
  then show "ow_id ow' \<noteq> ow_id oj" using o j op same unfolding owner_alone_def by metis
qed

lemma prepare_world:
  assumes ok: "world_ok w" and o: "mget (wd_owners w) k = Some ow" "\<not> ow_closed ow" "\<not> ow_uncertain ow"
    and p: "prepare_start wr (ow_id ow) (filed_of (ow_ledger ow) w) = (s, b)"
  shows "world_ok (put_filed (ow_ledger ow) s w)" "keeps_debt (the_jobs w) (jobs_in (snd s))"
    "b \<Longrightarrow> usable (fst s) \<and> recorded (jobs_in (snd s)) (ow_id ow)
       \<and> (\<exists>r. mget (jobs_in (snd s)) (ow_id ow) = Some r \<and> jr_state r \<noteq> ''uncertain'')"
proof -
  let ?n = "ow_ledger ow" and ?i = "ow_id ow"
  have jn: "lg_jobs (wd_ledgers w ?n) \<noteq> None" using world_okD(6) [OF ok o(1)] by (simp add: owner_ok_def)
  have "world_ok (put_filed ?n s w) \<and> keeps_debt (the_jobs w) (jobs_in (snd s)) \<and> (b \<longrightarrow> usable (fst s) \<and> recorded (jobs_in (snd s)) ?i
       \<and> (\<exists>r. mget (jobs_in (snd s)) ?i = Some r \<and> jr_state r \<noteq> ''uncertain''))" (is ?G)
  proof (cases "usable (wd_ledgers w ?n)")
    case False
    then have "s = filed_of ?n w" "\<not> b" using p jn by (auto simp: prepare_start_def usable_def filed_of_def)
    then show ?thesis using ok put_same [OF ok] by (simp add: filed_of_def)
  next
    case u: True
    note js = held_usable [OF ok u]
    have u': "\<not> lg_closed (fst (filed_of ?n w))" "\<not> lg_failed (fst (filed_of ?n w))" using u by (simp_all add: usable_def filed_of_def)
    have "open_use w ow" using o u by (simp add: open_use_def)
    then obtain r where r: "mget (the_jobs w) ?i = Some r" "jr_state r \<noteq> ''uncertain''"
      using world_okD(6) [OF ok o(1)] o(3) by (auto simp: owner_ok_def)
    show ?thesis
    proof (cases "jr_state r = ''reserved''")
      case False
      then have "s = filed_of ?n w" "b \<longrightarrow> jr_state r = ''occupied''" using p u' js r by (auto simp: prepare_start_def split: if_splits)
      then show ?thesis using ok put_same [OF ok] u r by (auto simp: filed_of_def recorded_def started_def)
    next
      case True
      let ?r = "r\<lparr>jr_state := ''occupied''\<rparr>"
      have sv0: "save_locked wr (mput ?i ?r (the_jobs w)) (filed_of ?n w) = (s, b)"
        using p u' js r True by (simp add: prepare_start_def)
      have bk: "book_ok (mput ?i ?r (the_jobs w))" by (rule restate_ok [OF world_okD(3) [OF ok] r(1)])
      have keep: "recorded (mput ?i ?r (the_jobs w)) x" if "recorded (the_jobs w) x" for x
        using that r by (auto simp: recorded_def started_def)
      have st: "\<exists>r'. mget (mput ?i ?r (the_jobs w)) (ow_id oj) = Some r' \<and> (jr_state q \<noteq> ''uncertain'' \<longrightarrow> jr_state r' \<noteq> ''uncertain'')"
        if "mget (the_jobs w) (ow_id oj) = Some q" for oj :: owner and q
        using that by (cases "ow_id oj = ?i") auto
      note sv = save_world [OF ok u sv0 bk keep st]
      have kd: "keeps_debt (the_jobs w) (jobs_in (snd s))" using sv(4) r(1) True by (auto simp: keeps_debt_def)
      show ?thesis using sv(1-3) kd by (auto simp: recorded_def started_def)
    qed
  qed
  then show "world_ok (put_filed ?n s w)" "keeps_debt (the_jobs w) (jobs_in (snd s))"
    "b \<Longrightarrow> usable (fst s) \<and> recorded (jobs_in (snd s)) ?i
       \<and> (\<exists>r. mget (jobs_in (snd s)) ?i = Some r \<and> jr_state r \<noteq> ''uncertain'')" by blast+
qed

lemma begin_world:
  assumes ok: "world_ok w" and o: "mget (wd_owners w) k = Some ow" "\<not> ow_busy ow"
    and b: "owner_begin wr (child_of ow w) ow (filed_of (ow_ledger ow) w) = ((s, ow'), e)"
  shows "world_ok (set_owner_rec k ow' (put_filed (ow_ledger ow) s w)) \<and> keeps_debt (the_jobs w) (jobs_in (snd s))"
proof -
  let ?n = "ow_ledger ow"
  have self: "set_owner_rec k ow w = w" if "world_ok w"
  proof -
    have "mput k ow m = m" if "mget m k = Some ow" for m :: "(nat, owner) gomap" using that by (induction m) auto
    then show ?thesis using o by (simp add: set_owner_rec_def)
  qed
  consider (shut) "ow_closed ow \<or> ow_uncertain ow" | (unclean) "\<not> (ow_closed ow \<or> ow_uncertain ow)" "child_of ow w = Some Unclean"
    | (running) "\<not> (ow_closed ow \<or> ow_uncertain ow)" "child_of ow w = Some Running"
    | (go) "\<not> (ow_closed ow \<or> ow_uncertain ow)" "child_of ow w = None \<or> child_of ow w = Some Settled"
    by (cases "child_of ow w") (auto, metis boundary.exhaust)
  then show ?thesis
  proof cases
    case shut
    then have "s = filed_of ?n w" "ow' = ow" using b by (auto simp: owner_begin_def)
    then show ?thesis using self [OF ok] put_same [OF ok] ok by (simp add: filed_of_def)
  next
    case running
    then have "s = filed_of ?n w" "ow' = ow" using b by (auto simp: owner_begin_def)
    then show ?thesis using self [OF ok] put_same [OF ok] ok by (simp add: filed_of_def)
  next
    case unclean
    then have e: "s = filed_of ?n w" "ow' = ow\<lparr>ow_uncertain := True\<rparr>" using b by (auto simp: owner_begin_def)
    have "world_ok (set_owner_rec k ow' w)" unfolding e by (rule owner_less [OF ok o(1)]) (use o in simp_all)
    then show ?thesis using put_same [OF ok] by (simp add: e filed_of_def)
  next
    case go
    obtain s1 p where p: "prepare_start wr (ow_id ow) (filed_of ?n w) = (s1, p)" by (rule prod.exhaust)
    have f: "\<not> ow_closed ow" "\<not> ow_uncertain ow" using go(1) by auto
    note pw = prepare_world [OF ok o(1) f p]
    let ?w1 = "put_filed ?n s1 w"
    have e: "s = s1" "ow' = (if p then ow\<lparr>ow_child := None, ow_busy := True\<rparr> else ow\<lparr>ow_child := None\<rparr>)"
      using b go f p by (auto simp: owner_begin_def split: if_splits bool.splits)
    have set: "\<not> unsettled w c (ow_id ow)" if "ow_child ow = Some c" for c
      using go(2) that by (auto simp: child_of_def unsettled_def)
    have o1: "mget (wd_owners ?w1) k = Some ow" using o by simp
    have w2: "world_ok (set_owner_rec k (ow\<lparr>ow_child := None\<rparr>) ?w1)"
      by (rule owner_less [OF pw(1) o1]) (use o set in simp_all)
    show ?thesis
    proof (cases p)
      case False
      then show ?thesis using w2 e pw(2) by simp
    next
      case True
      let ?ow = "ow\<lparr>ow_child := None, ow_busy := True\<rparr>"
      have use: "open_use ?w1 ow" "open_use ?w1 ?ow" using f pw(3) True by (simp_all add: open_use_def put_filed_ledger)
      have k1: "owner_ok ?w1 k ow" by (rule world_okD(6) [OF pw(1) o1])
      have nouns: "\<not> unsettled ?w1 c (ow_id ow)" for c
        using k1 use(1) f set unfolding owner_ok_def by (metis put_filed_frame(4))
      have al: "owner_alone ?w1 k ow" using k1 use(1) by (simp add: owner_ok_def)
      have "world_ok (set_owner_rec k ?ow ?w1)"
      proof (rule world_owner [OF pw(1)])
        have "owner_alone ?w1 k ?ow" using al by (simp add: owner_alone_def)
        then show "owner_ok ?w1 k ?ow" using k1 pw(3) True use nouns f by (simp add: owner_ok_def)
        fix k' oj assume j: "mget (wd_owners ?w1) k' = Some oj" "k' \<noteq> k" "open_use ?w1 oj"
        show "ow_id ?ow \<noteq> ow_id oj" using al j unfolding owner_alone_def by force
      qed
      then show ?thesis using True e pw(2) by simp
    qed
  qed
qed

lemma launch_world:
  assumes ok: "world_ok w" and o: "mget (wd_owners w) k = Some ow" "ow_busy ow"
    and l: "owner_launch r (length (wd_children w)) ow = (ow', cs)"
  shows "world_ok (set_owner_rec k ow' (w\<lparr>wd_children := wd_children w @ cs\<rparr>))"
proof -
  let ?w = "w\<lparr>wd_children := wd_children w @ cs\<rparr>" and ?n = "length (wd_children w)"
  note d = world_okD [OF ok]
  note k = d(6) [OF o(1)]
  have cs: "cs = [] \<or> (\<exists>st. cs = [(ow_id ow, st)])" using l by (cases r) (auto simp: owner_launch_def)
  have f: "ow_ledger ow' = ow_ledger ow" "ow_id ow' = ow_id ow" "\<not> ow_busy ow'" "ow_closed ow' = ow_closed ow"
    using l by (cases r; auto simp: owner_launch_def)+
  have un: "unsettled ?w c i \<Longrightarrow> unsettled w c i \<or> c = ?n \<and> i = ow_id ow \<and> cs \<noteq> []" for c i
    using cs by (auto simp: unsettled_def nth_append less_Suc_eq split: if_splits)
  have use: "open_use ?w oj = open_use w oj" for oj by (simp add: open_use_def)
  have rec: "recorded (the_jobs w) (ow_id ow)" using k o(2) by (simp add: owner_ok_def)
  have others: "owner_ok ?w j oj" if j: "mget (wd_owners w) j = Some oj" "j \<noteq> k" for j oj
  proof -
    note jo = d(6) [OF j(1)]
    have "ow_id ow \<noteq> ow_id oj" if "open_use w oj"
      using jo that o j(2) unfolding owner_ok_def owner_alone_def by blast
    moreover have "owner_alone w j oj \<Longrightarrow> owner_alone ?w j oj" by (simp add: owner_alone_def use)
    ultimately show ?thesis using jo un [of _ "ow_id oj"] unfolding owner_ok_def use by force
  qed
  have mine: "owner_ok ?w k ow'"
  proof -
    have al: "owner_alone w k ow \<Longrightarrow> owner_alone ?w k ow'" using f by (simp add: owner_alone_def use)
    have u: "open_use ?w ow' \<Longrightarrow> open_use w ow" using f by (simp add: open_use_def)
    have none: "\<not> unsettled w c (ow_id ow)" if "open_use w ow" for c using k o(2) that unfolding owner_ok_def by force
    have len: "length (wd_children w) \<le> length (wd_children w @ cs)" by simp
    show ?thesis
    proof (cases r)
      case Launched
      then have e: "ow' = ow\<lparr>ow_busy := False, ow_child := Some ?n\<rparr>" "cs = [(ow_id ow, Running)]" using l by (auto simp: owner_launch_def)
      have "unsettled ?w c (ow_id ow) \<Longrightarrow> open_use w ow \<Longrightarrow> c = ?n" for c using un none by blast
      then show ?thesis using k o(2) al u f unfolding owner_ok_def by (auto simp: e)
    next
      case NotLaunched
      then have e: "ow' = ow\<lparr>ow_busy := False\<rparr>" "cs = []" using l by (auto simp: owner_launch_def)
      have "unsettled ?w c (ow_id ow) \<Longrightarrow> open_use w ow \<Longrightarrow> False" for c using un none e(2) by blast
      then show ?thesis using k o(2) al u f unfolding owner_ok_def by (auto simp: e)
    next
      case LaunchDoubt
      then have e: "ow' = ow\<lparr>ow_busy := False, ow_uncertain := True\<rparr>" "cs = [(ow_id ow, Unclean)]" using l by (auto simp: owner_launch_def)
      show ?thesis using k o(2) al u f unfolding owner_ok_def by (auto simp: e)
    qed
  qed
  have own: "mget (wd_owners (set_owner_rec k ow' ?w)) j = (if j = k then Some ow' else mget (wd_owners w) j)" for j
    by (simp add: set_owner_rec_def)
  have "owner_ok (set_owner_rec k ow' ?w) j oj" if j: "mget (wd_owners (set_owner_rec k ow' ?w)) j = Some oj" for j oj
  proof -
    have q: "owner_ok ?w j oj" using that own others mine by (auto split: if_splits)
    have "owner_alone (set_owner_rec k ow' ?w) j oj" if a: "owner_alone ?w j oj" "open_use ?w oj"
      unfolding owner_alone_def own owner_rec_frame
    proof (intro allI impI)
      fix x ox assume x: "(if x = k then Some ow' else mget (wd_owners w) x) = Some ox" "x \<noteq> j" "open_use ?w ox \<or> ow_busy ox"
      show "ow_id ox \<noteq> ow_id oj"
      proof (cases "x = k")
        case True
        then have e: "ox = ow'" "j \<noteq> k" using x by auto
        have "open_use w ow \<or> ow_busy ow" using o(2) by simp
        then show ?thesis using a(1) o(1) e f True x(2) unfolding owner_alone_def use by auto
      next
        case False
        then show ?thesis using a(1) x unfolding owner_alone_def by auto
      qed
    qed
    then show ?thesis using q unfolding owner_ok_def owner_rec_frame by blast
  qed
  moreover have "mdistinct (wd_owners (set_owner_rec k ow' ?w))" using d(4) by (simp add: set_owner_rec_def)
  moreover have "unsettled ?w c i \<Longrightarrow> recorded (the_jobs w) i" for c i using un [of c i] d(5) rec by blast
  ultimately show ?thesis using d(1-3) unfolding world_ok_def by (simp add: filed_of_def)
qed

lemma settle_world:
  assumes ok: "world_ok w" and n: "n < length (wd_children w)" "snd (wd_children w ! n) = Running"
  shows "world_ok (w\<lparr>wd_children := (wd_children w)[n := (fst (wd_children w ! n), st)]\<rparr>)" (is "world_ok ?w")
proof -
  note d = world_okD [OF ok]
  have un: "unsettled ?w c i \<Longrightarrow> unsettled w c i" for c i
    using n by (cases "c = n") (auto simp: unsettled_def)
  have use: "open_use ?w oj = open_use w oj" for oj by (simp add: open_use_def)
  have "owner_ok ?w k ow" if "mget (wd_owners w) k = Some ow" for k ow
  proof -
    have "owner_alone w k ow \<Longrightarrow> owner_alone ?w k ow" by (simp add: owner_alone_def use)
    then show ?thesis using d(6) [OF that] un unfolding owner_ok_def use by auto
  qed
  moreover have "unsettled ?w c i \<Longrightarrow> recorded (the_jobs w) i" for c i using un [of c i] d(5) by blast
  ultimately show ?thesis using d(1-4) unfolding world_ok_def by (simp add: filed_of_def)
qed

lemma init_read: "lg_jobs (fst s) \<noteq> None \<Longrightarrow> initialize_locked io s = (s, usable (fst s))"
  by (auto simp: initialize_locked_def usable_def Let_def)

lemma finish_world:
  assumes ok: "world_ok w" and o: "mget (wd_owners w) k = Some ow" "\<not> ow_busy ow" "\<not> ow_closed ow"
    and c: "child_of ow w \<noteq> Some Running"
    and fin: "owner_finish io wr (child_of ow w) ow (filed_of (ow_ledger ow) w) = ((s, ow'), e)"
  shows "world_ok (set_owner_rec k ow' (put_filed (ow_ledger ow) s w)) \<and> keeps_debt (the_jobs w) (jobs_in (snd s))"
proof -
  let ?n = "ow_ledger ow" and ?i = "ow_id ow" and ?J = "the_jobs w"
  let ?doubt = "ow_uncertain ow \<or> child_of ow w = Some Unclean"
  note k = world_okD(6) [OF ok o(1)]
  have ow': "ow' = ow\<lparr>ow_closed := True, ow_uncertain := ?doubt\<rparr>"
    using fin by (auto simp: owner_finish_def Let_def split: prod.splits)
  obtain r where fj: "finish_job io wr ?i ?doubt (filed_of ?n w) = (s, r)"
    using fin by (auto simp: owner_finish_def Let_def split: prod.splits)
  have w0: "world_ok (set_owner_rec k ow' w)" unfolding ow' by (rule owner_less [OF ok o(1)]) (use o in simp_all)
  let ?w0 = "set_owner_rec k ow' w"
  have jn: "lg_jobs (fst (filed_of ?n w)) \<noteq> None" using k by (simp add: owner_ok_def filed_of_def)
  note ir = init_read [OF jn, of io]
  have goal: "world_ok (put_filed ?n s ?w0) \<and> keeps_debt ?J (jobs_in (snd s))"
  proof (cases "usable (wd_ledgers w ?n)")
    case False
    then have "s = filed_of ?n ?w0" using fj ir by (simp add: finish_job_def filed_of_def)
    then show ?thesis using put_same [OF w0] w0 by (simp add: filed_of_def)
  next
    case u: True
    then have op: "open_use w ow" using o by (simp add: open_use_def)
    obtain q where q: "mget ?J ?i = Some q" "\<not> ow_uncertain ow \<longrightarrow> jr_state q \<noteq> ''uncertain''"
      using k op by (auto simp: owner_ok_def)
    have al: "owner_alone w k ow" using k op by (simp add: owner_ok_def)
    let ?js = "if ?doubt then mput ?i (q\<lparr>jr_state := ''uncertain''\<rparr>) ?J else mdel ?i ?J"
    have js: "held_jobs (filed_of ?n w) = ?J" by (rule held_usable [OF ok u])
    obtain s2 b where sv0: "save_locked wr ?js (filed_of ?n w) = (s2, b)" by (rule prod.exhaust)
    have "initialize_locked io (filed_of ?n w) = (filed_of ?n w, True)" using ir u by (simp add: filed_of_def)
    then have "(case save_locked wr ?js (filed_of ?n w) of (s2, False) \<Rightarrow> (s2, Inl JobUnavailable)
        | (s2, True) \<Rightarrow> (s2, if ?doubt then Inl JobUncertain else Inr ())) = (s, r)"
      using fj unfolding finish_job_def by (simp add: js q(1) cong: if_cong)
    then have s: "s = s2" unfolding sv0 by (cases b) simp_all
    have sv1: "save_locked wr ?js (filed_of ?n ?w0) = (s2, b)" using sv0 by simp
    have u0: "usable (wd_ledgers ?w0 ?n)" using u by simp
    have bk: "book_ok ?js" using restate_ok [OF world_okD(3) [OF ok] q(1)] delete_ok [OF world_okD(3) [OF ok]] by simp
    have nb: "ow_id oj \<noteq> ?i" if "mget (wd_owners ?w0) j = Some oj" "open_use w oj \<or> ow_busy oj" for j oj
    proof (cases "j = k")
      case True
      then have "oj = ow'" using that(1) by (simp add: set_owner_rec_def)
      then show ?thesis using that(2) o by (auto simp: ow' open_use_def)
    next
      case False
      then have "mget (wd_owners w) j = Some oj" using that(1) by (simp add: set_owner_rec_def)
      then show ?thesis using al False that(2) unfolding owner_alone_def by blast
    qed
    have free: "\<not> needed ?w0 ?i" if "\<not> ?doubt"
    proof -
      have "\<not> unsettled w x ?i" for x
      proof
        assume x: "unsettled w x ?i"
        then have ch: "ow_child ow = Some x" using k op that by (auto simp: owner_ok_def)
        then have "child_of ow w = Some (snd (wd_children w ! x))" by (simp add: child_of_def)
        then show False using x c that by (cases "snd (wd_children w ! x)") (auto simp: unsettled_def)
      qed
      moreover have "\<not> (\<exists>j oj. mget (wd_owners ?w0) j = Some oj \<and> ow_busy oj \<and> ow_id oj = ?i)" using nb by blast
      ultimately show ?thesis unfolding needed_def owner_rec_frame by blast
    qed
    have keep: "recorded ?js x" if "needed ?w0 x" "recorded (the_jobs ?w0) x" for x
    proof (cases ?doubt)
      case True
      then show ?thesis using that(2) by (auto simp: recorded_def started_def)
    next
      case False
      then have "x \<noteq> ?i" using free that(1) by blast
      then show ?thesis using that(2) False by (simp add: recorded_def)
    qed
    have st: "\<exists>r'. mget ?js (ow_id oj) = Some r' \<and> (jr_state z \<noteq> ''uncertain'' \<longrightarrow> jr_state r' \<noteq> ''uncertain'')"
      if "mget (wd_owners ?w0) j = Some oj" "open_use ?w0 oj" "mget (the_jobs ?w0) (ow_id oj) = Some z" for j oj z
      using nb [OF that(1)] that(2,3) by simp
    have sv: "world_ok (put_filed ?n s2 ?w0)" "jobs_in (snd s2) = ?js \<or> snd s2 = wd_file ?w0"
      by (rule save_world(1) [OF w0 u0 sv1 bk keep], assumption+, rule st, assumption+)
         (rule save_world(4) [OF w0 u0 sv1 bk keep], assumption+, rule st, assumption+)
    have kd: "keeps_debt ?J ?js" using q by (auto simp: keeps_debt_def)
    then have "keeps_debt ?J (jobs_in (snd s2))" using sv(2) by auto
    then show ?thesis using sv(1) s by simp
  qed
  then show ?thesis by (simp add: set_owner_put)
qed

lemma close_world:
  assumes ok: "world_ok w"
  shows "world_ok (put_filed n (close_ledger (wd_ledgers w n), wd_file w) w)"
proof -
  have i: "in_order (close_ledger (wd_ledgers w n), wd_file w)"
    using world_okD(1) [OF ok, of n] by (auto simp: in_order_def close_ledger_def usable_def filed_of_def)
  have "\<not> usable (close_ledger (wd_ledgers w n))" by (simp add: usable_def close_ledger_def)
  then show ?thesis using i world_okD(3) [OF ok]
    by (intro world_put [OF ok]) (auto simp: close_ledger_def split: if_splits)
qed

lemma orphan_world:
  assumes ok: "world_ok w" and dead: "\<not> usable (wd_ledgers w n)"
  shows "world_ok (w\<lparr>wd_owners := map (\<lambda>(k, ow). (k, if ow_ledger ow = n then ow\<lparr>ow_closed := True\<rparr> else ow)) (wd_owners w)\<rparr>)"
    (is "world_ok ?w")
proof -
  note d = world_okD [OF ok]
  let ?f = "\<lambda>ow. if ow_ledger ow = n then ow\<lparr>ow_closed := True\<rparr> else ow"
  have g: "mget (wd_owners ?w) k = map_option ?f (mget (wd_owners w) k)" for k
    using mget_map_values [of "\<lambda>_. ?f" "wd_owners w" k] by simp
  have f: "ow_id (?f ow) = ow_id ow" "ow_busy (?f ow) = ow_busy ow" "ow_child (?f ow) = ow_child ow"
    "ow_uncertain (?f ow) = ow_uncertain ow" "ow_ledger (?f ow) = ow_ledger ow" for ow by simp_all
  have use: "open_use ?w (?f ow) = open_use w ow" for ow using dead by (auto simp: open_use_def)
  have un: "unsettled ?w c i = unsettled w c i" for c i by (simp add: unsettled_def)
  have "owner_ok ?w k oj" if oj: "mget (wd_owners ?w) k = Some oj" for k oj
  proof -
    obtain ow where o: "mget (wd_owners w) k = Some ow" "oj = ?f ow" using oj unfolding g by auto
    have "owner_alone ?w k oj" if "owner_alone w k ow"
      unfolding owner_alone_def g
    proof (intro allI impI)
      fix j ox assume "map_option ?f (mget (wd_owners w) j) = Some ox" "j \<noteq> k" "open_use ?w ox \<or> ow_busy ox"
      then obtain x where x: "mget (wd_owners w) j = Some x" "ox = ?f x" by auto
      show "ow_id ox \<noteq> ow_id oj" using that x \<open>j \<noteq> k\<close> \<open>open_use ?w ox \<or> ow_busy ox\<close>
        unfolding owner_alone_def x(2) o(2) f use by blast
    qed
    then show ?thesis using d(6) [OF o(1)] unfolding owner_ok_def o(2) f use un by simp
  qed
  moreover have "mdistinct (wd_owners ?w)" using d(4) by (simp add: comp_def case_prod_unfold)
  ultimately show ?thesis using d unfolding world_ok_def un by (simp add: filed_of_def)
qed

section \<open>Every step\<close>

lemma new_owner_world:
  assumes ok: "world_ok w" and free: "lock_free n w io" and k: "mget (wd_owners w) k = None"
    and r: "reserve_job io wr fresh sc kind key (filed_of n w) = (s, Inr i)"
  shows "world_ok (set_owner_rec k \<lparr>ow_ledger = n, ow_id = i, ow_child = None, ow_uncertain = False, ow_closed = False,
    ow_busy = False\<rparr> (put_filed n s w))" (is "world_ok (set_owner_rec k ?ow ?w)")
proof -
  note rw = reserve_world [OF ok free r]
  note res = rw(3) [of i, OF refl]
  have un: "\<not> unsettled ?w c i" for c using res by (auto simp: needed_def)
  have other: "ow_id oj \<noteq> i" if "mget (wd_owners ?w) j = Some oj" "open_use ?w oj \<or> ow_busy oj" for j oj
    using that res by (auto simp: needed_def)
  show ?thesis
  proof (rule world_owner [OF rw(1)])
    have "lg_jobs (fst s) \<noteq> None" using res by (simp add: usable_def)
    moreover have "owner_alone ?w k ?ow" using other by (auto simp: owner_alone_def)
    ultimately show "owner_ok ?w k ?ow" using res un by (auto simp: owner_ok_def put_filed_ledger)
    show "ow_id ?ow \<noteq> ow_id ow'" if "mget (wd_owners ?w) k' = Some ow'" "open_use ?w ow'" for k' ow'
      using other that by force
  qed
qed

lemma step_world:
  assumes "job_step w w'" "world_ok w"
  shows "world_ok w' \<and> keeps_debt (the_jobs w) (the_jobs w')"
  using assms
proof (induction rule: job_step.induct)
  case (reserve_fails n w io wr fresh sc kind key s e)
  then show ?case using reserve_world(1,2) [OF reserve_fails(3,1,2)] by simp
next
  case (reserve n w io wr fresh sc kind key s i k)
  then show ?case using new_owner_world [OF reserve(4,1,3,2)] reserve_world(2) [OF reserve(4,1,2)] by simp
next
  case (begin_start w k ow wr s ow' e)
  then show ?case using begin_world [OF begin_start(4,1,2,3)] by simp
next
  case (launch w k ow r ow' cs)
  then show ?case using launch_world [OF launch(4,1,2,3)] by simp
next
  case (settle n w st)
  then show ?case using settle_world [OF settle(4,1,2)] by simp
next
  case (finish w k ow io wr s ow' e)
  then show ?case using finish_world [OF finish(7,1,2,3,4,6)] by simp
next
  case (snapshot n w io s r)
  obtain s1 b where i: "initialize_locked io (filed_of n w) = (s1, b)" by (rule prod.exhaust)
  then have "s = s1" using snapshot(2) by (cases b) (auto simp: snapshot_jobs_def)
  then show ?case using init_world [OF snapshot(3,1) i] by simp
next
  case (close w n)
  then show ?case using close_world [OF close(2)] by simp
next
  case (crash w n)
  let ?w = "put_filed n (close_ledger (wd_ledgers w n), wd_file w) w"
  have "\<not> usable (wd_ledgers ?w n)" by (simp add: put_filed_ledger usable_def close_ledger_def)
  then show ?case using orphan_world [OF close_world [OF crash]] by simp
qed

lemma new_world_ok: "world_ok new_world"
  by (simp add: world_ok_def new_world_def filed_of_def in_order_def new_ledger_def usable_def jobs_in_def book_ok_def
      handoffs_def keys_unique_def unsettled_def)

lemma reachable_world_ok: "job_reachable w \<Longrightarrow> world_ok w"
  by (induction rule: job_reachable.induct) (use new_world_ok step_world in blast)+

end
