(* ===== verification/JobProps.thy ===== *)
theory JobProps
  imports JobSafety
begin

text \<open>
  What the job ledger promises, over every interleaving, failed or lost write, and crash, with a run to witness it:
  a job is reserved, its process started, the node crashes, and the next node tries the same job again.
\<close>

section \<open>A demo run\<close>

definition job_scope :: scope where
  "job_scope = \<lparr>s_authority = replicate 32 CHR ''a'', s_device_uid = replicate 32 CHR ''b'', s_ownership = '''',
     s_grant = replicate 32 CHR ''c'', s_principal = '''', s_tenant = ''''\<rparr>"

definition good_io :: ledger_io where
  "good_io = \<lparr>io_dir = True, io_lock = True, io_read = True, io_write = WrOk\<rparr>"

definition job_id :: string where
  "job_id = replicate 32 CHR ''1''"

definition job_rec :: "string \<Rightarrow> jobs" where
  "job_rec st = [(job_id, \<lparr>jr_id = job_id, jr_scope = job_scope, jr_kind = KindExec, jr_key = ''key'', jr_state = st\<rparr>)]"

definition open_on :: "string \<Rightarrow> ledger" where
  "open_on st = \<lparr>lg_jobs = Some (job_rec st), lg_closed = False, lg_failed = False, lg_locked = True\<rparr>"

definition job_owner :: owner where
  "job_owner = \<lparr>ow_ledger = 0, ow_id = job_id, ow_child = None, ow_uncertain = False, ow_closed = False, ow_busy = False\<rparr>"

text \<open>Reserved by the first node, its start published, its process launched; then the node is gone and the next one reads the file.\<close>

definition jd1 :: world where
  "jd1 = \<lparr>wd_file = Some (job_rec ''reserved''), wd_lock = Some 0, wd_ledgers = (\<lambda>_. new_ledger)(0 := open_on ''reserved''),
     wd_owners = [(0, job_owner)], wd_children = []\<rparr>"

definition jd2 :: world where
  "jd2 = jd1\<lparr>wd_file := Some (job_rec ''occupied''), wd_ledgers := (\<lambda>_. new_ledger)(0 := open_on ''occupied''),
     wd_owners := [(0, job_owner\<lparr>ow_busy := True\<rparr>)]\<rparr>"

definition jd3 :: world where
  "jd3 = jd2\<lparr>wd_owners := [(0, job_owner\<lparr>ow_child := Some 0\<rparr>)], wd_children := [(job_id, Running)]\<rparr>"

definition jd4 :: world where
  "jd4 = jd3\<lparr>wd_lock := None, wd_ledgers := (\<lambda>_. new_ledger)(0 := (open_on ''occupied'')\<lparr>lg_closed := True, lg_locked := False\<rparr>),
     wd_owners := [(0, job_owner\<lparr>ow_child := Some 0, ow_closed := True\<rparr>)]\<rparr>"

definition jd5 :: world where
  "jd5 = jd4\<lparr>wd_file := Some (job_rec ''uncertain''), wd_lock := Some 1,
     wd_ledgers := (wd_ledgers jd4)(1 := open_on ''uncertain'')\<rparr>"

named_theorems run_defs

lemmas job_run_defs [run_defs] = jd1_def jd2_def jd3_def jd4_def jd5_def job_rec_def open_on_def job_owner_def new_world_def
  filed_of_def put_filed_def set_owner_rec_def good_io_def lock_free_def new_ledger_def save_locked_def

lemma job_scope_ok: "scope_valid job_scope" by code_simp

lemma job_id_ok: "length job_id = 32" "list_all lower_hex job_id" by code_simp+

lemma jd1_reachable: "job_reachable jd1"
proof -
  let ?s = "(open_on ''reserved'', Some (job_rec ''reserved''))"
  have "reserve_job good_io WrOk (Some job_id) job_scope KindExec ''key'' (filed_of 0 new_world) = (?s, Inr job_id)"
    by (simp add: reserve_job_def initialize_locked_def held_jobs_def job_scope_ok valid_kind_def count_entries_def run_defs)
  then have "job_step new_world (set_owner_rec 0 job_owner (put_filed 0 ?s new_world))"
    using reserve [of 0 new_world good_io WrOk "Some job_id" job_scope KindExec "''key''" ?s job_id 0] by (simp add: run_defs)
  moreover have "set_owner_rec 0 job_owner (put_filed 0 ?s new_world) = jd1" by (simp add: run_defs)
  ultimately show ?thesis using job_next [OF job_start] by simp
qed

lemma jd2_reachable: "job_reachable jd2"
proof -
  let ?s = "(open_on ''occupied'', Some (job_rec ''occupied''))" and ?o = "job_owner\<lparr>ow_busy := True\<rparr>"
  have o: "mget (wd_owners jd1) 0 = Some job_owner" "\<not> ow_busy job_owner" "ow_ledger job_owner = 0" by (simp_all add: run_defs)
  have "owner_begin WrOk (child_of job_owner jd1) job_owner (filed_of 0 jd1) = ((?s, ?o), None)"
    by (simp add: owner_begin_def child_of_def prepare_start_def held_jobs_def run_defs)
  then have "job_step jd1 (set_owner_rec 0 ?o (put_filed 0 ?s jd1))"
    using begin_start [OF o(1,2), of WrOk ?s ?o None] o(3) by simp
  moreover have "set_owner_rec 0 ?o (put_filed 0 ?s jd1) = jd2" by (simp add: run_defs)
  ultimately show ?thesis using job_next [OF jd1_reachable] by simp
qed

lemma jd3_reachable: "job_reachable jd3"
proof -
  let ?o = "job_owner\<lparr>ow_busy := True\<rparr>" and ?o' = "job_owner\<lparr>ow_child := Some 0\<rparr>"
  have o: "mget (wd_owners jd2) 0 = Some ?o" "ow_busy ?o" by (simp_all add: run_defs)
  have "owner_launch Launched (length (wd_children jd2)) ?o = (?o', [(job_id, Running)])"
    by (simp add: owner_launch_def run_defs)
  then have "job_step jd2 (set_owner_rec 0 ?o' (jd2\<lparr>wd_children := wd_children jd2 @ [(job_id, Running)]\<rparr>))"
    by (rule launch [OF o])
  moreover have "set_owner_rec 0 ?o' (jd2\<lparr>wd_children := wd_children jd2 @ [(job_id, Running)]\<rparr>) = jd3" by (simp add: run_defs)
  ultimately show ?thesis using job_next [OF jd2_reachable] by simp
qed

lemma jd4_reachable: "job_reachable jd4"
proof -
  have "(put_filed 0 (close_ledger (wd_ledgers jd3 0), wd_file jd3) jd3)
     \<lparr>wd_owners := map (\<lambda>(k, ow). (k, if ow_ledger ow = 0 then ow\<lparr>ow_closed := True\<rparr> else ow)) (wd_owners jd3)\<rparr> = jd4"
    by (simp add: close_ledger_def run_defs)
  then show ?thesis using job_next [OF jd3_reachable crash [of jd3 0]] by simp
qed

lemma jd5_reachable: "job_reachable jd5"
proof -
  let ?s = "(open_on ''uncertain'', Some (job_rec ''uncertain''))"
  have "valid_record job_id \<lparr>jr_id = job_id, jr_scope = job_scope, jr_kind = KindExec, jr_key = ''key'', jr_state = ''occupied''\<rparr>"
    by (simp add: valid_record_def valid_kind_def job_scope_ok job_id_ok)
  then have "snapshot_jobs good_io (filed_of 1 jd4) = (?s, Inr (map snd (job_rec ''uncertain'')))"
    by (simp add: snapshot_jobs_def initialize_locked_def held_jobs_def recover_jobs_def run_defs)
  then have "job_step jd4 (put_filed 1 ?s jd4)" by (rule snapshot [rotated]) (simp add: run_defs)
  moreover have "put_filed 1 ?s jd4 = jd5" by (simp add: run_defs)
  ultimately show ?thesis using job_next [OF jd4_reachable] by simp
qed

section \<open>Properties\<close>

text \<open>C33. No process is ever lost from sight. In every state reachable by starts, finishes, crashes, restarts and writes that fail or
  are lost, a process that runs, or that ended without confirmed cleanup, has a record in the file, and that record says
  that the job may have started.\<close>

theorem unsettled_processes_tracked:
  assumes "job_reachable w" "c < length (wd_children w)" "snd (wd_children w ! c) \<noteq> Settled"
  shows "\<exists>js r. wd_file w = Some js \<and> mget js (fst (wd_children w ! c)) = Some r
    \<and> (jr_state r = ''occupied'' \<or> jr_state r = ''uncertain'')"
proof -
  have "recorded (the_jobs w) (fst (wd_children w ! c))"
    using world_okD(5) [OF reachable_world_ok [OF assms(1)], of c] assms(2,3) by (simp add: unsettled_def)
  then show ?thesis by (cases "wd_file w") (auto simp: recorded_def jobs_in_def started_def)
qed

theorem unsettled_processes_tracked_witness:
  "length (wd_children jd5) = 1 \<and> snd (wd_children jd5 ! 0) = Running
   \<and> (\<exists>js r. wd_file jd5 = Some js \<and> mget js (fst (wd_children jd5 ! 0)) = Some r
      \<and> (jr_state r = ''occupied'' \<or> jr_state r = ''uncertain''))"
proof -
  have c: "length (wd_children jd5) = 1" "snd (wd_children jd5 ! 0) = Running" by code_simp+
  show ?thesis using c unsettled_processes_tracked [OF jd5_reachable, of 0] by simp
qed

text \<open>The book is bounded and has no duplicates. In every reachable state the file holds at most four jobs, at most two of them handoffs,
  every identifier once, and no two jobs of the same scope, kind and key.\<close>

theorem ledger_capacity:
  assumes "job_reachable w" "wd_file w = Some js"
  shows "length js \<le> 4 \<and> length (filter (\<lambda>(i, r). jr_kind r = ''handoff'') js) \<le> 2 \<and> distinct (map fst js)
    \<and> (\<forall>i i' r r'. mget js i = Some r \<and> mget js i' = Some r' \<and> jr_scope r = jr_scope r' \<and> jr_kind r = jr_kind r'
        \<and> jr_key r = jr_key r' \<longrightarrow> i = i')"
proof -
  have b: "book_ok js" using world_okD(3) [OF reachable_world_ok [OF assms(1)]] assms(2) by (simp add: jobs_in_def)
  have "handoffs js = length (filter (\<lambda>(i, r). jr_kind r = ''handoff'') js)" by (simp add: handoffs_def count_entries_def)
  then show ?thesis using b unfolding book_ok_def keys_unique_def job_key_def by (metis prod.inject)
qed

theorem ledger_capacity_witness: "length (the (wd_file jd5)) \<le> 4 \<and> length (the (wd_file jd5)) = 1"
proof -
  have f: "wd_file jd5 = Some (the (wd_file jd5))" "length (the (wd_file jd5)) = 1" by code_simp+
  show ?thesis using ledger_capacity [OF jd5_reachable f(1)] f(2) by blast
qed

text \<open>What is uncertain stays uncertain. Once the file says of a job that its processes may have run without being
  accounted for, no later operation, restart or crash changes or removes that record.\<close>

theorem uncertain_is_permanent:
  assumes "job_reachable w" "job_step\<^sup>*\<^sup>* w w'" "wd_file w = Some js" "mget js i = Some r" "jr_state r = ''uncertain''"
  shows "\<exists>js' r'. wd_file w' = Some js' \<and> mget js' i = Some r' \<and> jr_state r' = ''uncertain''
    \<and> jr_scope r' = jr_scope r \<and> jr_kind r' = jr_kind r \<and> jr_key r' = jr_key r"
proof -
  have "job_reachable w' \<and> keeps_debt (the_jobs w) (the_jobs w')" using assms(2)
  proof (induction rule: rtranclp_induct)
    case base
    then show ?case using assms(1) by simp
  next
    case (step y z)
    then show ?case using step_world [OF step(2) reachable_world_ok] keeps_trans job_next by blast
  qed
  then obtain r' where "mget (the_jobs w') i = Some r'" "jr_state r' = ''uncertain''" "job_key r' = job_key r"
    using assms(3-5) by (auto simp: keeps_debt_def jobs_in_def)
  then show ?thesis by (cases "wd_file w'") (auto simp: jobs_in_def job_key_def)
qed

theorem uncertain_is_permanent_witness:
  "\<exists>js' r'. wd_file ((put_filed 1 (close_ledger (wd_ledgers jd5 1), wd_file jd5) jd5)
     \<lparr>wd_owners := map (\<lambda>(k, ow). (k, if ow_ledger ow = 1 then ow\<lparr>ow_closed := True\<rparr> else ow)) (wd_owners jd5)\<rparr>) = Some js'
   \<and> mget js' job_id = Some r' \<and> jr_state r' = ''uncertain''"
proof -
  let ?r = "\<lparr>jr_id = job_id, jr_scope = job_scope, jr_kind = KindExec, jr_key = ''key'', jr_state = ''uncertain''\<rparr>"
  have f: "wd_file jd5 = Some [(job_id, ?r)]" by (simp add: run_defs)
  show ?thesis
    using uncertain_is_permanent [OF jd5_reachable r_into_rtranclp [of job_step, OF crash [of jd5 1]] f, of job_id ?r] by auto
qed

text \<open>A job that may have started is not reserved again. While the file has a record of the same scope, kind and key that says its process may
  have started, in any reachable state and from any ledger, a reservation for it fails, whatever the file system does
  and however the ledger stands.\<close>

theorem started_job_not_reserved_again:
  assumes "job_reachable w" "wd_file w = Some js" "mget js i = Some r" "jr_state r = ''occupied'' \<or> jr_state r = ''uncertain''"
  shows "\<exists>s e. reserve_job io wr fresh (jr_scope r) (jr_kind r) (jr_key r) (filed_of n w) = (s, Inl e)"
proof -
  note ok = reachable_world_ok [OF assms(1)]
  let ?same = "\<lambda>(i, q). same_job (jr_scope r) (jr_kind r) (jr_key r) q"
  have j: "the_jobs w = js" using assms(2) by (simp add: jobs_in_def)
  obtain s b where i: "initialize_locked io (filed_of n w) = (s, b)" by (rule prod.exhaust)
  show ?thesis
  proof (cases b)
    case False
    then show ?thesis using i by (cases "\<not> scope_valid (jr_scope r) \<or> \<not> valid_kind (jr_kind r) \<or> jr_key r = '''' \<or> 128 < length (jr_key r)")
        (auto simp: reserve_job_def)
  next
    case True
    have "list_ex ?same (held_jobs s)"
    proof (rule init_cases [OF i world_okD(1) [OF ok]])
      assume "s = filed_of n w" "usable (fst (filed_of n w))"
      then have "held_jobs s = js" using held_usable [OF ok] j by (simp add: filed_of_def)
      then show ?thesis using map_of_SomeD [OF assms(3)] by (auto simp: list_ex_iff same_job_def)
    next
      fix l f assume o: "s = (l, f)" "usable l" "in_order s" "jobs_in f = recover_jobs (jobs_in (snd (filed_of n w)))"
      have "mdistinct js" using world_okD(3) [OF ok] j by (simp add: book_ok_def)
      then have "mget (recover_jobs js) i = Some (r\<lparr>jr_state := ''uncertain''\<rparr>)" using assms(3,4) by (auto simp: recover_gets)
      moreover have "held_jobs s = recover_jobs js" using o j by (simp add: in_order_def held_jobs_def filed_of_def)
      ultimately have "(i, r\<lparr>jr_state := ''uncertain''\<rparr>) \<in> set (held_jobs s)" by (simp add: map_of_SomeD)
      then show ?thesis unfolding list_ex_iff by (rule bexI [rotated]) (simp add: same_job_def)
    qed (use True in simp_all)
    then show ?thesis using True i by (auto simp: reserve_job_def Let_def)
  qed
qed

theorem started_job_not_reserved_again_witness:
  "\<exists>s e. reserve_job good_io WrOk (Some (replicate 32 CHR ''2'')) job_scope KindExec ''key'' (filed_of 1 jd4) = (s, Inl e)"
proof -
  let ?r = "\<lparr>jr_id = job_id, jr_scope = job_scope, jr_kind = KindExec, jr_key = ''key'', jr_state = ''occupied''\<rparr>"
  have f: "wd_file jd4 = Some [(job_id, ?r)]" by (simp add: run_defs)
  show ?thesis using started_job_not_reserved_again [OF jd4_reachable f, of job_id ?r] by simp
qed

end
