(* ===== verification/Utf8.thy ===== *)
theory Utf8
  imports Prelude
begin

text \<open>
  UTF-8 as \<open>unicode/utf8\<close> reads it, and the two cuts the device makes at rune boundaries. A byte is a \<open>char\<close>.
  \<open>rune_size\<close> is the width of the rune at the head of a string, 0 when it is not a valid encoding.
\<close>

section \<open>Runes\<close>

definition cont :: "char \<Rightarrow> bool" where
  "cont c \<longleftrightarrow> 128 \<le> ord c \<and> ord c < 192"

definition conts :: "nat \<Rightarrow> string \<Rightarrow> bool" where
  "conts n s \<longleftrightarrow> n \<le> length s \<and> list_all cont (take n s)"

text \<open>The second byte is restricted after some first bytes: no overlong forms, no surrogates, nothing over U+10FFFF.\<close>

definition second_ok :: "nat \<Rightarrow> string \<Rightarrow> bool" where
  "second_ok a s \<longleftrightarrow> (a = 0xE0 \<longrightarrow> 0xA0 \<le> ord (hd s)) \<and> (a = 0xED \<longrightarrow> ord (hd s) < 0xA0)
     \<and> (a = 0xF0 \<longrightarrow> 0x90 \<le> ord (hd s)) \<and> (a = 0xF4 \<longrightarrow> ord (hd s) < 0x90)"

definition rune_size :: "string \<Rightarrow> nat" where
  "rune_size s = (case s of [] \<Rightarrow> 0 | c # t \<Rightarrow>
     (let a = ord c in
      if a < 0x80 then 1
      else if 0xC2 \<le> a \<and> a \<le> 0xDF then (if conts 1 t then 2 else 0)
      else if 0xE0 \<le> a \<and> a \<le> 0xEF then (if conts 2 t \<and> second_ok a t then 3 else 0)
      else if 0xF0 \<le> a \<and> a \<le> 0xF4 then (if conts 3 t \<and> second_ok a t then 4 else 0)
      else 0))"

definition rune_start :: "char \<Rightarrow> bool" where
  "rune_start c \<longleftrightarrow> \<not> cont c"

lemma rune_size_le: "rune_size s \<le> length s" "rune_size s \<le> 4"
  by (auto simp: rune_size_def Let_def conts_def split: list.split)

lemma rune_size_Nil [simp]: "rune_size [] = 0"
  by (simp add: rune_size_def)

function utf8_valid :: "string \<Rightarrow> bool" where
  "utf8_valid s = (if s = [] then True else if rune_size s = 0 then False else utf8_valid (drop (rune_size s) s))"
  by auto
termination by (relation "measure length") (auto simp: rune_size_def)

declare utf8_valid.simps [simp del]

lemma conts_take: "conts k (take n t) \<longleftrightarrow> k \<le> n \<and> conts k t"
  by (auto simp: conts_def min_def)

text \<open>The rune at the head depends on its own bytes only.\<close>

lemma rune_size_take: "rune_size (take n s) = (if rune_size s \<le> n then rune_size s else 0)"
proof (cases s)
  case (Cons c t)
  show ?thesis
  proof (cases n)
    case (Suc m)
    have h: "hd (take m t) = hd t" if "0 < m" using that by (cases t; cases m) simp_all
    have "second_ok a (take m t) = second_ok a t" if "0 < m" for a using h [OF that] by (simp add: second_ok_def)
    then show ?thesis using Cons Suc by (auto simp: rune_size_def Let_def conts_take)
  qed simp
qed simp

lemma rune_size_append: "0 < rune_size s \<Longrightarrow> rune_size (s @ t) = rune_size s"
proof -
  assume p: "0 < rune_size s"
  have "rune_size s = rune_size (take (length s) (s @ t))" by simp
  then show ?thesis using p unfolding rune_size_take [of "length s" "s @ t"] by (auto split: if_splits)
qed

lemma rune_bytes:
  assumes "0 < rune_size s"
  shows "rune_start (hd s)" "0 < i \<Longrightarrow> i < rune_size s \<Longrightarrow> cont (s ! i)"
proof -
  obtain c t where s: "s = c # t" using assms by (cases s) auto
  show "rune_start (hd s)" using assms by (auto simp: s rune_size_def Let_def rune_start_def cont_def split: if_splits)
  have "conts (rune_size s - 1) t" using assms by (auto simp: s rune_size_def Let_def conts_def split: if_splits)
  then have c: "\<And>n. n < rune_size s - 1 \<Longrightarrow> cont (t ! n)" by (auto simp: conts_def list_all_length)
  show "cont (s ! i)" if i: "0 < i" "i < rune_size s"
  proof -
    obtain j where j: "i = Suc j" using i by (cases i) auto
    then have "j < rune_size s - 1" using i by linarith
    then show ?thesis using c j by (simp add: s)
  qed
qed

section \<open>Valid strings\<close>

lemma utf8_Nil [simp]: "utf8_valid []"
  by (subst utf8_valid.simps) simp

lemma utf8_rune: "s \<noteq> [] \<Longrightarrow> utf8_valid s \<longleftrightarrow> 0 < rune_size s \<and> utf8_valid (drop (rune_size s) s)"
  using utf8_valid.simps [of s] by (simp split: if_splits)

lemma utf8_bad: "s \<noteq> [] \<Longrightarrow> rune_size s = 0 \<Longrightarrow> \<not> utf8_valid s"
  using utf8_rune [of s] by simp

text \<open>Induction over the runes of a valid string.\<close>

lemma utf8_induct [consumes 1, case_names Nil Rune]:
  assumes "utf8_valid s" "P []"
    and "\<And>s. 0 < rune_size s \<Longrightarrow> utf8_valid (drop (rune_size s) s) \<Longrightarrow> P (drop (rune_size s) s) \<Longrightarrow> P s"
  shows "P s"
  using assms(1)
proof (induction "length s" arbitrary: s rule: less_induct)
  case less
  show ?case
  proof (cases "s = []")
    case False
    then have r: "0 < rune_size s" "utf8_valid (drop (rune_size s) s)" using less(2) utf8_rune by auto
    then show ?thesis using assms(3) less(1) [of "drop (rune_size s) s"] False by simp
  qed (use assms(2) in simp)
qed

lemma utf8_append: "utf8_valid s \<Longrightarrow> utf8_valid (s @ t) \<longleftrightarrow> utf8_valid t"
proof (induction s rule: utf8_induct)
  case (Rune s)
  have "s \<noteq> []" using Rune(1) by auto
  then have "utf8_valid (s @ t) \<longleftrightarrow> utf8_valid (drop (rune_size s) (s @ t))"
    using utf8_rune [of "s @ t"] Rune(1) rune_size_append [OF Rune(1)] by simp
  then show ?case using Rune(3) rune_size_le(1) [of s] by simp
qed simp

section \<open>Cutting at a rune\<close>

text \<open>\<open>clampUTF8Prefix\<close>: drop bytes at the end until the rest is valid.\<close>

function clamp_utf8 :: "string \<Rightarrow> string" where
  "clamp_utf8 b = (if b = [] \<or> utf8_valid b then b else clamp_utf8 (butlast b))"
  by auto
termination by (relation "measure length") auto

declare clamp_utf8.simps [simp del]

lemma clamp_valid: "utf8_valid (clamp_utf8 b)"
proof (induction b rule: clamp_utf8.induct)
  case (1 b)
  then show ?case by (subst clamp_utf8.simps) (cases "b = [] \<or> utf8_valid b"; auto)
qed

lemma clamp_take: "\<exists>m \<le> length b. clamp_utf8 b = take m b"
proof (induction b rule: clamp_utf8.induct)
  case (1 b)
  show ?case
  proof (cases "b = [] \<or> utf8_valid b")
    case True
    then have "clamp_utf8 b = b" by (subst clamp_utf8.simps) auto
    then show ?thesis by (intro exI [of _ "length b"]) simp
  next
    case False
    then obtain m where m: "m \<le> length (butlast b)" "clamp_utf8 (butlast b) = take m (butlast b)" using 1 by blast
    moreover have "clamp_utf8 b = clamp_utf8 (butlast b)" using False by (subst clamp_utf8.simps) simp
    moreover have "m < length b" using m(1) False by (metis length_butlast diff_less le_less_trans length_greater_0_conv less_numeral_extra(1))
    ultimately have "clamp_utf8 b = take m b" using m(2) by (simp add: take_butlast)
    then show ?thesis using m(1) by (intro exI [of _ m]) simp
  qed
qed

lemma clamp_same [simp]: "utf8_valid b \<Longrightarrow> clamp_utf8 b = b"
  by (subst clamp_utf8.simps) simp

lemma clamp_none: "(\<And>k. 0 < k \<Longrightarrow> k \<le> length b \<Longrightarrow> \<not> utf8_valid (take k b)) \<Longrightarrow> clamp_utf8 b = []"
proof (induction b rule: clamp_utf8.induct)
  case (1 b)
  show ?case
  proof (cases "b = []")
    case False
    then have nv: "\<not> utf8_valid b" using 1(2) [of "length b"] by simp
    have "clamp_utf8 (butlast b) = []"
    proof (rule 1(1))
      show "\<not> (b = [] \<or> utf8_valid b)" using False nv by simp
      show "\<not> utf8_valid (take k (butlast b))" if "0 < k" "k \<le> length (butlast b)" for k
        using 1(2) [of k] that by (simp add: take_butlast)
    qed
    then show ?thesis using False nv by (subst clamp_utf8.simps) simp
  qed simp
qed

lemma clamp_append: "utf8_valid u \<Longrightarrow> clamp_utf8 (u @ t) = u @ clamp_utf8 t"
proof (induction t rule: rev_induct)
  case (snoc x t)
  have v: "utf8_valid (u @ t @ [x]) \<longleftrightarrow> utf8_valid (t @ [x])" by (rule utf8_append [OF snoc(2)])
  show ?case
  proof (cases "utf8_valid (t @ [x])")
    case False
    then have "clamp_utf8 (u @ t @ [x]) = clamp_utf8 (u @ t)" using v by (subst clamp_utf8.simps) (simp add: butlast_append)
    moreover have "clamp_utf8 (t @ [x]) = clamp_utf8 t" using False by (subst clamp_utf8.simps) simp
    ultimately show ?thesis using snoc by simp
  qed (use v in simp)
qed simp

text \<open>A prefix of a valid string loses at most three bytes, and what follows the cut is valid again.\<close>

lemma clamp_prefix:
  assumes "utf8_valid s" "n \<le> length s"
  shows "\<exists>m \<le> n. n < m + 4 \<and> clamp_utf8 (take n s) = take m s \<and> utf8_valid (take m s) \<and> utf8_valid (drop m s)"
  using assms
proof (induction s arbitrary: n rule: utf8_induct)
  case (Rune s)
  let ?r = "rune_size s"
  show ?case
  proof (cases "n < ?r")
    case True
    have "clamp_utf8 (take n s) = []"
    proof (rule clamp_none)
      fix k assume k: "0 < k" "k \<le> length (take n s)"
      then have r: "rune_size (take k s) = 0" using True by (simp add: rune_size_take)
      have "k \<le> n" "s \<noteq> []" using k by auto
      then have "take k (take n s) = take k s" "take k s \<noteq> []" using k(1) by (simp_all add: min_def)
      then show "\<not> utf8_valid (take k (take n s))" using utf8_bad [of "take k s"] r by simp
    qed
    moreover have "n < 4" using True rune_size_le(2) [of s] by simp
    moreover have "utf8_valid s" using Rune(1,2) utf8_rune [of s] by fastforce
    ultimately show ?thesis by (intro exI [of _ 0]) simp
  next
    case False
    then have n: "n - ?r \<le> length (drop ?r s)" using Rune(4) by simp
    obtain m where m: "m \<le> n - ?r" "n - ?r < m + 4" "clamp_utf8 (take (n - ?r) (drop ?r s)) = take m (drop ?r s)"
      "utf8_valid (take m (drop ?r s))" "utf8_valid (drop m (drop ?r s))" using Rune(3) [OF n] by blast
    have t: "take n s = take ?r s @ take (n - ?r) (drop ?r s)" using False by (metis le_add_diff_inverse linorder_not_less take_add)
    have one: "utf8_valid (take ?r s)"
    proof (rule iffD2 [OF utf8_rune])
      show "take ?r s \<noteq> []" using Rune(1) by auto
      show "0 < rune_size (take ?r s) \<and> utf8_valid (drop (rune_size (take ?r s)) (take ?r s))"
        using Rune(1) by (simp add: rune_size_take)
    qed
    have "clamp_utf8 (take n s) = take (?r + m) s" unfolding t clamp_append [OF one] m(3) by (simp add: take_add)
    moreover have "utf8_valid (take (?r + m) s)" using m(4) utf8_append [OF one] by (simp add: take_add)
    moreover have "utf8_valid (drop (?r + m) s)" using m(5) by (simp add: add.commute)
    ultimately show ?thesis using m(1,2) False by (intro exI [of _ "?r + m"]) auto
  qed
qed simp

end
