(* ===== verification/ReadWindow.thy ===== *)
theory ReadWindow
  imports Utf8 Protocol
begin

text \<open>
  The windows of a remote file read, \<open>noderun/ops.go\<close>: which bytes of a file the device returns for an offset, a
  head or a tail. A file is its bytes; \<open>sz\<close> is what \<open>Stat\<close> said before, which may differ from the length. A Go \<open>int\<close>
  is an \<open>int\<close>; the one addition that can leave 64 bits is written with \<open>wrap64\<close>, and a slice expression out of range,
  which panics, is \<open>None\<close> or \<open>WPanic\<close>.
\<close>

abbreviation nl :: char where "nl \<equiv> CHR 0x0A"

section \<open>Slicing\<close>

record read_payload =
  rp_path :: string
  rp_head :: int
  rp_tail :: int
  rp_offset :: int
  rp_limit :: int

definition wrap64 :: "int \<Rightarrow> int" where
  "wrap64 x = (x + 2 ^ 63) mod 2 ^ 64 - 2 ^ 63"

definition split_lines :: "string \<Rightarrow> string list" where
  "split_lines raw = (if raw = [] then [] else
     let ls = split_at_char nl raw in if last ls = [] then butlast ls else ls)"

fun join_lines :: "string list \<Rightarrow> string" where
  "join_lines [] = []"
| "join_lines [l] = l"
| "join_lines (l # ls) = l @ nl # join_lines ls"

fun snap_loop :: "string \<Rightarrow> nat \<Rightarrow> nat" where
  "snap_loop raw 0 = 0"
| "snap_loop raw (Suc n) = (if rune_start (raw ! Suc n) then Suc n else snap_loop raw n)"

definition snap_start :: "string \<Rightarrow> int \<Rightarrow> nat" where
  "snap_start raw off = (if off \<le> 0 then 0 else if int (length raw) \<le> off then length raw else snap_loop raw (nat off))"

definition cut_read :: "int \<Rightarrow> string \<Rightarrow> string \<times> bool" where
  "cut_read limit raw =
    (let cut = limit < int (length raw);
         r = (if cut then take (nat limit) raw else raw);
         out = clamp_utf8 r
     in (out, cut \<or> length out < length r))"

definition slice_read :: "string \<Rightarrow> read_payload \<Rightarrow> int \<Rightarrow> (string \<times> bool) option" where
  "slice_read raw p limit =
    (if 0 < rp_head p then
       (let ls = split_lines raw
        in Some (cut_read limit (if rp_head p < int (length ls) then join_lines (take (nat (rp_head p)) ls) else raw)))
     else if 0 < rp_tail p then
       (let ls = split_lines raw
        in Some (cut_read limit (if rp_tail p < int (length ls) then join_lines (drop (length ls - nat (rp_tail p)) ls) else raw)))
     else if 0 < rp_offset p \<or> 0 < rp_limit p then
       (let off = snap_start raw (rp_offset p) in
        if length raw \<le> off then Some ([], False)
        else let e = (if 0 < rp_limit p \<and> wrap64 (int off + rp_limit p) < int (length raw)
                      then wrap64 (int off + rp_limit p) else int (length raw))
             in if e < int off then None else Some (cut_read limit (take (nat (e - int off)) (drop off raw))))
     else Some (cut_read limit raw))"

definition read_too_large :: "int \<Rightarrow> read_payload \<Rightarrow> bool" where
  "read_too_large sz p =
    (if rp_offset p < 0 \<or> rp_limit p < 0 \<or> rp_head p < 0 \<or> rp_tail p < 0 \<or> MaxReadOffsetBytes < rp_offset p then True
     else if (0 < rp_head p \<or> 0 < rp_tail p) \<and> MaxReadLines < (if rp_head p = 0 then rp_tail p else rp_head p) then True
     else if rp_head p \<noteq> 0 \<or> rp_tail p \<noteq> 0 \<or> rp_limit p \<noteq> 0 \<or> rp_offset p \<noteq> 0 then False
     else MaxReadBytes < sz)"

section \<open>Reading the first lines\<close>

text \<open>\<open>bufio.Reader.ReadSlice\<close> on what is left of the file, with a buffer of 4096 bytes.\<close>

datatype slice_end = AtDelimiter | BufferFull | AtEOF

abbreviation buffer_size :: nat where "buffer_size \<equiv> 4096"

definition read_slice :: "string \<Rightarrow> string \<times> slice_end \<times> string" where
  "read_slice r =
    (let c = take buffer_size r in
     if nl \<in> set c then (let k = Suc (length (takeWhile (\<lambda>x. x \<noteq> nl) c)) in (take k r, AtDelimiter, drop k r))
     else if length r < buffer_size then (r, AtEOF, [])
     else (c, BufferFull, drop buffer_size r))"

lemma read_slice_shrinks: "read_slice r = (c, BufferFull, rest) \<Longrightarrow> length rest < length r"
  by (auto simp: read_slice_def Let_def split: if_splits)

text \<open>The loop of \<open>readLinePrefix\<close>; the result is the line, whether bytes were dropped, \<open>io.EOF\<close>, and the rest of the file.\<close>

function line_loop :: "nat \<Rightarrow> string \<Rightarrow> bool \<Rightarrow> bool \<Rightarrow> string \<Rightarrow> string \<times> bool \<times> bool \<times> string" where
  "line_loop keep line clipped delimiter r =
    (case read_slice r of (chunk, e, rest) \<Rightarrow>
     let delimiter1 = (delimiter \<or> nl \<in> set chunk);
         n = min (keep - length line) (length chunk);
         line1 = (if length line < keep then line @ take n chunk else line);
         clipped1 = (clipped \<or> (if length line < keep then n < length chunk else 0 < length chunk))
     in if e = BufferFull then line_loop keep line1 (clipped1 \<or> keep \<le> length line1) delimiter1 rest
        else if e = AtEOF \<and> chunk = [] \<and> line1 = [] then ([], clipped1, True, rest)
        else let clipped2 = (clipped1 \<or> length line1 < length chunk \<and> keep \<le> length line1);
                 line2 = (if clipped2 \<and> delimiter1 \<and> 0 < keep
                          then if keep = 1 then [nl]
                               else clamp_utf8 (if keep \<le> length line1 then take (keep - 1) line1 else line1) @ [nl]
                          else line1)
             in (line2, clipped2, e = AtEOF, rest))"
  by pat_completeness auto
termination
  by (relation "measure (\<lambda>(_, _, _, _, r). length r)") (auto dest: read_slice_shrinks [OF sym])

declare line_loop.simps [simp del]

definition read_line_prefix :: "int \<Rightarrow> int \<Rightarrow> string \<Rightarrow> string \<times> bool \<times> bool \<times> string" where
  "read_line_prefix line_budget aggregate_budget r =
    line_loop (nat (if aggregate_budget < line_budget then aggregate_budget else line_budget)) [] False False r"

fun head_loop :: "nat \<Rightarrow> int \<Rightarrow> string \<Rightarrow> bool \<Rightarrow> string \<Rightarrow> string \<times> bool" where
  "head_loop 0 budget out truncated r = (out, truncated)"
| "head_loop (Suc i) budget out truncated r =
    (case read_line_prefix budget (MaxReadBytes - int (length out)) r of (line, clipped, eof, rest) \<Rightarrow>
     let truncated1 = (truncated \<or> clipped); out1 = out @ line
     in if MaxReadBytes \<le> int (length out1) \<or> eof
        then (out1, truncated1 \<or> \<not> eof \<or> MaxReadBytes \<le> int (length out1))
        else head_loop i budget out1 truncated1 rest)"

section \<open>Finding the last lines\<close>

text \<open>\<open>tailStart\<close> reads the file backwards in blocks of 64 KiB into one buffer, a function from its indexes.\<close>

abbreviation tail_block :: nat where "tail_block \<equiv> 65536"

definition read_at :: "string \<Rightarrow> nat \<Rightarrow> nat \<Rightarrow> (nat \<Rightarrow> char) \<Rightarrow> nat \<Rightarrow> char" where
  "read_at content pos n buf = (\<lambda>i. if i < n \<and> pos + i < length content then content ! (pos + i) else buf i)"

fun scan_block :: "(nat \<Rightarrow> char) \<Rightarrow> nat \<Rightarrow> nat \<Rightarrow> nat \<Rightarrow> int \<Rightarrow> nat option \<times> int" where
  "scan_block buf sz pos 0 remaining = (None, remaining)"
| "scan_block buf sz pos (Suc i) remaining =
    (if pos + i = sz - 1 then scan_block buf sz pos i remaining
     else if buf i = nl then
       (if remaining - 1 = 0 then (Some (pos + i + 1), 0) else scan_block buf sz pos i (remaining - 1))
     else scan_block buf sz pos i remaining)"

function tail_loop :: "string \<Rightarrow> nat \<Rightarrow> (nat \<Rightarrow> char) \<Rightarrow> nat \<Rightarrow> int \<Rightarrow> nat" where
  "tail_loop content sz buf pos remaining =
    (if pos = 0 then 0
     else let n = min tail_block pos; p = pos - n; buf1 = read_at content p n buf
          in case scan_block buf1 sz p n remaining of
               (Some start, _) \<Rightarrow> start
             | (None, remaining1) \<Rightarrow> tail_loop content sz buf1 p remaining1)"
  by pat_completeness auto
termination
  by (relation "measure (\<lambda>(_, _, _, pos, _). pos)") (auto simp: min_def)

declare tail_loop.simps [simp del]

definition tail_start :: "string \<Rightarrow> nat \<Rightarrow> int \<Rightarrow> nat" where
  "tail_start content sz lines = tail_loop content sz (\<lambda>_. char_of (0 :: nat)) sz lines"

section \<open>A window of a file\<close>

datatype windowed = WPanic | WError | Window string bool

definition read_window :: "string \<Rightarrow> read_payload \<Rightarrow> nat \<Rightarrow> bool \<Rightarrow> windowed" where
  "read_window content p sz broken =
    (let limit = (if rp_limit p \<le> 0 \<or> MaxReadBytes < rp_limit p then MaxReadBytes else rp_limit p) in
     if broken then WError
     else if rp_head p = 0 \<and> rp_tail p = 0 \<and> (rp_offset p \<noteq> 0 \<or> rp_limit p \<noteq> 0) then
       (let start = (if rp_offset p - 4 < 0 then 0 else rp_offset p - 4);
            data = take (nat (limit + rp_offset p - start + 1)) (drop (nat start) content)
        in case slice_read data \<lparr>rp_path = '''', rp_head = 0, rp_tail = 0, rp_offset = rp_offset p - start,
               rp_limit = rp_limit p\<rparr> limit of
             None \<Rightarrow> WPanic | Some (out, truncated) \<Rightarrow> Window out truncated)
     else if 0 < rp_head p then
       (let b1 = (if rp_limit p = 0 then DefaultReadBytes else if MaxReadBytes < rp_limit p then MaxReadBytes else rp_limit p);
            budget = (if int sz \<le> MaxReadBytes then MaxReadBytes else b1)
        in case head_loop (nat (rp_head p)) budget [] False content of (out, truncated) \<Rightarrow> Window out truncated)
     else if 0 < rp_tail p then
       (let data = take (nat (MaxReadBytes + 1)) (drop (tail_start content sz (rp_tail p)) content)
        in Window data (MaxReadBytes < int (length data)))
     else if MaxReadBytes < int sz then WError
     else let data = take (nat (MaxReadBytes + 1)) content in Window data (MaxReadBytes < int (length data)))"

end
