(* ===== verification/ReadProps.thy ===== *)
theory ReadProps
  imports ReadWindow
begin

text \<open>
  The windows agree with the plain slices they replace: seeking before the offset, scanning backwards for the last lines
  and reading the first ones in blocks give what slicing the whole file gives.
\<close>

section \<open>Offsets\<close>

lemma snap_loop_le: "snap_loop s n \<le> n"
  by (induction n) auto

text \<open>Between two runes there are at most three continuation bytes.\<close>

lemma near_start:
  assumes "utf8_valid s" "i < length s"
  shows "\<exists>j \<le> i. i < j + 4 \<and> rune_start (s ! j)"
proof -
  obtain m where m: "m \<le> i" "i < m + 4" "utf8_valid (drop m s)" using clamp_prefix [of s i] assms by auto
  have "drop m s \<noteq> []" using m(1) assms(2) by simp
  then have "0 < rune_size (drop m s)" using m(3) utf8_rune by blast
  then have "rune_start (s ! m)" using rune_bytes(1) \<open>drop m s \<noteq> []\<close> by (metis hd_drop_conv_nth m(1) assms(2) le_less_trans)
  then show ?thesis using m(1,2) by blast
qed

text \<open>Looking back inside a window that holds the start of the rune.\<close>

lemma snap_loop_window:
  assumes "rune_start (s ! j)" "st \<le> j" "j \<le> i" "\<And>k. k \<le> i - st \<Longrightarrow> d ! k = s ! (st + k)"
  shows "snap_loop d (i - st) + st = snap_loop s i"
  using assms(3,4)
proof (induction i)
  case 0
  then show ?case using assms(2) by simp
next
  case (Suc i)
  show ?case
  proof (cases "j = Suc i")
    case True
    then have "snap_loop s (Suc i) = Suc i" using assms(1) by simp
    moreover have "snap_loop d (Suc i - st) = Suc i - st"
    proof (cases "Suc i - st")
      case (Suc k)
      moreover have "st + Suc k = Suc i" using Suc True assms(2) by simp
      ultimately have "d ! Suc k = s ! j" using Suc.prems(2) [of "Suc k"] True by simp
      then show ?thesis using Suc assms(1) by simp
    qed simp
    ultimately show ?thesis using True assms(2) by simp
  next
    case False
    then have j: "j \<le> i" using Suc(2) by simp
    then have e: "Suc i - st = Suc (i - st)" using assms(2) by simp
    have "snap_loop d (i - st) + st = snap_loop s i" using Suc.IH [OF j] Suc.prems(2) e by simp
    moreover have "d ! Suc (i - st) = s ! Suc i" using Suc.prems(2) [of "Suc (i - st)"] e j assms(2) by simp
    ultimately show ?thesis unfolding e using j assms(2) by simp
  qed
qed

lemma cut_read_take: "limit < int m \<Longrightarrow> 0 \<le> limit \<Longrightarrow> cut_read limit (take m y) = cut_read limit y"
proof -
  assume a: "limit < int m" "0 \<le> limit"
  have "nat limit \<le> m" using a by linarith
  then have "take (nat limit) (take m y) = take (nat limit) y" by (simp add: min_def)
  moreover have "limit < int (length (take m y)) \<longleftrightarrow> limit < int (length y)" using a by auto
  moreover have "\<not> limit < int (length y) \<Longrightarrow> take m y = y" using a by simp
  ultimately show ?thesis by (cases "limit < int (length y)") (simp_all add: cut_read_def)
qed

lemma wrap64_id: "- (2 ^ 63) \<le> x \<Longrightarrow> x < 2 ^ 63 \<Longrightarrow> wrap64 x = x"
proof -
  assume x: "- (2 ^ 63) \<le> x" "x < 2 ^ 63"
  have "(x + 2 ^ 63) mod 2 ^ 64 = x + 2 ^ 63" by (rule mod_pos_pos_trivial) (use x in simp)+
  then show ?thesis unfolding wrap64_def by (simp only: add_diff_cancel_right')
qed

text \<open>An offset and a limit of a slice that does not wrap.\<close>

lemma slice_read_offset:
  assumes "rp_head p \<le> 0" "rp_tail p \<le> 0" "0 \<le> rp_limit p" "0 < rp_offset p \<or> 0 < rp_limit p"
    "int (length raw) + rp_limit p < 2 ^ 63"
  shows "slice_read raw p limit = Some (let o1 = snap_start raw (rp_offset p) in
     if length raw \<le> o1 then ([], False)
     else cut_read limit (if 0 < rp_limit p then take (nat (rp_limit p)) (drop o1 raw) else drop o1 raw))"
proof -
  let ?o = "snap_start raw (rp_offset p)"
  show ?thesis
  proof (cases "length raw \<le> ?o")
    case False
    have w: "wrap64 (int ?o + rp_limit p) = int ?o + rp_limit p" using assms(3,5) False by (intro wrap64_id) auto
    show ?thesis
    proof (cases "0 < rp_limit p \<and> int ?o + rp_limit p < int (length raw)")
      case True
      then show ?thesis using assms(1-4) False w by (simp add: slice_read_def Let_def)
    next
      case big: False
      have t: "take (nat (int (length raw) - int ?o)) (drop ?o raw) = drop ?o raw" by simp
      have "take (nat (rp_limit p)) (drop ?o raw) = drop ?o raw" if "0 < rp_limit p" using big that by simp
      then show ?thesis using assms(1-4) False w big t by (auto simp: slice_read_def Let_def)
    qed
  qed (use assms in \<open>simp add: slice_read_def Let_def\<close>)
qed

lemma snap_loop_cong: "(\<And>k. k \<le> n \<Longrightarrow> d ! k = s ! k) \<Longrightarrow> snap_loop d n = snap_loop s n"
  by (induction n) simp_all

lemma snap_window:
  assumes v: "utf8_valid s" and o: "0 \<le> off" and st: "st = nat (off - 4)" and m: "nat off - st < m"
  shows "snap_start (take m (drop st s)) (off - int st) + st = (if int (length s) \<le> off then max (length s) st else snap_start s off)"
proof (cases "int (length s) \<le> off")
  case True
  then have l: "length (take m (drop st s)) = length s - st" using m st by auto
  show ?thesis
  proof (cases "off - int st \<le> 0")
    case True
    then have "off = 0" using st o by linarith
    then show ?thesis using \<open>int (length s) \<le> off\<close> st by (simp add: snap_start_def)
  next
    case False
    moreover have "int (length s - st) \<le> off - int st" using \<open>int (length s) \<le> off\<close> st by auto
    ultimately have "snap_start (take m (drop st s)) (off - int st) = length s - st" unfolding snap_start_def l by simp
    then show ?thesis using \<open>int (length s) \<le> off\<close> by simp
  qed
next
  case False
  then have len: "nat off < length s" using o by linarith
  have sto: "st \<le> nat off" "nat (off - int st) = nat off - st" using st o by auto
  show ?thesis
  proof (cases "off = 0")
    case True
    then show ?thesis using st len by (simp add: snap_start_def)
  next
    case pos: False
    then have op: "0 < off - int st" using st o by linarith
    have l: "\<not> int (length (take m (drop st s))) \<le> off - int st" using m len sto st by auto
    obtain j where j: "j \<le> nat off" "nat off < j + 4" "rune_start (s ! j)" using near_start [OF v len] by blast
    have s1: "snap_start (take m (drop st s)) (off - int st) = snap_loop (take m (drop st s)) (nat off - st)"
      unfolding snap_start_def using op l sto by simp
    have s2: "snap_start s off = snap_loop s (nat off)" unfolding snap_start_def using pos o False by simp
    have at: "take m (drop st s) ! k = s ! (st + k)" if "k \<le> nat off - st" for k
      using that m len sto nth_drop [of st s k] by simp
    have "snap_loop (take m (drop st s)) (nat off - st) + st = snap_loop s (nat off)"
    proof (cases "st = 0")
      case True
      then show ?thesis using snap_loop_cong [of "nat off - st" "take m (drop st s)" s] at by simp
    next
      case False
      then have "st \<le> j" using j(2) st by linarith
      then show ?thesis using snap_loop_window [OF j(3) _ j(1) at] by blast
    qed
    then show ?thesis using s1 s2 False by simp
  qed
qed

lemma snap_start_le: "snap_start s off \<le> length s" "0 \<le> off \<Longrightarrow> int (snap_start s off) \<le> off"
proof -
  show "snap_start s off \<le> length s" using snap_loop_le [of s "nat off"] by (auto simp: snap_start_def)
  show "int (snap_start s off) \<le> off" if "0 \<le> off" using snap_loop_le [of s "nat off"] that by (auto simp: snap_start_def)
qed

text \<open>The window read after a seek is the slice of the whole file.\<close>

lemma offset_window:
  assumes v: "utf8_valid s" and p: "rp_head p = 0" "rp_tail p = 0" "0 \<le> rp_offset p" "0 \<le> rp_limit p"
    "0 < rp_offset p \<or> 0 < rp_limit p" and b: "int (length s) + rp_limit p < 2 ^ 62" "rp_offset p \<le> MaxReadOffsetBytes"
  shows "(case slice_read s p (if rp_limit p \<le> 0 \<or> MaxReadBytes < rp_limit p then MaxReadBytes else rp_limit p) of
     None \<Rightarrow> WPanic | Some (out, truncated) \<Rightarrow> Window out truncated) = read_window s p sz False"
proof -
  let ?off = "rp_offset p" and ?L = "rp_limit p"
  define lim where "lim = (if ?L \<le> 0 \<or> MaxReadBytes < ?L then MaxReadBytes else ?L)"
  define st where "st = nat (?off - 4)"
  define m where "m = nat (lim + ?off - int st + 1)"
  let ?d = "take m (drop st s)"
  let ?q = "\<lparr>rp_path = '''', rp_head = 0, rp_tail = 0, rp_offset = ?off - int st, rp_limit = ?L\<rparr>"
  have lim: "0 < lim" "lim \<le> MaxReadBytes" "lim \<le> ?L \<or> ?L = 0" using p(4) by (auto simp: lim_def)
  have st': "int st = (if ?off - 4 < 0 then 0 else ?off - 4)" by (auto simp: st_def)
  have so: "int st \<le> ?off" using p(3) st' by (simp split: if_splits)
  have nz: "rp_offset p \<noteq> 0 \<or> rp_limit p \<noteq> 0" using p(5) by auto
  have w: "read_window s p sz False = 
      (case slice_read ?d ?q lim of None \<Rightarrow> WPanic | Some (out, t) \<Rightarrow> Window out t)"
    using p nz unfolding read_window_def lim_def [symmetric] Let_def st' [symmetric] m_def by simp
  have m: "nat ?off - st < m" using lim so p(3) unfolding m_def by linarith
  note sn = snap_window [OF v p(3) st_def m]
  have len: "int (length ?d) + ?L < 2 ^ 63" "int (length s) + ?L < 2 ^ 63" using b by auto
  have q: "0 < ?off - int st \<or> 0 < ?L" using p(3,5) st' by auto
  have e1: "slice_read s p lim = Some (let o1 = snap_start s ?off in if length s \<le> o1 then ([], False)
      else cut_read lim (if 0 < ?L then take (nat ?L) (drop o1 s) else drop o1 s))"
    using slice_read_offset [of p s lim] p len by simp
  have e2: "slice_read ?d ?q lim = Some (let o1 = snap_start ?d (?off - int st) in if length ?d \<le> o1 then ([], False)
      else cut_read lim (if 0 < ?L then take (nat ?L) (drop o1 ?d) else drop o1 ?d))"
    using slice_read_offset [of ?q ?d lim] p(4) q len(1) unfolding read_payload.simps by blast
  show ?thesis
  proof (cases "int (length s) \<le> ?off")
    case True
    have "length s = 0" if "?off \<le> 0" using True that by linarith
    then have "snap_start s ?off = length s" using True by (simp add: snap_start_def)
    moreover have "length ?d \<le> snap_start ?d (?off - int st)"
      using sn True by (auto simp: max_def split: if_splits)
    ultimately show ?thesis unfolding w e1 e2 lim_def [symmetric] by (simp add: Let_def)
  next
    case False
    let ?o = "snap_start s ?off" and ?o' = "snap_start ?d (?off - int st)"
    have o: "?o' + st = ?o" using sn False by simp
    have ol: "int ?o \<le> ?off" using snap_start_le(2) p(3) by blast
    have x: "drop ?o' ?d = take (m - ?o') (drop ?o s)" by (simp add: drop_take o [symmetric] add.commute)
    have mo: "lim < int (m - ?o')"
    proof -
      have "int m = lim + ?off - int st + 1" using lim so unfolding m_def by simp
      then show ?thesis using ol o by linarith
    qed
    have o'd: "\<not> length ?d \<le> ?o'"
    proof -
      have "?o' < m" using mo lim by linarith
      moreover have "?o' < length s - st" using o ol False by linarith
      ultimately show ?thesis by simp
    qed
    have os: "\<not> length s \<le> ?o" using ol False by linarith
    have "cut_read lim (if 0 < ?L then take (nat ?L) (drop ?o' ?d) else drop ?o' ?d)
        = cut_read lim (if 0 < ?L then take (nat ?L) (drop ?o s) else drop ?o s)"
    proof (cases "0 < ?L")
      case True
      have "take (nat ?L) (drop ?o' ?d) = take (m - ?o') (take (nat ?L) (drop ?o s))" unfolding x by (simp add: min.commute)
      moreover have "cut_read lim (take (m - ?o') (take (nat ?L) (drop ?o s))) = cut_read lim (take (nat ?L) (drop ?o s))"
        by (rule cut_read_take [OF mo]) (use lim in simp)
      ultimately show ?thesis using True by presburger
    qed (use x cut_read_take [OF mo] lim in simp)
    then show ?thesis unfolding w e1 e2 lim_def [symmetric] using os o'd by (simp add: Let_def)
  qed
qed

section \<open>Lines\<close>

lemma split_at_append: "split_at_char c (u @ c # v) = split_at_char c u @ split_at_char c v"
  by (induction u) (auto split: list.split simp: split_nonempty)

lemma split_at_length: "length (split_at_char c s) = Suc (count_list s c)"
  by (induction s) (auto split: list.split simp: split_nonempty)

lemma split_lines_cut: "split_lines (u @ nl # v) = split_at_char nl u @ split_lines v"
  by (cases "v = []") (simp_all add: split_lines_def split_at_append butlast_append split_nonempty Let_def)

section \<open>The last lines\<close>

text \<open>The newlines before \<open>m\<close>, without the last byte of the file.\<close>

definition ends_before :: "string \<Rightarrow> nat \<Rightarrow> nat \<Rightarrow> nat list" where
  "ends_before s p m = filter (\<lambda>i. s ! i = nl \<and> i \<noteq> length s - 1) [p..<m]"

definition kth_end :: "nat list \<Rightarrow> int \<Rightarrow> nat" where
  "kth_end a r = a ! (length a - nat r) + 1"

lemma scan_block_ends:
  assumes "\<And>i. i < n \<Longrightarrow> buf i = s ! (p + i)" "1 \<le> r"
  shows "scan_block buf (length s) p n r = (let a = ends_before s p (p + n) in
    if int (length a) < r then (None, r - int (length a)) else (Some (kth_end a r), 0))"
  using assms
proof (induction n arbitrary: r)
  case 0
  then show ?case by (simp add: ends_before_def)
next
  case (Suc n)
  let ?a = "ends_before s p (p + n)" and ?P = "s ! (p + n) = nl \<and> p + n \<noteq> length s - 1"
  have a: "ends_before s p (p + Suc n) = ?a @ (if ?P then [p + n] else [])" by (simp add: ends_before_def)
  have b: "buf n = s ! (p + n)" using Suc(2) by simp
  note ih = Suc.IH [OF Suc(2)]
  show ?case
  proof (cases ?P)
    case False
    then have "scan_block buf (length s) p (Suc n) r = scan_block buf (length s) p n r" using b by auto
    moreover have "ends_before s p (p + Suc n) = ?a" unfolding a if_not_P [OF False] by simp
    ultimately show ?thesis using ih [of r] Suc(3) by simp
  next
    case P: True
    show ?thesis
    proof (cases "r = 1")
      case True
      then show ?thesis using P b unfolding a by (simp add: kth_end_def)
    next
      case False
      then have r: "1 \<le> r - 1" using Suc(3) by simp
      have s: "scan_block buf (length s) p (Suc n) r = scan_block buf (length s) p n (r - 1)" using P b False by simp
      have "kth_end (?a @ [p + n]) r = kth_end ?a (r - 1)" if "\<not> int (length ?a) < r - 1"
      proof -
        have "length (?a @ [p + n]) - nat r = length ?a - nat (r - 1)" using r that by simp
        moreover have "length ?a - nat (r - 1) < length ?a" using r that by simp
        ultimately show ?thesis by (simp add: kth_end_def nth_append)
      qed
      then show ?thesis using ih [OF _ r] P unfolding a s by (simp add: Let_def)
    qed
  qed
qed

lemma tail_loop_ends:
  "pos \<le> length s \<Longrightarrow> 1 \<le> r \<Longrightarrow> tail_loop s (length s) buf pos r =
    (let a = ends_before s 0 pos in if int (length a) < r then 0 else kth_end a r)"
proof (induction pos arbitrary: buf r rule: less_induct)
  case (less pos)
  show ?case
  proof (cases "pos = 0")
    case True
    then show ?thesis using less(3) by (subst tail_loop.simps) (simp add: ends_before_def)
  next
    case False
    define n where "n = min tail_block pos"
    define p where "p = pos - n"
    have n: "0 < n" "p + n = pos" "p < pos" using False by (auto simp: n_def p_def)
    let ?b = "read_at s p n buf" and ?c = "ends_before s 0 p" and ?a = "ends_before s p pos"
    have "?b i = s ! (p + i)" if "i < n" for i using that n(2) less(2) by (simp add: read_at_def)
    then have sc: "scan_block ?b (length s) p n r = (if int (length ?a) < r then (None, r - int (length ?a)) else (Some (kth_end ?a r), 0))"
      using scan_block_ends [of n ?b s p r] less(3) n(2) by (simp add: Let_def)
    have split: "ends_before s 0 pos = ?c @ ?a"
    proof -
      have "[0..<pos] = [0..<p] @ [p..<pos]" using n(3) upt_add_eq_append [of 0 p n] n(2) by simp
      then show ?thesis by (simp add: ends_before_def)
    qed
    have t: "tail_loop s (length s) buf pos r = (case scan_block ?b (length s) p n r of
        (Some start, _) \<Rightarrow> start | (None, r1) \<Rightarrow> tail_loop s (length s) ?b p r1)"
      unfolding tail_loop.simps [of s "length s" buf pos r] Let_def n_def p_def using False by simp
    show ?thesis
    proof (cases "int (length ?a) < r")
      case False
      then have "kth_end (?c @ ?a) r = kth_end ?a r" using less(3) by (auto simp: kth_end_def nth_append)
      then show ?thesis using False unfolding t sc split by simp
    next
      case True
      let ?r = "r - int (length ?a)"
      have "kth_end (?c @ ?a) r = kth_end ?c ?r" if "\<not> int (length ?c) < ?r"
      proof -
        have i: "length (?c @ ?a) - nat r = length ?c - nat ?r" using True that by simp
        have "length ?c - nat ?r < length ?c" using True that by simp
        then show ?thesis unfolding kth_end_def i by (simp add: nth_append)
      qed
      then show ?thesis using True less.IH [OF n(3), of ?r ?b] less(2) n(3) unfolding t sc split by (simp add: Let_def)
    qed
  qed
qed

lemma ends_count: "ends_before s 0 m = filter (\<lambda>i. s ! i = nl \<and> i \<noteq> length s - 1) [0..<m]"
  by (simp add: ends_before_def)

lemma filter_upt_below:
  assumes "k < length (filter P [0..<m])"
  shows "length (filter P [0..<filter P [0..<m] ! k]) = k \<and> filter P [0..<m] ! k < m \<and> P (filter P [0..<m] ! k)"
  using assms
proof (induction m)
  case (Suc m)
  show ?case
  proof (cases "k < length (filter P [0..<m])")
    case True
    then show ?thesis using Suc.IH by (simp add: nth_append)
  next
    case False
    then show ?thesis using Suc.prems by (auto simp: nth_append split: if_splits)
  qed
qed simp

lemma count_newlines: "m \<le> length s \<Longrightarrow> count_list (take m s) c = length (filter (\<lambda>i. s ! i = c) [0..<m])"
  by (induction m) (simp_all add: take_Suc_conv_app_nth)

text \<open>The number of lines is one more than the newlines that are not the last byte.\<close>

lemma split_lines_length:
  assumes "s \<noteq> []" shows "length (split_lines s) = Suc (length (ends_before s 0 (length s)))"
proof -
  obtain u x where s: "s = u @ [x]" using assms by (cases s rule: rev_cases) auto
  have "ends_before s 0 (length s) = filter (\<lambda>i. s ! i = nl) [0..<length u]"
    by (simp add: ends_before_def s) (rule filter_cong, auto)
  then have e: "length (ends_before s 0 (length s)) = count_list u nl"
    using count_newlines [of "length u" s nl] by (simp add: s)
  show ?thesis
  proof (cases "x = nl")
    case True
    then have "split_lines s = split_at_char nl u" using split_lines_cut [of u "[]"] by (simp add: s split_lines_def)
    then show ?thesis using e by (simp add: split_at_length)
  next
    case False
    have "last (split_at_char nl (u @ [x])) \<noteq> []" using False
      by (induction u) (auto split: list.splits simp: split_nonempty)
    then have "split_lines s = split_at_char nl s" by (simp add: split_lines_def s)
    then show ?thesis using e False by (simp add: split_at_length s)
  qed
qed

lemma tail_lines:
  assumes "0 < n"
  shows "split_lines (drop (tail_start s (length s) n) s) = drop (length (split_lines s) - nat n) (split_lines s)"
    "tail_start s (length s) n = 0 \<or> 0 < tail_start s (length s) n \<and> tail_start s (length s) n < length s
      \<and> s ! (tail_start s (length s) n - 1) = nl"
proof -
  let ?a = "ends_before s 0 (length s)" and ?t = "tail_start s (length s) n"
  have t: "?t = (if int (length ?a) < n then 0 else kth_end ?a n)"
    using tail_loop_ends [of "length s" s n] assms by (simp add: tail_start_def Let_def)
  have both: "split_lines (drop ?t s) = drop (length (split_lines s) - nat n) (split_lines s)
     \<and> (?t = 0 \<or> 0 < ?t \<and> ?t < length s \<and> s ! (?t - 1) = nl)"
  proof (cases "int (length ?a) < n")
    case True
    then have "length (split_lines s) - nat n = 0"
      using split_lines_length [of s] by (cases "s = []") (auto simp: split_lines_def)
    then show ?thesis using t True by simp
  next
    case False
    let ?k = "length ?a - nat n"
    have k: "?k < length ?a" using False assms by simp
    let ?c = "?a ! ?k"
    have f: "length (ends_before s 0 ?c) = ?k" "?c < length s" "s ! ?c = nl" "?c \<noteq> length s - 1"
      using filter_upt_below [of ?k "\<lambda>i. s ! i = nl \<and> i \<noteq> length s - 1" "length s"] k by (simp_all add: ends_before_def)
    have tc: "?t = Suc ?c" using t False by (simp add: kth_end_def)
    have s: "s = take ?c s @ nl # drop (Suc ?c) s" using f(2,3) id_take_nth_drop [of ?c s] by simp
    have "filter (\<lambda>i. s ! i = nl \<and> i \<noteq> length s - 1) [0..<?c] = filter (\<lambda>i. s ! i = nl) [0..<?c]"
      by (rule filter_cong) (use f(2) in auto)
    then have "ends_before s 0 ?c = filter (\<lambda>i. s ! i = nl) [0..<?c]" by (simp only: ends_count [of s ?c])
    then have "count_list (take ?c s) nl = ?k" using count_newlines [of ?c s nl] f(1,2) by simp
    then have l: "length (split_at_char nl (take ?c s)) = Suc ?k" by (simp add: split_at_length)
    have ls: "split_lines s = split_at_char nl (take ?c s) @ split_lines (drop (Suc ?c) s)"
      using split_lines_cut [of "take ?c s" "drop (Suc ?c) s"] s by simp
    have "s \<noteq> []" using f(2) by auto
    then have "length (split_lines s) - nat n = Suc ?k" using split_lines_length [of s] False assms by simp
    then have "drop (length (split_lines s) - nat n) (split_lines s) = split_lines (drop (Suc ?c) s)"
      using l by (simp add: ls)
    moreover have "Suc ?c < length s" using f(2,4) by linarith
    ultimately show ?thesis unfolding tc using f(3) by simp
  qed
  show "split_lines (drop ?t s) = drop (length (split_lines s) - nat n) (split_lines s)"
    "?t = 0 \<or> 0 < ?t \<and> ?t < length s \<and> s ! (?t - 1) = nl" using both by blast+
qed

section \<open>The first lines\<close>

fun first_lines :: "nat \<Rightarrow> string \<Rightarrow> string" where
  "first_lines 0 r = []"
| "first_lines (Suc n) r = (if nl \<in> set r then
     (let k = Suc (length (takeWhile (\<lambda>x. x \<noteq> nl) r)) in take k r @ first_lines n (drop k r)) else r)"

definition line_end :: "string \<Rightarrow> nat" where
  "line_end r = (if nl \<in> set r then Suc (length (takeWhile (\<lambda>x. x \<noteq> nl) r)) else length r)"

lemma line_end_le: "line_end r \<le> length r"
proof (cases "nl \<in> set r")
  case True
  have "length (takeWhile (\<lambda>x. x \<noteq> nl) r) < length r"
    using True by (induction r) auto
  then show ?thesis by (simp add: line_end_def)
qed (simp add: line_end_def)

text \<open>A line that fits the budget is returned whole, and the reader stands behind it.\<close>

lemma line_loop_fits:
  "length line + length r < keep \<Longrightarrow> line_loop keep line False delimiter r
     = (line @ take (line_end r) r, False, nl \<notin> set r, drop (line_end r) r)"
proof (induction "length r" arbitrary: r line delimiter rule: less_induct)
  case less
  let ?c = "take buffer_size r"
  show ?case
  proof (cases "nl \<in> set ?c")
    case True
    then have n: "nl \<in> set r" by (rule in_set_takeD)
    have tw: "takeWhile (\<lambda>x. x \<noteq> nl) ?c = takeWhile (\<lambda>x. x \<noteq> nl) r"
    proof -
      have "takeWhile (\<lambda>x. x \<noteq> nl) (?c @ drop buffer_size r) = takeWhile (\<lambda>x. x \<noteq> nl) ?c"
        using True by (intro takeWhile_append1) auto
      then show ?thesis by simp
    qed
    then have rs: "read_slice r = (take (line_end r) r, AtDelimiter, drop (line_end r) r)"
      using True n by (simp add: read_slice_def line_end_def Let_def)
    have l: "length line < keep" "min (keep - length line) (line_end r) = line_end r" "length (take (line_end r) r) = line_end r"
      using less(2) line_end_le [of r] by auto
    show ?thesis using less(2) line_end_le [of r] n
      unfolding line_loop.simps [of keep line False delimiter r] rs by (simp add: Let_def l)
  next
    case noc: False
    show ?thesis
    proof (cases "length r < buffer_size")
      case True
      then have n: "nl \<notin> set r" using noc by simp
      have rs: "read_slice r = (r, AtEOF, [])" using True noc by (simp add: read_slice_def Let_def)
      have l: "length line < keep" "min (keep - length line) (length r) = length r" using less(2) by auto
      show ?thesis using less(2) n
        unfolding line_loop.simps [of keep line False delimiter r] rs by (auto simp: Let_def l line_end_def)
    next
      case False
      let ?d = "drop buffer_size r"
      have rs: "read_slice r = (?c, BufferFull, ?d)" using False noc by (simp add: read_slice_def Let_def)
      have lc: "length ?c = buffer_size" using False by simp
      have l: "length line < keep" "min (keep - length line) buffer_size = buffer_size" "length (line @ ?c) < keep"
        using less(2) False by auto
      have lt: "length ?d < length r" using False by (simp add: not_less)
      have "line_loop keep line False delimiter r = line_loop keep (line @ ?c) False delimiter ?d"
        unfolding line_loop.simps [of keep line False delimiter r] rs using l noc lc by (simp add: Let_def)
      then have go: "line_loop keep line False delimiter r = (line @ ?c @ take (line_end ?d) ?d, False, nl \<notin> set ?d, drop (line_end ?d) ?d)"
        using less(1) [OF lt, of "line @ ?c"] less(2) False by simp
      have le: "line_end r = buffer_size + line_end ?d \<and> (nl \<in> set r \<longleftrightarrow> nl \<in> set ?d)"
      proof -
        have s: "set r = set ?c \<union> set ?d" by (metis append_take_drop_id set_append)
        have "takeWhile (\<lambda>x. x \<noteq> nl) (?c @ ?d) = ?c @ takeWhile (\<lambda>x. x \<noteq> nl) ?d"
          using noc by (intro takeWhile_append2) auto
        then have "takeWhile (\<lambda>x. x \<noteq> nl) r = ?c @ takeWhile (\<lambda>x. x \<noteq> nl) ?d" by simp
        then show ?thesis using s noc lc False by (auto simp: line_end_def)
      qed
      then have "take (line_end r) r = ?c @ take (line_end ?d) ?d" "drop (line_end r) r = drop (line_end ?d) ?d"
        by (simp_all add: take_add add.commute)
      then show ?thesis using go le by simp
    qed
  qed
qed

lemma first_lines_end: "first_lines (Suc n) r = take (line_end r) r @ (if nl \<in> set r then first_lines n (drop (line_end r) r) else [])"
  by (simp add: line_end_def Let_def)

lemma head_loop_fits:
  "int (length out) + int (length r) < MaxReadBytes \<Longrightarrow> head_loop n MaxReadBytes out False r = (out @ first_lines n r, False)"
proof (induction n arbitrary: out r)
  case (Suc n)
  have k: "length [] + length r < nat (MaxReadBytes - int (length out))" using Suc(2) by simp
  have rl: "read_line_prefix MaxReadBytes (MaxReadBytes - int (length out)) r
      = (take (line_end r) r, False, nl \<notin> set r, drop (line_end r) r)"
  proof (cases "out = []")
    case True
    then show ?thesis using line_loop_fits [OF k, of False] by (simp add: read_line_prefix_def)
  next
    case False
    then show ?thesis using line_loop_fits [OF k, of False] by (simp add: read_line_prefix_def)
  qed
  have l: "int (length (out @ take (line_end r) r)) + int (length (drop (line_end r) r)) < MaxReadBytes"
    using Suc(2) line_end_le [of r] by simp
  then have nm: "\<not> MaxReadBytes \<le> int (length (out @ take (line_end r) r))" by linarith
  show ?case
  proof (cases "nl \<in> set r")
    case True
    then show ?thesis using nm Suc.IH [OF l] unfolding head_loop.simps rl first_lines_end by (simp add: Let_def)
  next
    case False
    then show ?thesis using nm unfolding head_loop.simps rl first_lines_end by (simp add: Let_def)
  qed
qed simp

lemma split_line_end: "nl \<in> set r \<Longrightarrow> split_lines r = butlast (take (line_end r) r) # split_lines (drop (line_end r) r)
   \<and> split_lines (take (line_end r) r @ v) = butlast (take (line_end r) r) # split_lines v"
proof -
  assume n: "nl \<in> set r"
  then obtain u v where r: "r = u @ nl # v" "nl \<notin> set u" by (meson split_list_first)
  have "takeWhile (\<lambda>x. x \<noteq> nl) (u @ nl # v) = u @ takeWhile (\<lambda>x. x \<noteq> nl) (nl # v)"
    by (rule takeWhile_append2) (use r(2) in auto)
  then have "takeWhile (\<lambda>x. x \<noteq> nl) r = u" by (simp add: r(1))
  then have e: "line_end r = Suc (length u)" using n by (simp add: line_end_def)
  then have t: "take (line_end r) r = u @ [nl]" "drop (line_end r) r = v" by (simp_all add: r)
  have s: "split_lines (u @ nl # w) = u # split_lines w" for w using split_lines_cut [of u w] split_none [OF r(2)] by simp
  show ?thesis unfolding t using s r(1) by simp
qed

lemma first_lines_split: "split_lines (first_lines n r) = take n (split_lines r)"
proof (induction n arbitrary: r)
  case (Suc n)
  show ?case
  proof (cases "nl \<in> set r")
    case True
    have "split_lines r = butlast (take (line_end r) r) # split_lines (drop (line_end r) r)"
      and "\<And>v. split_lines (take (line_end r) r @ v) = butlast (take (line_end r) r) # split_lines v"
      using split_line_end [OF True] by blast+
    then show ?thesis using True Suc unfolding first_lines_end by simp
  next
    case False
    then have "length (split_lines r) \<le> Suc 0" by (simp add: split_lines_def split_none)
    then show ?thesis using False by simp
  qed
qed (simp add: split_lines_def)

lemma first_lines_prefix: "\<exists>k \<le> length r. first_lines n r = take k r"
proof (induction n arbitrary: r)
  case 0
  show ?case by (rule exI [of _ 0]) simp
next
  case (Suc n)
  show ?case
  proof (cases "nl \<in> set r")
    case True
    obtain k where k: "k \<le> length (drop (line_end r) r)" "first_lines n (drop (line_end r) r) = take k (drop (line_end r) r)"
      using Suc by blast
    then have "first_lines (Suc n) r = take (line_end r + k) r" using True unfolding first_lines_end by (simp add: take_add)
    then show ?thesis using k(1) line_end_le [of r] by (intro exI [of _ "line_end r + k"]) simp
  next
    case False
    then show ?thesis by (intro exI [of _ "length r"]) simp
  qed
qed

end

