(* ===== verification/DeviceOps.thy ===== *)
theory DeviceOps
  imports ReadProps
begin

text \<open>
  The short operations of a device, \<open>noderun/ops.go\<close>: output in UTF-8 frames, and the handlers of read, write, processes and
  info, each as the messages it hands to the Relay link. The file system below the workspace is given by what \<open>Stat\<close>,
  opening and writing answer for a path, the connection by \<open>answer\<close>, what each send of a frame returns, and
  \<open>encoding/json\<close> by \<open>decode\<close>. A panic is \<open>None\<close>.
\<close>

section \<open>Frames\<close>

definition stdout_budget :: nat where
  "stdout_budget =
    (let m = MaxFrameBytes; wire = MaxWSMessageBytes - MaxEnvelopeBytes;
         m1 = (if 0 < wire \<and> wire div 6 < m then wire div 6 else m)
     in nat (if m1 < 1 then 1 else m1))"

function frame_len :: "string \<Rightarrow> nat \<Rightarrow> nat" where
  "frame_len data m = (if 0 < m \<and> \<not> utf8_valid (take m data) then frame_len data (m - 1) else m)"
  by auto
termination by (relation "measure snd") auto

declare frame_len.simps [simp del]

definition next_frame :: "string \<Rightarrow> nat \<Rightarrow> string \<times> string" where
  "next_frame data m =
    (let d = dropWhile (\<lambda>c. \<not> rune_start c) data in
     if d = [] then ([], [])
     else let k = frame_len d (if length d < m then length d else m)
          in if k = 0 then ([], []) else (take k d, drop k d))"

datatype sent = SentOk | SentTooLarge | SentFailed

lemma next_frame_shrinks: "next_frame data m = (f, rest) \<Longrightarrow> f \<noteq> [] \<Longrightarrow> length rest < length data"
proof -
  let ?d = "dropWhile (\<lambda>c. \<not> rune_start c) data"
  assume a: "next_frame data m = (f, rest)" "f \<noteq> []"
  obtain k where k: "f = take k ?d" "rest = drop k ?d" using a by (auto simp: next_frame_def Let_def split: if_splits)
  then have "0 < k" "?d \<noteq> []" using a(2) by auto
  then have "length rest < length ?d" using k(2) by simp
  then show ?thesis using length_dropWhile_le [of "\<lambda>c. \<not> rune_start c" data] by linarith
qed

text \<open>The frames sent, and what \<open>sendStdoutFrames\<close> returns; \<open>answer n f\<close> is the outcome of the send number \<open>n\<close>.\<close>

function send_frames :: "(nat \<Rightarrow> string \<Rightarrow> sent) \<Rightarrow> nat \<Rightarrow> nat \<Rightarrow> string \<Rightarrow> string list \<times> sent" where
  "send_frames answer n m data =
    (if data = [] then ([], SentOk)
     else case next_frame data m of (f, rest) \<Rightarrow>
       if f = [] then ([], SentOk)
       else case answer n f of
         SentTooLarge \<Rightarrow> if 1 < m then send_frames answer (Suc n) (m div 2) data else ([], SentTooLarge)
       | SentFailed \<Rightarrow> ([], SentFailed)
       | SentOk \<Rightarrow> (case send_frames answer (Suc n) m rest of (fs, r) \<Rightarrow> (f # fs, r)))"
  by pat_completeness auto
termination
  by (relation "measure (\<lambda>(_, _, m, data). length data + m)") (auto dest: next_frame_shrinks [OF sym])

declare send_frames.simps [simp del]

section \<open>The handlers\<close>

datatype fs_error = NotExist | PathRefused | OtherFault

record file_info =
  fi_size :: nat
  fi_dir :: bool

record write_payload =
  wp_path :: string
  wp_content :: string

definition read_err_nack :: "string \<Rightarrow> fs_error \<Rightarrow> message" where
  "read_err_nack exec e = (if e = NotExist then Nack exec AgentError else Nack exec PolicyDeny)"

definition ok_exit :: "string \<Rightarrow> int \<Rightarrow> bool \<Rightarrow> message" where
  "ok_exit exec ms truncated = message0\<lparr>m_type := TypeExit, m_exec_id := exec, m_exit_code := Some 0,
     m_duration_ms := Some ms, m_truncated := Some truncated, m_status := ExitCompleted\<rparr>"

definition stdout_message :: "string \<Rightarrow> string \<Rightarrow> message" where
  "stdout_message exec data = message0\<lparr>m_type := TypeStdout, m_exec_id := exec, m_data := data\<rparr>"

definition send_output :: "(nat \<Rightarrow> string \<Rightarrow> sent) \<Rightarrow> string \<Rightarrow> string \<Rightarrow> message list \<times> sent" where
  "send_output answer exec data =
    (case send_frames answer 0 stdout_budget data of (fs, r) \<Rightarrow> (map (stdout_message exec) fs, r))"

definition read_budget :: "read_payload \<Rightarrow> int" where
  "read_budget p = (let l = (if rp_limit p \<le> 0 then DefaultReadBytes else rp_limit p)
     in if MaxReadBytes < l then MaxReadBytes else l)"

text \<open>The last part of \<open>runLocalRead\<close>: a window of the file becomes the answer.\<close>

definition read_reply ::
  "(nat \<Rightarrow> string \<Rightarrow> sent) \<Rightarrow> int \<Rightarrow> string \<Rightarrow> read_payload \<Rightarrow> string \<Rightarrow> bool \<Rightarrow> message list option" where
  "read_reply answer ms exec p raw pre =
    (if char_of (0 :: nat) \<in> set raw then Some [Nack exec PolicyDeny]
     else case slice_read raw \<lparr>rp_path = '''', rp_head = rp_head p, rp_tail = rp_tail p, rp_offset = 0, rp_limit = 0\<rparr> (read_budget p) of
       None \<Rightarrow> None
     | Some (out, trunc) \<Rightarrow>
       (case send_output answer exec out of
         (ms1, SentOk) \<Rightarrow> Some (ms1 @ [ok_exit exec ms (trunc \<or> pre)])
       | (ms1, SentTooLarge) \<Rightarrow> Some (ms1 @ [Nack exec TooLarge])
       | (ms1, SentFailed) \<Rightarrow> Some (ms1 @ [Nack exec AgentError])))"

definition run_read ::
  "(string \<Rightarrow> read_payload option) \<Rightarrow> bool \<Rightarrow> (string \<Rightarrow> fs_error + file_info) \<Rightarrow> (string \<Rightarrow> fs_error + string)
   \<Rightarrow> (nat \<Rightarrow> string \<Rightarrow> sent) \<Rightarrow> int \<Rightarrow> message \<Rightarrow> message list option" where
  "run_read decode inbound stat open_file answer ms msg =
    (let exec = m_exec_id msg in
     case decode (m_payload msg) of
       None \<Rightarrow> Some [Nack exec AgentError]
     | Some p \<Rightarrow>
        if rp_path p = '''' then Some [Nack exec AgentError]
        else if \<not> inbound then Some [Nack exec InboundDisabled]
        else case stat (rp_path p) of
          Inl e \<Rightarrow> Some [read_err_nack exec e]
        | Inr st \<Rightarrow>
          if fi_dir st then Some [Nack exec PolicyDeny]
          else if read_too_large (int (fi_size st)) p then Some [Nack exec TooLarge]
          else case open_file (rp_path p) of
            Inl e \<Rightarrow> Some [read_err_nack exec e]
          | Inr content \<Rightarrow>
            (case read_window content p (fi_size st) False of
              WPanic \<Rightarrow> None
            | WError \<Rightarrow> Some [read_err_nack exec OtherFault]
            | Window raw pre \<Rightarrow> read_reply answer ms exec p raw pre))"

text \<open>\<open>write_file\<close> is \<open>writeWorkspaceFile\<close>: the new content replaces the file, or an error leaves it.\<close>

definition run_write ::
  "(string \<Rightarrow> write_payload option) \<Rightarrow> bool \<Rightarrow> (string \<Rightarrow> string \<Rightarrow> fs_error option) \<Rightarrow> int \<Rightarrow> message \<Rightarrow> message" where
  "run_write decode inbound write_file ms msg =
    (let exec = m_exec_id msg in
     case decode (m_payload msg) of
       None \<Rightarrow> Nack exec AgentError
     | Some p \<Rightarrow>
        if wp_path p = '''' then Nack exec AgentError
        else if MaxWriteBytes < int (length (wp_content p)) then Nack exec TooLarge
        else if \<not> inbound then Nack exec InboundDisabled
        else case write_file (wp_path p) (wp_content p) of
          Some PathRefused \<Rightarrow> Nack exec PolicyDeny
        | Some _ \<Rightarrow> Nack exec AgentError
        | None \<Rightarrow> ok_exit exec ms False)"

definition run_processes :: "bool \<Rightarrow> string option \<Rightarrow> int \<Rightarrow> message \<Rightarrow> message list" where
  "run_processes inbound listing ms msg =
    (if \<not> inbound then [Nack (m_exec_id msg) InboundDisabled]
     else case listing of
       None \<Rightarrow> [Nack (m_exec_id msg) AgentError]
     | Some out \<Rightarrow>
        [stdout_message (m_exec_id msg) (if MaxFrameBytes < int (length out) then take (nat MaxFrameBytes) out else out),
         ok_exit (m_exec_id msg) ms False])"

definition run_info :: "bool \<Rightarrow> string \<Rightarrow> int \<Rightarrow> message \<Rightarrow> message list" where
  "run_info inbound body ms msg =
    (if \<not> inbound then [Nack (m_exec_id msg) InboundDisabled]
     else [stdout_message (m_exec_id msg) body, ok_exit (m_exec_id msg) ms False])"


section \<open>Lemmas\<close>

lemma frame_len_clamp: "frame_len d m = length (clamp_utf8 (take m d)) \<or> length d < m"
proof (induction m)
  case 0
  then show ?case by (subst frame_len.simps) (simp add: clamp_utf8.simps [of "[]"])
next
  case (Suc m)
  show ?case
  proof (cases "length d < Suc m")
    case False
    then have d: "take m d = butlast (take (Suc m) d)" "take (Suc m) d \<noteq> []" by (auto simp: butlast_take)
    show ?thesis
    proof (cases "utf8_valid (take (Suc m) d)")
      case True
      then show ?thesis using False by (subst frame_len.simps) simp
    next
      case nv: False
      then have "clamp_utf8 (take (Suc m) d) = clamp_utf8 (take m d)" using d by (subst clamp_utf8.simps) simp
      moreover have "frame_len d (Suc m) = frame_len d m" using nv by (subst frame_len.simps) simp
      ultimately show ?thesis using Suc False by simp
    qed
  qed simp
qed

text \<open>The next frame of valid data: at most \<open>m\<close> bytes, and empty only when \<open>m\<close> is smaller than a rune.\<close>

lemma next_frame_valid:
  assumes "utf8_valid data" "data \<noteq> []"
  obtains k where "next_frame data m = (take k data, drop k data) \<or> k = 0 \<and> next_frame data m = ([], [])"
    "k \<le> length data" "k \<le> m" "utf8_valid (take k data)" "utf8_valid (drop k data)" "4 \<le> m \<Longrightarrow> 0 < k"
proof -
  have "rune_start (hd data)" using assms utf8_rune rune_bytes(1) by blast
  then have dw: "dropWhile (\<lambda>c. \<not> rune_start c) data = data" using assms(2) by (cases data) auto
  let ?n = "if length data < m then length data else m"
  have n: "?n \<le> length data" by simp
  obtain k where k: "k \<le> ?n" "?n < k + 4" "clamp_utf8 (take ?n data) = take k data" "utf8_valid (take k data)" "utf8_valid (drop k data)"
    using clamp_prefix [OF assms(1) n] by blast
  have fl: "frame_len data ?n = k" using frame_len_clamp [of data ?n] k(1,3) n by auto
  show thesis
  proof (rule that [of k])
    show "next_frame data m = (take k data, drop k data) \<or> k = 0 \<and> next_frame data m = ([], [])"
      using assms(2) fl unfolding next_frame_def dw Let_def by auto
    show "0 < k" if "4 \<le> m"
    proof (rule ccontr)
      assume "\<not> 0 < k"
      then have l: "length data < 4" "?n = length data" using k(2) that by (auto split: if_splits)
      then have "clamp_utf8 (take ?n data) = data" using assms(1) by simp
      then show False using k(3) \<open>\<not> 0 < k\<close> assms(2) by simp
    qed
  qed (use k(1,4,5) in \<open>auto split: if_splits\<close>)
qed

lemma send_frames_valid:
  assumes "send_frames answer n m data = (fs, r)" "utf8_valid data"
  shows "\<exists>k \<le> length data. concat fs = take k data \<and> (\<forall>f \<in> set fs. f \<noteq> [] \<and> utf8_valid f \<and> length f \<le> m)
     \<and> (4 \<le> m \<and> (\<forall>n f. answer n f = SentTooLarge \<longrightarrow> 8 \<le> length f) \<longrightarrow> r \<noteq> SentTooLarge \<and> (r = SentOk \<longrightarrow> k = length data))"
  using assms
proof (induction answer n m data arbitrary: fs r rule: send_frames.induct)
  case (1 answer n m data)
  note step = 1(3) [unfolded send_frames.simps [of answer n m data]]
  show ?case
  proof (cases "data = []")
    case False
    obtain k where k: "next_frame data m = (take k data, drop k data) \<or> k = 0 \<and> next_frame data m = ([], [])"
      "k \<le> length data" "k \<le> m" "utf8_valid (take k data)" "utf8_valid (drop k data)" "4 \<le> m \<Longrightarrow> 0 < k"
      using next_frame_valid [OF 1(4) False] by metis
    show ?thesis
    proof (cases "k = 0")
      case True
      then have "next_frame data m = ([], data) \<or> next_frame data m = ([], [])" using k(1) by auto
      then have "fs = []" using step False by auto
      moreover have "\<not> 4 \<le> m" using k(6) True by auto
      ultimately show ?thesis by (intro exI [of _ 0]) simp
    next
      case pos: False
      then have nf: "(take k data, drop k data) = next_frame data m" using k(1) by simp
      have ne: "take k data \<noteq> []" using pos False by simp
      have lk: "length (take k data) = k" using k(2) by simp
      show ?thesis
      proof (cases "answer n (take k data)")
        case SentOk
        obtain fs' where r: "send_frames answer (Suc n) m (drop k data) = (fs', r)" "fs = take k data # fs'"
          using step False ne SentOk by (auto simp: nf [symmetric] split: prod.splits)
        obtain j where j: "j \<le> length (drop k data)" "concat fs' = take j (drop k data)"
          "\<forall>f \<in> set fs'. f \<noteq> [] \<and> utf8_valid f \<and> length f \<le> m"
          "4 \<le> m \<and> (\<forall>n f. answer n f = SentTooLarge \<longrightarrow> 8 \<le> length f) \<longrightarrow> r \<noteq> SentTooLarge \<and> (r = SentOk \<longrightarrow> j = length (drop k data))"
          using 1(1) [OF False nf ne SentOk r(1) k(5)] by blast
        have "concat fs = take (k + j) data" using r(2) j(2) by (simp add: take_add)
        then show ?thesis using j k(2,3,4) ne lk r(2) by (intro exI [of _ "k + j"]) auto
      next
        case SentTooLarge
        show ?thesis
        proof (cases "1 < m")
          case True
          then have r: "send_frames answer (Suc n) (m div 2) data = (fs, r)"
            using step False ne SentTooLarge by (simp add: nf [symmetric])
          obtain j where j: "j \<le> length data" "concat fs = take j data" "\<forall>f \<in> set fs. f \<noteq> [] \<and> utf8_valid f \<and> length f \<le> m div 2"
            "4 \<le> m div 2 \<and> (\<forall>n f. answer n f = SentTooLarge \<longrightarrow> 8 \<le> length f) \<longrightarrow> r \<noteq> SentTooLarge \<and> (r = SentOk \<longrightarrow> j = length data)"
            using 1(2) [OF False nf ne SentTooLarge True r 1(4)] by blast
          have "4 \<le> m div 2" if "\<forall>n f. answer n f = SentTooLarge \<longrightarrow> 8 \<le> length f"
            using that SentTooLarge lk k(3) by fastforce
          then show ?thesis using j by (intro exI [of _ j]) fastforce
        next
          case one: False
          then have "fs = []" using step False ne SentTooLarge by (simp add: nf [symmetric])
          then show ?thesis using one by (intro exI [of _ 0]) simp
        qed
      next
        case SentFailed
        then have "fs = [] \<and> r = SentFailed" using step False ne by (simp add: nf [symmetric])
        then show ?thesis by (intro exI [of _ 0]) simp
      qed
    qed
  qed (use step in simp)
qed

end
