(* ===== verification/DeviceProps.thy ===== *)
theory DeviceProps
  imports DeviceOps
begin

text \<open>What a caller of the short device operations can rely on, and the one request that stops the device.\<close>

lemma budget [simp]: "stdout_budget = 65536"
  by (simp add: stdout_budget_def MaxWSMessageBytes_def Let_def)

lemma cut_read_out: "cut_read limit raw = (out, trunc) \<Longrightarrow> 0 \<le> limit \<Longrightarrow>
  utf8_valid out \<and> int (length out) \<le> limit \<and> (\<exists>k. out = take k raw) \<and> (\<not> trunc \<longrightarrow> out = raw)"
proof -
  assume c: "cut_read limit raw = (out, trunc)" "0 \<le> limit"
  let ?r = "if limit < int (length raw) then take (nat limit) raw else raw"
  have o: "out = clamp_utf8 ?r" "trunc = (limit < int (length raw) \<or> length out < length ?r)"
    using c(1) unfolding cut_read_def Let_def by auto
  obtain m where m: "m \<le> length ?r" "clamp_utf8 ?r = take m ?r" using clamp_take by blast
  have "int (length out) \<le> limit" using o(1) m c(2) by (auto split: if_splits)
  moreover have "\<exists>k. out = take k raw" using o(1) m(2) by (auto split: if_splits)
  moreover have "out = raw" if "\<not> trunc" using that o m by auto
  ultimately show ?thesis using o(1) clamp_valid by simp
qed

lemma set_join_lines: "set (join_lines ls) \<subseteq> {nl} \<union> \<Union> (set ` set ls)"
  by (induction ls rule: join_lines.induct) auto

lemma set_split_at: "x \<in> set (split_at_char c s) \<Longrightarrow> set x \<subseteq> set s"
proof -
  have "\<forall>x \<in> set (split_at_char c s). set x \<subseteq> set s"
  proof (induction s)
    case (Cons d s)
    show ?case
    proof (cases "split_at_char c s")
      case Nil
      then show ?thesis using split_nonempty by simp
    next
      case (Cons p ps)
      then show ?thesis using Cons.IH by auto
    qed
  qed simp
  then show "x \<in> set (split_at_char c s) \<Longrightarrow> set x \<subseteq> set s" by blast
qed

lemma set_split_lines: "x \<in> set (split_lines s) \<Longrightarrow> set x \<subseteq> set s"
  using set_split_at [of x nl s] by (auto simp: split_lines_def Let_def split: if_splits dest: in_set_butlastD)

lemma slice_read_bytes:
  assumes "slice_read raw p limit = Some (out, trunc)" "0 \<le> limit"
  shows "utf8_valid out" "int (length out) \<le> limit" "set out \<subseteq> set raw \<union> {nl}"
    "rp_head p = 0 \<and> rp_tail p = 0 \<and> rp_offset p = 0 \<and> rp_limit p = 0 \<and> \<not> trunc \<Longrightarrow> out = raw"
proof -
  have lines: "set (join_lines ls) \<subseteq> set raw \<union> {nl}" if "set ls \<subseteq> set (split_lines raw)" for ls
    using that set_join_lines [of ls] set_split_lines by blast
  have "(\<exists>x. cut_read limit x = (out, trunc) \<and> set x \<subseteq> set raw \<union> {nl}
      \<and> (rp_head p = 0 \<and> rp_tail p = 0 \<and> rp_offset p = 0 \<and> rp_limit p = 0 \<longrightarrow> x = raw)) \<or> out = [] \<and> (0 < rp_offset p \<or> 0 < rp_limit p)"
  proof -
    have t: "set (take k ls) \<subseteq> set ls" "set (drop k ls) \<subseteq> set ls" for k and ls :: "string list"
      by (rule set_take_subset, rule set_drop_subset)
    have w: "set (take k (drop j raw)) \<subseteq> set raw \<union> {nl}" for j k by (meson in_set_dropD in_set_takeD subsetI UnI1)
    have d: "set (drop j raw) \<subseteq> set raw \<union> {nl}" for j by (meson in_set_dropD subsetI UnI1)
    consider (head) "0 < rp_head p" | (tail) "\<not> 0 < rp_head p" "0 < rp_tail p"
      | (offset) "\<not> 0 < rp_head p" "\<not> 0 < rp_tail p" "0 < rp_offset p \<or> 0 < rp_limit p"
      | (whole) "\<not> 0 < rp_head p" "\<not> 0 < rp_tail p" "\<not> (0 < rp_offset p \<or> 0 < rp_limit p)" by blast
    then show ?thesis
    proof cases
      case head
      then obtain x where "cut_read limit x = (out, trunc)" "x = raw \<or> x = join_lines (take (nat (rp_head p)) (split_lines raw))"
        using assms(1) unfolding slice_read_def Let_def by auto
      then have "set x \<subseteq> set raw \<union> {nl}" using lines [OF t(1)] by auto
      then show ?thesis using head \<open>cut_read limit x = (out, trunc)\<close> by (intro disjI1 exI [of _ x]) simp
    next
      case tail
      then obtain x where "cut_read limit x = (out, trunc)"
        "x = raw \<or> x = join_lines (drop (length (split_lines raw) - nat (rp_tail p)) (split_lines raw))"
        using assms(1) unfolding slice_read_def Let_def by auto
      then have "set x \<subseteq> set raw \<union> {nl}" using lines [OF t(2)] by auto
      then show ?thesis using tail \<open>cut_read limit x = (out, trunc)\<close> by (intro disjI1 exI [of _ x]) simp
    next
      case offset
      then have "out = [] \<or> (\<exists>j k. cut_read limit (take k (drop j raw)) = (out, trunc)) \<or> (\<exists>j. cut_read limit (drop j raw) = (out, trunc))"
        using assms(1) unfolding slice_read_def Let_def by (simp split: if_splits) blast+
      then show ?thesis using offset w d by fastforce
    next
      case whole
      then show ?thesis using assms(1) unfolding slice_read_def Let_def by auto
    qed
  qed
  then show "utf8_valid out" "int (length out) \<le> limit" "set out \<subseteq> set raw \<union> {nl}"
    "rp_head p = 0 \<and> rp_tail p = 0 \<and> rp_offset p = 0 \<and> rp_limit p = 0 \<and> \<not> trunc \<Longrightarrow> out = raw"
    using cut_read_out [of limit _ out trunc, OF _ assms(2)] assms(2) by (auto dest: in_set_takeD)
qed

lemma run_read_cases [consumes 1, case_names refused window]:
  assumes "run_read decode inbound stat open_file answer ms msg = Some out"
  obtains (refused) c where "c \<noteq> []" "out = [Nack (m_exec_id msg) c]"
  | (window) p sz content raw pre where "decode (m_payload msg) = Some p" "open_file (rp_path p) = Inr content"
      "read_window content p sz False = Window raw pre" "Some out = read_reply answer ms (m_exec_id msg) p raw pre"
proof (cases "\<exists>c. c \<noteq> [] \<and> out = [Nack (m_exec_id msg) c]")
  case True
  then show thesis using refused by blast
next
  case False
  obtain p where p: "decode (m_payload msg) = Some p"
    using assms False by (cases "decode (m_payload msg)") (auto simp: run_read_def Let_def)
  then obtain st where st: "rp_path p \<noteq> []" "inbound" "stat (rp_path p) = Inr st"
    using assms False by (cases "stat (rp_path p)") (auto simp: run_read_def Let_def read_err_nack_def split: if_splits)
  then obtain content where c: "open_file (rp_path p) = Inr content" "\<not> fi_dir st" "\<not> read_too_large (int (fi_size st)) p"
    using assms False p by (cases "open_file (rp_path p)") (auto simp: run_read_def Let_def read_err_nack_def split: if_splits)
  have r: "Some out = (case read_window content p (fi_size st) False of WPanic \<Rightarrow> None
      | WError \<Rightarrow> Some [read_err_nack (m_exec_id msg) OtherFault] | Window raw pre \<Rightarrow> read_reply answer ms (m_exec_id msg) p raw pre)"
    using assms p st c by (simp add: run_read_def Let_def)
  then obtain raw pre where "read_window content p (fi_size st) False = Window raw pre"
    using False by (cases "read_window content p (fi_size st) False") (auto simp: read_err_nack_def)
  then show thesis using window [OF p c(1), of "fi_size st" raw pre] r by simp
qed

lemma read_reply_cases:
  assumes "Some out = read_reply answer ms exec p raw pre" "\<not> (\<exists>c. c \<noteq> [] \<and> out = [Nack exec c])"
  shows "char_of (0 :: nat) \<notin> set raw \<and> (\<exists>o1 trunc.
      slice_read raw \<lparr>rp_path = [], rp_head = rp_head p, rp_tail = rp_tail p, rp_offset = 0, rp_limit = 0\<rparr> (read_budget p) = Some (o1, trunc)
      \<and> Some out = (case send_output answer exec o1 of
          (ms1, SentOk) \<Rightarrow> Some (ms1 @ [ok_exit exec ms (trunc \<or> pre)])
        | (ms1, SentTooLarge) \<Rightarrow> Some (ms1 @ [Nack exec TooLarge])
        | (ms1, SentFailed) \<Rightarrow> Some (ms1 @ [Nack exec AgentError])))"
proof -
  have n: "char_of (0 :: nat) \<notin> set raw" using assms by (auto simp: read_reply_def)
  show ?thesis
  proof (cases "slice_read raw \<lparr>rp_path = [], rp_head = rp_head p, rp_tail = rp_tail p, rp_offset = 0, rp_limit = 0\<rparr> (read_budget p)")
    case None
    then show ?thesis using assms(1) n by (simp add: read_reply_def)
  next
    case (Some x)
    obtain o1 t where "x = (o1, t)" by (rule prod.exhaust)
    then show ?thesis using assms(1) n Some by (intro conjI exI [of _ o1] exI [of _ t]) (simp_all add: read_reply_def)
  qed
qed

section \<open>Properties\<close>

text \<open>C8. A read after an offset is exact. For a file of valid UTF-8, seeking to four bytes before the offset and reading only the requested
  bytes gives the same bytes and the same truncation flag as slicing the whole file, for every offset and limit the device accepts
  whose sum stays far below 64 bits.\<close>

theorem offset_window_exact:
  assumes "utf8_valid s" "\<not> read_too_large (int sz) p" "rp_head p = 0" "rp_tail p = 0" "0 < rp_offset p \<or> 0 < rp_limit p"
    "int (length s) + rp_limit p < 2 ^ 62"
  shows "read_window s p sz False =
    (case slice_read s p (if rp_limit p \<le> 0 \<or> MaxReadBytes < rp_limit p then MaxReadBytes else rp_limit p) of
       None \<Rightarrow> WPanic | Some (out, truncated) \<Rightarrow> Window out truncated)"
proof -
  have "0 \<le> rp_offset p" "0 \<le> rp_limit p" "rp_offset p \<le> MaxReadOffsetBytes"
    using assms(2) by (auto simp: read_too_large_def split: if_splits)
  then show ?thesis using offset_window [of s p sz] assms by simp
qed

text \<open>The euro sign takes three bytes; the offset points into it.\<close>

definition euro :: string where
  "euro = [CHR 0xE2, CHR 0x82, CHR 0xAC]"

definition at_offset :: "int \<Rightarrow> int \<Rightarrow> read_payload" where
  "at_offset off l = \<lparr>rp_path = ''f'', rp_head = 0, rp_tail = 0, rp_offset = off, rp_limit = l\<rparr>"

theorem offset_window_exact_witness:
  "read_window (''abcdef'' @ euro @ ''gh'') (at_offset 8 4) 11 False = Window (euro @ ''g'') False"
proof -
  let ?s = "''abcdef'' @ euro @ ''gh''"
  have v: "utf8_valid ?s" "\<not> read_too_large (int 11) (at_offset 8 4)" "rp_head (at_offset 8 4) = 0" "rp_tail (at_offset 8 4) = 0"
    "0 < rp_offset (at_offset 8 4) \<or> 0 < rp_limit (at_offset 8 4)"
    and b: "int (length ?s) + rp_limit (at_offset 8 4) < 2 ^ 62" by code_simp+
  have r: "slice_read ?s (at_offset 8 4) (if rp_limit (at_offset 8 4) \<le> 0 \<or> MaxReadBytes < rp_limit (at_offset 8 4)
      then MaxReadBytes else rp_limit (at_offset 8 4)) = Some (euro @ ''g'', False)" by code_simp
  show ?thesis using offset_window_exact [OF v b] unfolding r by simp
qed

text \<open>C9. The first and the last lines are exact. For a file below the read limit, a head of \<open>n\<close> lines is a prefix of the file with
  exactly its first \<open>n\<close> lines, and a tail of \<open>n\<close> lines a suffix with exactly its last \<open>n\<close> ones, neither of them reported
  truncated, although the device reads the first in blocks of 4 KiB and finds the second backwards in blocks of 64 KiB.\<close>

theorem line_windows_exact:
  assumes "0 < n" "int (length s) < MaxReadBytes" "rp_head p = (if first then n else 0)" "rp_tail p = (if first then 0 else n)"
  shows "\<exists>out k. read_window s p (length s) False = Window out False
    \<and> out = (if first then take k s else drop k s)
    \<and> split_lines out = (if first then take (nat n) (split_lines s) else drop (length (split_lines s) - nat n) (split_lines s))"
proof (cases first)
  case True
  have "read_window s p (length s) False = Window (first_lines (nat n) s) False"
    using assms True head_loop_fits [of "[]" s "nat n"] unfolding read_window_def Let_def by simp
  then show ?thesis using True first_lines_prefix [of s "nat n"] first_lines_split [of "nat n" s] by auto
next
  case False
  let ?d = "drop (tail_start s (length s) n) s"
  have "int (length ?d) < MaxReadBytes" using assms(2) by simp
  then have "take (nat (MaxReadBytes + 1)) ?d = ?d" "\<not> MaxReadBytes < int (length ?d)" by auto
  then have "read_window s p (length s) False = Window ?d False"
    using assms False unfolding read_window_def Let_def by simp
  then show ?thesis using False tail_lines(1) [OF assms(1), of s] by auto
qed

theorem line_windows_exact_witness:
  "\<exists>out k. read_window (''a'' @ nl # ''b'' @ nl # ''c'' @ [nl]) \<lparr>rp_path = ''f'', rp_head = 0, rp_tail = 2, rp_offset = 0, rp_limit = 0\<rparr> 6 False
     = Window out False \<and> out = drop k (''a'' @ nl # ''b'' @ nl # ''c'' @ [nl]) \<and> split_lines out = [''b'', ''c'']"
proof -
  let ?s = "''a'' @ nl # ''b'' @ nl # ''c'' @ [nl]"
  let ?p = "\<lparr>rp_path = ''f'', rp_head = 0, rp_tail = 2, rp_offset = 0, rp_limit = 0\<rparr>"
  have l: "int (length ?s) < MaxReadBytes" "length ?s = 6" and d: "drop (length (split_lines ?s) - nat 2) (split_lines ?s) = [''b'', ''c'']"
    by code_simp+
  show ?thesis using line_windows_exact [of 2 ?s ?p False] l(1) d unfolding l(2) by simp
qed

text \<open>C10. A read has one well-formed answer. Whatever the request, the file system and the connection do, a read that does not stop the device
  sends stdout frames and then exactly one terminal message, an exit or a nack. The frames are not empty, valid UTF-8 and at most
  64 KiB, together at most 1 MiB and free of NUL bytes. If the link refuses only frames of eight bytes or more as too large, then
  the exit of an unlimited read that is not marked truncated means that the frames are the whole file.\<close>

theorem read_answer:
  assumes "run_read decode inbound stat open_file answer ms msg = Some out"
  shows "\<exists>fs t. out = map (stdout_message (m_exec_id msg)) fs @ [t] \<and> (m_type t = TypeExit \<or> m_type t = TypeInvokeNack \<and> m_code t \<noteq> '''')
    \<and> (\<forall>f \<in> set fs. f \<noteq> [] \<and> utf8_valid f \<and> length f \<le> 65536 \<and> char_of (0 :: nat) \<notin> set f)
    \<and> int (length (concat fs)) \<le> MaxReadBytes
    \<and> (\<forall>p content. (\<forall>n f. answer n f = SentTooLarge \<longrightarrow> 8 \<le> length f) \<and> m_type t = TypeExit \<and> m_truncated t = Some False
        \<and> decode (m_payload msg) = Some p \<and> rp_head p = 0 \<and> rp_tail p = 0 \<and> rp_offset p = 0 \<and> rp_limit p = 0
        \<and> open_file (rp_path p) = Inr content \<longrightarrow> concat fs = content)"
    (is "\<exists>fs t. ?Q fs t")
proof -
  have none: "?thesis" if "out = [Nack (m_exec_id msg) c]" "c \<noteq> ''''" for c
    using that by (intro exI [of _ "[]"] exI [of _ "Nack (m_exec_id msg) c"]) (simp add: Nack_def)
  show ?thesis
    using assms
  proof (cases rule: run_read_cases)
    case (refused c)
    then show ?thesis by (intro none)
  next
    case w: (window p sz content raw pre)
    show ?thesis
    proof (cases "\<exists>c. c \<noteq> '''' \<and> out = [Nack (m_exec_id msg) c]")
    case False
    then obtain o1 trunc where p: "char_of (0 :: nat) \<notin> set raw"
      "slice_read raw \<lparr>rp_path = [], rp_head = rp_head p, rp_tail = rp_tail p, rp_offset = 0, rp_limit = 0\<rparr> (read_budget p) = Some (o1, trunc)"
      "Some out = (case send_output answer (m_exec_id msg) o1 of
          (ms1, SentOk) \<Rightarrow> Some (ms1 @ [ok_exit (m_exec_id msg) ms (trunc \<or> pre)])
        | (ms1, SentTooLarge) \<Rightarrow> Some (ms1 @ [Nack (m_exec_id msg) TooLarge])
        | (ms1, SentFailed) \<Rightarrow> Some (ms1 @ [Nack (m_exec_id msg) AgentError]))"
      using read_reply_cases [OF w(4) False] by (elim conjE exE) (rule that; assumption)
    have l: "0 \<le> read_budget p" "read_budget p \<le> MaxReadBytes" by (auto simp: read_budget_def Let_def)
    note s = slice_read_bytes [OF p(2) l(1)]
    obtain fs r where f: "send_frames answer 0 stdout_budget o1 = (fs, r)" by (rule prod.exhaust)
    obtain k where k: "k \<le> length o1" "concat fs = take k o1" "\<forall>f \<in> set fs. f \<noteq> [] \<and> utf8_valid f \<and> length f \<le> 65536"
      "(\<forall>n f. answer n f = SentTooLarge \<longrightarrow> 8 \<le> length f) \<longrightarrow> r \<noteq> SentTooLarge \<and> (r = SentOk \<longrightarrow> k = length o1)"
      using send_frames_valid [OF f s(1)] by auto
    define t where "t = (case r of SentOk \<Rightarrow> ok_exit (m_exec_id msg) ms (trunc \<or> pre)
        | SentTooLarge \<Rightarrow> Nack (m_exec_id msg) TooLarge | SentFailed \<Rightarrow> Nack (m_exec_id msg) AgentError)"
    have o: "out = map (stdout_message (m_exec_id msg)) fs @ [t]"
      using p(3) f by (cases r) (simp_all add: send_output_def t_def)
    have ty: "m_type t = TypeExit \<or> m_type t = TypeInvokeNack \<and> m_code t \<noteq> ''''"
      by (cases r) (simp_all add: t_def ok_exit_def Nack_def)
    have nul: "char_of (0 :: nat) \<notin> set f" if "f \<in> set fs" for f
    proof -
      have "set f \<subseteq> set (concat fs)" using that by auto
      then have "set f \<subseteq> set raw \<union> {nl}" using k(2) s(3) set_take_subset [of k o1] by auto
      moreover have "char_of (0 :: nat) \<noteq> nl" by code_simp
      ultimately show ?thesis using p(1) by auto
    qed
    have whole: "concat fs = c"
      if a: "\<forall>n f. answer n f = SentTooLarge \<longrightarrow> 8 \<le> length f" "m_type t = TypeExit" "m_truncated t = Some False"
        "decode (m_payload msg) = Some q" "rp_head q = 0" "rp_tail q = 0" "rp_offset q = 0" "rp_limit q = 0"
        "open_file (rp_path q) = Inr c" for q c
    proof -
      have q: "q = p" "c = content" using a w(1,2) by auto
      have r: "r = SentOk" "\<not> trunc" "\<not> pre" using a(2,3) by (cases r; simp add: t_def ok_exit_def Nack_def)+
      have "raw = content" using w(3) a(5-8) r(3) unfolding q(1) read_window_def Let_def by (auto split: if_splits)
      moreover have "o1 = raw" using s(4) a(5,6) r(2) unfolding q(1) by simp
      ultimately show ?thesis using k a(1) r(1) q(2) by simp
    qed
    have "int (length (concat fs)) \<le> MaxReadBytes" using k(1,2) s(2) l(2) by simp
    then show ?thesis using o ty nul whole k(3) by (intro exI [of _ fs] exI [of _ t]) blast
    qed (use none in blast)
  qed
qed

definition plain_read :: message where
  "plain_read = message0\<lparr>m_exec_id := ''e'', m_op := ''read''\<rparr>"

theorem read_answer_witness:
  "\<exists>fs t. run_read (\<lambda>_. Some (at_offset 0 0)) True (\<lambda>_. Inr \<lparr>fi_size = 3, fi_dir = False\<rparr>) (\<lambda>_. Inr euro) (\<lambda>_ _. SentOk) 7 plain_read
     = Some (map (stdout_message ''e'') fs @ [t]) \<and> m_type t = TypeExit \<and> concat fs = euro"
proof -
  let ?r = "run_read (\<lambda>_. Some (at_offset 0 0)) True (\<lambda>_. Inr \<lparr>fi_size = 3, fi_dir = False\<rparr>) (\<lambda>_. Inr euro) (\<lambda>_ _. SentOk) 7 plain_read"
  have w: "read_window euro (at_offset 0 0) 3 False = Window euro False" by (simp add: read_window_def at_offset_def euro_def)
  have m: "m_exec_id plain_read = ''e''" by (simp add: plain_read_def)
  have e: "utf8_valid euro" "dropWhile (\<lambda>c. \<not> rune_start c) euro = euro" by code_simp+
  have l: "length euro = 3" "euro \<noteq> []" by (simp_all add: euro_def)
  have "frame_len euro 3 = 3" using e l by (subst frame_len.simps) simp
  then have nf: "next_frame euro 65536 = (euro, [])" "euro \<noteq> []" using e l by (simp_all add: next_frame_def)
  have nul: "char_of (0 :: nat) \<notin> set euro" by (simp add: euro_def char_of_def)
  have sf: "send_frames (\<lambda>_ _. SentOk) 0 65536 euro = ([euro], SentOk)"
    by (subst send_frames.simps) (simp add: nf send_frames.simps [of _ _ _ "[]"])
  have sl: "slice_read euro \<lparr>rp_path = [], rp_head = 0, rp_tail = 0, rp_offset = 0, rp_limit = 0\<rparr> 65536 = Some (euro, False)" by code_simp
  have p: "read_reply (\<lambda>_ _. SentOk) 7 ''e'' (at_offset 0 0) euro False = Some [stdout_message ''e'' euro, ok_exit ''e'' 7 False]"
    using nul sl sf by (simp add: read_reply_def read_budget_def at_offset_def send_output_def)
  have r: "?r = Some [stdout_message ''e'' euro, ok_exit ''e'' 7 False]"
    using w p m by (simp add: run_read_def read_too_large_def at_offset_def)
  show ?thesis
    using read_answer [OF r]
  proof (elim exE conjE)
    fix fs t
    assume f: "[stdout_message ''e'' euro, ok_exit ''e'' 7 False] = map (stdout_message (m_exec_id plain_read)) fs @ [t]"
      and w: "\<forall>p content. (\<forall>n f. SentOk = SentTooLarge \<longrightarrow> 8 \<le> length (f :: string)) \<and> m_type t = TypeExit \<and> m_truncated t = Some False
        \<and> Some (at_offset 0 0) = Some p \<and> rp_head p = 0 \<and> rp_tail p = 0 \<and> rp_offset p = 0 \<and> rp_limit p = 0
        \<and> (Inr euro :: fs_error + string) = Inr content \<longrightarrow> concat fs = content"
    have t: "t = ok_exit ''e'' 7 False" using f by (cases fs rule: rev_cases) simp_all
    have "m_type t = TypeExit" "m_truncated t = Some False" by (simp_all add: t ok_exit_def)
    then have c: "concat fs = euro" using w [rule_format, of "at_offset 0 0" euro] by (simp add: at_offset_def)
    show ?thesis unfolding r f m using c \<open>m_type t = TypeExit\<close> by blast
  qed
qed

text \<open>C35. One request stops the device. A read at offset 1 with the largest 64-bit limit passes the size check, then the end of the
  window wraps to a negative number and the slice expression panics; nothing recovers from it. Every file of at least two bytes whose
  second byte starts a rune will do.\<close>

theorem huge_limit_panics:
  assumes "1 < length s" "rune_start (s ! 1)" "decode (m_payload msg) = Some \<lparr>rp_path = path, rp_head = 0, rp_tail = 0,
      rp_offset = 1, rp_limit = 9223372036854775807\<rparr>" "path \<noteq> ''''"
    "stat path = Inr \<lparr>fi_size = sz, fi_dir = False\<rparr>" "open_file path = Inr s"
  shows "run_read decode True stat open_file answer ms msg = None"
proof -
  define d where "d = take 1048578 s"
  have d: "1 < length d" "d ! 1 = s ! 1" using assms(1) by (auto simp: d_def)
  then have sn: "snap_start d 1 = 1" using assms(2) by (simp add: snap_start_def)
  have one: "int 1 + 9223372036854775807 = (9223372036854775808 :: int)" by simp
  have w: "wrap64 9223372036854775808 = - 9223372036854775808" by code_simp
  have "slice_read d \<lparr>rp_path = '''', rp_head = 0, rp_tail = 0, rp_offset = 1, rp_limit = 9223372036854775807\<rparr> MaxReadBytes = None"
    unfolding slice_read_def Let_def read_payload.simps sn one w using d(1) by simp
  then have "read_window s \<lparr>rp_path = path, rp_head = 0, rp_tail = 0, rp_offset = 1, rp_limit = 9223372036854775807\<rparr> sz False = WPanic"
    by (simp add: read_window_def d_def)
  then show ?thesis using assms(3-6) by (simp add: run_read_def read_too_large_def)
qed

theorem huge_limit_panics_witness:
  "run_read (\<lambda>_. Some \<lparr>rp_path = ''f'', rp_head = 0, rp_tail = 0, rp_offset = 1, rp_limit = 9223372036854775807\<rparr>) True
     (\<lambda>_. Inr \<lparr>fi_size = 3, fi_dir = False\<rparr>) (\<lambda>_. Inr ''abc'') (\<lambda>_ _. SentOk) 0 plain_read = None"
proof -
  have r: "rune_start (''abc'' ! 1)" by code_simp
  show ?thesis by (rule huge_limit_panics [OF _ r, of _ _ "''f''" _ 3]) simp_all
qed

end
