(* ===== verification/Handoff.thy ===== *)
theory Handoff
  imports Job Utf8 Delegation
begin

text \<open>
  Durable handoffs to an agent, \<open>internal/handoff\<close>: requests and receipts (\<open>types.go\<close>, \<open>scope.go\<close>), the manager
  (\<open>manager.go\<close>), the device incarnation (\<open>device_context.go\<close>) and the receipt directory (\<open>store.go\<close>). The directory is a map
  from file names without \<open>.json\<close> to what the files hold, and \<open>written\<close> the outcome of replacing one. The job ledger is the
  one of \<open>Job\<close>. \<open>hand_env\<close> holds what is not the program's: path functions of the operating system, and the two digests
  (SHA-256 over \<open>encoding/json\<close>). The functions run with the manager's mutex held, as in the code.
\<close>

section \<open>Requests and receipts: \<open>types.go\<close>, \<open>scope.go\<close>\<close>

record attachment =
  at_path :: string
  at_sha :: string

record hand_request =
  hq_id :: string
  hq_workspace :: string
  hq_revision :: string
  hq_agent :: string
  hq_session :: string
  hq_mode :: string
  hq_prompt :: string
  hq_attachments :: "attachment list"
  hq_trust :: bool
  hq_timeout :: int

record receipt =
  rc_id :: string
  rc_fingerprint :: string
  rc_workspace :: string
  rc_revision :: string
  rc_agent :: string
  rc_session :: string
  rc_mode :: string
  rc_state :: string
  rc_code :: string
  rc_created :: string
  rc_updated :: string
  rc_version :: string
  rc_result :: string
  rc_truncated :: bool

text \<open>The stored \<open>record\<close>: a receipt with its trusted scope.\<close>

record saved =
  sv_scope :: scope
  sv_receipt :: receipt

record hand_env =
  he_abs :: "string \<Rightarrow> bool"
  he_clean :: "string \<Rightarrow> string"
  he_fingerprint :: "hand_request \<Rightarrow> string"
  he_key :: "scope \<Rightarrow> string \<Rightarrow> string"

abbreviation MaxReceipts :: nat where "MaxReceipts \<equiv> 128"

definition digit_or_letter :: "char \<Rightarrow> bool" where
  "digit_or_letter c \<longleftrightarrow> (48 \<le> ord c \<and> ord c \<le> 57) \<or> (65 \<le> ord c \<and> ord c \<le> 90) \<or> (97 \<le> ord c \<and> ord c \<le> 122)"

definition any_hex_digit :: "char \<Rightarrow> bool" where
  "any_hex_digit c \<longleftrightarrow> (48 \<le> ord c \<and> ord c \<le> 57) \<or> (65 \<le> ord c \<and> ord c \<le> 70) \<or> (97 \<le> ord c \<and> ord c \<le> 102)"

definition id_pattern :: "string \<Rightarrow> bool" where
  "id_pattern s \<longleftrightarrow> s \<noteq> [] \<and> length s \<le> 64 \<and> digit_or_letter (hd s)
     \<and> list_all (\<lambda>c. digit_or_letter c \<or> c = CHR ''_'' \<or> c = CHR ''-'') (tl s)"

definition session_pattern :: "string \<Rightarrow> bool" where
  "session_pattern s \<longleftrightarrow> length s = 36
     \<and> list_all (\<lambda>i. if i \<in> set [8, 13, 18, 23] then s ! i = CHR ''-'' else any_hex_digit (s ! i)) [0..<36]"

definition revision_pattern :: "string \<Rightarrow> bool" where
  "revision_pattern s \<longleftrightarrow> length s = 40 \<and> list_all lower_hex s"

definition lower_char :: "char \<Rightarrow> char" where
  "lower_char c = (if 65 \<le> ord c \<and> ord c \<le> 90 then char_of (ord c + 32) else c)"

datatype hand_error = NeedIds | NeedMode | NeedWorkspace | BadPrompt | BadLimits | BadAttachment | BadDigest
  | BadIdentity | HandUnavailable | ContextChanged | IdReused | SessionTaken | HandFull | NoCapacity | NotSaved | NoReceipt

abbreviation nul :: char where "nul \<equiv> CHR 0x00"

fun attachments_error :: "hand_env \<Rightarrow> attachment list \<Rightarrow> hand_error option" where
  "attachments_error e [] = None"
| "attachments_error e (a # as) =
    (if at_path a = '''' \<or> 1024 < length (at_path a) \<or> he_abs e (at_path a) \<or> nul \<in> set (at_path a) \<or> length (at_sha a) \<noteq> 64
     then Some BadAttachment
     else if \<not> list_all any_hex_digit (at_sha a) then Some BadDigest
     else attachments_error e as)"

definition request_error :: "hand_env \<Rightarrow> hand_request \<Rightarrow> hand_error option" where
  "request_error e r =
    (if \<not> id_pattern (hq_id r) \<or> \<not> session_pattern (hq_session r) \<or> \<not> revision_pattern (hq_revision r) then Some NeedIds
     else if hq_agent r \<noteq> ''cursor'' \<or> hq_mode r \<noteq> ''ask'' \<and> hq_mode r \<noteq> ''plan'' \<and> hq_mode r \<noteq> ''agent'' then Some NeedMode
     else if \<not> he_abs e (hq_workspace r) \<or> 1024 < length (hq_workspace r) \<or> nul \<in> set (hq_workspace r) then Some NeedWorkspace
     else if hq_prompt r = '''' \<or> 16 * 1024 < length (hq_prompt r) \<or> \<not> utf8_valid (hq_prompt r) \<or> nul \<in> set (hq_prompt r)
       then Some BadPrompt
     else if hq_timeout r < 1 \<or> 600 < hq_timeout r \<or> 8 < length (hq_attachments r) then Some BadLimits
     else attachments_error e (hq_attachments r))"

definition terminal_state :: "string \<Rightarrow> bool" where
  "terminal_state s \<longleftrightarrow> s = ''completed'' \<or> s = ''failed'' \<or> s = ''unknown''"

type_synonym receipts = "(string, saved) gomap"

definition owns_session :: "receipts \<Rightarrow> scope \<Rightarrow> string \<Rightarrow> bool" where
  "owns_session items sc session \<longleftrightarrow>
     list_all (\<lambda>(k, s). \<not> (rc_session (sv_receipt s) = session \<and> sv_scope s \<noteq> sc)) items"

section \<open>The manager: \<open>manager.go\<close>, \<open>device_context.go\<close>\<close>

text \<open>A worker with the cause its context was cancelled for, if any.\<close>

datatype cause = DeviceChanged | ManagerClosed

record worker =
  wk_scope :: scope
  wk_cause :: "cause option"

record manager =
  mg_items :: receipts
  mg_active :: "(string, worker) gomap"
  mg_device :: device_context
  mg_generation :: "64 word"
  mg_failed :: bool
  mg_done :: bool

record ticket =
  ti_mine :: bool
  ti_scope :: scope
  ti_generation :: "64 word"
  ti_proof :: string

definition zero_device :: device_context where
  "zero_device = \<lparr>dc_authority = '''', dc_device_uid = '''', dc_ownership = '''', dc_grant = '''', dc_inbound = False\<rparr>"

definition capture :: "manager \<Rightarrow> scope \<Rightarrow> string \<Rightarrow> ticket" where
  "capture m sc p = \<lparr>ti_mine = True, ti_scope = sc, ti_generation = mg_generation m, ti_proof = p\<rparr>"

definition sync_device :: "device_context \<Rightarrow> manager \<Rightarrow> manager \<times> bool" where
  "sync_device current m =
    (let m1 = (if mg_device m \<noteq> current then m\<lparr>mg_generation := mg_generation m + 1, mg_device := current\<rparr> else m)
     in (m1\<lparr>mg_active := map (\<lambda>(k, w). (k, if \<not> dc_allows current (wk_scope w) \<and> wk_cause w = None
            then w\<lparr>wk_cause := Some DeviceChanged\<rparr> else w)) (mg_active m1)\<rparr>, dc_valid current))"

definition get_receipt :: "hand_env \<Rightarrow> scope \<Rightarrow> string \<Rightarrow> manager \<Rightarrow> hand_error + receipt" where
  "get_receipt e sc i m =
    (if \<not> scope_valid sc \<or> \<not> id_pattern i then Inl BadIdentity
     else if mg_failed m then Inl HandUnavailable
     else if \<not> dc_allows (mg_device m) sc then Inl ContextChanged
     else case mget (mg_items m) (he_key e sc i) of None \<Rightarrow> Inl NoReceipt | Some s \<Rightarrow> Inr (sv_receipt s))"

text \<open>\<open>persist\<close>: replacing one file of the receipt directory; a receipt over the size limit is a failed write.\<close>

definition persist :: "hand_env \<Rightarrow> written \<Rightarrow> saved \<Rightarrow> receipts \<Rightarrow> receipts \<times> bool" where
  "persist e w s disk =
    (let k = he_key e (sv_scope s) (rc_id (sv_receipt s)) in
     case w of WrOk \<Rightarrow> (mput k s disk, True) | WrFailed \<Rightarrow> (disk, False) | WrLost \<Rightarrow> (mput k s disk, False))"

record hand_state =
  hs_manager :: manager
  hs_disk :: receipts
  hs_jobs :: filed

definition normal_request :: "hand_env \<Rightarrow> hand_request \<Rightarrow> hand_request" where
  "normal_request e r = r\<lparr>hq_workspace := he_clean e (hq_workspace r), hq_session := map lower_char (hq_session r)\<rparr>"

definition first_receipt :: "hand_env \<Rightarrow> string \<Rightarrow> hand_request \<Rightarrow> receipt" where
  "first_receipt e now r = \<lparr>rc_id = hq_id r, rc_fingerprint = he_fingerprint e r, rc_workspace = hq_workspace r,
     rc_revision = hq_revision r, rc_agent = hq_agent r, rc_session = hq_session r, rc_mode = hq_mode r,
     rc_state = ''received'', rc_code = '''', rc_created = now, rc_updated = now, rc_version = '''', rc_result = '''',
     rc_truncated = False\<rparr>"

text \<open>What the file system does to one \<open>Submit\<close>: the two writes of the reservation, the receipt, and the ledger's write if
  the reservation is taken back.\<close>

record submit_io =
  si_ledger :: ledger_io
  si_reserve :: written
  si_fresh :: "string option"
  si_persist :: written
  si_finish :: written

text \<open>The result carries the job of the worker that was started.\<close>

definition submit ::
  "hand_env \<Rightarrow> submit_io \<Rightarrow> string \<Rightarrow> ticket \<Rightarrow> hand_request \<Rightarrow> hand_state
   \<Rightarrow> hand_state \<times> (hand_error + receipt \<times> string option)" where
  "submit e io now t r0 h =
    (let sc = ti_scope t; m = hs_manager h in
     if \<not> scope_valid sc \<or> ti_proof t = '''' \<or> MaxDelegationBytes < length (ti_proof t) then (h, Inl BadIdentity)
     else case request_error e r0 of Some err \<Rightarrow> (h, Inl err) | None \<Rightarrow>
     let r = normal_request e r0; k = he_key e sc (hq_id r); key = hq_session r in
     if mg_failed m \<or> mg_done m then (h, Inl HandUnavailable)
     else if \<not> ti_mine t \<or> ti_generation t \<noteq> mg_generation m \<or> \<not> dc_allows (mg_device m) sc then (h, Inl ContextChanged)
     else case mget (mg_items m) k of
       Some old \<Rightarrow> if rc_fingerprint (sv_receipt old) \<noteq> he_fingerprint e r then (h, Inl IdReused)
                   else (h, Inr (sv_receipt old, None))
     | None \<Rightarrow>
       if \<not> owns_session (mg_items m) sc key then (h, Inl SessionTaken)
       else if MaxReceipts \<le> length (mg_items m) \<or> mget (mg_active m) key \<noteq> None then (h, Inl HandFull)
       else case reserve_handoff (si_ledger io) (si_reserve io) (si_fresh io) sc key (hs_jobs h) of
         (j1, Inl _) \<Rightarrow> (h\<lparr>hs_jobs := j1\<rparr>, Inl NoCapacity)
       | (j1, Inr job) \<Rightarrow>
         let s = \<lparr>sv_scope = sc, sv_receipt = first_receipt e now r\<rparr> in
         case persist e (si_persist io) s (hs_disk h) of
           (d1, False) \<Rightarrow> (h\<lparr>hs_disk := d1, hs_jobs := fst (finish_job (si_ledger io) (si_finish io) job False j1),
                            hs_manager := m\<lparr>mg_failed := True\<rparr>\<rparr>, Inl NotSaved)
         | (d1, True) \<Rightarrow> (h\<lparr>hs_disk := d1, hs_jobs := j1,
              hs_manager := m\<lparr>mg_items := mput k s (mg_items m), mg_active := mput key \<lparr>wk_scope = sc, wk_cause = None\<rparr> (mg_active m)\<rparr>\<rparr>,
              Inr (sv_receipt s, Some job)))"

record outcome =
  oc_state :: string
  oc_code :: string
  oc_version :: string
  oc_text :: string
  oc_truncated :: bool

definition update_receipt :: "hand_env \<Rightarrow> written \<Rightarrow> string \<Rightarrow> string \<Rightarrow> outcome \<Rightarrow> hand_state \<Rightarrow> hand_state \<times> bool" where
  "update_receipt e w now k o1 h =
    (let m = hs_manager h in
     if mg_failed m then (h, False)
     else case mget (mg_items m) k of
       None \<Rightarrow> (h, False)
     | Some s \<Rightarrow>
       let c = sv_receipt s in
       if terminal_state (rc_state c) then (h, False)
       else let c1 = c\<lparr>rc_state := oc_state o1, rc_code := oc_code o1, rc_updated := now,
                       rc_version := (if oc_version o1 \<noteq> '''' then oc_version o1 else rc_version c),
                       rc_result := oc_text o1, rc_truncated := oc_truncated o1\<rparr>;
                s1 = s\<lparr>sv_receipt := c1\<rparr>
            in case persist e w s1 (hs_disk h) of
                 (d1, False) \<Rightarrow> (h\<lparr>hs_disk := d1, hs_manager := m\<lparr>mg_failed := True\<rparr>\<rparr>, False)
               | (d1, True) \<Rightarrow> (h\<lparr>hs_disk := d1, hs_manager := m\<lparr>mg_items := mput k s1 (mg_items m)\<rparr>\<rparr>, True))"

definition close_manager :: "hand_state \<Rightarrow> hand_state" where
  "close_manager h = h\<lparr>hs_manager := (hs_manager h)\<lparr>mg_done := True,
     mg_active := map (\<lambda>(k, w). (k, if wk_cause w = None then w\<lparr>wk_cause := Some ManagerClosed\<rparr> else w)) (mg_active (hs_manager h))\<rparr>\<rparr>"

section \<open>The receipt directory: \<open>store.go\<close>\<close>

definition saved_ok :: "hand_env \<Rightarrow> receipts \<Rightarrow> string \<Rightarrow> saved \<Rightarrow> bool" where
  "saved_ok e items name s \<longleftrightarrow> scope_valid (sv_scope s) \<and> id_pattern (rc_id (sv_receipt s)) \<and> session_pattern (rc_session (sv_receipt s))
     \<and> name = he_key e (sv_scope s) (rc_id (sv_receipt s)) \<and> length (rc_fingerprint (sv_receipt s)) = 64
     \<and> owns_session items (sv_scope s) (rc_session (sv_receipt s))"

definition restarted :: "string \<Rightarrow> saved \<Rightarrow> saved" where
  "restarted now s = s\<lparr>sv_receipt := (sv_receipt s)\<lparr>rc_state := ''unknown'', rc_code := ''runtime_restarted'', rc_updated := now\<rparr>\<rparr>"

text \<open>The loop over the directory; \<open>readable\<close> says which files parse, \<open>w\<close> is the outcome of rewriting one. The result is the
  items, the directory and success.\<close>

fun load_loop :: "hand_env \<Rightarrow> (string \<Rightarrow> bool) \<Rightarrow> (string \<Rightarrow> written) \<Rightarrow> string \<Rightarrow> receipts \<Rightarrow> receipts \<Rightarrow> receipts \<Rightarrow> receipts \<times> receipts \<times> bool" where
  "load_loop e readable w now [] items disk = (items, disk, True)"
| "load_loop e readable w now ((name, s) # rest) items disk =
    (if \<not> readable name \<or> \<not> saved_ok e items name s then (items, disk, False)
     else if terminal_state (rc_state (sv_receipt s)) then load_loop e readable w now rest (mput name s items) disk
     else case persist e (w name) (restarted now s) disk of
            (d1, False) \<Rightarrow> (items, d1, False)
          | (d1, True) \<Rightarrow> load_loop e readable w now rest (mput name (restarted now s) items) d1)"

text \<open>\<open>New\<close> of the next process; \<open>listed\<close> says that the directory could be read and holds only receipt files.\<close>

definition load_manager ::
  "hand_env \<Rightarrow> (string \<Rightarrow> bool) \<Rightarrow> (string \<Rightarrow> written) \<Rightarrow> string \<Rightarrow> bool \<Rightarrow> receipts \<Rightarrow> manager \<times> receipts" where
  "load_manager e readable w now listed disk =
    (let m = \<lparr>mg_items = [], mg_active = [], mg_device = zero_device, mg_generation = 0, mg_failed = False, mg_done = False\<rparr> in
     if \<not> listed \<or> MaxReceipts < length disk then (m\<lparr>mg_failed := True\<rparr>, disk)
     else case load_loop e readable w now disk [] disk of
       (items, d1, ok) \<Rightarrow> (m\<lparr>mg_items := items, mg_failed := \<not> ok\<rparr>, d1))"

section \<open>The manager at work\<close>

text \<open>Submissions, updates by workers, new device contexts, workers that end, the shutdown; the ledger has other users. A next
  process starts on the same directory after a shutdown or a crash.\<close>

inductive process_step :: "hand_env \<Rightarrow> hand_state \<Rightarrow> hand_state \<Rightarrow> bool" for e where
  do_submit: "submit e io now t r h = (h1, res) \<Longrightarrow> process_step e h h1"
| do_update: "update_receipt e w now k oc h = (h1, b) \<Longrightarrow> process_step e h h1"
| do_sync: "sync_device d (hs_manager h) = (m, b) \<Longrightarrow> process_step e h (h\<lparr>hs_manager := m\<rparr>)"
| do_end: "process_step e h (h\<lparr>hs_manager := (hs_manager h)\<lparr>mg_active := mdel key (mg_active (hs_manager h))\<rparr>\<rparr>)"
| do_jobs: "process_step e h (h\<lparr>hs_jobs := j\<rparr>)"
| do_close: "process_step e h (close_manager h)"

inductive hand_step :: "hand_env \<Rightarrow> hand_state \<Rightarrow> hand_state \<Rightarrow> bool" for e where
  in_process: "process_step e h h1 \<Longrightarrow> hand_step e h h1"
| do_restart: "load_manager e readable w now listed (hs_disk h) = (m, d) \<Longrightarrow>
    hand_step e h (h\<lparr>hs_manager := m, hs_disk := d, hs_jobs := j\<rparr>)"

definition first_state :: hand_state where
  "first_state = \<lparr>hs_manager = \<lparr>mg_items = [], mg_active = [], mg_device = zero_device, mg_generation = 0, mg_failed = False,
     mg_done = False\<rparr>, hs_disk = [], hs_jobs = (new_ledger, None)\<rparr>"

inductive hand_reachable :: "hand_env \<Rightarrow> hand_state \<Rightarrow> bool" for e where
  hand_start: "hand_reachable e first_state"
| hand_next: "hand_reachable e h \<Longrightarrow> hand_step e h h1 \<Longrightarrow> hand_reachable e h1"

end
