(* ===== verification/HandoffProps.thy ===== *)
theory HandoffProps
  imports Handoff JobProps
begin

text \<open>
  What the handoff manager promises across lost writes, device changes, crashes and restarts: memory is the directory, a
  receipt that ended stays as it is, one request identifier starts at most one worker, and a ticket taken before the device
  changed starts nothing.
\<close>

declare map_of_eq_Some_iff [simp del] Some_eq_map_of_iff [simp del]

section \<open>The directory and the memory\<close>

definition sessions_ok :: "receipts \<Rightarrow> bool" where
  "sessions_ok d \<longleftrightarrow> (\<forall>k k' s s'. mget d k = Some s \<longrightarrow> mget d k' = Some s' \<longrightarrow>
     rc_session (sv_receipt s) = rc_session (sv_receipt s') \<longrightarrow> sv_scope s = sv_scope s')"

definition keyed :: "hand_env \<Rightarrow> receipts \<Rightarrow> bool" where
  "keyed e d \<longleftrightarrow> (\<forall>k s. mget d k = Some s \<longrightarrow> k = he_key e (sv_scope s) (rc_id (sv_receipt s)))"

definition directory_ok :: "hand_env \<Rightarrow> receipts \<Rightarrow> bool" where
  "directory_ok e d \<longleftrightarrow> mdistinct d \<and> length d \<le> MaxReceipts \<and> keyed e d \<and> sessions_ok d"

definition hand_ok :: "hand_env \<Rightarrow> hand_state \<Rightarrow> bool" where
  "hand_ok e h \<longleftrightarrow> directory_ok e (hs_disk h) \<and> mdistinct (mg_items (hs_manager h))
     \<and> (\<not> mg_failed (hs_manager h) \<longrightarrow> (\<forall>k. mget (mg_items (hs_manager h)) k = mget (hs_disk h) k))"

lemma same_map_length: "mdistinct a \<Longrightarrow> mdistinct b \<Longrightarrow> (\<And>k. mget a k = mget b k) \<Longrightarrow> length a = length b"
proof -
  assume d: "mdistinct a" "mdistinct b" and s: "\<And>k. mget a k = mget b k"
  have "fst ` set a = fst ` set b" using s by (metis dom_map_of_conv_image_fst ext)
  then have "card (set (map fst a)) = card (set (map fst b))" by simp
  then show ?thesis using d by (metis distinct_card length_map)
qed

lemma owns_session_iff: "mdistinct items \<Longrightarrow> owns_session items sc key \<longleftrightarrow>
  (\<forall>k s. mget items k = Some s \<longrightarrow> rc_session (sv_receipt s) = key \<longrightarrow> sv_scope s = sc)"
  by (auto simp: owns_session_def list_all_iff dest: map_of_SomeD) (metis map_of_eq_Some_iff)

text \<open>A directory where one file is new or holds the same job as before.\<close>

lemma put_directory:
  assumes d: "directory_ok e d" and k: "k = he_key e (sv_scope s) (rc_id (sv_receipt s))"
    and room: "mget d k = None \<Longrightarrow> length d < MaxReceipts"
    and own: "\<And>k' s'. mget d k' = Some s' \<Longrightarrow> k' \<noteq> k \<Longrightarrow> rc_session (sv_receipt s') = rc_session (sv_receipt s) \<Longrightarrow> sv_scope s' = sv_scope s"
  shows "directory_ok e (mput k s d)"
proof -
  have "length (mput k s d) \<le> MaxReceipts"
    using d room length_mput_fresh [of d k s] length_mput_present [of d k s] by (cases "mget d k") (auto simp: directory_ok_def)
  moreover have "keyed e (mput k s d)" using d k by (auto simp: directory_ok_def keyed_def)
  moreover have "sessions_ok (mput k s d)" unfolding sessions_ok_def
  proof (intro allI impI)
    fix a b x y
    assume a: "mget (mput k s d) a = Some x" "mget (mput k s d) b = Some y" "rc_session (sv_receipt x) = rc_session (sv_receipt y)"
    have old: "mget d a = Some x \<Longrightarrow> mget d b = Some y \<Longrightarrow> sv_scope x = sv_scope y"
      using d a(3) unfolding directory_ok_def sessions_ok_def by blast
    have new: "sv_scope z = sv_scope s" if "mget (mput k s d) c = Some z" "rc_session (sv_receipt z) = rc_session (sv_receipt s)" for c z
      using that own [of c z] by (cases "c = k") simp_all
    show "sv_scope x = sv_scope y"
    proof (cases "a = k \<or> b = k")
      case True
      then have "rc_session (sv_receipt x) = rc_session (sv_receipt s)" "rc_session (sv_receipt y) = rc_session (sv_receipt s)"
        using a by (elim disjE; simp)+
      then show ?thesis using new a(1,2) by metis
    next
      case False
      then show ?thesis using a old by simp
    qed
  qed
  ultimately show ?thesis using d by (simp add: directory_ok_def)
qed

lemma persist_cases:
  "persist e w s d = (d1, ok) \<Longrightarrow> d1 = (if w = WrFailed then d else mput (he_key e (sv_scope s) (rc_id (sv_receipt s))) s d) \<and> (ok \<longleftrightarrow> w = WrOk)"
  by (auto simp: persist_def Let_def split: written.splits)

section \<open>What a receipt may go through\<close>

text \<open>
  The specification of the directory, over the receipts by name: a request is accepted under a new name, in a session that
  belongs to its scope, and a receipt that has not ended may change, but not what it is the receipt of.
\<close>

definition same_request :: "saved \<Rightarrow> saved \<Rightarrow> bool" where
  "same_request s s1 \<longleftrightarrow> sv_scope s1 = sv_scope s \<and> (let a = sv_receipt s; b = sv_receipt s1 in rc_id b = rc_id a
     \<and> rc_fingerprint b = rc_fingerprint a \<and> rc_workspace b = rc_workspace a \<and> rc_revision b = rc_revision a
     \<and> rc_agent b = rc_agent a \<and> rc_session b = rc_session a \<and> rc_mode b = rc_mode a \<and> rc_created b = rc_created a)"

inductive receipt_step :: "(string \<Rightarrow> saved option) \<Rightarrow> (string \<Rightarrow> saved option) \<Rightarrow> bool" where
  accepted: "f k = None \<Longrightarrow> rc_state (sv_receipt s) = ''received'' \<Longrightarrow>
     (\<And>k' s'. f k' = Some s' \<Longrightarrow> rc_session (sv_receipt s') = rc_session (sv_receipt s) \<Longrightarrow> sv_scope s' = sv_scope s) \<Longrightarrow>
     receipt_step f (f(k \<mapsto> s))"
| changed: "f k = Some s \<Longrightarrow> \<not> terminal_state (rc_state (sv_receipt s)) \<Longrightarrow> same_request s s1 \<Longrightarrow> receipt_step f (f(k \<mapsto> s1))"

definition follows :: "receipts \<Rightarrow> receipts \<Rightarrow> bool" where
  "follows d d1 \<longleftrightarrow> receipt_step\<^sup>*\<^sup>* (mget d) (mget d1)"

lemma mget_mput_fun: "mget (mput k s d) = (mget d)(k \<mapsto> s)"
  by (rule ext) simp

lemma follows_refl [simp]: "follows d d"
  by (simp add: follows_def)

lemma follows_trans: "follows a b \<Longrightarrow> follows b c \<Longrightarrow> follows a c"
  by (simp add: follows_def)

lemma follows_changed: "mget d k = Some s \<Longrightarrow> \<not> terminal_state (rc_state (sv_receipt s)) \<Longrightarrow> same_request s s1 \<Longrightarrow> follows d (mput k s1 d)"
  unfolding follows_def mget_mput_fun by (blast intro: changed)

lemma receipt_steps_keep:
  "receipt_step\<^sup>*\<^sup>* f g \<Longrightarrow> f k = Some s \<Longrightarrow> \<exists>s1. g k = Some s1 \<and> (if terminal_state (rc_state (sv_receipt s)) then s1 = s else same_request s s1)"
proof (induction rule: rtranclp_induct)
  case base
  then show ?case by (simp add: same_request_def Let_def)
next
  case (step g h)
  then obtain s1 where s1: "g k = Some s1" "if terminal_state (rc_state (sv_receipt s)) then s1 = s else same_request s s1" by blast
  from step(2) show ?case
  proof cases
    case (accepted k' x)
    then show ?thesis using s1 by (cases "k' = k") auto
  next
    case (changed k' x x1)
    then show ?thesis using s1 by (cases "k' = k") (auto simp: same_request_def Let_def split: if_splits)
  qed
qed

section \<open>Loading\<close>

lemma restarted_same: "same_request s (restarted now s)"
  by (simp add: same_request_def restarted_def Let_def)

lemma load_loop_ok:
  assumes "load_loop e readable w now rest items d = (items1, d1, ok)" "directory_ok e d" "mdistinct items" "mdistinct rest"
    and "\<And>k s. mget rest k = Some s \<Longrightarrow> mget d k = Some s \<and> mget items k = None"
    and "\<And>k. mget rest k = None \<Longrightarrow> mget items k = mget d k"
  shows "directory_ok e d1 \<and> mdistinct items1 \<and> (ok \<longrightarrow> (\<forall>k. mget items1 k = mget d1 k))
     \<and> follows d d1"
  using assms
proof (induction rest arbitrary: items d)
  case Nil
  then show ?case by auto
next
  case (Cons x rest)
  obtain name s where x: "x = (name, s)" by (rule prod.exhaust)
  have r: "mget rest name = None" using Cons(5) x by (simp add: map_of_eq_None_iff)
  have dn: "mget d name = Some s" "mget items name = None" using Cons(6) [of name s] x by simp_all
  have rest: "mget rest k = Some z \<Longrightarrow> k \<noteq> name \<and> mget d k = Some z \<and> mget items k = None" for k z
    using Cons(6) [of k z] r x by (cases "k = name") simp_all
  have none: "mget rest k = None \<Longrightarrow> k \<noteq> name \<Longrightarrow> mget items k = mget d k" for k using Cons(7) [of k] x by simp
  show ?case
  proof (cases "\<not> readable name \<or> \<not> saved_ok e items name s")
    case True
    then show ?thesis using Cons(2-4) x by auto
  next
    case False
    then have key: "name = he_key e (sv_scope s) (rc_id (sv_receipt s))" by (simp add: saved_ok_def)
    show ?thesis
    proof (cases "terminal_state (rc_state (sv_receipt s))")
      case True
      then have l: "load_loop e readable w now rest (mput name s items) d = (items1, d1, ok)" using Cons(2) x False by simp
      show ?thesis
        by (rule Cons.IH [OF l Cons(3)]) (use Cons(4,5) x rest none dn in \<open>auto split: if_splits\<close>)
    next
      case nt: False
      define s1 where "s1 = restarted now s"
      have s1: "sv_scope s1 = sv_scope s" "rc_id (sv_receipt s1) = rc_id (sv_receipt s)" "rc_session (sv_receipt s1) = rc_session (sv_receipt s)"
        by (simp_all add: s1_def restarted_def)
      have ss: "sessions_ok d" using Cons(3) by (simp add: directory_ok_def)
      have dput: "directory_ok e (mput name s1 d)"
      proof (rule put_directory [OF Cons(3)])
        show "name = he_key e (sv_scope s1) (rc_id (sv_receipt s1))" using key s1 by simp
        show "length d < MaxReceipts" if "mget d name = None" using that dn by simp
        show "sv_scope s' = sv_scope s1" if "mget d k' = Some s'" "rc_session (sv_receipt s') = rc_session (sv_receipt s1)" for k' s'
          using that ss dn(1) unfolding s1 sessions_ok_def by blast
      qed
      have step: "follows d (mput name s1 d)" unfolding s1_def by (rule follows_changed [OF dn(1) nt restarted_same])
      obtain d2 b where p: "persist e (w name) s1 d = (d2, b)" by (rule prod.exhaust)
      note pc = persist_cases [OF p, unfolded s1, folded key]
      show ?thesis
      proof (cases b)
        case False
        then have "items1 = items" "d1 = d2" "\<not> ok" using Cons(2) x nt p \<open>\<not> (\<not> readable name \<or> \<not> saved_ok e items name s)\<close>
          by (simp_all add: s1_def)
        then show ?thesis using pc dput Cons(3,4) step by (auto split: if_splits)
      next
        case True
        then have d2: "d2 = mput name s1 d" using pc by auto
        have l: "load_loop e readable w now rest (mput name s1 items) (mput name s1 d) = (items1, d1, ok)"
          using Cons(2) x nt p True d2 \<open>\<not> (\<not> readable name \<or> \<not> saved_ok e items name s)\<close> by (simp add: s1_def)
        have "directory_ok e d1 \<and> mdistinct items1 \<and> (ok \<longrightarrow> (\<forall>k. mget items1 k = mget d1 k)) \<and> follows (mput name s1 d) d1"
          by (rule Cons.IH [OF l dput]) (use Cons(4,5) x rest none in \<open>auto split: if_splits\<close>)
        then show ?thesis using step follows_trans by blast
      qed
    qed
  qed
qed

section \<open>Steps\<close>

lemma load_manager_ok:
  assumes "load_manager e readable w now listed d = (m, d1)" "directory_ok e d"
  shows "directory_ok e d1 \<and> mdistinct (mg_items m) \<and> (\<not> mg_failed m \<longrightarrow> (\<forall>k. mget (mg_items m) k = mget d1 k))
     \<and> follows d d1"
proof (cases "\<not> listed \<or> MaxReceipts < length d")
  case True
  then show ?thesis using assms by (auto simp: load_manager_def)
next
  case False
  obtain items d2 ok where l: "load_loop e readable w now d [] d = (items, d2, ok)" by (metis prod.exhaust)
  have "mdistinct d" using assms(2) by (simp add: directory_ok_def)
  then have "directory_ok e d2 \<and> mdistinct items \<and> (ok \<longrightarrow> (\<forall>k. mget items k = mget d2 k))
     \<and> follows d d2"
    using load_loop_ok [OF l assms(2)] by simp
  moreover have "m = \<lparr>mg_items = items, mg_active = [], mg_device = zero_device, mg_generation = 0, mg_failed = \<not> ok, mg_done = False\<rparr>" "d1 = d2"
    using assms(1) False l by (auto simp: load_manager_def)
  ultimately show ?thesis by simp
qed

text \<open>What a submission does: nothing to the receipts, or a new one.\<close>

lemma submit_cases:
  assumes "submit e io now t r h = (h1, res)"
  obtains (same) "hs_disk h1 = hs_disk h" "hs_manager h1 = hs_manager h" "\<And>c job. res \<noteq> Inr (c, Some job)"
  | (new) k s job where "k = he_key e (ti_scope t) (hq_id r)" "s = \<lparr>sv_scope = ti_scope t, sv_receipt = first_receipt e now (normal_request e r)\<rparr>"
      "\<not> mg_failed (hs_manager h)" "mget (mg_items (hs_manager h)) k = None" "length (mg_items (hs_manager h)) < MaxReceipts"
      "owns_session (mg_items (hs_manager h)) (ti_scope t) (hq_session (normal_request e r))"
      "ti_generation t = mg_generation (hs_manager h)" "dc_allows (mg_device (hs_manager h)) (ti_scope t)"
      "hs_disk h1 = mput k s (hs_disk h)" "hs_manager h1 = (hs_manager h)\<lparr>mg_items := mput k s (mg_items (hs_manager h)),
         mg_active := mput (hq_session (normal_request e r)) \<lparr>wk_scope = ti_scope t, wk_cause = None\<rparr> (mg_active (hs_manager h))\<rparr>"
      "res = Inr (sv_receipt s, Some job)"
  | (lost) k s where "k = he_key e (ti_scope t) (hq_id r)" "s = \<lparr>sv_scope = ti_scope t, sv_receipt = first_receipt e now (normal_request e r)\<rparr>"
      "\<not> mg_failed (hs_manager h)" "mget (mg_items (hs_manager h)) k = None" "length (mg_items (hs_manager h)) < MaxReceipts"
      "owns_session (mg_items (hs_manager h)) (ti_scope t) (hq_session (normal_request e r))"
      "hs_disk h1 = hs_disk h \<or> hs_disk h1 = mput k s (hs_disk h)" "hs_manager h1 = (hs_manager h)\<lparr>mg_failed := True\<rparr>"
      "res = Inl NotSaved"
proof -
  let ?m = "hs_manager h" and ?sc = "ti_scope t" and ?r = "normal_request e r"
  let ?k = "he_key e ?sc (hq_id r)" and ?key = "hq_session ?r"
  define s where "s = \<lparr>sv_scope = ?sc, sv_receipt = first_receipt e now ?r\<rparr>"
  have id: "hq_id ?r = hq_id r" by (simp add: normal_request_def)
  consider (stop) "\<exists>err. (h1, res) = (h, Inl err)" | (old) "\<exists>c. (h1, res) = (h, Inr (c, None))"
    | (go) "\<not> mg_failed ?m" "mget (mg_items ?m) ?k = None" "length (mg_items ?m) < MaxReceipts" "owns_session (mg_items ?m) ?sc ?key"
        "ti_generation t = mg_generation ?m" "dc_allows (mg_device ?m) ?sc"
        "(h1, res) = (case reserve_handoff (si_ledger io) (si_reserve io) (si_fresh io) ?sc ?key (hs_jobs h) of
         (j1, Inl _) \<Rightarrow> (h\<lparr>hs_jobs := j1\<rparr>, Inl NoCapacity)
       | (j1, Inr job) \<Rightarrow>
         (case persist e (si_persist io) s (hs_disk h) of
           (d1, False) \<Rightarrow> (h\<lparr>hs_disk := d1, hs_jobs := fst (finish_job (si_ledger io) (si_finish io) job False j1),
                            hs_manager := ?m\<lparr>mg_failed := True\<rparr>\<rparr>, Inl NotSaved)
         | (d1, True) \<Rightarrow> (h\<lparr>hs_disk := d1, hs_jobs := j1,
              hs_manager := ?m\<lparr>mg_items := mput ?k s (mg_items ?m), mg_active := mput ?key \<lparr>wk_scope = ?sc, wk_cause = None\<rparr> (mg_active ?m)\<rparr>\<rparr>,
              Inr (sv_receipt s, Some job))))"
    using assms unfolding submit_def Let_def id s_def [symmetric]
    by (cases "request_error e r") (auto split: if_splits option.splits simp: not_le)
  then show thesis
  proof cases
    case stop
    then show thesis by (intro same) auto
  next
    case old
    then show thesis by (intro same) auto
  next
    case go
    obtain j1 rv where rv: "reserve_handoff (si_ledger io) (si_reserve io) (si_fresh io) ?sc ?key (hs_jobs h) = (j1, rv)" by (rule prod.exhaust)
    obtain d1 b where p: "persist e (si_persist io) s (hs_disk h) = (d1, b)" by (rule prod.exhaust)
    have sk: "he_key e (sv_scope s) (rc_id (sv_receipt s)) = ?k" by (simp add: s_def first_receipt_def id)
    note pc = persist_cases [OF p, unfolded sk]
    show thesis
    proof (cases rv)
      case (Inl x)
      then show thesis using go(7) rv by (intro same) auto
    next
      case (Inr job)
      show thesis
      proof (cases b)
        case True
        then have d: "d1 = mput ?k s (hs_disk h)" using pc by auto
        show thesis by (rule new [of ?k s job]) (use go Inr rv p True d in \<open>auto simp: s_def\<close>)
      next
        case False
        show thesis by (rule lost [of ?k s]) (use go Inr rv p False pc in \<open>auto simp: s_def\<close>)
      qed
    qed
  qed
qed


lemma hand_ok_new_file:
  assumes h: "hand_ok e h" and nf: "\<not> mg_failed (hs_manager h)" and k: "k = he_key e (sv_scope s) (rc_id (sv_receipt s))"
    and new: "mget (mg_items (hs_manager h)) k = None" and room: "length (mg_items (hs_manager h)) < MaxReceipts"
    and own: "owns_session (mg_items (hs_manager h)) (sv_scope s) (rc_session (sv_receipt s))"
    and first: "rc_state (sv_receipt s) = ''received''"
  shows "directory_ok e (mput k s (hs_disk h)) \<and> follows (hs_disk h) (mput k s (hs_disk h))"
proof -
  have d: "directory_ok e (hs_disk h)" "mdistinct (mg_items (hs_manager h))"
    and same: "\<And>k. mget (mg_items (hs_manager h)) k = mget (hs_disk h) k" using h nf by (auto simp: hand_ok_def)
  have "length (mg_items (hs_manager h)) = length (hs_disk h)"
    by (rule same_map_length) (use d same in \<open>auto simp: directory_ok_def\<close>)
  then have "directory_ok e (mput k s (hs_disk h))"
    using room own same owns_session_iff [OF d(2)] by (intro put_directory [OF d(1) k]) auto
  moreover have "follows (hs_disk h) (mput k s (hs_disk h))"
    using new own same owns_session_iff [OF d(2)] first unfolding follows_def mget_mput_fun by (intro r_into_rtranclp accepted) auto
  ultimately show ?thesis ..
qed

lemma update_cases:
  assumes "update_receipt e w now k oc h = (h1, b)" "hand_ok e h"
  shows "hand_ok e h1 \<and> follows (hs_disk h) (hs_disk h1)"
proof (cases "mg_failed (hs_manager h) \<or> mget (mg_items (hs_manager h)) k = None
    \<or> (\<exists>s. mget (mg_items (hs_manager h)) k = Some s \<and> terminal_state (rc_state (sv_receipt s)))")
  case True
  then have "h1 = h" using assms(1) by (auto simp: update_receipt_def Let_def split: if_splits)
  then show ?thesis using assms(2) by simp
next
  case False
  then obtain s where s: "mget (mg_items (hs_manager h)) k = Some s" "\<not> terminal_state (rc_state (sv_receipt s))" "\<not> mg_failed (hs_manager h)"
    by auto
  define s1 where "s1 = s\<lparr>sv_receipt := (sv_receipt s)\<lparr>rc_state := oc_state oc, rc_code := oc_code oc, rc_updated := now,
      rc_version := (if oc_version oc \<noteq> '''' then oc_version oc else rc_version (sv_receipt s)),
      rc_result := oc_text oc, rc_truncated := oc_truncated oc\<rparr>\<rparr>"
  have s1: "sv_scope s1 = sv_scope s" "rc_id (sv_receipt s1) = rc_id (sv_receipt s)" "rc_session (sv_receipt s1) = rc_session (sv_receipt s)"
    by (simp_all add: s1_def)
  obtain d1 ok where p: "persist e w s1 (hs_disk h) = (d1, ok)" by (rule prod.exhaust)
  have r: "update_receipt e w now k oc h = (if ok then (h\<lparr>hs_disk := d1, hs_manager := (hs_manager h)\<lparr>mg_items := mput k s1 (mg_items (hs_manager h))\<rparr>\<rparr>, True)
       else (h\<lparr>hs_disk := d1, hs_manager := (hs_manager h)\<lparr>mg_failed := True\<rparr>\<rparr>, False))"
    unfolding update_receipt_def Let_def s(1) option.case if_not_P [OF s(2)] if_not_P [OF s(3)] s1_def [symmetric] p
    by (cases ok; simp)
  have d: "directory_ok e (hs_disk h)" and dk: "mget (hs_disk h) k = Some s" using assms(2) s by (auto simp: hand_ok_def)
  have key: "k = he_key e (sv_scope s1) (rc_id (sv_receipt s1))" using d dk unfolding s1 directory_ok_def keyed_def by blast
  have dp: "directory_ok e (mput k s1 (hs_disk h))"
  proof (rule put_directory [OF d key])
    show "length (hs_disk h) < MaxReceipts" if "mget (hs_disk h) k = None" using that dk by simp
    show "sv_scope s' = sv_scope s1" if "mget (hs_disk h) k' = Some s'" "rc_session (sv_receipt s') = rc_session (sv_receipt s1)" for k' s'
      using that d dk unfolding s1 directory_ok_def sessions_ok_def by blast
  qed
  have kp: "follows (hs_disk h) (mput k s1 (hs_disk h))" by (rule follows_changed [OF dk s(2)]) (simp add: same_request_def s1_def Let_def)
  note pc = persist_cases [OF p, folded key]
  show ?thesis
    using r assms(1) pc dp kp d assms(2) s(3) by (cases ok) (auto simp: hand_ok_def)
qed

lemma process_step_ok:
  assumes "process_step e h h1" "hand_ok e h"
  shows "hand_ok e h1 \<and> follows (hs_disk h) (hs_disk h1)"
  using assms(1)
proof cases
  case (do_submit io now t r res)
  show ?thesis
    using do_submit
  proof (cases rule: submit_cases)
    case same
    then show ?thesis using assms(2) by (simp add: hand_ok_def)
  next
    case (new k s job)
    then have "directory_ok e (mput k s (hs_disk h)) \<and> follows (hs_disk h) (mput k s (hs_disk h))"
      by (intro hand_ok_new_file [OF assms(2)]) (simp_all add: first_receipt_def normal_request_def)
    then show ?thesis using new assms(2) by (simp add: hand_ok_def)
  next
    case (lost k s)
    then have "directory_ok e (mput k s (hs_disk h)) \<and> follows (hs_disk h) (mput k s (hs_disk h))"
      by (intro hand_ok_new_file [OF assms(2)]) (simp_all add: first_receipt_def normal_request_def)
    then show ?thesis using lost assms(2) by (auto simp: hand_ok_def)
  qed
next
  case do_update
  then show ?thesis using update_cases assms(2) by blast
next
  case (do_sync d m b)
  then have "mg_items m = mg_items (hs_manager h)" "mg_failed m = mg_failed (hs_manager h)"
    by (auto simp: sync_device_def Let_def split: if_splits)
  then show ?thesis using do_sync assms(2) by (simp add: hand_ok_def)
qed (use assms(2) in \<open>simp_all add: hand_ok_def close_manager_def\<close>)

lemma hand_step_ok:
  assumes "hand_step e h h1" "hand_ok e h"
  shows "hand_ok e h1 \<and> follows (hs_disk h) (hs_disk h1)"
  using assms(1)
proof cases
  case in_process
  then show ?thesis using process_step_ok assms(2) by blast
next
  case (do_restart readable w now listed m d j)
  then show ?thesis using load_manager_ok [OF do_restart(2)] assms(2) by (simp add: hand_ok_def)
qed

lemma hand_reachable_ok: "hand_reachable e h \<Longrightarrow> hand_ok e h"
proof (induction rule: hand_reachable.induct)
  case hand_start
  then show ?case by (simp add: hand_ok_def first_state_def directory_ok_def keyed_def sessions_ok_def)
next
  case (hand_next h h1)
  then show ?case using hand_step_ok by blast
qed

lemma hand_steps_ok: "(hand_step e)\<^sup>*\<^sup>* h h1 \<Longrightarrow> hand_ok e h \<Longrightarrow> hand_ok e h1 \<and> follows (hs_disk h) (hs_disk h1)"
proof (induction rule: rtranclp_induct)
  case base
  then show ?case by simp
next
  case (step y z)
  then show ?case using hand_step_ok follows_trans by metis
qed

section \<open>The device incarnation\<close>

lemma sync_fields: "sync_device d m = (m1, b) \<Longrightarrow>
  mg_generation m1 = (if mg_device m = d then mg_generation m else mg_generation m + 1) \<and> mg_device m1 = d \<and> b = dc_valid d"
  by (auto simp: sync_device_def Let_def split: if_splits)

lemma process_step_generation:
  assumes "process_step e h h1"
  shows "mg_generation (hs_manager h1) = mg_generation (hs_manager h) \<or> mg_generation (hs_manager h1) = mg_generation (hs_manager h) + 1"
  using assms
proof cases
  case do_submit
  then show ?thesis by (cases rule: submit_cases) simp_all
next
  case do_update
  then show ?thesis by (auto simp: update_receipt_def Let_def split: if_splits option.splits prod.splits bool.splits)
next
  case do_sync
  then show ?thesis using sync_fields by auto
qed (simp_all add: close_manager_def)

lemma process_steps_generation:
  "(process_step e ^^ n) h h1 \<Longrightarrow> \<exists>j \<le> n. mg_generation (hs_manager h1) = mg_generation (hs_manager h) + of_nat j"
proof (induction n arbitrary: h1)
  case 0
  then show ?case by auto
next
  case (Suc n)
  then obtain y where y: "(process_step e ^^ n) h y" "process_step e y h1" by auto
  obtain j where "j \<le> n" "mg_generation (hs_manager y) = mg_generation (hs_manager h) + of_nat j" using Suc.IH [OF y(1)] by blast
  then show ?case using process_step_generation [OF y(2)] by (intro exI [of _ "if mg_generation (hs_manager h1) = mg_generation (hs_manager y) then j else Suc j"]) auto
qed

lemma old_ticket_denied:
  assumes "ti_generation t \<noteq> mg_generation (hs_manager h)"
  shows "fst (submit e io now t r h) = h \<and> (\<exists>err. snd (submit e io now t r h) = Inl err)"
  using assms unfolding submit_def Let_def by (cases "request_error e r") simp_all

section \<open>A demo\<close>

definition hand_env0 :: hand_env where
  "hand_env0 = \<lparr>he_abs = (\<lambda>p. take 1 p = ''/''), he_clean = (\<lambda>p. p), he_fingerprint = (\<lambda>_. replicate 64 CHR ''0''), he_key = (\<lambda>_ i. i)\<rparr>"

definition hand_request_demo :: hand_request where
  "hand_request_demo = \<lparr>hq_id = ''r1'', hq_workspace = ''/w'', hq_revision = replicate 40 CHR ''a'', hq_agent = ''cursor'',
     hq_session = ''00000000-0000-4000-8000-00000000000A'', hq_mode = ''ask'', hq_prompt = ''fix'', hq_attachments = [], hq_trust = False,
     hq_timeout = 60\<rparr>"

definition hand_device_demo :: device_context where
  "hand_device_demo = \<lparr>dc_authority = s_authority job_scope, dc_device_uid = s_device_uid job_scope, dc_ownership = '''',
     dc_grant = s_grant job_scope, dc_inbound = True\<rparr>"

definition hand_io_demo :: submit_io where
  "hand_io_demo = \<lparr>si_ledger = good_io, si_reserve = WrOk, si_fresh = Some job_id, si_persist = WrOk, si_finish = WrOk\<rparr>"

definition hand_open_demo :: hand_state where
  "hand_open_demo = first_state\<lparr>hs_manager := fst (sync_device hand_device_demo (hs_manager first_state))\<rparr>"

definition hand_ticket_demo :: ticket where
  "hand_ticket_demo = capture (hs_manager hand_open_demo) job_scope ''proof''"

definition hand_submitted_demo :: "hand_state \<times> (hand_error + receipt \<times> string option)" where
  "hand_submitted_demo = submit hand_env0 hand_io_demo ''t'' hand_ticket_demo hand_request_demo hand_open_demo"

lemma hand_open_reachable: "hand_reachable hand_env0 hand_open_demo"
  unfolding hand_open_demo_def by (rule hand_next [OF hand_start in_process [OF do_sync]]) (rule surjective_pairing)

lemma hand_checks_demo: "request_error hand_env0 hand_request_demo = None" "scope_valid job_scope" "dc_allows hand_device_demo job_scope"
    "hq_session (normal_request hand_env0 hand_request_demo) = ''00000000-0000-4000-8000-00000000000a''"
    "reserve_handoff good_io WrOk (Some job_id) job_scope ''00000000-0000-4000-8000-00000000000a'' (new_ledger, None)
     = (let js = [(job_id, \<lparr>jr_id = job_id, jr_scope = job_scope, jr_kind = KindHandoff, jr_key = ''00000000-0000-4000-8000-00000000000a'',
          jr_state = ''reserved''\<rparr>)] in ((\<lparr>lg_jobs = Some js, lg_closed = False, lg_failed = False, lg_locked = True\<rparr>, Some js), Inr job_id))"
  by code_simp+

lemma hand_open_value: "hs_manager hand_open_demo = \<lparr>mg_items = [], mg_active = [], mg_device = hand_device_demo, mg_generation = 1, mg_failed = False, mg_done = False\<rparr>"
    "hs_disk hand_open_demo = []" "hs_jobs hand_open_demo = (new_ledger, None)"
  by code_simp+

lemma hand_submitted_value: "snd hand_submitted_demo = Inr (first_receipt hand_env0 ''t'' (normal_request hand_env0 hand_request_demo), Some job_id)
   \<and> hs_disk (fst hand_submitted_demo) = [(''r1'', \<lparr>sv_scope = job_scope, sv_receipt = first_receipt hand_env0 ''t'' (normal_request hand_env0 hand_request_demo)\<rparr>)]"
proof -
  have t: "ti_scope hand_ticket_demo = job_scope" "ti_proof hand_ticket_demo = ''proof''" "ti_mine hand_ticket_demo" "ti_generation hand_ticket_demo = 1"
    by (simp_all add: hand_ticket_demo_def capture_def hand_open_value)
  have k: "hq_id (normal_request hand_env0 hand_request_demo) = ''r1''" "he_key hand_env0 sc i = i" for sc i
    by (simp_all add: normal_request_def hand_request_demo_def hand_env0_def)
  have o: "owns_session [] job_scope s" for s by (simp add: owns_session_def)
  have io: "si_ledger hand_io_demo = good_io" "si_reserve hand_io_demo = WrOk" "si_fresh hand_io_demo = Some job_id" "si_persist hand_io_demo = WrOk"
    by (simp_all add: hand_io_demo_def)
  show ?thesis
    unfolding hand_submitted_demo_def submit_def Let_def t io k hand_open_value hand_checks_demo
    by (simp add: t hand_checks_demo [unfolded Let_def] o persist_def k first_receipt_def)
qed

section \<open>Properties\<close>

text \<open>C16. The receipt directory does only what a receipt may go through. Whatever a step of the manager is (a submission, an update, a
  device change, a shutdown, a restart over what a crash left), and whichever writes fail or are lost, the directory moves by
  accepting a new request in a session of its own scope or by changing a receipt that has not ended, keeping its request.\<close>

theorem handoffs_refine_receipts:
  assumes "hand_reachable e h" "hand_step e h h1"
  shows "receipt_step\<^sup>*\<^sup>* (mget (hs_disk h)) (mget (hs_disk h1))"
  using hand_step_ok [OF assms(2) hand_reachable_ok [OF assms(1)]] by (simp add: follows_def)

lemma hand_submit_step: "process_step hand_env0 hand_open_demo (fst hand_submitted_demo)"
  unfolding hand_submitted_demo_def by (rule do_submit) (rule surjective_pairing)

theorem handoffs_refine_receipts_witness:
  "hs_disk hand_open_demo = [] \<and> hs_disk (fst hand_submitted_demo) \<noteq> [] \<and> receipt_step\<^sup>*\<^sup>* (mget (hs_disk hand_open_demo)) (mget (hs_disk (fst hand_submitted_demo)))"
  using handoffs_refine_receipts [OF hand_open_reachable in_process [OF hand_submit_step]] hand_open_value hand_submitted_value by simp

text \<open>C15. One request starts at most one worker. When a submission starts a worker there was no receipt for the request before and
  there is one on disk now; after that, whatever happens, no submission with that scope and identifier starts one again, in this
  process or a later one.\<close>

theorem handoff_starts_once:
  assumes "hand_reachable e h" "submit e io now t r h = (h1, Inr (c, Some job))" "(hand_step e)\<^sup>*\<^sup>* h1 h2"
    "ti_scope t2 = ti_scope t" "hq_id r2 = hq_id r" "submit e io2 now2 t2 r2 h2 = (h3, res)"
  shows "mget (hs_disk h) (he_key e (ti_scope t) (hq_id r)) = None
    \<and> mget (hs_disk h1) (he_key e (ti_scope t) (hq_id r)) = Some \<lparr>sv_scope = ti_scope t, sv_receipt = c\<rparr> \<and> rc_state c = ''received''
    \<and> (\<forall>c2 job2. res \<noteq> Inr (c2, Some job2))"
proof -
  let ?k = "he_key e (ti_scope t) (hq_id r)"
  have h: "hand_ok e h" using assms(1) by (rule hand_reachable_ok)
  have now: "mget (hs_disk h) ?k = None \<and> mget (hs_disk h1) ?k = Some \<lparr>sv_scope = ti_scope t, sv_receipt = c\<rparr> \<and> rc_state c = ''received''"
    using assms(2)
  proof (cases rule: submit_cases)
    case (new k s job)
    then show ?thesis using h by (simp add: hand_ok_def first_receipt_def)
  qed auto
  have h2: "hand_ok e h2 \<and> follows (hs_disk h1) (hs_disk h2)"
    using hand_steps_ok [OF assms(3)] process_step_ok [OF do_submit [OF assms(2)] h] by blast
  then have there: "mget (hs_disk h2) ?k \<noteq> None" using now receipt_steps_keep unfolding follows_def by blast
  have "\<forall>c2 job2. res \<noteq> Inr (c2, Some job2)" using assms(6)
  proof (cases rule: submit_cases)
    case (new k s job)
    then show ?thesis using there h2 assms(4,5) by (simp add: hand_ok_def)
  qed auto
  then show ?thesis using now by blast
qed

theorem handoff_starts_once_witness:
  "\<exists>c. hand_submitted_demo = (fst hand_submitted_demo, Inr (c, Some job_id))
    \<and> (\<forall>c2 job2. snd (submit hand_env0 hand_io_demo ''t2'' hand_ticket_demo hand_request_demo (fst hand_submitted_demo)) \<noteq> Inr (c2, Some job2))"
proof -
  obtain h1 c where v: "submit hand_env0 hand_io_demo ''t'' hand_ticket_demo hand_request_demo hand_open_demo = (h1, Inr (c, Some job_id))"
    using hand_submitted_value by (metis hand_submitted_demo_def prod.collapse)
  obtain h3 res where w: "submit hand_env0 hand_io_demo ''t2'' hand_ticket_demo hand_request_demo h1 = (h3, res)" by (rule prod.exhaust)
  show ?thesis
    using handoff_starts_once [OF hand_open_reachable v rtranclp.rtrancl_refl refl refl w] v w by (simp add: hand_submitted_demo_def)
qed

text \<open>C17. A ticket does not outlive the device incarnation it was taken in. Once the device context has changed, even if it changes
  back, a submission with a ticket from before is refused and changes nothing, for as many further steps of the process as a 64-bit
  generation can tell apart; and the workers the new context does not allow have been cancelled.\<close>

theorem stale_ticket_starts_nothing:
  assumes "t = capture (hs_manager h) sc p" "sync_device d (hs_manager h) = (m, b)" "d \<noteq> mg_device (hs_manager h)"
    "(process_step e ^^ n) (h\<lparr>hs_manager := m\<rparr>) h1" "n < 2 ^ 64 - 1"
  shows "fst (submit e io now t r h1) = h1 \<and> (\<exists>err. snd (submit e io now t r h1) = Inl err)
    \<and> list_all (\<lambda>(k, w). dc_allows d (wk_scope w) \<or> wk_cause w \<noteq> None) (mg_active m)"
proof -
  have m: "mg_generation m = mg_generation (hs_manager h) + 1" using sync_fields [OF assms(2)] assms(3) by auto
  obtain j where j: "j \<le> n" "mg_generation (hs_manager h1) = mg_generation (hs_manager h) + of_nat (Suc j)"
    using process_steps_generation [OF assms(4)] m by (auto simp: algebra_simps)
  have "(of_nat (Suc j) :: 64 word) \<noteq> 0" using j(1) assms(5) by (simp only: word_of_nat_eq_0_iff) (auto dest: dvd_imp_le)
  then have "ti_generation t \<noteq> mg_generation (hs_manager h1)" using j(2) assms(1) by (simp add: capture_def)
  then have "fst (submit e io now t r h1) = h1 \<and> (\<exists>err. snd (submit e io now t r h1) = Inl err)" by (rule old_ticket_denied)
  moreover have "list_all (\<lambda>(k, w). dc_allows d (wk_scope w) \<or> wk_cause w \<noteq> None) (mg_active m)"
    using assms(2) by (auto simp: sync_device_def Let_def list_all_iff split: if_splits)
  ultimately show ?thesis by blast
qed

text \<open>Inbound is switched off and on again: the ticket taken before is refused although the device is back as it was.\<close>

definition hand_back_demo :: hand_state where
  "hand_back_demo = (let off = fst (sync_device (hand_device_demo\<lparr>dc_inbound := False\<rparr>) (hs_manager hand_open_demo))
                in hand_open_demo\<lparr>hs_manager := fst (sync_device hand_device_demo off)\<rparr>)"

theorem stale_ticket_starts_nothing_witness:
  "mg_device (hs_manager hand_back_demo) = mg_device (hs_manager hand_open_demo)
   \<and> (\<exists>err. snd (submit hand_env0 hand_io_demo ''t'' hand_ticket_demo hand_request_demo hand_back_demo) = Inl err)"
proof -
  obtain m b where off: "sync_device (hand_device_demo\<lparr>dc_inbound := False\<rparr>) (hs_manager hand_open_demo) = (m, b)" by (rule prod.exhaust)
  obtain m2 b2 where on: "sync_device hand_device_demo m = (m2, b2)" by (rule prod.exhaust)
  have d: "hand_device_demo\<lparr>dc_inbound := False\<rparr> \<noteq> mg_device (hs_manager hand_open_demo)" by code_simp
  have bk: "hand_back_demo = hand_open_demo\<lparr>hs_manager := m\<rparr>\<lparr>hs_manager := m2\<rparr>" by (simp add: hand_back_demo_def off on)
  have "process_step hand_env0 (hand_open_demo\<lparr>hs_manager := m\<rparr>) (hand_open_demo\<lparr>hs_manager := m\<rparr>\<lparr>hs_manager := m2\<rparr>)"
    by (rule do_sync [of hand_device_demo _ m2 b2]) (simp add: on)
  then have "(process_step hand_env0 ^^ Suc 0) (hand_open_demo\<lparr>hs_manager := m\<rparr>) hand_back_demo" by (simp add: bk eq_OO)
  then show ?thesis using stale_ticket_starts_nothing [OF refl off d, where e = hand_env0 and n = "Suc 0" and sc = job_scope and p = "''proof''"] sync_fields [OF on]
    by (simp add: hand_ticket_demo_def bk hand_open_value)
qed

end
