(* ===== verification/HandoffRun.thy ===== *)
theory HandoffRun
  imports Handoff Principal
begin

text \<open>
  One run of a handoff, \<open>internal/handoff\<close>: the checks before the agent is started (\<open>preflight.go\<close>), the outcome
  (\<open>runner.go\<close>) and the reading of the agent's output (\<open>cursor_stream.go\<close>). What the operating system, \<open>git\<close>, the agent's
  program and \<open>encoding/json\<close> answer are the fields of \<open>preflight_io\<close> and \<open>run_io\<close>; what the code makes of the answers is
  modelled, the line scanner of \<open>bufio\<close> with its limit included.
\<close>

section \<open>Before the start: \<open>preflight.go\<close>, \<open>process.go\<close>\<close>

definition bounded_write :: "string \<Rightarrow> string \<times> bool \<Rightarrow> string \<times> bool" where
  "bounded_write p b = (let left = 64 * 1024 - length (fst b) in (fst b @ take left p, snd b \<or> left < length p))"

text \<open>A probe: what was written to the pipe, and how the process and the reading ended.\<close>

datatype ended = EndedWell | EndedBadly | EndedUnclean

definition probe_output :: "string list \<times> ended \<Rightarrow> ended + string" where
  "probe_output a =
    (if snd a \<noteq> EndedWell then Inl (snd a)
     else let b = fold bounded_write (fst a) ([], False) in if snd b then Inl EndedBadly else Inr (fst b))"

datatype deadline = InTime | TimedOut | Interrupted

record config =
  cf_executable :: string
  cf_prefix :: "string list"

record preflight_io =
  pi_root :: "string option"
  pi_workspace :: "string option"
  pi_beneath :: "string \<Rightarrow> string \<Rightarrow> bool"
  pi_same :: "string \<Rightarrow> string \<Rightarrow> bool"
  pi_git :: "string \<Rightarrow> string list \<times> ended"
  pi_target :: "string \<Rightarrow> string option"
  pi_stat :: "string \<Rightarrow> (bool \<times> int) option"
  pi_digest :: "string \<Rightarrow> (int \<times> string) option option"
  pi_adapter :: "config option"
  pi_regular :: "string \<Rightarrow> bool"
  pi_abs :: "string \<Rightarrow> bool"
  pi_cli :: "config \<Rightarrow> string \<Rightarrow> string list \<times> ended"
  pi_deadline :: "string \<Rightarrow> deadline"

datatype fault = CleanupFault | Fault string

definition fail_at :: "preflight_io \<Rightarrow> string \<Rightarrow> (ended + string) option \<Rightarrow> string \<Rightarrow> fault" where
  "fail_at io phase p code =
    (if p = Some (Inl EndedUnclean) then CleanupFault
     else case pi_deadline io phase of
       InTime \<Rightarrow> Fault code | TimedOut \<Rightarrow> Fault (''preflight_timeout_'' @ phase) | Interrupted \<Rightarrow> Fault ''preflight_interrupted'')"

definition config_valid :: "preflight_io \<Rightarrow> config \<Rightarrow> bool" where
  "config_valid io c \<longleftrightarrow> pi_abs io (cf_executable c) \<and> length (cf_prefix c) \<le> 4 \<and> pi_regular io (cf_executable c)
     \<and> list_all (\<lambda>a. length a \<le> 2048 \<and> nul \<notin> set a) (cf_prefix c)"

text \<open>The inner option of \<open>pi_digest\<close> is the copy, the outer one opening the file.\<close>

definition attachment_fault :: "preflight_io \<Rightarrow> string \<Rightarrow> attachment \<Rightarrow> string option" where
  "attachment_fault io ws a =
    (case pi_target io (at_path a) of
       None \<Rightarrow> Some ''attachment_outside_workspace''
     | Some file \<Rightarrow>
        if \<not> pi_beneath io ws file then Some ''attachment_outside_workspace''
        else case pi_stat io file of
          None \<Rightarrow> Some ''attachment_unavailable''
        | Some (regular, sz) \<Rightarrow>
           if \<not> regular \<or> 1024 * 1024 < sz then Some ''attachment_unavailable''
           else case pi_digest io file of
             None \<Rightarrow> Some ''attachment_unavailable''
           | Some None \<Rightarrow> Some ''attachment_mismatch''
           | Some (Some (n, h)) \<Rightarrow> if 1024 * 1024 < n \<or> h \<noteq> map lower_char (at_sha a) then Some ''attachment_mismatch'' else None)"

fun attachments_fault :: "preflight_io \<Rightarrow> string \<Rightarrow> attachment list \<Rightarrow> string option" where
  "attachments_fault io ws [] = None"
| "attachments_fault io ws (a # as) = (case attachment_fault io ws a of Some c \<Rightarrow> Some c | None \<Rightarrow> attachments_fault io ws as)"

definition cli_flags :: "string list" where
  "cli_flags = [''--resume'', ''--workspace'', ''--mode'', ''--print'', ''--output-format'', ''stream-json'']"

definition preflight_cli :: "preflight_io \<Rightarrow> string \<Rightarrow> config \<Rightarrow> fault + config \<times> string \<times> string" where
  "preflight_cli io ws cfg =
    (case probe_output (pi_cli io cfg ''--help'') of
       Inl x \<Rightarrow> Inl (fail_at io ''cli_help'' (Some (Inl x)) ''adapter_unavailable'')
     | Inr help \<Rightarrow>
        if \<not> list_all (contains_string help) cli_flags then Inl (fail_at io ''cli_help'' None ''incompatible_cli'')
        else case probe_output (pi_cli io cfg ''--version'') of
          Inl x \<Rightarrow> Inl (fail_at io ''cli_version'' (Some (Inl x)) ''incompatible_cli'')
        | Inr v \<Rightarrow>
           let version = trim_space v in
           if version = '''' \<or> 128 < length version \<or> CHR 0x0D \<in> set version \<or> CHR 0x0A \<in> set version
           then Inl (fail_at io ''cli_version'' None ''incompatible_cli'')
           else Inr (cfg, version, ws))"

definition git_fault :: "preflight_io \<Rightarrow> string \<Rightarrow> string \<Rightarrow> string \<Rightarrow> (string \<Rightarrow> bool) \<Rightarrow> fault option" where
  "git_fault io phase command code good =
    (case probe_output (pi_git io command) of
       Inl x \<Rightarrow> Some (fail_at io phase (Some (Inl x)) code)
     | Inr out \<Rightarrow> if good (trim_space out) then None else Some (fail_at io phase None code))"

definition preflight :: "preflight_io \<Rightarrow> hand_request \<Rightarrow> fault + config \<times> string \<times> string" where
  "preflight io r =
    (case pi_root io of
       None \<Rightarrow> Inl (fail_at io ''workspace'' None ''workspace_unavailable'')
     | Some base \<Rightarrow> case pi_workspace io of
       None \<Rightarrow> Inl (fail_at io ''workspace'' None ''workspace_outside_root'')
     | Some ws \<Rightarrow>
        if \<not> pi_beneath io base ws then Inl (fail_at io ''workspace'' None ''workspace_outside_root'')
        else case git_fault io ''git_root'' ''rev-parse --show-toplevel'' ''workspace_not_repository_root'' (\<lambda>top. pi_same io top ws) of
          Some x \<Rightarrow> Inl x
        | None \<Rightarrow> case git_fault io ''git_revision'' ''rev-parse HEAD'' ''revision_mismatch'' (\<lambda>rev. rev = hq_revision r) of
          Some x \<Rightarrow> Inl x
        | None \<Rightarrow> case git_fault io ''git_status'' ''status --porcelain'' ''workspace_dirty'' (\<lambda>d. d = '''') of
          Some x \<Rightarrow> Inl x
        | None \<Rightarrow> case attachments_fault io ws (hq_attachments r) of
          Some code \<Rightarrow> Inl (fail_at io ''attachments'' None code)
        | None \<Rightarrow> case pi_adapter io of
          None \<Rightarrow> Inl (fail_at io ''adapter_config'' None ''adapter_not_configured'')
        | Some cfg \<Rightarrow>
            if \<not> config_valid io cfg then Inl (fail_at io ''adapter_config'' None ''adapter_not_configured'')
            else preflight_cli io ws cfg)"

section \<open>The agent's output: \<open>cursor_stream.go\<close>\<close>

record cursor_event =
  ce_type :: string
  ce_subtype :: string
  ce_session :: string
  ce_cwd :: string
  ce_error :: "bool option"
  ce_result :: "string option"

record cursor_result =
  cr_text :: string
  cr_truncated :: bool
  cr_error :: bool

abbreviation MaxResponse :: nat where "MaxResponse \<equiv> 64 * 1024"

fun clip_end :: "string \<Rightarrow> nat \<Rightarrow> nat" where
  "clip_end s 0 = 0"
| "clip_end s (Suc n) = (if rune_start (s ! Suc n) then Suc n else clip_end s n)"

definition clip_response :: "string \<Rightarrow> string \<times> bool" where
  "clip_response s = (if MaxResponse < length s then (take (clip_end s MaxResponse) s, True) else (s, False))"

record cursor_scan =
  cs_init :: bool
  cs_done :: bool
  cs_result :: cursor_result

definition is_init :: "cursor_event \<Rightarrow> bool" where
  "is_init e \<longleftrightarrow> ce_type e = ''system'' \<and> ce_subtype e = ''init''"

definition take_init :: "(string \<Rightarrow> string \<Rightarrow> bool) \<Rightarrow> string \<Rightarrow> string \<Rightarrow> bool \<Rightarrow> cursor_event \<Rightarrow> cursor_scan \<Rightarrow> cursor_scan \<times> string option" where
  "take_init same session ws saved_init e s =
    (if \<not> is_init e then (s, None)
     else if cs_init s \<or> ce_session e \<noteq> session \<or> \<not> same (ce_cwd e) ws then (s, Some ''session_or_workspace_mismatch'')
     else (s\<lparr>cs_init := True\<rparr>, if saved_init then None else Some ''receipt_unavailable''))"

definition take_result :: "string \<Rightarrow> cursor_event \<Rightarrow> cursor_scan \<Rightarrow> cursor_scan \<times> string option" where
  "take_result session e s =
    (if ce_type e \<noteq> ''result'' then (s, None)
     else if \<not> cs_init s \<or> cs_done s \<or> ce_session e \<noteq> session \<or> ce_error e = None \<or> ce_result e = None
     then (s, Some ''unconfirmed_cli_result'')
     else if \<not> the (ce_error e) \<and> ce_subtype e \<noteq> ''success'' then (s, Some ''unconfirmed_cli_result'')
     else (s\<lparr>cs_done := True, cs_result := \<lparr>cr_text = fst (clip_response (the (ce_result e))),
             cr_truncated = snd (clip_response (the (ce_result e))), cr_error = the (ce_error e)\<rparr>\<rparr>, None))"

definition take_event :: "(string \<Rightarrow> string \<Rightarrow> bool) \<Rightarrow> string \<Rightarrow> string \<Rightarrow> bool \<Rightarrow> cursor_event \<Rightarrow> cursor_scan \<Rightarrow> cursor_scan \<times> string option" where
  "take_event same session ws saved_init e s =
    (if ce_session e \<noteq> '''' \<and> ce_session e \<noteq> session then (s, Some ''session_mismatch'')
     else case take_init same session ws saved_init e s of
       (s1, Some err) \<Rightarrow> (s1, Some err)
     | (s1, None) \<Rightarrow> (case take_result session e s1 of
         (s2, Some err) \<Rightarrow> (s2, Some err)
       | (s2, None) \<Rightarrow> (s2, if cs_done s2 \<and> (ce_type e = ''tool_call'' \<or> ce_type e = ''assistant'')
                            then Some ''events_after_result'' else None)))"

text \<open>\<open>bufio.Scanner\<close> with \<open>ScanLines\<close> and a limit of 1 MiB; the second component is false when a line does not fit.\<close>

definition drop_cr :: "string \<Rightarrow> string" where
  "drop_cr l = (if l \<noteq> [] \<and> last l = CHR 0x0D then butlast l else l)"

function scan_lines :: "string \<Rightarrow> string list \<times> bool" where
  "scan_lines s =
    (if s = [] then ([], True)
     else let l = takeWhile (\<lambda>c. c \<noteq> CHR 0x0A) s in
       if 1024 * 1024 \<le> length l then ([], False)
       else case scan_lines (drop (length l + 1) s) of (ls, fits) \<Rightarrow> (drop_cr l # ls, fits))"
  by auto
termination by (relation "measure length") auto

declare scan_lines.simps [simp del]

fun read_events ::
  "(string \<Rightarrow> cursor_event option) \<Rightarrow> (string \<Rightarrow> string \<Rightarrow> bool) \<Rightarrow> string \<Rightarrow> string \<Rightarrow> bool \<Rightarrow> string list \<Rightarrow> nat \<Rightarrow> cursor_scan
   \<Rightarrow> cursor_scan \<times> string option" where
  "read_events parse same session ws saved_init [] seen s = (s, None)"
| "read_events parse same session ws saved_init (l # ls) seen s =
    (if 8 * 1024 * 1024 < seen + length l then (s, Some ''output_limit'')
     else case parse l of
       None \<Rightarrow> (s, Some ''invalid_cli_stream'')
     | Some e \<Rightarrow> (case take_event same session ws saved_init e s of
         (s1, Some err) \<Rightarrow> (s1, Some err)
       | (s1, None) \<Rightarrow> read_events parse same session ws saved_init ls (seen + length l) s1))"

definition fresh_scan :: cursor_scan where
  "fresh_scan = \<lparr>cs_init = False, cs_done = False, cs_result = \<lparr>cr_text = '''', cr_truncated = False, cr_error = False\<rparr>\<rparr>"

text \<open>\<open>input\<close> is what could be read and whether the reading then failed.\<close>

definition read_cursor ::
  "(string \<Rightarrow> cursor_event option) \<Rightarrow> (string \<Rightarrow> string \<Rightarrow> bool) \<Rightarrow> string \<Rightarrow> string \<Rightarrow> bool \<Rightarrow> string \<times> bool \<Rightarrow> cursor_result \<times> string option" where
  "read_cursor parse same session ws saved_init input =
    (case scan_lines (fst input) of (ls, fits) \<Rightarrow>
       (case read_events parse same session ws saved_init ls 0 fresh_scan of
          (s, Some err) \<Rightarrow> (cs_result s, Some err)
        | (s, None) \<Rightarrow>
            if \<not> fits \<or> snd input then (cs_result s, Some ''invalid_cli_stream'')
            else if \<not> cs_done s then (cs_result s, Some ''missing_cli_result'')
            else (cs_result s, None)))"

section \<open>The outcome: \<open>runner.go\<close>\<close>

datatype lost = LostDevice | LostAuthorization | LostOther

record run_io =
  ru_guard :: bool
  ru_preflight :: preflight_io
  ru_accepted :: bool
  ru_pipe :: bool
  ru_start :: bool
  ru_parse :: "string \<Rightarrow> cursor_event option"
  ru_input :: "string \<times> bool"
  ru_running :: bool
  ru_wait :: ended
  ru_done :: bool
  ru_cause :: "lost option"
  ru_released :: bool

definition bare_outcome :: "string \<Rightarrow> string \<Rightarrow> string \<Rightarrow> outcome" where
  "bare_outcome state code version = \<lparr>oc_state = state, oc_code = code, oc_version = version, oc_text = '''', oc_truncated = False\<rparr>"

definition cleanup_code :: string where
  "cleanup_code = ''process_cleanup_unconfirmed''"

definition agent_args :: "(hand_request \<Rightarrow> string) \<Rightarrow> config \<Rightarrow> string \<Rightarrow> hand_request \<Rightarrow> string list" where
  "agent_args prompt cfg ws r =
    cf_prefix cfg @ [''--workspace'', ws, ''--resume'', hq_session r, ''--print'', ''--output-format'', ''stream-json'']
     @ (if hq_mode r \<noteq> ''agent'' then [''--mode'', hq_mode r] else []) @ (if hq_trust r then [''--trust''] else [])
     @ [''--'', prompt r]"

definition exit_outcome :: "run_io \<Rightarrow> string \<Rightarrow> cursor_result \<times> string option \<Rightarrow> outcome" where
  "exit_outcome io version p =
    (let (state, code) =
       (if ru_wait io = EndedUnclean then (''unknown'', cleanup_code)
        else if ru_done io then (''unknown'', ''interrupted'')
        else case snd p of Some err \<Rightarrow> (''unknown'', err)
        | None \<Rightarrow> if cr_error (fst p) then (''failed'', ''cli_result_error'')
                  else if ru_wait io \<noteq> EndedWell then (''unknown'', ''cli_exit_nonzero'') else (''completed'', ''''))
     in \<lparr>oc_state = state, oc_code = code, oc_version = version, oc_text = cr_text (fst p), oc_truncated = cr_truncated (fst p)\<rparr>)"

definition run_body :: "run_io \<Rightarrow> hand_request \<Rightarrow> outcome" where
  "run_body io r =
    (case preflight (ru_preflight io) r of
       Inl CleanupFault \<Rightarrow> bare_outcome ''unknown'' cleanup_code ''''
     | Inl (Fault code) \<Rightarrow> bare_outcome ''failed'' code ''''
     | Inr (cfg, version, ws) \<Rightarrow>
        if \<not> ru_accepted io then bare_outcome ''unknown'' ''receipt_unavailable'' ''''
        else if \<not> ru_pipe io \<or> \<not> ru_start io then bare_outcome ''failed'' ''cli_start_failed'' version
        else exit_outcome io version (read_cursor (ru_parse io) (pi_same (ru_preflight io)) (hq_session r) ws (ru_running io) (ru_input io)))"

text \<open>The deferred function of \<open>run\<close>, which names the lost authority.\<close>

definition settle_cause :: "lost option \<Rightarrow> outcome \<Rightarrow> outcome" where
  "settle_cause c oc =
    (if oc_code oc = cleanup_code then oc
     else case c of
       Some LostDevice \<Rightarrow> oc\<lparr>oc_state := ''unknown'', oc_code := ''device_authorization_changed''\<rparr>
     | Some LostAuthorization \<Rightarrow> oc\<lparr>oc_state := ''unknown'', oc_code := ''execution_authorization_lost''\<rparr>
     | _ \<Rightarrow> oc)"

definition run_handoff :: "run_io \<Rightarrow> hand_request \<Rightarrow> outcome" where
  "run_handoff io r =
    (if \<not> ru_guard io then bare_outcome ''unknown'' ''execution_authorization_unconfirmed'' ''''
     else settle_cause (ru_cause io) (run_body io r))"

text \<open>The worker of \<open>Submit\<close>: what it asks \<open>update\<close> to record.\<close>

definition worker_outcome :: "run_io \<Rightarrow> hand_request \<Rightarrow> outcome" where
  "worker_outcome io r =
    (let oc = run_handoff io r in
     if ru_released io then oc else oc\<lparr>oc_state := ''unknown'', oc_code := ''job_release_unconfirmed''\<rparr>)"

end
