(* ===== verification/HandoffRunProps.thy ===== *)
theory HandoffRunProps
  imports HandoffRun
begin

text \<open>
  When a run counts as completed: the reading of the agent's output against the shape such an output has, and the whole run
  with its checks.
\<close>

section \<open>The shape of a confirmed output\<close>

definition in_session :: "string \<Rightarrow> cursor_event \<Rightarrow> bool" where
  "in_session session e \<longleftrightarrow> ce_session e = '''' \<or> ce_session e = session"

definition quiet :: "string \<Rightarrow> cursor_event \<Rightarrow> bool" where
  "quiet session e \<longleftrightarrow> in_session session e \<and> \<not> is_init e \<and> ce_type e \<noteq> ''result''"

definition announces :: "(string \<Rightarrow> string \<Rightarrow> bool) \<Rightarrow> string \<Rightarrow> string \<Rightarrow> cursor_event \<Rightarrow> bool" where
  "announces same session ws e \<longleftrightarrow> is_init e \<and> ce_session e = session \<and> same (ce_cwd e) ws"

definition concludes :: "string \<Rightarrow> cursor_event \<Rightarrow> bool" where
  "concludes session e \<longleftrightarrow> ce_type e = ''result'' \<and> ce_session e = session \<and> ce_result e \<noteq> None
     \<and> (ce_error e = Some True \<or> ce_error e = Some False \<and> ce_subtype e = ''success'')"

definition idle :: "string \<Rightarrow> cursor_event \<Rightarrow> bool" where
  "idle session e \<longleftrightarrow> quiet session e \<and> ce_type e \<noteq> ''tool_call'' \<and> ce_type e \<noteq> ''assistant''"

definition result_of :: "cursor_event \<Rightarrow> cursor_result" where
  "result_of e = \<lparr>cr_text = fst (clip_response (the (ce_result e))), cr_truncated = snd (clip_response (the (ce_result e))),
     cr_error = the (ce_error e)\<rparr>"

text \<open>One announcement, later one result, and nothing of consequence around them.\<close>

definition confirmed :: "(string \<Rightarrow> string \<Rightarrow> bool) \<Rightarrow> string \<Rightarrow> string \<Rightarrow> cursor_event list \<Rightarrow> cursor_result \<Rightarrow> bool" where
  "confirmed same session ws es r \<longleftrightarrow> (\<exists>pre ini mid fin post. es = pre @ ini # mid @ fin # post \<and> list_all (quiet session) pre
     \<and> announces same session ws ini \<and> list_all (quiet session) mid \<and> concludes session fin \<and> list_all (idle session) post
     \<and> r = result_of fin)"

section \<open>Events\<close>

lemma init_not_result: "is_init e \<Longrightarrow> ce_type e \<noteq> ''result''"
  by (simp add: is_init_def)

lemma take_event_quiet: "quiet session e \<Longrightarrow> take_event same session ws sv e s =
  (s, if cs_done s \<and> \<not> idle session e then Some ''events_after_result'' else None)"
  by (auto simp: quiet_def idle_def in_session_def take_event_def take_init_def take_result_def)

lemma take_event_init: "announces same session ws e \<Longrightarrow> \<not> cs_init s \<Longrightarrow> \<not> cs_done s \<Longrightarrow> take_event same session ws sv e s =
  (s\<lparr>cs_init := True\<rparr>, if sv then None else Some ''receipt_unavailable'')"
  using init_not_result by (simp add: announces_def take_event_def take_init_def take_result_def)

lemma take_event_result: "concludes session e \<Longrightarrow> cs_init s \<Longrightarrow> \<not> cs_done s \<Longrightarrow> take_event same session ws sv e s =
  (s\<lparr>cs_done := True, cs_result := result_of e\<rparr>, None)"
  by (auto simp: concludes_def take_event_def take_init_def take_result_def is_init_def result_of_def)

lemma take_event_else:
  assumes "\<not> quiet session e" "announces same session ws e \<Longrightarrow> cs_init s" "concludes session e \<Longrightarrow> \<not> cs_init s \<or> cs_done s"
  shows "\<exists>s1 err. take_event same session ws sv e s = (s1, Some err)"
  using assms unfolding take_event_def take_init_def take_result_def quiet_def in_session_def announces_def concludes_def
  by (cases "ce_error e") auto

lemma quiet_concludes: "quiet session e \<Longrightarrow> \<not> concludes session e"
  by (simp add: quiet_def concludes_def)

lemma quiet_announces: "quiet session e \<Longrightarrow> \<not> announces same session ws e"
  by (simp add: quiet_def announces_def)

section \<open>The reader, phase by phase\<close>

definition lines_total :: "string list \<Rightarrow> nat" where
  "lines_total ls = sum_list (map length ls)"

lemma lines_total_simps [simp]: "lines_total [] = 0" "lines_total (l # ls) = length l + lines_total ls"
  by (simp_all add: lines_total_def)

abbreviation MaxOutput :: nat where "MaxOutput \<equiv> 8 * 1024 * 1024"

lemma read_events_done:
  "cs_init s \<Longrightarrow> cs_done s \<Longrightarrow> n \<le> MaxOutput \<Longrightarrow> read_events parse same session ws sv ls n s = (s', None) \<longleftrightarrow>
   s' = s \<and> n + lines_total ls \<le> MaxOutput \<and> (\<exists>es. map parse ls = map Some es \<and> list_all (idle session) es)"
proof (induction ls arbitrary: n)
  case (Cons l ls)
  show ?case
  proof (cases "MaxOutput < n + length l \<or> parse l = None")
    case True
    then show ?thesis by (auto simp: Cons_eq_map_conv)
  next
    case False
    then obtain e where e: "parse l = Some e" "n + length l \<le> MaxOutput" by auto
    have m: "(\<exists>es. map parse (l # ls) = map Some es \<and> list_all (idle session) es)
      \<longleftrightarrow> idle session e \<and> (\<exists>es. map parse ls = map Some es \<and> list_all (idle session) es)"
      using e by (auto simp: Cons_eq_map_conv)
    show ?thesis
    proof (cases "idle session e")
      case True
      then have "take_event same session ws sv e s = (s, None)" by (simp add: take_event_quiet idle_def)
      then show ?thesis using e Cons.IH [OF Cons.prems(1,2) e(2)] m True by (simp add: add.assoc)
    next
      case False
      then have "\<exists>s1 err. take_event same session ws sv e s = (s1, Some err)"
        using take_event_else [of session e same ws s sv] Cons.prems take_event_quiet [of session e same ws sv s] by (cases "quiet session e") auto
      then show ?thesis using e m False by auto
    qed
  qed
qed auto

text \<open>The same shape, event by event.\<close>

fun rest_ok :: "string \<Rightarrow> cursor_event list \<Rightarrow> cursor_result \<Rightarrow> bool" where
  "rest_ok session [] r = False"
| "rest_ok session (e # es) r = (quiet session e \<and> rest_ok session es r \<or> concludes session e \<and> list_all (idle session) es \<and> r = result_of e)"

fun all_ok :: "(string \<Rightarrow> string \<Rightarrow> bool) \<Rightarrow> string \<Rightarrow> string \<Rightarrow> cursor_event list \<Rightarrow> cursor_result \<Rightarrow> bool" where
  "all_ok same session ws [] r = False"
| "all_ok same session ws (e # es) r = (quiet session e \<and> all_ok same session ws es r \<or> announces same session ws e \<and> rest_ok session es r)"

lemma rest_ok_iff: "rest_ok session es r \<longleftrightarrow> (\<exists>mid fin post. es = mid @ fin # post \<and> list_all (quiet session) mid \<and> concludes session fin
   \<and> list_all (idle session) post \<and> r = result_of fin)" (is "_ \<longleftrightarrow> ?R es")
proof (induction es)
  case (Cons e es)
  have "?R (e # es) \<longleftrightarrow> quiet session e \<and> ?R es \<or> concludes session e \<and> list_all (idle session) es \<and> r = result_of e"
    (is "_ \<longleftrightarrow> ?S")
  proof
    assume "?R (e # es)"
    then obtain mid fin post where m: "e # es = mid @ fin # post" "list_all (quiet session) mid" "concludes session fin"
      "list_all (idle session) post" "r = result_of fin" by blast
    then show ?S by (cases mid) auto
  next
    assume ?S
    then show "?R (e # es)"
    proof
      assume "quiet session e \<and> ?R es"
      then obtain mid fin post where "quiet session e" "es = mid @ fin # post" "list_all (quiet session) mid" "concludes session fin"
        "list_all (idle session) post" "r = result_of fin" by blast
      then show ?thesis by (intro exI [of _ "e # mid"] exI [of _ fin] exI [of _ post]) simp
    next
      assume "concludes session e \<and> list_all (idle session) es \<and> r = result_of e"
      then show ?thesis by (intro exI [of _ "[]"] exI [of _ e] exI [of _ es]) simp
    qed
  qed
  then show ?case using Cons.IH by simp
qed simp

lemma all_ok_iff: "all_ok same session ws es r \<longleftrightarrow> confirmed same session ws es r"
proof -
  have "all_ok same session ws es r \<longleftrightarrow> (\<exists>pre ini more. es = pre @ ini # more \<and> list_all (quiet session) pre \<and> announces same session ws ini \<and> rest_ok session more r)"
    (is "_ \<longleftrightarrow> ?R es")
  proof (induction es)
    case (Cons e es)
    have "?R (e # es) \<longleftrightarrow> quiet session e \<and> ?R es \<or> announces same session ws e \<and> rest_ok session es r" (is "_ \<longleftrightarrow> ?S")
    proof
      assume "?R (e # es)"
      then obtain pre ini more where p: "e # es = pre @ ini # more" "list_all (quiet session) pre" "announces same session ws ini" "rest_ok session more r"
        by blast
      then show ?S by (cases pre) auto
    next
      assume ?S
      then show "?R (e # es)"
      proof
        assume "quiet session e \<and> ?R es"
        then obtain pre ini more where "quiet session e" "es = pre @ ini # more" "list_all (quiet session) pre" "announces same session ws ini"
          "rest_ok session more r" by blast
        then show ?thesis by (intro exI [of _ "e # pre"] exI [of _ ini] exI [of _ more]) simp
      next
        assume "announces same session ws e \<and> rest_ok session es r"
        then show ?thesis by (intro exI [of _ "[]"] exI [of _ e] exI [of _ es]) simp
      qed
    qed
    then show ?case using Cons.IH by simp
  qed simp
  then show ?thesis unfolding confirmed_def rest_ok_iff by blast
qed

definition done_with :: "cursor_scan \<Rightarrow> cursor_result \<Rightarrow> cursor_scan" where
  "done_with s r = \<lparr>cs_init = True, cs_done = True, cs_result = r\<rparr>"

lemma parsed_Cons: "parse l = Some e \<Longrightarrow> (\<exists>es. map parse (l # ls) = map Some es \<and> P es) \<longleftrightarrow> (\<exists>es. map parse ls = map Some es \<and> P (e # es))"
  by (auto simp: Cons_eq_map_conv)

lemma read_events_inited:
  "cs_init s \<Longrightarrow> \<not> cs_done s \<Longrightarrow> n \<le> MaxOutput \<Longrightarrow>
   read_events parse same session ws sv ls n s = (done_with s r, None) \<longleftrightarrow>
   n + lines_total ls \<le> MaxOutput \<and> (\<exists>es. map parse ls = map Some es \<and> rest_ok session es r)"
proof (induction ls arbitrary: n)
  case Nil
  then show ?case by (auto simp: done_with_def)
next
  case (Cons l ls)
  show ?case
  proof (cases "MaxOutput < n + length l \<or> parse l = None")
    case True
    then show ?thesis by (auto simp: Cons_eq_map_conv)
  next
    case False
    then obtain e where e: "parse l = Some e" "n + length l \<le> MaxOutput" by auto
    note p = parsed_Cons [of parse l e ls "\<lambda>es. rest_ok session es r", OF e(1)]
    consider (q) "quiet session e" "\<not> concludes session e" | (c) "concludes session e" "\<not> quiet session e" | (bad) "\<not> quiet session e" "\<not> concludes session e"
      using quiet_concludes by blast
    then show ?thesis
    proof cases
      case q
      then have "take_event same session ws sv e s = (s, None)" using Cons.prems by (simp add: take_event_quiet)
      then show ?thesis using e Cons.IH [OF Cons.prems(1,2) e(2)] q p by (simp add: add.assoc)
    next
      case c
      define s1 where "s1 = s\<lparr>cs_done := True, cs_result := result_of e\<rparr>"
      have t: "take_event same session ws sv e s = (s1, None)" using Cons.prems c by (simp add: take_event_result s1_def)
      have "done_with s r = s1 \<longleftrightarrow> r = result_of e" using Cons.prems by (cases s) (auto simp: done_with_def s1_def)
      moreover have "read_events parse same session ws sv ls (n + length l) s1 = (done_with s r, None) \<longleftrightarrow>
        done_with s r = s1 \<and> n + length l + lines_total ls \<le> MaxOutput \<and> (\<exists>es. map parse ls = map Some es \<and> list_all (idle session) es)"
        by (rule read_events_done) (use Cons.prems e in \<open>simp_all add: s1_def\<close>)
      ultimately show ?thesis using t e c p by (auto simp: add.assoc)
    next
      case bad
      then have "\<exists>s1 err. take_event same session ws sv e s = (s1, Some err)" using Cons.prems by (intro take_event_else) auto
      then show ?thesis using e bad p by auto
    qed
  qed
qed

lemma read_events_fresh:
  "\<not> cs_init s \<Longrightarrow> \<not> cs_done s \<Longrightarrow> n \<le> MaxOutput \<Longrightarrow>
   read_events parse same session ws sv ls n s = (done_with s r, None) \<longleftrightarrow>
   sv \<and> n + lines_total ls \<le> MaxOutput \<and> (\<exists>es. map parse ls = map Some es \<and> all_ok same session ws es r)"
proof (induction ls arbitrary: n)
  case Nil
  then show ?case by (auto simp: done_with_def)
next
  case (Cons l ls)
  show ?case
  proof (cases "MaxOutput < n + length l \<or> parse l = None")
    case True
    then show ?thesis by (auto simp: Cons_eq_map_conv)
  next
    case False
    then obtain e where e: "parse l = Some e" "n + length l \<le> MaxOutput" by auto
    note p = parsed_Cons [of parse l e ls "\<lambda>es. all_ok same session ws es r", OF e(1)]
    consider (q) "quiet session e" "\<not> announces same session ws e" | (a) "announces same session ws e" "\<not> quiet session e"
      | (bad) "\<not> quiet session e" "\<not> announces same session ws e"
      using quiet_announces by blast
    then show ?thesis
    proof cases
      case q
      then have "take_event same session ws sv e s = (s, None)" using Cons.prems by (simp add: take_event_quiet)
      then show ?thesis using e Cons.IH [OF Cons.prems(1,2) e(2)] q p by (simp add: add.assoc)
    next
      case a
      have t: "take_event same session ws sv e s = (s\<lparr>cs_init := True\<rparr>, if sv then None else Some ''receipt_unavailable'')"
        using Cons.prems a by (simp add: take_event_init)
      have "read_events parse same session ws sv ls (n + length l) (s\<lparr>cs_init := True\<rparr>) = (done_with (s\<lparr>cs_init := True\<rparr>) r, None) \<longleftrightarrow>
        n + length l + lines_total ls \<le> MaxOutput \<and> (\<exists>es. map parse ls = map Some es \<and> rest_ok session es r)"
        by (rule read_events_inited) (use Cons.prems e in simp_all)
      then show ?thesis using t e a p by (auto simp: add.assoc done_with_def)
    next
      case bad
      then have "\<exists>s1 err. take_event same session ws sv e s = (s1, Some err)" using Cons.prems
        by (intro take_event_else) auto
      then show ?thesis using e bad p by auto
    qed
  qed
qed

section \<open>The clipped response\<close>

lemma rune_start_boundary: "utf8_valid s \<Longrightarrow> m < length s \<Longrightarrow> rune_start (s ! m) \<Longrightarrow> utf8_valid (take m s)"
proof (induction s arbitrary: m rule: utf8_induct)
  case (Rune s)
  let ?r = "rune_size s"
  consider "m = 0" | "0 < m" "m < ?r" | "?r \<le> m" by linarith
  then show ?case
  proof cases
    case 2
    then show ?thesis using rune_bytes(2) [OF Rune(1)] Rune(5) by (simp add: rune_start_def)
  next
    case 3
    have "utf8_valid (take (m - ?r) (drop ?r s))" by (rule Rune(3)) (use 3 Rune(4,5) in auto)
    moreover have "s \<noteq> []" using Rune(4) by auto
    moreover have "drop ?r (take m s) = take (m - ?r) (drop ?r s)" by (simp add: drop_take)
    ultimately show ?thesis using utf8_rune [of "take m s"] 3 Rune(1) by (simp add: rune_size_take)
  qed simp
qed simp

lemma clip_end_le: "clip_end s n \<le> n" and clip_end_start: "0 < clip_end s n \<Longrightarrow> rune_start (s ! clip_end s n)"
  by (induction n) (auto split: if_splits)

lemma clip_end_greatest: "0 < m \<Longrightarrow> m \<le> n \<Longrightarrow> rune_start (s ! m) \<Longrightarrow> m \<le> clip_end s n"
  by (induction n) (auto simp: le_Suc_eq)

lemma clip_end_near:
  assumes "utf8_valid s" "n < length s"
  shows "n < clip_end s n + 4"
proof -
  obtain m where m: "m \<le> n" "n < m + 4" "utf8_valid (drop m s)" using clamp_prefix [OF assms(1), of n] assms(2) by auto
  have "0 < rune_size (drop m s)" using m(3) utf8_rune [of "drop m s"] m(1) assms(2) by simp
  then have "rune_start (s ! m)" using rune_bytes(1) [of "drop m s"] m(1) assms(2) by (simp add: hd_drop_conv_nth)
  then have "m \<le> clip_end s n" using clip_end_greatest [of m n s] m(1) by (cases "m = 0") auto
  then show ?thesis using m(2) by simp
qed

lemma clip_response_bounds:
  "length (fst (clip_response s)) \<le> MaxResponse \<and> (snd (clip_response s) \<longleftrightarrow> MaxResponse < length s)
   \<and> (\<not> snd (clip_response s) \<longrightarrow> fst (clip_response s) = s)"
  using clip_end_le [of s MaxResponse] by (simp add: clip_response_def)

lemma clip_response_valid:
  assumes "utf8_valid s"
  shows "utf8_valid (fst (clip_response s)) \<and> (\<exists>m. fst (clip_response s) = take m s \<and> min (length s) (MaxResponse - 3) \<le> m)"
proof (cases "MaxResponse < length s")
  case True
  let ?m = "clip_end s MaxResponse"
  have "utf8_valid (take ?m s)"
    using rune_start_boundary [OF assms, of ?m] clip_end_le [of s MaxResponse] clip_end_start [of s MaxResponse] True
    by (cases "?m = 0") auto
  moreover have "MaxResponse < ?m + 4" by (rule clip_end_near [OF assms True])
  ultimately show ?thesis using True by (auto simp: clip_response_def intro!: exI [of _ ?m])
next
  case False
  then show ?thesis using assms by (auto simp: clip_response_def intro!: exI [of _ "length s"])
qed

section \<open>The whole reader\<close>

lemma take_event_init_first: "take_event same session ws sv e s = (s1, x) \<Longrightarrow> (cs_done s \<Longrightarrow> cs_init s) \<Longrightarrow> cs_done s1 \<Longrightarrow> cs_init s1"
  unfolding take_event_def take_init_def take_result_def by (auto split: if_splits)

lemma read_events_init_first:
  "read_events parse same session ws sv ls n s = (s1, x) \<Longrightarrow> (cs_done s \<Longrightarrow> cs_init s) \<Longrightarrow> cs_done s1 \<Longrightarrow> cs_init s1"
proof (induction ls arbitrary: n s)
  case (Cons l ls)
  show ?case
  proof (cases "MaxOutput < n + length l \<or> parse l = None")
    case True
    then show ?thesis using Cons.prems by (auto split: if_splits)
  next
    case False
    then obtain e where e: "parse l = Some e" "n + length l \<le> MaxOutput" by auto
    obtain s2 y where t: "take_event same session ws sv e s = (s2, y)" by (rule prod.exhaust)
    have s2: "cs_done s2 \<Longrightarrow> cs_init s2" using take_event_init_first [OF t] Cons.prems(2) by blast
    show ?thesis
    proof (cases y)
      case None
      then have "read_events parse same session ws sv ls (n + length l) s2 = (s1, x)" using Cons.prems(1) e t by simp
      then show ?thesis using Cons.IH s2 Cons.prems(3) by blast
    next
      case (Some err)
      then show ?thesis using Cons.prems(1,3) e t s2 by simp
    qed
  qed
qed auto

lemma read_cursor_iff:
  "read_cursor parse same session ws sv (input, broken) = (r, None) \<longleftrightarrow>
   \<not> broken \<and> sv \<and> snd (scan_lines input) \<and> lines_total (fst (scan_lines input)) \<le> MaxOutput
   \<and> (\<exists>es. map parse (fst (scan_lines input)) = map Some es \<and> confirmed same session ws es r)"
proof -
  obtain ls fits where l: "scan_lines input = (ls, fits)" by (rule prod.exhaust)
  obtain s x where e: "read_events parse same session ws sv ls 0 fresh_scan = (s, x)" by (rule prod.exhaust)
  have d: "cs_done s \<Longrightarrow> s = done_with fresh_scan (cs_result s)"
    using read_events_init_first [OF e] by (cases s) (simp add: done_with_def fresh_scan_def)
  have "read_cursor parse same session ws sv (input, broken) = (r, None) \<longleftrightarrow> x = None \<and> fits \<and> \<not> broken \<and> cs_done s \<and> cs_result s = r"
    using l e by (cases x) (auto simp: read_cursor_def)
  also have "\<dots> \<longleftrightarrow> fits \<and> \<not> broken \<and> read_events parse same session ws sv ls 0 fresh_scan = (done_with fresh_scan r, None)"
    using d e by (auto simp: done_with_def)
  also have "\<dots> \<longleftrightarrow> fits \<and> \<not> broken \<and> sv \<and> lines_total ls \<le> MaxOutput \<and> (\<exists>es. map parse ls = map Some es \<and> confirmed same session ws es r)"
    using read_events_fresh [of fresh_scan 0 parse same session ws sv ls r] by (auto simp: fresh_scan_def all_ok_iff)
  finally show ?thesis using l by auto
qed

section \<open>The whole run\<close>

definition attachment_ok :: "preflight_io \<Rightarrow> string \<Rightarrow> attachment \<Rightarrow> bool" where
  "attachment_ok io ws a \<longleftrightarrow> (\<exists>file n. pi_target io (at_path a) = Some file \<and> pi_beneath io ws file
     \<and> pi_digest io file = Some (Some (n, map lower_char (at_sha a))) \<and> n \<le> 1024 * 1024)"

text \<open>The repository is the requested one: inside the root, at the revision, clean, with the attachments as described.\<close>

definition material_ok :: "preflight_io \<Rightarrow> hand_request \<Rightarrow> string \<Rightarrow> bool" where
  "material_ok io r ws \<longleftrightarrow> pi_workspace io = Some ws \<and> (\<exists>base. pi_root io = Some base \<and> pi_beneath io base ws)
     \<and> (\<exists>out. probe_output (pi_git io ''rev-parse HEAD'') = Inr out \<and> trim_space out = hq_revision r)
     \<and> (\<exists>out. probe_output (pi_git io ''status --porcelain'') = Inr out \<and> trim_space out = '''')
     \<and> list_all (attachment_ok io ws) (hq_attachments r)"

lemma attachment_fault_none: "attachment_fault io ws a = None \<Longrightarrow> attachment_ok io ws a"
  by (auto simp: attachment_fault_def attachment_ok_def split: option.splits prod.splits if_splits)

lemma attachments_fault_none: "attachments_fault io ws as = None \<Longrightarrow> list_all (attachment_ok io ws) as"
  by (induction as) (auto dest: attachment_fault_none split: option.splits)

lemma git_fault_none: "git_fault io phase command code good = None \<Longrightarrow> \<exists>out. probe_output (pi_git io command) = Inr out \<and> good (trim_space out)"
  by (auto simp: git_fault_def split: sum.splits if_splits)

lemma preflight_cli_workspace:
  assumes "preflight_cli io w c = Inr (d, v, ws)"
  shows "ws = w"
proof -
  obtain hp where h: "probe_output (pi_cli io c ''--help'') = Inr hp"
    using assms by (cases "probe_output (pi_cli io c ''--help'')") (simp_all add: preflight_cli_def)
  obtain out where "probe_output (pi_cli io c ''--version'') = Inr out"
    using assms h by (cases "probe_output (pi_cli io c ''--version'')") (simp_all add: preflight_cli_def split: if_splits)
  then show ?thesis using assms h by (simp add: preflight_cli_def Let_def split: if_splits)
qed

lemma preflight_ok:
  assumes "preflight io r = Inr (cfg, v, ws)"
  shows "material_ok io r ws"
proof -
  obtain base where b: "pi_root io = Some base" using assms by (cases "pi_root io") (auto simp: preflight_def)
  obtain w where w: "pi_workspace io = Some w" using assms b by (cases "pi_workspace io") (auto simp: preflight_def)
  have g: "pi_beneath io base w" "git_fault io ''git_revision'' ''rev-parse HEAD'' ''revision_mismatch'' (\<lambda>rev. rev = hq_revision r) = None"
    "git_fault io ''git_status'' ''status --porcelain'' ''workspace_dirty'' (\<lambda>d. d = '''') = None" "attachments_fault io w (hq_attachments r) = None"
    "\<exists>c d. preflight_cli io w c = Inr (d, v, ws)"
    using assms b w by (auto simp: preflight_def split: if_splits option.splits)
  have "ws = w" using g(5) preflight_cli_workspace by blast
  then show ?thesis using b w g(1,4) git_fault_none [OF g(2)] git_fault_none [OF g(3)] attachments_fault_none [OF g(4)]
    by (auto simp: material_ok_def)
qed

lemma exit_completed:
  assumes "oc_state (exit_outcome io version p) = ''completed''"
  shows "ru_wait io = EndedWell \<and> \<not> ru_done io \<and> snd p = None \<and> \<not> cr_error (fst p) \<and> oc_code (exit_outcome io version p) = ''''
    \<and> oc_text (exit_outcome io version p) = cr_text (fst p)"
  using assms unfolding exit_outcome_def by (auto simp: Let_def split: if_splits option.splits)

lemma body_completed:
  assumes "oc_state (run_body io r) = ''completed''"
  obtains cfg version ws where "preflight (ru_preflight io) r = Inr (cfg, version, ws)" "ru_accepted io" "run_body io r = exit_outcome io version
    (read_cursor (ru_parse io) (pi_same (ru_preflight io)) (hq_session r) ws (ru_running io) (ru_input io))"
proof (cases "preflight (ru_preflight io) r")
  case (Inl x)
  then show thesis using assms by (cases x) (simp_all add: run_body_def bare_outcome_def)
next
  case (Inr b)
  obtain cfg version ws where "b = (cfg, version, ws)" by (rule prod_cases3)
  then show thesis using assms Inr that by (auto simp: run_body_def bare_outcome_def split: if_splits)
qed

lemma completed_run:
  assumes "oc_state (worker_outcome io r) = ''completed''"
  shows "\<exists>ws es res. material_ok (ru_preflight io) r ws
    \<and> map (ru_parse io) (fst (scan_lines (fst (ru_input io)))) = map Some es \<and> confirmed (pi_same (ru_preflight io)) (hq_session r) ws es res
    \<and> \<not> cr_error res \<and> oc_text (worker_outcome io r) = cr_text res \<and> ru_accepted io \<and> ru_wait io = EndedWell \<and> ru_released io
    \<and> \<not> ru_done io \<and> ru_cause io \<noteq> Some LostDevice \<and> ru_cause io \<noteq> Some LostAuthorization"
proof -
  have rel: "ru_released io" "oc_state (run_handoff io r) = ''completed''" "worker_outcome io r = run_handoff io r"
    using assms by (auto simp: worker_outcome_def Let_def split: if_splits)
  have body: "oc_state (run_body io r) = ''completed''"
    using rel(2) by (auto simp: run_handoff_def settle_cause_def bare_outcome_def split: if_splits option.splits lost.splits)
  then obtain cfg version ws where b: "preflight (ru_preflight io) r = Inr (cfg, version, ws)" "ru_accepted io"
    "run_body io r = exit_outcome io version (read_cursor (ru_parse io) (pi_same (ru_preflight io)) (hq_session r) ws (ru_running io) (ru_input io))"
    by (rule body_completed)
  note ex = exit_completed [OF body [unfolded b(3)], folded b(3)]
  have "oc_code (run_body io r) \<noteq> cleanup_code" using ex by (simp add: cleanup_code_def)
  then have c: "run_handoff io r = run_body io r \<and> ru_cause io \<noteq> Some LostDevice \<and> ru_cause io \<noteq> Some LostAuthorization"
    using rel(2) by (auto simp: run_handoff_def settle_cause_def bare_outcome_def split: if_splits option.splits lost.splits)
  obtain input broken where i: "ru_input io = (input, broken)" by (rule prod.exhaust)
  obtain res where res: "read_cursor (ru_parse io) (pi_same (ru_preflight io)) (hq_session r) ws (ru_running io) (input, broken) = (res, None)"
    using ex i by (metis prod.collapse)
  show ?thesis
    using preflight_ok [OF b(1)] read_cursor_iff [THEN iffD1, OF res] ex rel c b(2) res i by auto
qed

section \<open>Properties\<close>

text \<open>C19. The reader of the agent's output accepts exactly the confirmed ones. It returns a result without an error if and only if the
  output could be read to its end, in lines and in total within the limits, the receipt could be updated, every line is an event, and
  the events are one announcement of this session and workspace, later one result of it, nothing of another session, and no work after
  the result; what it returns is that result, clipped.\<close>

theorem cursor_result_exact:
  "read_cursor parse same session ws saved_init (input, broken) = (r, None) \<longleftrightarrow>
   \<not> broken \<and> saved_init \<and> snd (scan_lines input) \<and> sum_list (map length (fst (scan_lines input))) \<le> 8 * 1024 * 1024
   \<and> (\<exists>es. map parse (fst (scan_lines input)) = map Some es \<and> confirmed same session ws es r)"
  using read_cursor_iff by (simp add: lines_total_def)

text \<open>C18. Completed means done. A worker records the state completed only when the repository was inside the root, at the requested
  revision, clean and with the attachments as described, the receipt had been updated, the output was confirmed with a result that is
  no error and is the recorded text, the process ended well and was accounted for, and neither the device's context nor the
  execution's authorization was lost.\<close>

theorem completed_means_done:
  assumes "oc_state (worker_outcome io r) = ''completed''"
  shows "\<exists>ws es res. material_ok (ru_preflight io) r ws
    \<and> map (ru_parse io) (fst (scan_lines (fst (ru_input io)))) = map Some es \<and> confirmed (pi_same (ru_preflight io)) (hq_session r) ws es res
    \<and> \<not> cr_error res \<and> oc_text (worker_outcome io r) = cr_text res \<and> ru_accepted io \<and> ru_wait io = EndedWell \<and> ru_released io
    \<and> \<not> ru_done io \<and> ru_cause io \<noteq> Some LostDevice \<and> ru_cause io \<noteq> Some LostAuthorization"
  by (rule completed_run [OF assms])

definition demo_checks_io :: preflight_io where
  "demo_checks_io = \<lparr>pi_root = Some ''/w'', pi_workspace = Some ''/w/p'', pi_beneath = (\<lambda>b t. take (length b) t = b), pi_same = (=),
     pi_git = (\<lambda>c. (if c = ''rev-parse HEAD'' then [replicate 40 CHR ''a''] else if c = ''rev-parse --show-toplevel'' then [''/w/p''] else [], EndedWell)),
     pi_target = (\<lambda>p. None), pi_stat = (\<lambda>_. None), pi_digest = (\<lambda>_. None), pi_adapter = Some \<lparr>cf_executable = ''/a'', cf_prefix = []\<rparr>,
     pi_regular = (\<lambda>_. True), pi_abs = (\<lambda>_. True),
     pi_cli = (\<lambda>_ a. (if a = ''--help'' then [''--resume --workspace --mode --print '', ''--output-format stream-json''] else [''1.0''], EndedWell)),
     pi_deadline = (\<lambda>_. InTime)\<rparr>"

definition demo_work :: hand_request where
  "demo_work = \<lparr>hq_id = ''r1'', hq_workspace = ''/w/p'', hq_revision = replicate 40 CHR ''a'', hq_agent = ''cursor'',
     hq_session = ''s'', hq_mode = ''ask'', hq_prompt = ''fix'', hq_attachments = [], hq_trust = False, hq_timeout = 60\<rparr>"

definition demo_parse :: "string \<Rightarrow> cursor_event option" where
  "demo_parse l =
    (if l = ''i'' then Some \<lparr>ce_type = ''system'', ce_subtype = ''init'', ce_session = ''s'', ce_cwd = ''/w/p'', ce_error = None, ce_result = None\<rparr>
     else if l = ''r'' then Some \<lparr>ce_type = ''result'', ce_subtype = ''success'', ce_session = ''s'', ce_cwd = '''', ce_error = Some False,
       ce_result = Some ''done''\<rparr>
     else None)"

definition demo_run :: run_io where
  "demo_run = \<lparr>ru_guard = True, ru_preflight = demo_checks_io, ru_accepted = True, ru_pipe = True, ru_start = True, ru_parse = demo_parse,
     ru_input = (''i'' @ [CHR 0x0A] @ ''r'' @ [CHR 0x0A], False), ru_running = True, ru_wait = EndedWell, ru_done = False,
     ru_cause = None, ru_released = True\<rparr>"

lemma probe_chunks: "sum_list (map length ps) \<le> 64 * 1024 \<Longrightarrow> probe_output (ps, EndedWell) = Inr (concat ps)"
proof -
  have "length (fst b) + sum_list (map length ps) \<le> 64 * 1024 \<Longrightarrow> \<not> snd b \<Longrightarrow> fold bounded_write ps b = (fst b @ concat ps, False)" for b
    by (induction ps arbitrary: b) (auto simp: bounded_write_def Let_def)
  then show "sum_list (map length ps) \<le> 64 * 1024 \<Longrightarrow> ?thesis" by (simp add: probe_output_def Let_def)
qed

lemma demo_preflight: "preflight demo_checks_io demo_work = Inr (\<lparr>cf_executable = ''/a'', cf_prefix = []\<rparr>, ''1.0'', ''/w/p'')"
proof -
  have t: "trim_space (replicate 40 CHR ''a'') = replicate 40 CHR ''a''" "trim_space ''/w/p'' = ''/w/p''" "trim_space ''1.0'' = ''1.0''" "trim_space [] = []"
    by code_simp+
  have f: "list_all (contains_string (''--resume --workspace --mode --print '' @ ''--output-format stream-json'')) cli_flags" by code_simp
  have c: "preflight_cli demo_checks_io ''/w/p'' \<lparr>cf_executable = ''/a'', cf_prefix = []\<rparr> = Inr (\<lparr>cf_executable = ''/a'', cf_prefix = []\<rparr>, ''1.0'', ''/w/p'')"
    using t f by (simp add: preflight_cli_def demo_checks_io_def probe_chunks)
  show ?thesis
    using c t by (simp add: preflight_def git_fault_def demo_checks_io_def demo_work_def probe_chunks config_valid_def)
qed

lemma demo_reading: "read_cursor demo_parse (=) ''s'' ''/w/p'' True (''i'' @ [CHR 0x0A] @ ''r'' @ [CHR 0x0A], False)
    = (\<lparr>cr_text = ''done'', cr_truncated = False, cr_error = False\<rparr>, None)"
proof -
  have n: "scan_lines [] = ([], True)" by (simp add: scan_lines.simps)
  have l: "scan_lines (''i'' @ [CHR 0x0A] @ ''r'' @ [CHR 0x0A]) = ([''i'', ''r''], True)"
    using n by (subst scan_lines.simps, simp add: Let_def drop_cr_def, subst scan_lines.simps, simp add: Let_def drop_cr_def)
  show ?thesis unfolding read_cursor_def fst_conv l
    by (simp add: demo_parse_def take_event_def take_init_def take_result_def is_init_def fresh_scan_def clip_response_def)
qed

theorem completed_means_done_witness:
  "oc_text (worker_outcome demo_run demo_work) = ''done'' \<and> (\<exists>ws. material_ok (ru_preflight demo_run) demo_work ws)"
proof -
  have f: "ru_guard demo_run" "ru_preflight demo_run = demo_checks_io" "ru_accepted demo_run" "ru_pipe demo_run" "ru_start demo_run"
    "ru_parse demo_run = demo_parse" "ru_input demo_run = (''i'' @ [CHR 0x0A] @ ''r'' @ [CHR 0x0A], False)" "ru_running demo_run"
    "ru_wait demo_run = EndedWell" "\<not> ru_done demo_run" "ru_cause demo_run = None" "ru_released demo_run"
    "pi_same demo_checks_io = (=)" "hq_session demo_work = ''s''"
    by (simp_all add: demo_run_def demo_checks_io_def demo_work_def)
  have b: "run_body demo_run demo_work = \<lparr>oc_state = ''completed'', oc_code = '''', oc_version = ''1.0'', oc_text = ''done'', oc_truncated = False\<rparr>"
    using demo_reading by (simp add: run_body_def f demo_preflight exit_outcome_def)
  then have w: "worker_outcome demo_run demo_work = \<lparr>oc_state = ''completed'', oc_code = '''', oc_version = ''1.0'', oc_text = ''done'', oc_truncated = False\<rparr>"
    by (simp add: worker_outcome_def run_handoff_def settle_cause_def f)
  show ?thesis using completed_means_done [of demo_run demo_work] w by auto
qed
end
