(* ===== verification/Approval.thy ===== *)
theory Approval
  imports Protocol
begin

text \<open>
  The approvals of \<open>internal/noderun/approval.go\<close>: a command that needs a person's consent is asked to the subscribed heads. An
  ask is its entry in \<open>ah_asks\<close>, with the channel of capacity one its answer comes through; \<open>ah_sends\<close> are the calls of
  \<open>respond\<close> and \<open>cancelExec\<close> between their lock and their send, so every interleaving of them is a run.
\<close>

section \<open>The hub\<close>

record ask =
  as_id :: string
  as_exec :: string
  as_preview :: string
  as_created :: string
  as_channel :: "(bool \<times> string) option"
  as_over :: "(bool \<times> string) option"

record approval_hub =
  ah_subs :: "nat list"
  ah_pending :: "(string, nat) gomap"
  ah_by_exec :: "(string, string) gomap"
  ah_seq :: "64 word"
  ah_asks :: "ask list"
  ah_sends :: "(nat \<times> bool \<times> string) list"

definition new_approval_hub :: approval_hub where
  "new_approval_hub = \<lparr>ah_subs = [], ah_pending = [], ah_by_exec = [], ah_seq = 0, ah_asks = [], ah_sends = []\<rparr>"

fun itoa_loop :: "nat \<Rightarrow> string \<Rightarrow> string" where
  "itoa_loop n b = (if n = 0 then b else itoa_loop (n div 10) (char_of (48 + n mod 10) # b))"

declare itoa_loop.simps [simp del]

definition itoa :: "64 word \<Rightarrow> string" where
  "itoa n = (if n = 0 then ''0'' else itoa_loop (unat n) [])"

definition subscribe :: "nat \<Rightarrow> approval_hub \<Rightarrow> approval_hub" where
  "subscribe c h = h\<lparr>ah_subs := List.insert c (ah_subs h)\<rparr>"

definition unsubscribe :: "nat \<Rightarrow> approval_hub \<Rightarrow> approval_hub" where
  "unsubscribe c h = h\<lparr>ah_subs := removeAll c (ah_subs h)\<rparr>"

text \<open>\<open>ask\<close> up to its wait. Without an answer at once the result is the new ask and the heads it is written to.\<close>

definition ask_begin ::
  "bool \<Rightarrow> string \<Rightarrow> string \<Rightarrow> string \<Rightarrow> approval_hub \<Rightarrow> approval_hub \<times> ((bool \<times> string) + nat \<times> nat list)" where
  "ask_begin cancelled exec preview now h =
    (if cancelled then (h, Inl (False, Cancelled))
     else if ah_subs h = [] then (h, Inl (False, PolicyDeny))
     else let s = ah_seq h + 1; i = ''a'' @ itoa s; n = length (ah_asks h);
              a = \<lparr>as_id = i, as_exec = exec, as_preview = preview, as_created = now, as_channel = None, as_over = None\<rparr>
          in (h\<lparr>ah_seq := s, ah_pending := mput i n (ah_pending h), ah_by_exec := mput exec i (ah_by_exec h), ah_asks := ah_asks h @ [a]\<rparr>,
              Inr (n, ah_subs h)))"

definition clear_ask :: "string \<Rightarrow> string \<Rightarrow> approval_hub \<Rightarrow> approval_hub" where
  "clear_ask i exec h = h\<lparr>ah_pending := mdel i (ah_pending h),
     ah_by_exec := (if mget (ah_by_exec h) exec = Some i then mdel exec (ah_by_exec h) else ah_by_exec h)\<rparr>"

text \<open>What the wait of \<open>ask\<close> ends with.\<close>

datatype wake = WakeDone | WakeAnswer | WakeTimer

definition ask_end :: "wake \<Rightarrow> nat \<Rightarrow> approval_hub \<Rightarrow> approval_hub option" where
  "ask_end w n h =
    (if length (ah_asks h) \<le> n \<or> as_over (ah_asks h ! n) \<noteq> None then None
     else let a = ah_asks h ! n;
              finish = (\<lambda>b r. Some ((clear_ask (as_id a) (as_exec a) h)\<lparr>ah_asks := (ah_asks h)[n := b\<lparr>as_over := Some r\<rparr>]\<rparr>))
          in case w of
               WakeDone \<Rightarrow> finish a (False, Cancelled)
             | WakeTimer \<Rightarrow> finish a (False, ApprovalTimeout)
             | WakeAnswer \<Rightarrow> (case as_channel a of
                 None \<Rightarrow> None
               | Some (allow, code) \<Rightarrow> finish (a\<lparr>as_channel := None\<rparr>)
                   (if allow then (True, '''') else if code = '''' then (False, PolicyDeny) else (False, code))))"

definition respond_claim :: "string \<Rightarrow> bool \<Rightarrow> approval_hub \<Rightarrow> approval_hub option" where
  "respond_claim i allow h =
    (case mget (ah_pending h) i of
       None \<Rightarrow> None
     | Some n \<Rightarrow> Some (h\<lparr>ah_pending := mdel i (ah_pending h), ah_sends := ah_sends h @ [(n, allow, if allow then '''' else PolicyDeny)]\<rparr>))"

definition cancel_lookup :: "string \<Rightarrow> approval_hub \<Rightarrow> approval_hub" where
  "cancel_lookup exec h =
    (case mget (ah_by_exec h) exec of
       None \<Rightarrow> h
     | Some i \<Rightarrow> (case mget (ah_pending h) i of
         None \<Rightarrow> h
       | Some n \<Rightarrow> h\<lparr>ah_sends := ah_sends h @ [(n, False, Cancelled)]\<rparr>))"

text \<open>The send of a call, in any order; a full channel drops it.\<close>

definition send_answer :: "nat \<Rightarrow> approval_hub \<Rightarrow> approval_hub" where
  "send_answer k h =
    (let (n, d) = ah_sends h ! k; a = ah_asks h ! n
     in h\<lparr>ah_sends := take k (ah_sends h) @ drop (Suc k) (ah_sends h),
          ah_asks := (ah_asks h)[n := (if as_channel a = None then a\<lparr>as_channel := Some d\<rparr> else a)]\<rparr>)"

section \<open>Runs\<close>

datatype approval_event = Answered string bool | Other

inductive approval_run :: "approval_event list \<Rightarrow> approval_hub \<Rightarrow> bool" where
  run_start: "approval_run [] new_approval_hub"
| run_subscribe: "approval_run es h \<Longrightarrow> approval_run (es @ [Other]) (subscribe c h)"
| run_unsubscribe: "approval_run es h \<Longrightarrow> approval_run (es @ [Other]) (unsubscribe c h)"
| run_ask: "approval_run es h \<Longrightarrow> ask_begin done exec preview now h = (h1, r) \<Longrightarrow> approval_run (es @ [Other]) h1"
| run_end: "approval_run es h \<Longrightarrow> ask_end w n h = Some h1 \<Longrightarrow> approval_run (es @ [Other]) h1"
| run_respond: "approval_run es h \<Longrightarrow> respond_claim i allow h = Some h1 \<Longrightarrow> approval_run (es @ [Answered i allow]) h1"
| run_cancel: "approval_run es h \<Longrightarrow> approval_run (es @ [Other]) (cancel_lookup exec h)"
| run_send: "approval_run es h \<Longrightarrow> k < length (ah_sends h) \<Longrightarrow> approval_run (es @ [Other]) (send_answer k h)"

section \<open>Identifiers\<close>

definition decimal_value :: "string \<Rightarrow> nat" where
  "decimal_value s = foldl (\<lambda>v c. v * 10 + (of_char c - 48)) 0 s"

lemma itoa_loop_value: "\<exists>p. itoa_loop n b = p @ b \<and> (\<forall>v. foldl (\<lambda>v c. v * 10 + (of_char c - 48)) v p = v * 10 ^ length p + n) \<and> n < 10 ^ length p"
proof (induction n b rule: itoa_loop.induct)
  case (1 n b)
  show ?case
  proof (cases "n = 0")
    case True
    then show ?thesis by (intro exI [of _ "[]"]) (simp add: itoa_loop.simps)
  next
    case False
    let ?d = "char_of (48 + n mod 10) :: char"
    obtain p where p: "itoa_loop (n div 10) (?d # b) = p @ ?d # b"
      "\<forall>v. foldl (\<lambda>v c. v * 10 + (of_char c - 48)) v p = v * 10 ^ length p + n div 10" "n div 10 < 10 ^ length p"
      using 1 [OF False] by blast
    have d: "of_char ?d = 48 + n mod 10" by simp
    have "n < 10 ^ length (p @ [?d])" using p(3) by simp
    moreover have "itoa_loop n b = (p @ [?d]) @ b" using p(1) False by (subst itoa_loop.simps) simp
    moreover have "\<forall>v. foldl (\<lambda>v c. v * 10 + (of_char c - 48)) v (p @ [?d]) = v * 10 ^ length (p @ [?d]) + n"
      using p(2) d by (simp add: algebra_simps)
    ultimately show ?thesis by blast
  qed
qed

lemma itoa_inj: "itoa a = itoa b \<Longrightarrow> a = b"
proof -
  have "decimal_value (itoa n) = unat n" for n
    using itoa_loop_value [of "unat n" "[]"] by (auto simp: itoa_def decimal_value_def unat_eq_zero)
  then show "itoa a = itoa b \<Longrightarrow> a = b" by (metis word_unat_eq_iff)
qed

section \<open>Answers\<close>

text \<open>The answers that were accepted for an identifier, in order.\<close>

definition answers :: "approval_event list \<Rightarrow> string \<Rightarrow> bool list" where
  "answers es i = concat (map (\<lambda>e. case e of Answered j b \<Rightarrow> if j = i then [b] else [] | Other \<Rightarrow> []) es)"

lemma answers_simps [simp]: "answers [] i = []" "answers (es @ [Other]) i = answers es i"
    "answers (es @ [Answered j b]) i = answers es i @ (if j = i then [b] else [])"
  by (simp_all add: answers_def)

definition ask_id :: "nat \<Rightarrow> string" where
  "ask_id n = ''a'' @ itoa (of_nat (Suc n))"

lemma ask_id_inj: "m < 2 ^ 64 - 1 \<Longrightarrow> n < 2 ^ 64 - 1 \<Longrightarrow> ask_id m = ask_id n \<Longrightarrow> m = n"
proof -
  assume l: "m < 2 ^ 64 - 1" "n < 2 ^ 64 - 1" and "ask_id m = ask_id n"
  then have "itoa (of_nat (Suc m)) = itoa (of_nat (Suc n))" by (simp only: ask_id_def same_append_eq)
  then have "(of_nat (Suc m) :: 64 word) = of_nat (Suc n)" by (rule itoa_inj)
  then have "unat (of_nat (Suc m) :: 64 word) = unat (of_nat (Suc n) :: 64 word)" by simp
  then show "m = n" using l by (simp only: unat_of_nat) simp
qed

definition yes :: "approval_event list \<Rightarrow> approval_hub \<Rightarrow> nat \<Rightarrow> bool \<times> string \<Rightarrow> bool" where
  "yes es h n d \<longleftrightarrow> n < length (ah_asks h) \<and> (fst d \<longrightarrow> answers es (ask_id n) = [True])"

definition hub_ok :: "approval_event list \<Rightarrow> approval_hub \<Rightarrow> bool" where
  "hub_ok es h \<longleftrightarrow> ah_seq h = of_nat (length (ah_asks h))
     \<and> (\<forall>n < length (ah_asks h). as_id (ah_asks h ! n) = ask_id n)
     \<and> (\<forall>i n. mget (ah_pending h) i = Some n \<longrightarrow> n < length (ah_asks h) \<and> i = ask_id n \<and> answers es i = [])
     \<and> (\<forall>n d. (n, d) \<in> set (ah_sends h) \<longrightarrow> yes es h n d)
     \<and> (\<forall>n < length (ah_asks h). \<forall>d. as_channel (ah_asks h ! n) = Some d \<or> as_over (ah_asks h ! n) = Some d \<longrightarrow> yes es h n d)
     \<and> (\<forall>i. length (answers es i) \<le> 1 \<and> (answers es i \<noteq> [] \<longrightarrow> (\<exists>n < length (ah_asks h). i = ask_id n)))"

lemma hub_okD:
  assumes "hub_ok es h"
  shows "ah_seq h = of_nat (length (ah_asks h))" "n < length (ah_asks h) \<Longrightarrow> as_id (ah_asks h ! n) = ask_id n"
    "mget (ah_pending h) i = Some n \<Longrightarrow> n < length (ah_asks h) \<and> i = ask_id n \<and> answers es i = []"
    "(n, d) \<in> set (ah_sends h) \<Longrightarrow> yes es h n d"
    "n < length (ah_asks h) \<Longrightarrow> as_channel (ah_asks h ! n) = Some d \<Longrightarrow> yes es h n d"
    "n < length (ah_asks h) \<Longrightarrow> as_over (ah_asks h ! n) = Some d \<Longrightarrow> yes es h n d"
    "length (answers es i) \<le> 1" "answers es i \<noteq> [] \<Longrightarrow> \<exists>n < length (ah_asks h). i = ask_id n"
  using assms unfolding hub_ok_def by blast+

lemma hub_okI:
  assumes "ah_seq h = of_nat (length (ah_asks h))" "\<And>n. n < length (ah_asks h) \<Longrightarrow> as_id (ah_asks h ! n) = ask_id n"
    "\<And>i n. mget (ah_pending h) i = Some n \<Longrightarrow> n < length (ah_asks h) \<and> i = ask_id n \<and> answers es i = []"
    "\<And>n d. (n, d) \<in> set (ah_sends h) \<Longrightarrow> yes es h n d"
    "\<And>n d. n < length (ah_asks h) \<Longrightarrow> as_channel (ah_asks h ! n) = Some d \<Longrightarrow> yes es h n d"
    "\<And>n d. n < length (ah_asks h) \<Longrightarrow> as_over (ah_asks h ! n) = Some d \<Longrightarrow> yes es h n d"
    "\<And>i. length (answers es i) \<le> 1" "\<And>i. answers es i \<noteq> [] \<Longrightarrow> \<exists>n < length (ah_asks h). i = ask_id n"
  shows "hub_ok es h"
  using assms unfolding hub_ok_def by blast

lemma yes_cong: "length (ah_asks h) = length (ah_asks h1) \<Longrightarrow> (\<And>i. answers es i = answers es1 i) \<Longrightarrow> yes es h n d = yes es1 h1 n d"
  by (simp add: yes_def)

text \<open>A step that only touches the state of one ask, removes pending entries or sends.\<close>

lemma hub_ok_touch:
  assumes "hub_ok es h" "ah_seq h1 = ah_seq h" "ah_asks h1 = (ah_asks h)[n := a]" "as_id a = as_id (ah_asks h ! n)"
    "\<And>i m. mget (ah_pending h1) i = Some m \<Longrightarrow> mget (ah_pending h) i = Some m" "set (ah_sends h1) \<subseteq> set (ah_sends h)"
    "\<And>d. as_channel a = Some d \<or> as_over a = Some d \<Longrightarrow> n < length (ah_asks h) \<Longrightarrow> yes es h n d"
  shows "hub_ok (es @ [Other]) h1"
proof (rule hub_okI)
  have l: "length (ah_asks h1) = length (ah_asks h)" using assms(3) by simp
  have y: "yes (es @ [Other]) h1 m d = yes es h m d" for m d using l by (intro yes_cong) simp_all
  note ok = hub_okD [OF assms(1)]
  show "ah_seq h1 = of_nat (length (ah_asks h1))" using ok(1) l assms(2) by simp
  show "as_id (ah_asks h1 ! m) = ask_id m" if "m < length (ah_asks h1)" for m
    using that ok(2) l assms(3,4) by (cases "m = n") auto
  show "m < length (ah_asks h1) \<and> i = ask_id m \<and> answers (es @ [Other]) i = []" if "mget (ah_pending h1) i = Some m" for i m
    using ok(3) [OF assms(5) [OF that]] l by auto
  show "yes (es @ [Other]) h1 m d" if "(m, d) \<in> set (ah_sends h1)" for m d using that assms(6) ok(4) y by blast
  show "yes (es @ [Other]) h1 m d" if "m < length (ah_asks h1)" "as_channel (ah_asks h1 ! m) = Some d" for m d
    using that assms(3,7) ok(5) [of m d] y l by (cases "m = n") auto
  show "yes (es @ [Other]) h1 m d" if "m < length (ah_asks h1)" "as_over (ah_asks h1 ! m) = Some d" for m d
    using that assms(3,7) ok(6) [of m d] y l by (cases "m = n") auto
  show "length (answers (es @ [Other]) i) \<le> 1" for i using ok(7) by simp
  show "\<exists>m<length (ah_asks h1). i = ask_id m" if "answers (es @ [Other]) i \<noteq> []" for i using that ok(8) l by simp
qed

lemma hub_ok_same: "hub_ok es h \<Longrightarrow> ah_seq h1 = ah_seq h \<Longrightarrow> ah_asks h1 = ah_asks h \<Longrightarrow> ah_pending h1 = ah_pending h \<Longrightarrow> ah_sends h1 = ah_sends h
  \<Longrightarrow> hub_ok (es @ [Other]) h1"
  unfolding hub_ok_def yes_def by simp

lemma hub_ok_ask:
  assumes "hub_ok es h" "ask_begin done exec preview now h = (h1, r)" "length (ah_asks h1) < 2 ^ 64 - 1"
  shows "hub_ok (es @ [Other]) h1"
proof (cases "done \<or> ah_subs h = []")
  case True
  then have "h1 = h" using assms(2) by (auto simp: ask_begin_def split: if_splits)
  then show ?thesis using hub_ok_same [OF assms(1)] by simp
next
  case False
  note ok = hub_okD [OF assms(1)]
  let ?n = "length (ah_asks h)"
  have s: "ah_seq h + 1 = of_nat (Suc ?n)" using ok(1) by simp
  define a where "a = \<lparr>as_id = ask_id ?n, as_exec = exec, as_preview = preview, as_created = now, as_channel = None, as_over = None\<rparr>"
  have a: "as_id a = ask_id ?n" "as_channel a = None" "as_over a = None" "ah_asks h1 = ah_asks h @ [a]"
    and h1: "ah_seq h1 = of_nat (Suc ?n)" "ah_pending h1 = mput (ask_id ?n) ?n (ah_pending h)" "ah_sends h1 = ah_sends h"
    using assms(2) False unfolding ask_begin_def Let_def s ask_id_def a_def by (auto simp del: of_nat_Suc)
  have fresh: "answers es (ask_id ?n) = []"
  proof (rule ccontr)
    assume "answers es (ask_id ?n) \<noteq> []"
    then obtain m where "m < ?n" "ask_id ?n = ask_id m" using ok(8) by blast
    then show False using ask_id_inj [of ?n m] assms(3) a(4) by simp
  qed
  have y: "yes es h m d \<Longrightarrow> yes (es @ [Other]) h1 m d" for m d using a(4) by (simp add: yes_def)
  show ?thesis
  proof (rule hub_okI)
    show "ah_seq h1 = of_nat (length (ah_asks h1))" using h1 a(4) by simp
    show "as_id (ah_asks h1 ! m) = ask_id m" if "m < length (ah_asks h1)" for m
      using that a(1,4) ok(2) by (auto simp: nth_append less_Suc_eq)
    show "m < length (ah_asks h1) \<and> i = ask_id m \<and> answers (es @ [Other]) i = []" if "mget (ah_pending h1) i = Some m" for i m
      using that ok(3) [of i m] h1(2) a(4) fresh by (cases "i = ask_id ?n") auto
    show "yes (es @ [Other]) h1 m d" if "(m, d) \<in> set (ah_sends h1)" for m d using that ok(4) h1 y by simp
    have nth: "m < ?n \<and> ah_asks h1 ! m = ah_asks h ! m \<or> ah_asks h1 ! m = a" if "m < length (ah_asks h1)" for m
      using that by (auto simp: a(4) nth_append less_Suc_eq)
    show "yes (es @ [Other]) h1 m d" if "m < length (ah_asks h1)" "as_channel (ah_asks h1 ! m) = Some d" for m d
      using nth [OF that(1)] that(2) a(2) ok(5) y by (metis option.distinct(1))
    show "yes (es @ [Other]) h1 m d" if "m < length (ah_asks h1)" "as_over (ah_asks h1 ! m) = Some d" for m d
      using nth [OF that(1)] that(2) a(3) ok(6) y by (metis option.distinct(1))
    show "length (answers (es @ [Other]) i) \<le> 1" for i using ok(7) by simp
    show "\<exists>m<length (ah_asks h1). i = ask_id m" if "answers (es @ [Other]) i \<noteq> []" for i
      using that ok(8) [of i] a(4) by (auto intro: less_SucI)
  qed
qed

lemma hub_ok_respond:
  assumes "hub_ok es h" "respond_claim i allow h = Some h1" "length (ah_asks h) < 2 ^ 64 - 1"
  shows "hub_ok (es @ [Answered i allow]) h1"
proof -
  note ok = hub_okD [OF assms(1)]
  obtain n where n: "mget (ah_pending h) i = Some n"
      "h1 = h\<lparr>ah_pending := mdel i (ah_pending h), ah_sends := ah_sends h @ [(n, allow, if allow then '''' else PolicyDeny)]\<rparr>"
    using assms(2) by (auto simp: respond_claim_def split: option.splits)
  then have i: "n < length (ah_asks h)" "i = ask_id n" "answers es i = []" using ok(3) by blast+
  have y: "yes (es @ [Answered i allow]) h1 m d" if "yes es h m d" for m d
    using that i n(2) by (auto simp: yes_def)
  show ?thesis
  proof (rule hub_okI)
    show "ah_seq h1 = of_nat (length (ah_asks h1))" using ok(1) n(2) by simp
    show "as_id (ah_asks h1 ! m) = ask_id m" if "m < length (ah_asks h1)" for m using that ok(2) n(2) by simp
    show "m < length (ah_asks h1) \<and> j = ask_id m \<and> answers (es @ [Answered i allow]) j = []" if "mget (ah_pending h1) j = Some m" for j m
      using that ok(3) [of j m] n(2) by (cases "j = i") auto
    show "yes (es @ [Answered i allow]) h1 m d" if "(m, d) \<in> set (ah_sends h1)" for m d
    proof (cases "(m, d) \<in> set (ah_sends h)")
      case True
      then show ?thesis using ok(4) y by blast
    next
      case False
      then have "m = n" "d = (allow, if allow then '''' else PolicyDeny)" using that n(2) by auto
      then show ?thesis using i n(2) by (simp add: yes_def)
    qed
    show "yes (es @ [Answered i allow]) h1 m d" if "m < length (ah_asks h1)" "as_channel (ah_asks h1 ! m) = Some d" for m d
      using that ok(5) n(2) y by simp
    show "yes (es @ [Answered i allow]) h1 m d" if "m < length (ah_asks h1)" "as_over (ah_asks h1 ! m) = Some d" for m d
      using that ok(6) n(2) y by simp
    show "length (answers (es @ [Answered i allow]) j) \<le> 1" for j using ok(7) [of j] i by (cases "j = i") auto
    show "\<exists>m<length (ah_asks h1). j = ask_id m" if "answers (es @ [Answered i allow]) j \<noteq> []" for j
      using that ok(8) [of j] i n(2) by (cases "j = i") auto
  qed
qed

lemma ask_end_result:
  assumes "ask_end w n h = Some h1"
  obtains b where "h1 = (clear_ask (as_id (ah_asks h ! n)) (as_exec (ah_asks h ! n)) h)\<lparr>ah_asks := (ah_asks h)[n := b]\<rparr>"
    "as_id b = as_id (ah_asks h ! n)" "as_channel b = as_channel (ah_asks h ! n) \<or> as_channel b = None"
    "\<And>d. as_over b = Some d \<Longrightarrow> fst d \<Longrightarrow> \<exists>c. as_channel (ah_asks h ! n) = Some (True, c)"
proof (cases w)
  case WakeDone
  then show thesis using assms
    by (intro that [of "(ah_asks h ! n)\<lparr>as_over := Some (False, Cancelled)\<rparr>"]) (auto simp: ask_end_def Let_def split: if_splits)
next
  case WakeTimer
  then show thesis using assms
    by (intro that [of "(ah_asks h ! n)\<lparr>as_over := Some (False, ApprovalTimeout)\<rparr>"]) (auto simp: ask_end_def Let_def split: if_splits)
next
  case WakeAnswer
  obtain allow code where c: "as_channel (ah_asks h ! n) = Some (allow, code)"
    using assms WakeAnswer by (cases "as_channel (ah_asks h ! n)") (auto simp: ask_end_def Let_def split: if_splits)
  then show thesis using assms WakeAnswer
    by (intro that [of "(ah_asks h ! n)\<lparr>as_channel := None, as_over := Some (if allow then (True, '''') else if code = '''' then (False, PolicyDeny) else (False, code))\<rparr>"])
      (auto simp: ask_end_def Let_def split: if_splits)
qed

lemma hub_ok_end:
  assumes "hub_ok es h" "ask_end w n h = Some h1"
  shows "hub_ok (es @ [Other]) h1"
proof -
  note ok = hub_okD [OF assms(1)]
  have n: "n < length (ah_asks h)" "as_over (ah_asks h ! n) = None" using assms(2)
    by (auto simp: ask_end_def simp del: not_None_eq split: if_splits)
  show ?thesis using assms(2)
  proof (rule ask_end_result)
    fix b assume b: "h1 = (clear_ask (as_id (ah_asks h ! n)) (as_exec (ah_asks h ! n)) h)\<lparr>ah_asks := (ah_asks h)[n := b]\<rparr>"
      "as_id b = as_id (ah_asks h ! n)" "as_channel b = as_channel (ah_asks h ! n) \<or> as_channel b = None"
      "\<And>d. as_over b = Some d \<Longrightarrow> fst d \<Longrightarrow> \<exists>c. as_channel (ah_asks h ! n) = Some (True, c)"
  show ?thesis
  proof (rule hub_ok_touch [OF assms(1)])
    show "ah_seq h1 = ah_seq h" "ah_asks h1 = (ah_asks h)[n := b]" "as_id b = as_id (ah_asks h ! n)" "set (ah_sends h1) \<subseteq> set (ah_sends h)"
      using b(1,2) by (simp_all add: clear_ask_def)
    show "mget (ah_pending h) i = Some m" if "mget (ah_pending h1) i = Some m" for i m
      using that b(1) by (simp add: clear_ask_def split: if_splits)
    show "yes es h n d" if d: "as_channel b = Some d \<or> as_over b = Some d" for d
      using d
    proof
      assume "as_channel b = Some d"
      then show ?thesis using b(3) ok(5) n(1) by auto
    next
      assume o: "as_over b = Some d"
      show ?thesis
      proof (cases "fst d")
        case True
        then obtain c where "as_channel (ah_asks h ! n) = Some (True, c)" using b(4) o by blast
        then show ?thesis using ok(5) n(1) by (fastforce simp: yes_def)
      qed (use n in \<open>simp add: yes_def\<close>)
    qed
  qed
qed
qed

lemma hub_ok_cancel: "hub_ok es h \<Longrightarrow> hub_ok (es @ [Other]) (cancel_lookup exec h)"
proof -
  assume ok: "hub_ok es h"
  consider (same) "cancel_lookup exec h = h" | (sent) i n where "mget (ah_pending h) i = Some n" "cancel_lookup exec h = h\<lparr>ah_sends := ah_sends h @ [(n, False, Cancelled)]\<rparr>"
  proof (cases "mget (ah_by_exec h) exec")
    case None
    then show thesis by (intro same) (simp add: cancel_lookup_def)
  next
    case (Some i)
    then show thesis using same sent by (cases "mget (ah_pending h) i") (simp_all add: cancel_lookup_def)
  qed
  then show ?thesis
  proof cases
    case same
    then show ?thesis using hub_ok_same [OF ok] by simp
  next
    case sent
    then have "n < length (ah_asks h)" using hub_okD(3) [OF ok] by blast
    then show ?thesis using ok sent(2) by (simp add: hub_ok_def yes_def)
  qed
qed

lemma hub_ok_send:
  assumes "hub_ok es h" "k < length (ah_sends h)"
  shows "hub_ok (es @ [Other]) (send_answer k h)"
proof -
  obtain n d where nd: "ah_sends h ! k = (n, d)" by (rule prod.exhaust)
  then have "(n, d) \<in> set (ah_sends h)" using assms(2) by (metis nth_mem)
  then have y: "yes es h n d" by (rule hub_okD(4) [OF assms(1)])
  let ?a = "ah_asks h ! n" and ?b = "if as_channel (ah_asks h ! n) = None then (ah_asks h ! n)\<lparr>as_channel := Some d\<rparr> else ah_asks h ! n"
  have s: "send_answer k h = h\<lparr>ah_sends := take k (ah_sends h) @ drop (Suc k) (ah_sends h), ah_asks := (ah_asks h)[n := ?b]\<rparr>"
    by (simp add: send_answer_def nd Let_def)
  show ?thesis
  proof (rule hub_ok_touch [OF assms(1)])
    show "yes es h n e" if "as_channel ?b = Some e \<or> as_over ?b = Some e" "n < length (ah_asks h)" for e
    proof -
      have "e = d \<or> as_channel ?a = Some e \<or> as_over ?a = Some e" using that(1) by (auto split: if_splits)
      then show ?thesis using y hub_okD(5,6) [OF assms(1) that(2)] by blast
    qed
    show "set (ah_sends (send_answer k h)) \<subseteq> set (ah_sends h)" using s by (auto dest: in_set_takeD in_set_dropD)
  qed (simp_all add: s)
qed

lemma ask_end_length: "ask_end w n h = Some h1 \<Longrightarrow> length (ah_asks h1) = length (ah_asks h)"
  by (auto simp: ask_end_def Let_def split: wake.splits option.splits if_splits)

lemma approval_run_ok: "approval_run es h \<Longrightarrow> length (ah_asks h) < 2 ^ 64 - 1 \<Longrightarrow> hub_ok es h"
proof (induction rule: approval_run.induct)
  case run_start
  then show ?case by (simp add: hub_ok_def new_approval_hub_def)
next
  case (run_ask es h d exec preview now h1 r)
  have "length (ah_asks h) \<le> length (ah_asks h1)" using run_ask(2) by (auto simp: ask_begin_def Let_def split: if_splits)
  then show ?case using hub_ok_ask run_ask by simp
next
  case (run_end es h w n h1)
  then show ?case using hub_ok_end ask_end_length by simp
next
  case (run_respond es h i allow h1)
  then have "length (ah_asks h1) = length (ah_asks h)" by (auto simp: respond_claim_def split: option.splits)
  then show ?case using hub_ok_respond run_respond by simp
next
  case (run_cancel es h exec)
  have "length (ah_asks (cancel_lookup exec h)) = length (ah_asks h)" by (simp add: cancel_lookup_def split: option.split)
  then show ?case using hub_ok_cancel run_cancel by simp
next
  case (run_send es h k)
  have "length (ah_asks (send_answer k h)) = length (ah_asks h)" by (simp add: send_answer_def Let_def split: prod.split)
  then show ?case using hub_ok_send run_send by simp
qed (simp_all add: subscribe_def unsubscribe_def hub_ok_same)

text \<open>C13. Only a person's yes lets a command run. In every interleaving of asks, answers, cancellations and time limits, an ask that ended
  with leave to run got exactly one accepted answer, and that answer allowed it; an answer is accepted at most once per ask. (For as
  many asks as the 64-bit sequence number tells apart.)\<close>

theorem approved_only_by_a_yes:
  assumes "approval_run es h" "n < length (ah_asks h)" "length (ah_asks h) < 2 ^ 64 - 1"
  shows "length (answers es (as_id (ah_asks h ! n))) \<le> 1
    \<and> (\<forall>code. as_over (ah_asks h ! n) = Some (True, code) \<longrightarrow> answers es (as_id (ah_asks h ! n)) = [True])"
proof -
  note ok = hub_okD [OF approval_run_ok [OF assms(1,3)]]
  have "as_over (ah_asks h ! n) = Some (True, code) \<Longrightarrow> answers es (ask_id n) = [True]" for code
    using ok(6) [OF assms(2), of "(True, code)"] by (simp add: yes_def)
  then show ?thesis using ok(2) [OF assms(2)] ok(7) by simp
qed

text \<open>A head subscribes, is asked, and says yes.\<close>

definition asked_hub :: approval_hub where
  "asked_hub = fst (ask_begin False ''e1'' ''sudo id'' ''t'' (subscribe 7 new_approval_hub))"

definition answered_hub :: approval_hub where
  "answered_hub = send_answer 0 (the (respond_claim ''a1'' True asked_hub))"

definition allowed_hub :: approval_hub where
  "allowed_hub = the (ask_end WakeAnswer 0 answered_hub)"

lemma allowed_hub_value: "ah_asks allowed_hub = [\<lparr>as_id = ''a1'', as_exec = ''e1'', as_preview = ''sudo id'', as_created = ''t'',
    as_channel = None, as_over = Some (True, '''')\<rparr>]"
    "respond_claim ''a1'' True asked_hub \<noteq> None" "ask_end WakeAnswer 0 answered_hub \<noteq> None"
    "ah_sends (the (respond_claim ''a1'' True asked_hub)) \<noteq> []"
  by code_simp+

lemma allowed_hub_run: "approval_run [Other, Other, Answered ''a1'' True, Other, Other] allowed_hub"
proof -
  have "approval_run ([] @ [Other]) (subscribe 7 new_approval_hub)" by (intro run_subscribe run_start)
  then have "approval_run (([] @ [Other]) @ [Other]) asked_hub"
    unfolding asked_hub_def by (rule run_ask) (rule surjective_pairing)
  then have "approval_run ((([] @ [Other]) @ [Other]) @ [Answered ''a1'' True]) (the (respond_claim ''a1'' True asked_hub))"
    by (rule run_respond) (use allowed_hub_value(2) in auto)
  then have "approval_run (((([] @ [Other]) @ [Other]) @ [Answered ''a1'' True]) @ [Other]) answered_hub"
    unfolding answered_hub_def by (rule run_send) (use allowed_hub_value(4) in simp)
  then have "approval_run ((((([] @ [Other]) @ [Other]) @ [Answered ''a1'' True]) @ [Other]) @ [Other]) allowed_hub"
    unfolding allowed_hub_def by (rule run_end) (use allowed_hub_value(3) in auto)
  then show ?thesis by simp
qed

theorem approved_only_by_a_yes_witness:
  "as_over (ah_asks allowed_hub ! 0) = Some (True, '''') \<and> answers [Other, Other, Answered ''a1'' True, Other, Other] ''a1'' = [True]"
  using approved_only_by_a_yes [OF allowed_hub_run, of 0] allowed_hub_value(1) by simp

end
