(* ===== verification/ExecRequest.thy ===== *)
theory ExecRequest
  imports Utf8 Principal
begin

text \<open>
  What may be executed: the request of \<open>internal/execution\<close> (\<open>request.go\<close>, \<open>json.go\<close>) and the policy heuristic of
  \<open>internal/noderun\<close> (\<open>policy.go\<close>, \<open>execution_policy.go\<close>). The strict decoding of \<open>encoding/json\<close> is a parameter, the pass
  before it is modelled. Regular expressions are a datatype with its own matcher, over the bytes of the text.
\<close>

section \<open>Requests: \<open>request.go\<close>\<close>

abbreviation MaxInputBytes :: nat where "MaxInputBytes \<equiv> 65536"
abbreviation MaxJSONBytes :: nat where "MaxJSONBytes \<equiv> 401408"
abbreviation MaxArguments :: nat where "MaxArguments \<equiv> 256"
abbreviation MaxTimeoutMS :: int where "MaxTimeoutMS \<equiv> 3600000"

record script =
  sc_text :: string
  sc_shell :: string

record program =
  pg_executable :: string
  pg_args :: "string list"

record exec_request =
  xr_script :: "script option"
  xr_program :: "program option"
  xr_cwd :: string
  xr_timeout :: int

datatype exec_error = ExecInvalid | ExecTooLarge

definition valid_text :: "string \<Rightarrow> bool" where
  "valid_text s \<longleftrightarrow> utf8_valid s \<and> CHR 0x00 \<notin> set s"

definition known_shells :: "string list" where
  "known_shells = ['''', ''auto'', ''powershell'', ''pwsh'', ''bash'', ''sh'']"

definition script_size :: "script \<Rightarrow> exec_error + nat" where
  "script_size s =
    (if sc_text s = '''' \<or> \<not> valid_text (sc_text s) then Inl ExecInvalid
     else if sc_shell s \<notin> set known_shells then Inl ExecInvalid
     else Inr (length (sc_text s) + length (sc_shell s)))"

fun args_size :: "string list \<Rightarrow> nat \<Rightarrow> exec_error + nat" where
  "args_size [] n = Inr n"
| "args_size (a # as) n = (if \<not> valid_text a then Inl ExecInvalid else args_size as (n + length a))"

definition program_size :: "program \<Rightarrow> exec_error + nat" where
  "program_size p =
    (if pg_executable p = '''' \<or> \<not> valid_text (pg_executable p) then Inl ExecInvalid
     else if MaxArguments < length (pg_args p) then Inl ExecTooLarge
     else args_size (pg_args p) (length (pg_executable p)))"

definition validate_exec :: "exec_request \<Rightarrow> exec_error option" where
  "validate_exec r =
    (if (xr_script r = None) = (xr_program r = None) \<or> xr_timeout r < 0 \<or> MaxTimeoutMS < xr_timeout r \<or> \<not> valid_text (xr_cwd r)
     then Some ExecInvalid
     else case (case xr_script r of Some s \<Rightarrow> script_size s | None \<Rightarrow> program_size (the (xr_program r))) of
       Inl e \<Rightarrow> Some e
     | Inr n \<Rightarrow> if MaxInputBytes < length (xr_cwd r) + n then Some ExecTooLarge else None)"

section \<open>Strict decoding: \<open>json.go\<close>\<close>

definition hex_value :: "char \<Rightarrow> nat option" where
  "hex_value c =
    (if 48 \<le> ord c \<and> ord c \<le> 57 then Some (ord c - 48)
     else if 97 \<le> ord c \<and> ord c \<le> 102 then Some (ord c - 87)
     else if 65 \<le> ord c \<and> ord c \<le> 70 then Some (ord c - 55) else None)"

text \<open>\<open>unicodeEscape\<close>, on what follows the \<open>u\<close>.\<close>

definition unicode_escape :: "string \<Rightarrow> nat option" where
  "unicode_escape s =
    (if length s < 4 then None
     else case (hex_value (s ! 0), hex_value (s ! 1), hex_value (s ! 2), hex_value (s ! 3)) of
       (Some a, Some b, Some c, Some d) \<Rightarrow> Some (((a * 16 + b) * 16 + c) * 16 + d)
     | _ \<Rightarrow> None)"

text \<open>The escape after a \<open>u\<close>: how many bytes it takes, a low surrogate included.\<close>

definition escape_size :: "string \<Rightarrow> nat option" where
  "escape_size s =
    (case unicode_escape s of
       None \<Rightarrow> None
     | Some v \<Rightarrow>
        if 0xDC00 \<le> v \<and> v \<le> 0xDFFF then None
        else if 0xD800 \<le> v \<and> v \<le> 0xDBFF then
          (let t = drop 4 s in
           if length t < 2 \<or> t ! 0 \<noteq> CHR 0x5C \<or> t ! 1 \<noteq> CHR ''u'' then None
           else case unicode_escape (drop 2 t) of
             None \<Rightarrow> None
           | Some w \<Rightarrow> if w < 0xDC00 \<or> 0xDFFF < w then None else Some 10)
        else Some 4)"

function valid_json_values :: "bool \<Rightarrow> string \<Rightarrow> bool" where
  "valid_json_values q [] = True"
| "valid_json_values q (c # s) =
    (if c = CHR 0x22 then valid_json_values (\<not> q) s
     else if \<not> q then (if take 4 (c # s) = ''null'' then False else valid_json_values q s)
     else if c \<noteq> CHR 0x5C then valid_json_values q s
     else case s of
       [] \<Rightarrow> False
     | d # t \<Rightarrow>
        if d \<noteq> CHR ''u'' then valid_json_values q t
        else case escape_size t of None \<Rightarrow> False | Some n \<Rightarrow> valid_json_values q (drop n t))"
  by pat_completeness auto
termination by (relation "measure (length \<circ> snd)") auto

definition decode_exec :: "(string \<Rightarrow> exec_request option) \<Rightarrow> string \<Rightarrow> exec_error + exec_request" where
  "decode_exec strict raw =
    (if MaxJSONBytes < length raw then Inl ExecTooLarge
     else if \<not> utf8_valid raw \<or> \<not> valid_json_values False raw then Inl ExecInvalid
     else case strict raw of
       None \<Rightarrow> Inl ExecInvalid
     | Some r \<Rightarrow> (case validate_exec r of Some e \<Rightarrow> Inl e | None \<Rightarrow> Inr r))"

section \<open>Regular expressions\<close>

text \<open>Over bytes: \<open>Edge\<close> is a word boundary, \<open>Final\<close> the end of the text. \<open>ends r s i\<close> are the positions a match from \<open>i\<close> can end at.\<close>

datatype re = One "char \<Rightarrow> bool" | Nothing | Cat re re | Or re re | Many re | Edge | Final

definition word_char :: "char \<Rightarrow> bool" where
  "word_char c \<longleftrightarrow> (48 \<le> ord c \<and> ord c \<le> 57) \<or> (65 \<le> ord c \<and> ord c \<le> 90) \<or> (97 \<le> ord c \<and> ord c \<le> 122) \<or> c = CHR ''_''"

definition at_edge :: "string \<Rightarrow> nat \<Rightarrow> bool" where
  "at_edge s i \<longleftrightarrow> (0 < i \<and> word_char (s ! (i - 1))) \<noteq> (i < length s \<and> word_char (s ! i))"

fun repeat_ends :: "nat \<Rightarrow> (nat \<Rightarrow> nat list) \<Rightarrow> nat \<Rightarrow> nat list" where
  "repeat_ends 0 f i = [i]"
| "repeat_ends (Suc n) f i = remdups (i # concat (map (repeat_ends n f) (filter (\<lambda>j. i < j) (f i))))"

fun ends :: "re \<Rightarrow> string \<Rightarrow> nat \<Rightarrow> nat list" where
  "ends (One p) s i = (if i < length s \<and> p (s ! i) then [Suc i] else [])"
| "ends Nothing s i = [i]"
| "ends (Cat a b) s i = remdups (concat (map (ends b s) (ends a s i)))"
| "ends (Or a b) s i = remdups (ends a s i @ ends b s i)"
| "ends (Many a) s i = repeat_ends (length s - i) (ends a s) i"
| "ends Edge s i = (if at_edge s i then [i] else [])"
| "ends Final s i = (if i = length s then [i] else [])"

definition match_string :: "re \<Rightarrow> string \<Rightarrow> bool" where
  "match_string r s \<longleftrightarrow> list_ex (\<lambda>i. ends r s i \<noteq> []) [0..<Suc (length s)]"

section \<open>The policy heuristic: \<open>policy.go\<close>\<close>

text \<open>Letters without case. Of the other runes only the long s and the Kelvin sign fold to ASCII letters.\<close>

definition fold_char :: "char \<Rightarrow> char" where
  "fold_char c = (if 65 \<le> ord c \<and> ord c \<le> 90 then char_of (ord c + 32) else c)"

definition long_s :: re where
  "long_s = Cat (One (\<lambda>c. c = CHR 0xC5)) (One (\<lambda>c. c = CHR 0xBF))"

definition kelvin :: re where
  "kelvin = Cat (One (\<lambda>c. c = CHR 0xE2)) (Cat (One (\<lambda>c. c = CHR 0x84)) (One (\<lambda>c. c = CHR 0xAA)))"

definition letter :: "char \<Rightarrow> re" where
  "letter l = (let r = One (\<lambda>c. fold_char c = l) in if l = CHR ''s'' then Or r long_s else if l = CHR ''k'' then Or r kelvin else r)"

primrec literal :: "string \<Rightarrow> re" where
  "literal [] = Nothing"
| "literal (c # s) = Cat (letter c) (literal s)"

definition any_letter :: re where
  "any_letter = Or (One (\<lambda>c. 97 \<le> ord (fold_char c) \<and> ord (fold_char c) \<le> 122)) (Or long_s kelvin)"

definition blank :: re where
  "blank = One (\<lambda>c. c \<in> {CHR 0x09, CHR 0x0A, CHR 0x0C, CHR 0x0D, CHR 0x20})"

definition some_of :: "re \<Rightarrow> re" where "some_of r = Cat r (Many r)"
definition maybe :: "re \<Rightarrow> re" where "maybe r = Or r Nothing"
definition anything :: re where "anything = Many (One (\<lambda>c. c \<noteq> CHR 0x0A))"

definition drive :: re where
  "drive = Cat any_letter (Cat (literal '':'') (maybe (literal [CHR 0x5C])))"

definition reRmRoot :: re where
  "reRmRoot = Cat (literal ''rm'') (Cat (some_of blank) (Cat (literal ''-'') (Cat (some_of (Or (letter (CHR ''r'')) (letter (CHR ''f''))))
     (Cat (some_of blank) (Cat (Or (literal ''/'') (Or (literal ''/*'') (Cat (literal [CHR 0x5C, CHR 0x5C]) drive)))
       (Cat (Many blank) Final))))))"

definition reWinRoot :: re where
  "reWinRoot = Cat (literal ''remove-item'') (Cat (some_of blank) (Cat anything (Cat (literal ''-recurse'') (Cat anything
     (Cat drive (Cat (Many blank) Final))))))"

definition reDDDev :: re where
  "reDDDev = Cat (literal ''dd'') (Cat (some_of blank) (Cat anything (literal ''of=/dev/'')))"

definition reMkfs :: re where
  "reMkfs = Cat Edge (Cat (literal ''mkfs'') (Cat (maybe (Cat (literal ''.'') (some_of (Or (One word_char) (Or long_s kelvin))))) Edge))"

definition reFormat :: re where
  "reFormat = literal ''format-volume''"

text \<open>\<open>strings.TrimSpace\<close>, on valid UTF-8.\<close>

definition space_runes :: "string list" where
  "space_runes = [[CHR 0x09], [CHR 0x0A], [CHR 0x0B], [CHR 0x0C], [CHR 0x0D], [CHR 0x20], [CHR 0xC2, CHR 0x85], [CHR 0xC2, CHR 0xA0],
     [CHR 0xE1, CHR 0x9A, CHR 0x80], [CHR 0xE2, CHR 0x80, CHR 0xA8], [CHR 0xE2, CHR 0x80, CHR 0xA9], [CHR 0xE2, CHR 0x80, CHR 0xAF],
     [CHR 0xE2, CHR 0x81, CHR 0x9F], [CHR 0xE3, CHR 0x80, CHR 0x80]]
     @ map (\<lambda>n. [CHR 0xE2, CHR 0x80, char_of (0x80 + n)]) [0..<11]"

definition leads :: "string \<Rightarrow> string \<Rightarrow> bool" where
  "leads p s \<longleftrightarrow> take (length p) s = p"

function trim_front :: "string list \<Rightarrow> string \<Rightarrow> string" where
  "trim_front ws s =
    (case find (\<lambda>w. w \<noteq> [] \<and> leads w s) ws of None \<Rightarrow> s | Some w \<Rightarrow> trim_front ws (drop (length w) s))"
  by auto
termination
proof (relation "measure (length \<circ> snd)")
  fix ws s w assume f: "find (\<lambda>w. w \<noteq> [] \<and> leads w s) ws = Some w"
  then have "w \<noteq> [] \<and> leads w s" by (auto simp: find_Some_iff)
  then have "length w \<noteq> 0" "s \<noteq> []" by (auto simp: leads_def)
  then show "((ws, drop (length w) s), ws, s) \<in> measure (length \<circ> snd)" by simp
qed simp

declare trim_front.simps [simp del]

definition trim_runes :: "string \<Rightarrow> string" where
  "trim_runes s = rev (trim_front (map rev space_runes) (rev (trim_front space_runes s)))"

text \<open>\<open>strings.ToLower\<close>, as far as ASCII words can be found in the result: of the other runes only the dotted capital I and the
  Kelvin sign become ASCII.\<close>

fun lower_runes :: "string \<Rightarrow> string" where
  "lower_runes [] = []"
| "lower_runes (c # s) =
    (if leads [CHR 0xC4, CHR 0xB0] (c # s) then CHR ''i'' # lower_runes (drop 1 s)
     else if leads [CHR 0xE2, CHR 0x84, CHR 0xAA] (c # s) then CHR ''k'' # lower_runes (drop 2 s)
     else fold_char c # lower_runes s)"

definition hard_deny :: "string \<Rightarrow> bool" where
  "hard_deny command =
    (let s = trim_runes command in
     if s = '''' then False
     else if contains_string (lower_runes s) [CHR 0x5C, CHR 0x5C, CHR ''.''] \<or> contains_string s [CHR 0x5C, CHR 0x5C, CHR ''.'', CHR 0x5C] then True
     else match_string reRmRoot s \<or> match_string reWinRoot s \<or> match_string reDDDev s \<or> match_string reMkfs s \<or> match_string reFormat s)"

fun index_string :: "string \<Rightarrow> string \<Rightarrow> nat option" where
  "index_string [] w = (if w = [] then Some 0 else None)"
| "index_string (c # s) w = (if leads w (c # s) then Some 0 else map_option Suc (index_string s w))"

definition alnum :: "char \<Rightarrow> bool" where
  "alnum c \<longleftrightarrow> (97 \<le> ord c \<and> ord c \<le> 122) \<or> (48 \<le> ord c \<and> ord c \<le> 57)"

definition contains_word :: "string \<Rightarrow> string \<Rightarrow> bool" where
  "contains_word s w =
    (case index_string s w of
       None \<Rightarrow> False
     | Some i \<Rightarrow>
        if 0 < i \<and> alnum (s ! (i - 1)) then False
        else let e = i + length w in if e < length s \<and> alnum (s ! e) then False else True)"

definition needs_approval :: "bool \<Rightarrow> string \<Rightarrow> bool" where
  "needs_approval windows command =
    (let s = trim_runes command; lower = lower_runes s in
     if s = '''' then False
     else if windows then list_ex (contains_word lower) [''stop-computer'', ''restart-computer'', ''shutdown'']
     else let t = lower_runes (trim_front space_runes s) in
       if leads ''sudo '' t \<or> leads (''sudo'' @ [CHR 0x09]) t then True
       else if list_ex (contains_word lower) [''shutdown'', ''reboot'', ''halt'', ''poweroff''] then True
       else contains_string lower ''/etc/shadow'' \<or> contains_string lower ''/dev/sd'')"

text \<open>\<open>base\<close> is \<open>filepath.Base\<close>.\<close>

fun joined :: "string list \<Rightarrow> string" where
  "joined [] = ''''"
| "joined [a] = a"
| "joined (a # as) = a @ '' '' @ joined as"

definition policy_text :: "(string \<Rightarrow> string) \<Rightarrow> exec_request \<Rightarrow> string" where
  "policy_text base r =
    (case xr_script r of Some s \<Rightarrow> sc_text s
     | None \<Rightarrow> joined (base (pg_executable (the (xr_program r))) # pg_args (the (xr_program r))))"

section \<open>What passes\<close>

text \<open>A well-formed request: one kind, texts that are UTF-8 without NUL, sizes and the time limit within their bounds.\<close>

definition script_ok :: "script \<Rightarrow> bool" where
  "script_ok s \<longleftrightarrow> sc_text s \<noteq> '''' \<and> valid_text (sc_text s) \<and> sc_shell s \<in> set known_shells"

definition program_ok :: "program \<Rightarrow> bool" where
  "program_ok p \<longleftrightarrow> pg_executable p \<noteq> '''' \<and> list_all valid_text (pg_executable p # pg_args p) \<and> length (pg_args p) \<le> MaxArguments"

definition request_bytes :: "exec_request \<Rightarrow> nat" where
  "request_bytes r = length (xr_cwd r)
     + (case xr_script r of Some s \<Rightarrow> length (sc_text s) + length (sc_shell s) | None \<Rightarrow> 0)
     + (case xr_program r of Some p \<Rightarrow> length (pg_executable p) + sum_list (map length (pg_args p)) | None \<Rightarrow> 0)"

definition request_ok :: "exec_request \<Rightarrow> bool" where
  "request_ok r \<longleftrightarrow> (case (xr_script r, xr_program r) of
       (Some s, None) \<Rightarrow> script_ok s | (None, Some p) \<Rightarrow> program_ok p | _ \<Rightarrow> False)
     \<and> valid_text (xr_cwd r) \<and> 0 \<le> xr_timeout r \<and> xr_timeout r \<le> MaxTimeoutMS \<and> request_bytes r \<le> MaxInputBytes"

lemma script_size_cases: "script_ok s \<and> script_size s = Inr (length (sc_text s) + length (sc_shell s)) \<or> \<not> script_ok s \<and> (\<exists>e. script_size s = Inl e)"
  by (auto simp: script_size_def script_ok_def)

lemma args_size_cases: "list_all valid_text as \<and> args_size as n = Inr (n + sum_list (map length as)) \<or> \<not> list_all valid_text as \<and> (\<exists>e. args_size as n = Inl e)"
  by (induction as n rule: args_size.induct) auto

lemma program_size_cases: "program_ok p \<and> program_size p = Inr (length (pg_executable p) + sum_list (map length (pg_args p)))
   \<or> \<not> program_ok p \<and> (\<exists>e. program_size p = Inl e)"
  using args_size_cases [of "pg_args p" "length (pg_executable p)"] by (auto simp: program_size_def program_ok_def)

lemma validate_exec_iff: "validate_exec r = None \<longleftrightarrow> request_ok r"
proof (cases "xr_script r"; cases "xr_program r")
  fix x assume "xr_script r = Some x" "xr_program r = None"
  then show ?thesis using script_size_cases [of x] by (elim disjE conjE exE) (auto simp: validate_exec_def request_ok_def request_bytes_def)
next
  fix x assume "xr_script r = None" "xr_program r = Some x"
  then show ?thesis using program_size_cases [of x] by (elim disjE conjE exE) (auto simp: validate_exec_def request_ok_def request_bytes_def)
qed (simp_all add: validate_exec_def request_ok_def)


section \<open>Words\<close>

definition stands_alone :: "string \<Rightarrow> string \<Rightarrow> nat \<Rightarrow> bool" where
  "stands_alone s w i \<longleftrightarrow> leads w (drop i s) \<and> (i = 0 \<or> \<not> alnum (s ! (i - 1)))
     \<and> (length s \<le> i + length w \<or> \<not> alnum (s ! (i + length w)))"

lemma index_string_iff: "w \<noteq> [] \<Longrightarrow> index_string s w = Some i \<longleftrightarrow> leads w (drop i s) \<and> (\<forall>j<i. \<not> leads w (drop j s))"
proof (induction s arbitrary: i)
  case Nil
  then show ?case by (auto simp: leads_def)
next
  case (Cons c s)
  show ?case
  proof (cases i)
    case 0
    then show ?thesis by auto
  next
    case (Suc k)
    then show ?thesis using Cons.IH [OF Cons.prems, of k] by (auto simp: less_Suc_eq_0_disj)
  qed
qed

text \<open>Only the first occurrence counts. The search for a word finds it exactly when its first occurrence in the text has no letter or
  digit beside it; later ones that stand alone are not looked at.\<close>

theorem contains_word_exact:
  assumes "w \<noteq> []"
  shows "contains_word s w \<longleftrightarrow> (\<exists>i. stands_alone s w i \<and> (\<forall>j<i. \<not> leads w (drop j s)))"
proof (cases "index_string s w")
  case None
  then show ?thesis using index_string_iff [OF assms, of s] wellorder_Least_lemma(1)
    by (auto simp: contains_word_def stands_alone_def)
next
  case (Some i)
  then have i: "leads w (drop i s)" "\<forall>j<i. \<not> leads w (drop j s)" using index_string_iff [OF assms] by blast+
  have u: "k = i" if "stands_alone s w k" "\<forall>j<k. \<not> leads w (drop j s)" for k
    using that i by (metis linorder_neqE_nat stands_alone_def)
  have "contains_word s w \<longleftrightarrow> stands_alone s w i"
    using Some i by (auto simp: contains_word_def stands_alone_def Let_def not_less)
  then show ?thesis using u i by blast
qed

theorem contains_word_exact_witness: "\<exists>i. stands_alone ''a; halt'' ''halt'' i"
proof -
  have "contains_word ''a; halt'' ''halt''" by code_simp
  then show ?thesis using contains_word_exact [of "''halt''" "''a; halt''"] by blast
qed


end
