(* ===== verification/LocalExec.thy ===== *)
theory LocalExec
  imports ExecRequest Protocol Job
begin

text \<open>
  Execution on the device, \<open>internal/noderun\<close>: the output pumps (\<open>stream.go\<close>, \<open>pump\<close> of \<open>exec.go\<close>) and \<open>runLocalExec\<close>
  with all its refusals. The answers of the approval hub, the file system, the authorization guard, the job ledger and the process
  boundary are the fields of \<open>exec_io\<close>. \<open>wire_text\<close> is what \<open>encoding/json\<close> makes of a byte string on its way to the caller.
\<close>

section \<open>Output: \<open>stream.go\<close>, \<open>exec.go\<close>\<close>

definition take_chunk :: "int \<Rightarrow> string \<Rightarrow> string \<times> int \<times> bool \<times> bool" where
  "take_chunk sent chunk =
    (if chunk = [] then ([], sent, False, False)
     else let (c, trunc) = (if MaxFrameBytes < int (length chunk) then (take (nat MaxFrameBytes) chunk, True) else (chunk, False));
              remain = MaxExecOutputBytes - sent
          in if remain \<le> 0 then ([], sent, True, True)
             else if remain < int (length c) then (let d = take (nat remain) c in (d, sent + int (length d), True, True))
             else (c, sent + int (length c), trunc, False))"

datatype stream = Out | Errs

record pump_state =
  ps_sent :: int
  ps_trunc :: bool
  ps_ready :: "stream \<Rightarrow> string"
  ps_drained :: "stream \<Rightarrow> bool"
  ps_msgs :: "message list"

definition stream_type :: "stream \<Rightarrow> string" where
  "stream_type s = (case s of Out \<Rightarrow> TypeStdout | Errs \<Rightarrow> TypeStderr)"

definition exec_output :: "string \<Rightarrow> stream \<Rightarrow> string \<Rightarrow> message" where
  "exec_output exec s d = message0\<lparr>m_type := stream_type s, m_exec_id := exec, m_data := d\<rparr>"

text \<open>A read with its quota under the mutex, and the send after it; what is read from a drained stream is discarded.\<close>

definition pump_read :: "stream \<Rightarrow> string \<Rightarrow> pump_state \<Rightarrow> pump_state" where
  "pump_read s b p =
    (if ps_drained p s \<or> b = [] then p
     else case take_chunk (ps_sent p) b of (chunk, next, t, drain) \<Rightarrow>
       p\<lparr>ps_sent := next, ps_trunc := ps_trunc p \<or> t, ps_ready := (ps_ready p)(s := chunk), ps_drained := (ps_drained p)(s := drain)\<rparr>)"

definition pump_send :: "string \<Rightarrow> stream \<Rightarrow> pump_state \<Rightarrow> pump_state" where
  "pump_send exec s p =
    (if ps_ready p s = [] then p
     else p\<lparr>ps_ready := (ps_ready p)(s := []), ps_msgs := ps_msgs p @ [exec_output exec s (ps_ready p s)]\<rparr>)"

definition pump_start :: pump_state where
  "pump_start = \<lparr>ps_sent = 0, ps_trunc = False, ps_ready = (\<lambda>_. []), ps_drained = (\<lambda>_. False), ps_msgs = []\<rparr>"

text \<open>The two pumps of one execution, interleaved; \<open>reads\<close> is all that was read. A stream is read again after its chunk was sent.\<close>

inductive pump_run :: "string \<Rightarrow> (stream \<times> string) list \<Rightarrow> pump_state \<Rightarrow> bool" for exec where
  pumps_start: "pump_run exec [] pump_start"
| pumps_read: "pump_run exec reads p \<Longrightarrow> ps_ready p s = [] \<Longrightarrow> length b \<le> 32 * 1024 \<Longrightarrow> pump_run exec (reads @ [(s, b)]) (pump_read s b p)"
| pumps_send: "pump_run exec reads p \<Longrightarrow> pump_run exec reads (pump_send exec s p)"

function wire_text :: "string \<Rightarrow> string" where
  "wire_text s =
    (if s = [] then []
     else if rune_size s = 0 then [CHR 0xEF, CHR 0xBF, CHR 0xBD] @ wire_text (tl s)
     else take (rune_size s) s @ wire_text (drop (rune_size s) s))"
  by auto
termination by (relation "measure length") auto

declare wire_text.simps [simp del]

section \<open>\<open>runLocalExec\<close>\<close>

abbreviation InvalidExecution :: string where "InvalidExecution \<equiv> ''invalid_execution''"
abbreviation UnsupportedShell :: string where "UnsupportedShell \<equiv> ''unsupported_shell''"
abbreviation ShellUnavailable :: string where "ShellUnavailable \<equiv> ''shell_unavailable''"
abbreviation ProgramUnavailable :: string where "ProgramUnavailable \<equiv> ''program_unavailable''"
abbreviation UnsupportedProgram :: string where "UnsupportedProgram \<equiv> ''unsupported_program''"

datatype exec_fault = FaultInvalid | FaultShellUnsupported | FaultShellUnavailable | FaultTooLarge | FaultProgramUnavailable
  | FaultProgramUnsupported | FaultOther

definition execution_error_code :: "exec_fault \<Rightarrow> string" where
  "execution_error_code f = (case f of
     FaultInvalid \<Rightarrow> InvalidExecution | FaultShellUnsupported \<Rightarrow> UnsupportedShell | FaultShellUnavailable \<Rightarrow> ShellUnavailable
   | FaultTooLarge \<Rightarrow> TooLarge | FaultProgramUnavailable \<Rightarrow> ProgramUnavailable | FaultProgramUnsupported \<Rightarrow> UnsupportedProgram
   | FaultOther \<Rightarrow> AgentError)"

definition decode_fault :: "exec_error \<Rightarrow> exec_fault" where
  "decode_fault e = (case e of ExecInvalid \<Rightarrow> FaultInvalid | ExecTooLarge \<Rightarrow> FaultTooLarge)"

text \<open>A context: whether it lost its authorization, and its error.\<close>

datatype ctx_error = CtxLive | CtxCancelled | CtxDeadline

record ctx_view =
  cv_lost :: bool
  cv_err :: ctx_error

definition start_failure_code :: "ctx_view \<Rightarrow> string" where
  "start_failure_code c =
    (if cv_lost c then Unauthorized
     else case cv_err c of CtxCancelled \<Rightarrow> Cancelled | CtxDeadline \<Rightarrow> ExecTimeout | CtxLive \<Rightarrow> AgentError)"

definition lease_start_code :: "ctx_view \<Rightarrow> bool \<Rightarrow> string" where
  "lease_start_code c denied =
    (if cv_err c \<noteq> CtxLive then start_failure_code c else if denied then Unauthorized else RelayError)"

definition failed_start_message :: "ctx_view \<Rightarrow> string \<Rightarrow> bool \<Rightarrow> bool \<Rightarrow> bool \<Rightarrow> message" where
  "failed_start_message c i started unclean released =
    (if started \<or> \<not> released \<or> unclean then Err i AgentError else Nack i (start_failure_code c))"

datatype exit_result = ExitOk | ExitCode int | ExitUnclean | ExitElse

record exec_io =
  xi_inbound :: bool
  xi_ask :: "string \<Rightarrow> bool \<times> string"
  xi_cwd :: bool
  xi_ctx_before :: ctx_view
  xi_lease :: "bool option"
  xi_ctx_lease :: ctx_view
  xi_build :: "exec_fault option"
  xi_reserve :: "job_error + string"
  xi_pipes :: bool
  xi_start :: "(bool \<times> bool) option"
  xi_ctx_start :: ctx_view
  xi_released :: bool
  xi_pump :: pump_state
  xi_forced :: bool
  xi_exit :: exit_result
  xi_ctx_end :: ctx_view
  xi_ms :: int

definition exec_status :: "ctx_view \<Rightarrow> string" where
  "exec_status c =
    (if cv_lost c then ExitAuthorizationLost
     else case cv_err c of CtxCancelled \<Rightarrow> ExitCancelled | CtxDeadline \<Rightarrow> ExitTimeout | CtxLive \<Rightarrow> ExitCompleted)"

text \<open>Once the process has started: the output and the end.\<close>

definition exec_answer :: "exec_io \<Rightarrow> string \<Rightarrow> message list" where
  "exec_answer io i =
    ps_msgs (xi_pump io) @
    [if \<not> xi_released io \<or> xi_exit io = ExitUnclean then Err i AgentError
     else message0\<lparr>m_type := TypeExit, m_exec_id := i,
       m_exit_code := Some (case xi_exit io of ExitOk \<Rightarrow> 0 | ExitCode c \<Rightarrow> c | _ \<Rightarrow> 1), m_duration_ms := Some (xi_ms io),
       m_truncated := Some (ps_trunc (xi_pump io) \<or> xi_forced io), m_status := exec_status (xi_ctx_end io)\<rparr>]"

text \<open>From the directory on; the first component says whether a process started. \<open>xi_start\<close> is a failed start: whether there is a
  process, and whether its cleanup is unconfirmed. \<open>xi_lease\<close> is a failed lease: whether it was denied.\<close>

definition exec_launch :: "exec_io \<Rightarrow> message \<Rightarrow> exec_request \<Rightarrow> bool \<times> message list" where
  "exec_launch io msg r =
    (let i = m_exec_id msg in
     if xr_cwd r \<noteq> '''' \<and> \<not> xi_cwd io then (False, [Nack i PolicyDeny])
     else if cv_err (xi_ctx_before io) \<noteq> CtxLive then (False, [Nack i Cancelled])
     else case m_scope msg of
       None \<Rightarrow> (False, [Nack i Unauthorized])
     | Some sc \<Rightarrow>
        if \<not> scope_valid sc then (False, [Nack i Unauthorized])
        else case xi_lease io of
          Some denied \<Rightarrow> (False, [Nack i (lease_start_code (xi_ctx_lease io) denied)])
        | None \<Rightarrow> (case xi_build io of
            Some f \<Rightarrow> (False, [Nack i (execution_error_code f)])
          | None \<Rightarrow> (case xi_reserve io of
              Inl e \<Rightarrow> (False, [Nack i (if e = JobFull then QuotaExceeded else AgentError)])
            | Inr _ \<Rightarrow>
               if \<not> xi_pipes io then (False, [Nack i AgentError])
               else case xi_start io of
                 Some (there, unclean) \<Rightarrow> (there, [failed_start_message (xi_ctx_start io) i there unclean (xi_released io)])
               | None \<Rightarrow> (True, exec_answer io i))))"

text \<open>What a person is shown: at most 200 bytes, and an ellipsis.\<close>

definition approval_preview :: "string \<Rightarrow> string" where
  "approval_preview text = (if 200 < length text then take 200 text @ [CHR 0xE2, CHR 0x80, CHR 0xA6] else text)"

definition run_local_exec ::
  "bool \<Rightarrow> (string \<Rightarrow> string) \<Rightarrow> (string \<Rightarrow> exec_request option) \<Rightarrow> exec_io \<Rightarrow> message \<Rightarrow> bool \<times> message list" where
  "run_local_exec windows base strict io msg =
    (let i = m_exec_id msg in
     case decode_exec strict (m_payload msg) of
       Inl e \<Rightarrow> (False, [Nack i (execution_error_code (decode_fault e))])
     | Inr r \<Rightarrow>
        let text = policy_text base r in
        if \<not> xi_inbound io then (False, [Nack i InboundDisabled])
        else if hard_deny text then (False, [Nack i PolicyDeny])
        else if needs_approval windows text \<and> \<not> fst (xi_ask io (approval_preview text))
        then (False, [Nack i (let code = snd (xi_ask io (approval_preview text)) in if code = '''' then PolicyDeny else code)])
        else exec_launch io msg r)"

end
