(* ===== verification/LocalExecProps.thy ===== *)
theory LocalExecProps
  imports LocalExec
begin

text \<open>
  What a caller may rely on: a process starts only behind every check, the answer ends with one terminal message, its output stays
  within the quota, and an exit that is not marked truncated comes after all of the output.
\<close>

section \<open>The pumps\<close>

definition sent_of :: "stream \<Rightarrow> message list \<Rightarrow> string list" where
  "sent_of s ms = map m_data (filter (\<lambda>m. m_type m = stream_type s) ms)"

definition read_of :: "stream \<Rightarrow> (stream \<times> string) list \<Rightarrow> string list" where
  "read_of s reads = filter (\<lambda>b. b \<noteq> []) (map snd (filter (\<lambda>r. fst r = s) reads))"

lemma sent_of_simps [simp]: "sent_of s [] = []" "sent_of s (a @ b) = sent_of s a @ sent_of s b"
    "sent_of s [exec_output exec t d] = (if s = t then [d] else [])"
  by (auto simp: sent_of_def exec_output_def stream_type_def split: stream.splits)

lemma read_of_simps [simp]: "read_of s [] = []" "read_of s (r @ [(t, b)]) = read_of s r @ (if s = t \<and> b \<noteq> [] then [b] else [])"
  by (auto simp: read_of_def)

definition waiting :: "stream \<Rightarrow> pump_state \<Rightarrow> string list" where
  "waiting s p = (if ps_ready p s = [] then [] else [ps_ready p s])"

definition output_ok :: "string \<Rightarrow> message \<Rightarrow> bool" where
  "output_ok exec m \<longleftrightarrow> (\<exists>s d. d \<noteq> [] \<and> int (length d) \<le> MaxFrameBytes \<and> m = exec_output exec s d)"

definition sent_bytes :: "pump_state \<Rightarrow> nat" where
  "sent_bytes p = length (concat (sent_of Out (ps_msgs p))) + length (concat (sent_of Errs (ps_msgs p))) + length (ps_ready p Out) + length (ps_ready p Errs)"

definition pump_ok :: "string \<Rightarrow> (stream \<times> string) list \<Rightarrow> pump_state \<Rightarrow> bool" where
  "pump_ok exec reads p \<longleftrightarrow> ps_sent p = int (sent_bytes p) \<and> ps_sent p \<le> MaxExecOutputBytes
     \<and> list_all (output_ok exec) (ps_msgs p) \<and> (\<forall>s. int (length (ps_ready p s)) \<le> MaxFrameBytes)
     \<and> (\<forall>s. ps_drained p s \<longrightarrow> ps_trunc p) \<and> (\<not> ps_trunc p \<longrightarrow> (\<forall>s. sent_of s (ps_msgs p) @ waiting s p = read_of s reads))"

text \<open>A chunk is cut, or taken whole and not marked.\<close>

lemma take_chunk_cases:
  assumes "take_chunk sent b = (c, next, t, d)" "b \<noteq> []" "length b \<le> 32 * 1024" "0 \<le> sent" "sent \<le> MaxExecOutputBytes"
  shows "next = sent + int (length c) \<and> next \<le> MaxExecOutputBytes \<and> length c \<le> length b \<and> (d \<longrightarrow> t) \<and> (\<not> t \<longrightarrow> c = b)"
  using assms by (auto simp: take_chunk_def Let_def split: if_splits)

lemma pump_ok_read:
  assumes "pump_ok exec reads p" "ps_ready p s = []" "length b \<le> 32 * 1024"
  shows "pump_ok exec (reads @ [(s, b)]) (pump_read s b p)"
proof (cases "b = [] \<or> ps_drained p s")
  case True
  then show ?thesis using assms(1) unfolding pump_ok_def pump_read_def by auto
next
  case False
  obtain c n t d where c: "take_chunk (ps_sent p) b = (c, n, t, d)" by (metis prod_cases4)
  have p: "ps_sent p = int (sent_bytes p)" "ps_sent p \<le> MaxExecOutputBytes" using assms(1) by (simp_all add: pump_ok_def)
  have k: "n = ps_sent p + int (length c)" "n \<le> MaxExecOutputBytes" "length c \<le> length b" "d \<longrightarrow> t" "\<not> t \<longrightarrow> c = b"
    using take_chunk_cases [OF c _ assms(3) _ p(2)] False p(1) by simp_all
  have r: "pump_read s b p = p\<lparr>ps_sent := n, ps_trunc := ps_trunc p \<or> t, ps_ready := (ps_ready p)(s := c), ps_drained := (ps_drained p)(s := d)\<rparr>"
    using False c by (simp add: pump_read_def)
  have bytes: "int (sent_bytes (pump_read s b p)) = n"
    using k(1) p(1) assms(2) unfolding r sent_bytes_def by (cases s) simp_all
  have w: "sent_of x (ps_msgs (pump_read s b p)) @ waiting x (pump_read s b p) = (sent_of x (ps_msgs p) @ waiting x p) @ (if x = s then [b] else [])"
    if "\<not> t" for x using that k(5) False assms(2) unfolding r waiting_def by simp
  have l: "int (length c) \<le> MaxFrameBytes" using k(3) assms(3) by simp
  have f: "ps_sent (pump_read s b p) = n" "ps_trunc (pump_read s b p) = (ps_trunc p \<or> t)" "ps_msgs (pump_read s b p) = ps_msgs p"
    "ps_ready (pump_read s b p) = (ps_ready p)(s := c)" "ps_drained (pump_read s b p) = (ps_drained p)(s := d)" by (simp_all add: r)
  have "sent_of x (ps_msgs (pump_read s b p)) @ waiting x (pump_read s b p) = read_of x (reads @ [(s, b)])" if "\<not> ps_trunc p" "\<not> t" for x
    using w [OF that(2), of x] assms(1) that(1) False unfolding pump_ok_def by auto
  then show ?thesis
    using assms(1) k(2,4) l bytes unfolding pump_ok_def f by (auto simp: f)
qed

lemma pump_ok_send: "pump_ok exec reads p \<Longrightarrow> pump_ok exec reads (pump_send exec s p)"
proof -
  assume p: "pump_ok exec reads p"
  show ?thesis
  proof (cases "ps_ready p s = []")
    case True
    then show ?thesis using p by (simp add: pump_send_def)
  next
    case False
    have bytes: "sent_bytes (pump_send exec s p) = sent_bytes p" using False by (cases s) (simp_all add: pump_send_def sent_bytes_def)
    have "output_ok exec (exec_output exec s (ps_ready p s))" using p False unfolding output_ok_def pump_ok_def by blast
    moreover have "sent_of x (ps_msgs (pump_send exec s p)) @ waiting x (pump_send exec s p) = sent_of x (ps_msgs p) @ waiting x p" for x
      using False by (simp add: pump_send_def waiting_def)
    moreover have "ps_sent (pump_send exec s p) = ps_sent p" "ps_trunc (pump_send exec s p) = ps_trunc p" "ps_drained (pump_send exec s p) = ps_drained p"
      "ps_msgs (pump_send exec s p) = ps_msgs p @ [exec_output exec s (ps_ready p s)]"
      using False by (simp_all add: pump_send_def)
    moreover have "\<forall>x. int (length (ps_ready (pump_send exec s p) x)) \<le> MaxFrameBytes" using p False by (simp add: pump_ok_def pump_send_def)
    ultimately show ?thesis using p bytes unfolding pump_ok_def by simp
  qed
qed

lemma pump_run_ok: "pump_run exec reads p \<Longrightarrow> pump_ok exec reads p"
proof (induction rule: pump_run.induct)
  case pumps_start
  then show ?case by (simp add: pump_ok_def pump_start_def sent_bytes_def waiting_def)
qed (simp_all add: pump_ok_read pump_ok_send)

section \<open>On the wire\<close>

lemma wire_valid: "utf8_valid s \<Longrightarrow> wire_text s = s"
proof (induction s rule: utf8_induct)
  case (Rune s)
  then have "s \<noteq> []" by auto
  then show ?case using Rune by (subst wire_text.simps) simp
qed (simp add: wire_text.simps)

lemma wire_valid_all: "list_all utf8_valid bs \<Longrightarrow> concat (map wire_text bs) = concat bs"
  by (induction bs) (simp_all add: wire_valid)

section \<open>The answer\<close>

text \<open>One terminal message at the end, the output of this execution before it.\<close>

definition ends_message :: "message \<Rightarrow> bool" where
  "ends_message m \<longleftrightarrow> m_type m \<in> {TypeExit, TypeInvokeNack, TypeError}"

lemma refusal_ends [simp]: "ends_message (Nack i c)" "ends_message (Err i c)" "m_type (Nack i c) \<noteq> TypeExit" "m_type (Err i c) \<noteq> TypeExit"
    "m_exec_id (Nack i c) = i" "m_exec_id (Err i c) = i"
  by (simp_all add: ends_message_def Nack_def Err_def)

lemma failed_start_ends: "ends_message (failed_start_message c i a b r)" "m_type (failed_start_message c i a b r) \<noteq> TypeExit"
    "m_exec_id (failed_start_message c i a b r) = i"
  by (simp_all add: failed_start_message_def)

text \<open>Every answer is a refusal alone, or the output and the end of a process that ran.\<close>

lemma exec_cases:
  assumes "run_local_exec windows base strict io msg = (started, ms)"
  obtains (refused) t where "ms = [t]" "ends_message t" "m_type t \<noteq> TypeExit" "m_exec_id t = m_exec_id msg"
  | (ran) "ms = exec_answer io (m_exec_id msg)" "started"
proof -
  have l: "(\<exists>t. snd (exec_launch io msg r) = [t] \<and> ends_message t \<and> m_type t \<noteq> TypeExit \<and> m_exec_id t = m_exec_id msg)
      \<or> exec_launch io msg r = (True, exec_answer io (m_exec_id msg))" for r
    unfolding exec_launch_def Let_def using failed_start_ends by (auto split: option.splits sum.splits if_splits)
  have "(\<exists>t. ms = [t] \<and> ends_message t \<and> m_type t \<noteq> TypeExit \<and> m_exec_id t = m_exec_id msg) \<or> (started \<and> ms = exec_answer io (m_exec_id msg))"
  proof (cases "decode_exec strict (m_payload msg)")
    case (Inl e)
    then show ?thesis using assms by (auto simp: run_local_exec_def)
  next
    case (Inr r)
    then show ?thesis using assms l [of r] by (auto simp: run_local_exec_def Let_def split: if_splits)
  qed
  then show thesis using that by blast
qed

text \<open>C11. A process starts only behind every check. When \<open>runLocalExec\<close> started a process, the request was well-formed, inbound was on,
  the policy did not deny the command and a person allowed it where that is asked for, its directory is inside the workspace, the
  caller's scope was valid, the authority had granted a lease, and the job ledger had reserved the job.\<close>

theorem exec_needs_every_check:
  assumes "run_local_exec windows base strict io msg = (True, ms)"
  shows "\<exists>r sc i. decode_exec strict (m_payload msg) = Inr r \<and> request_ok r \<and> xi_inbound io \<and> \<not> hard_deny (policy_text base r)
    \<and> (needs_approval windows (policy_text base r) \<longrightarrow> fst (xi_ask io (approval_preview (policy_text base r)))) \<and> (xr_cwd r = '''' \<or> xi_cwd io) \<and> m_scope msg = Some sc
    \<and> scope_valid sc \<and> xi_lease io = None \<and> xi_reserve io = Inr i"
proof -
  obtain r where r: "decode_exec strict (m_payload msg) = Inr r"
    using assms by (cases "decode_exec strict (m_payload msg)") (auto simp: run_local_exec_def)
  then have ok: "request_ok r" using validate_exec_iff by (auto simp: decode_exec_def split: if_splits option.splits)
  have g: "xi_inbound io" "\<not> hard_deny (policy_text base r)" "needs_approval windows (policy_text base r) \<longrightarrow> fst (xi_ask io (approval_preview (policy_text base r)))"
    "exec_launch io msg r = (True, ms)"
    using assms r by (auto simp: run_local_exec_def Let_def split: if_splits)
  obtain sc where sc: "m_scope msg = Some sc" "scope_valid sc" "xr_cwd r = '''' \<or> xi_cwd io"
    using g(4) by (auto simp: exec_launch_def Let_def split: if_splits option.splits)
  have l: "xi_lease io = None" using g(4) sc by (auto simp: exec_launch_def Let_def split: if_splits option.splits)
  have "\<exists>i. xi_reserve io = Inr i" using g(4) sc l by (cases "xi_reserve io") (auto simp: exec_launch_def Let_def split: if_splits option.splits)
  then show ?thesis using r ok g(1-3) sc l by blast
qed

text \<open>C12. Every execution is answered once and in full. The answer is output of this execution, at most 4 MiB, and then exactly one
  terminal message; and when that is an exit not marked truncated, the output sent is, stream by stream and chunk by chunk, all that
  was read, which arrives as it was when every chunk is valid UTF-8.\<close>

theorem exec_answer_complete:
  assumes "run_local_exec windows base strict io msg = (started, ms)" "pump_run (m_exec_id msg) reads (xi_pump io)"
    "\<And>s. ps_ready (xi_pump io) s = []"
  shows "\<exists>outs t. ms = outs @ [t] \<and> ends_message t \<and> m_exec_id t = m_exec_id msg \<and> list_all (output_ok (m_exec_id msg)) outs
    \<and> int (length (concat (sent_of Out outs)) + length (concat (sent_of Errs outs))) \<le> MaxExecOutputBytes
    \<and> (m_type t = TypeExit \<and> m_truncated t = Some False \<longrightarrow> (\<forall>s. sent_of s outs = read_of s reads
        \<and> (list_all utf8_valid (read_of s reads) \<longrightarrow> concat (map wire_text (sent_of s outs)) = concat (read_of s reads))))"
  using assms(1)
proof (cases rule: exec_cases)
  case (refused t)
  then show ?thesis by (intro exI [of _ "[]"] exI [of _ t]) simp
next
  case ran
  have p: "pump_ok (m_exec_id msg) reads (xi_pump io)" by (rule pump_run_ok [OF assms(2)])
  define t where "t = last (exec_answer io (m_exec_id msg))"
  have ms: "ms = ps_msgs (xi_pump io) @ [t]" using ran(1) by (simp add: exec_answer_def t_def)
  have t: "ends_message t" "m_exec_id t = m_exec_id msg"
    "m_type t = TypeExit \<and> m_truncated t = Some False \<Longrightarrow> \<not> ps_trunc (xi_pump io)"
    by (auto simp: t_def exec_answer_def ends_message_def Nack_def Err_def split: if_splits)
  have w: "waiting s (xi_pump io) = []" for s using assms(3) by (simp add: waiting_def)
  have b: "int (length (concat (sent_of Out (ps_msgs (xi_pump io)))) + length (concat (sent_of Errs (ps_msgs (xi_pump io))))) \<le> MaxExecOutputBytes"
    using p assms(3) by (simp add: pump_ok_def sent_bytes_def)
  have all: "sent_of s (ps_msgs (xi_pump io)) = read_of s reads" if "\<not> ps_trunc (xi_pump io)" for s
    using p that w unfolding pump_ok_def by (metis append_Nil2)
  show ?thesis
    by (intro exI [of _ "ps_msgs (xi_pump io)"] exI [of _ t]) (use ms t b all p wire_valid_all in \<open>auto simp: pump_ok_def\<close>)
qed

section \<open>Runs\<close>

definition ls_request :: exec_request where
  "ls_request = \<lparr>xr_script = Some \<lparr>sc_text = ''ls'', sc_shell = ''''\<rparr>, xr_program = None, xr_cwd = '''', xr_timeout = 0\<rparr>"

definition ls_scope :: scope where
  "ls_scope = \<lparr>s_authority = replicate 32 CHR ''a'', s_device_uid = replicate 32 CHR ''b'', s_ownership = '''',
     s_grant = replicate 32 CHR ''c'', s_principal = '''', s_tenant = ''''\<rparr>"

definition ls_message :: message where
  "ls_message = message0\<lparr>m_type := TypeInvoke, m_op := OpExec, m_exec_id := ''e1'', m_payload := ''{}'', m_scope := Some ls_scope\<rparr>"

definition live :: ctx_view where "live = \<lparr>cv_lost = False, cv_err = CtxLive\<rparr>"

definition ls_pump :: pump_state where
  "ls_pump = pump_send ''e1'' Out (pump_read Out ''a'' pump_start)"

definition ls_io :: exec_io where
  "ls_io = \<lparr>xi_inbound = True, xi_ask = (\<lambda>_. (False, '''')), xi_cwd = True, xi_ctx_before = live, xi_lease = None, xi_ctx_lease = live,
     xi_build = None, xi_reserve = Inr ''j'', xi_pipes = True, xi_start = None, xi_ctx_start = live, xi_released = True,
     xi_pump = ls_pump, xi_forced = False, xi_exit = ExitOk, xi_ctx_end = live, xi_ms = 3\<rparr>"

lemma ls_pump_run: "pump_run ''e1'' [(Out, ''a'')] ls_pump" "ps_ready ls_pump s = []"
proof -
  have "pump_run ''e1'' ([] @ [(Out, ''a'')]) (pump_read Out ''a'' pump_start)"
    by (intro pumps_read pumps_start) (simp_all add: pump_start_def)
  then show "pump_run ''e1'' [(Out, ''a'')] ls_pump" unfolding ls_pump_def by (intro pumps_send) simp
  show "ps_ready ls_pump s = []" by (simp add: ls_pump_def pump_send_def pump_read_def pump_start_def take_chunk_def)
qed

lemma literal_miss: "c \<noteq> CHR ''s'' \<Longrightarrow> c \<noteq> CHR ''k'' \<Longrightarrow> \<forall>x\<in>set s. fold_char x \<noteq> c \<Longrightarrow> ends (literal (c # cs)) s i = []"
  by (auto simp: letter_def dest: nth_mem)

lemma ls_started: "run_local_exec False (\<lambda>p. p) (\<lambda>_. Some ls_request) ls_io ls_message = (True, exec_answer ls_io ''e1'')"
proof -
  have "utf8_valid ''{}''" "utf8_valid ''ls''" by code_simp+
  moreover have "valid_json_values False ''{}''" by simp
  ultimately have d: "decode_exec (\<lambda>_. Some ls_request) ''{}'' = Inr ls_request"
    by (simp add: decode_exec_def validate_exec_def ls_request_def script_size_def valid_text_def known_shells_def)
  have u: "trim_runes ''ls'' = ''ls''" "lower_runes ''ls'' = ''ls''" by code_simp+
  have f: "fold_char (CHR ''l'') = CHR ''l''" "fold_char (CHR ''s'') = CHR ''s''" by code_simp+
  have e: "ends (literal (c # cs)) ''ls'' i = []" if "c \<in> {CHR ''r'', CHR ''d'', CHR ''m'', CHR ''f''}" for c cs i
    by (rule literal_miss) (use that f in auto)
  have "\<not> match_string r ''ls''" if "r \<in> {reRmRoot, reWinRoot, reDDDev, reMkfs, reFormat}" for r
    using that by (auto simp: match_string_def list_ex_iff reRmRoot_def reWinRoot_def reDDDev_def reMkfs_def reFormat_def e simp del: literal.simps)
  then have "hard_deny ''ls'' = False" by (simp add: hard_deny_def u)
  moreover have "needs_approval False ''ls'' = False" by code_simp
  ultimately have p: "hard_deny ''ls'' = False" "needs_approval False ''ls'' = False" by simp_all
  have s: "scope_valid ls_scope" by code_simp
  have m: "m_exec_id ls_message = ''e1''" "m_payload ls_message = ''{}''" "m_scope ls_message = Some ls_scope" by (simp_all add: ls_message_def)
  have t: "policy_text (\<lambda>p. p) ls_request = ''ls''" "xr_cwd ls_request = ''''" by (simp_all add: policy_text_def ls_request_def)
  show ?thesis using s by (simp add: run_local_exec_def exec_launch_def m d t p ls_io_def live_def)
qed

theorem exec_needs_every_check_witness:
  "\<exists>i. m_scope ls_message = Some ls_scope \<and> scope_valid ls_scope \<and> xi_reserve ls_io = Inr i"
  using exec_needs_every_check [OF ls_started] by (auto simp: ls_message_def)

theorem exec_answer_complete_witness:
  "\<exists>outs t. exec_answer ls_io ''e1'' = outs @ [t] \<and> ends_message t \<and> list_all (output_ok ''e1'') outs"
proof -
  have p: "pump_run (m_exec_id ls_message) [(Out, ''a'')] (xi_pump ls_io)" "\<And>s. ps_ready (xi_pump ls_io) s = []"
    using ls_pump_run by (simp_all add: ls_message_def ls_io_def)
  show ?thesis using exec_answer_complete [OF ls_started p] by (auto simp: ls_message_def)
qed


end
