(* ===== verification/ExecReply.thy ===== *)
theory ExecReply
  imports Protocol
begin

text \<open>
  The caller's side of an execution: the waiter between the reader of the relay connection and the request
  (\<open>internal/noderun/clientmux.go\<close>), what is written to the head (\<open>forwardInvoke\<close> and \<open>consumeClient\<close> of
  \<open>internal/noderun/ipc.go\<close>), and the head's reading of it (\<open>internal/ipc/exec_events.go\<close>). The wording of messages is a
  \<open>notice\<close>; a JSON result is the fields it was marshalled from, or one that does not parse.
\<close>

section \<open>The waiter: \<open>clientmux.go\<close>\<close>

abbreviation waiterDataSlots :: nat where "waiterDataSlots \<equiv> 16"

record exec_waiter =
  ew_queue :: "message list"
  ew_term :: "message option"
  ew_trunc :: bool
  ew_finished :: bool

definition new_exec_waiter :: exec_waiter where
  "new_exec_waiter = \<lparr>ew_queue = [], ew_term = None, ew_trunc = False, ew_finished = False\<rparr>"

definition is_terminal :: "message \<Rightarrow> bool" where
  "is_terminal m \<longleftrightarrow> m_type m = TypeExit \<or> m_type m = TypeInvokeNack \<or> m_type m = TypeError"

definition waiter_finish :: "message \<Rightarrow> exec_waiter \<Rightarrow> exec_waiter" where
  "waiter_finish m w =
    (if ew_finished w then w
     else w\<lparr>ew_finished := True,
            ew_term := Some (if ew_trunc w \<and> m_type m = TypeExit then m\<lparr>m_truncated := Some True\<rparr> else m)\<rparr>)"

definition waiter_push :: "message \<Rightarrow> exec_waiter \<Rightarrow> exec_waiter" where
  "waiter_push m w =
    (if is_terminal m then waiter_finish m w
     else if length (ew_queue w) < waiterDataSlots then w\<lparr>ew_queue := ew_queue w @ [m]\<rparr>
     else w\<lparr>ew_trunc := True\<rparr>)"

text \<open>\<open>next\<close>; the outer \<open>None\<close> is that it waits, the inner one that there is nothing more.\<close>

definition waiter_next :: "exec_waiter \<Rightarrow> (exec_waiter \<times> message option) option" where
  "waiter_next w =
    (case ew_queue w of
       m # ms \<Rightarrow> Some (w\<lparr>ew_queue := ms\<rparr>, Some m)
     | [] \<Rightarrow> if \<not> ew_finished w then None else Some (w\<lparr>ew_term := None\<rparr>, ew_term w))"

definition fail_waiter :: "exec_waiter \<Rightarrow> exec_waiter" where
  "fail_waiter w = waiter_finish (message0\<lparr>m_type := TypeError, m_code := RelayError\<rparr>) w"

type_synonym waiters = "(string, exec_waiter) gomap"

definition client_dispatch :: "message \<Rightarrow> waiters \<Rightarrow> waiters" where
  "client_dispatch m ws =
    (if m_exec_id m = '''' then ws
     else case mget ws (m_exec_id m) of None \<Rightarrow> ws | Some w \<Rightarrow> mput (m_exec_id m) (waiter_push m w) ws)"

definition fail_waiters :: "waiters \<Rightarrow> waiters" where
  "fail_waiters ws = map (\<lambda>(k, w). (k, fail_waiter w)) ws"

text \<open>One waiter with what was pushed and what was taken; a failing connection pushes a terminal message.\<close>

inductive waiter_run :: "message list \<Rightarrow> message list \<Rightarrow> exec_waiter \<Rightarrow> bool" where
  waiter_new: "waiter_run [] [] new_exec_waiter"
| waiter_in: "waiter_run ps ts w \<Longrightarrow> waiter_run (ps @ [m]) ts (waiter_push m w)"
| waiter_out: "waiter_run ps ts w \<Longrightarrow> waiter_next w = Some (w1, Some m) \<Longrightarrow> waiter_run ps (ts @ [m]) w1"

section \<open>To the head: \<open>ipc.go\<close>\<close>

record exec_result =
  er_status :: string
  er_exit :: "int option"
  er_ms :: "int option"
  er_truncated :: "bool option"
  er_exec :: string
  er_content :: "string option"

datatype raw_result = NoResult | BadResult | Result exec_result

datatype notice = NoNotice | Human string | Unconfirmed | Mismatched | OtherExec | BadEvent | BadAnswer | NoErrorCode | Contradiction
  | BadResultNotice | OtherResult | NoExitCode | NoStatus | AuthorizationGone | ExitedWith int

record ipc_frame =
  fr_id :: string
  fr_event :: string
  fr_data :: string
  fr_ok :: "bool option"
  fr_result :: raw_result
  fr_code :: string
  fr_message :: notice
  fr_exec :: string

definition frame0 :: ipc_frame where
  "frame0 = \<lparr>fr_id = '''', fr_event = '''', fr_data = '''', fr_ok = None, fr_result = NoResult, fr_code = '''', fr_message = NoNotice, fr_exec = ''''\<rparr>"

definition OK_frame :: "string \<Rightarrow> exec_result \<Rightarrow> ipc_frame" where
  "OK_frame i r = frame0\<lparr>fr_id := i, fr_ok := Some True, fr_result := Result r\<rparr>"

definition Fail_frame :: "string \<Rightarrow> string \<Rightarrow> notice \<Rightarrow> ipc_frame" where
  "Fail_frame i code m = frame0\<lparr>fr_id := i, fr_ok := Some False, fr_code := code, fr_message := m\<rparr>"

definition Event_frame :: "string \<Rightarrow> string \<Rightarrow> string \<Rightarrow> ipc_frame" where
  "Event_frame i ev d = frame0\<lparr>fr_id := i, fr_event := ev, fr_data := d\<rparr>"

definition exit_result_of :: "bool \<Rightarrow> string \<Rightarrow> string \<Rightarrow> message \<Rightarrow> exec_result" where
  "exit_result_of stream exec collected m =
    \<lparr>er_status = m_status m, er_exit = m_exit_code m,
     er_ms = Some (case m_duration_ms m of None \<Rightarrow> 0 | Some d \<Rightarrow> d),
     er_truncated = Some (case m_truncated m of None \<Rightarrow> False | Some b \<Rightarrow> b), er_exec = exec,
     er_content = (if stream then None else Some collected)\<rparr>"

text \<open>\<open>consumeClient\<close> on the results of \<open>next\<close>; \<open>writes k\<close> is whether the k-th write succeeds. The result is the frames
  written, and whether a cancellation was sent to the device.\<close>

fun consume_client ::
  "(nat \<Rightarrow> bool) \<Rightarrow> nat \<Rightarrow> bool \<Rightarrow> string \<Rightarrow> string \<Rightarrow> string \<Rightarrow> message option list \<Rightarrow> ipc_frame list \<times> bool" where
  "consume_client writes k stream req exec collected [] = ([], False)"
| "consume_client writes k stream req exec collected (None # ms) = ([Fail_frame req RelayError (Human RelayError)], False)"
| "consume_client writes k stream req exec collected (Some m # ms) =
    (if m_type m = TypeStdout then
       if stream then
         let f = frame0\<lparr>fr_id := req, fr_event := ''stdout'', fr_data := m_data m, fr_exec := exec\<rparr> in
         if \<not> writes k then ([f], True)
         else (case consume_client writes (Suc k) stream req exec collected ms of (fs, c) \<Rightarrow> (f # fs, c))
       else consume_client writes k stream req exec (collected @ m_data m) ms
     else if m_type m = TypeStderr then
       if stream then
         let f = Event_frame req ''stderr'' (m_data m) in
         if \<not> writes k then ([f], True)
         else (case consume_client writes (Suc k) stream req exec collected ms of (fs, c) \<Rightarrow> (f # fs, c))
       else consume_client writes k stream req exec collected ms
     else if m_type m = TypeExit then ([OK_frame req (exit_result_of stream exec collected m)], False)
     else if m_type m = TypeInvokeNack \<or> m_type m = TypeError then ([Fail_frame req (m_code m) (Human (m_code m))], False)
     else consume_client writes k stream req exec collected ms)"

text \<open>What became of sending the invocation, and \<open>forwardInvoke\<close> with it.\<close>

datatype sent_invoke = InvokeSent | InvokeTooLarge | InvokeLost

definition forward_invoke :: "sent_invoke \<Rightarrow> (nat \<Rightarrow> bool) \<Rightarrow> bool \<Rightarrow> string \<Rightarrow> string \<Rightarrow> message option list \<Rightarrow> ipc_frame list \<times> bool" where
  "forward_invoke sent writes stream req exec ms =
    (case sent of
       InvokeTooLarge \<Rightarrow> ([Fail_frame req TooLarge (Human TooLarge)], False)
     | InvokeLost \<Rightarrow> ([Fail_frame req RelayError (Human RelayError)], False)
     | InvokeSent \<Rightarrow>
        if stream then
          let f = frame0\<lparr>fr_id := req, fr_event := ''stdout'', fr_exec := exec\<rparr> in
          if \<not> writes 0 then ([f], True)
          else (case consume_client writes 1 stream req exec [] ms of (fs, c) \<Rightarrow> (f # fs, c))
        else consume_client writes 0 stream req exec [] ms)"

section \<open>In the head: \<open>exec_events.go\<close>\<close>

record exec_event =
  ee_type :: string
  ee_exec :: string
  ee_data :: string
  ee_status :: string
  ee_exit :: "int option"
  ee_ms :: "int option"
  ee_truncated :: "bool option"
  ee_code :: string
  ee_message :: notice

definition event0 :: exec_event where
  "event0 = \<lparr>ee_type = '''', ee_exec = '''', ee_data = '''', ee_status = '''', ee_exit = None, ee_ms = None, ee_truncated = None,
     ee_code = '''', ee_message = NoNotice\<rparr>"

definition error_event :: "string \<Rightarrow> string \<Rightarrow> notice \<Rightarrow> exec_event" where
  "error_event exec code m = event0\<lparr>ee_type := ''error'', ee_exec := exec, ee_code := code, ee_message := m\<rparr>"

text \<open>What a frame is to the reader: an output to pass on, with the identifier then known, or the end, with the last event and the
  notice \<open>ReadExec\<close> returns.\<close>

datatype reading = Output exec_event string | Finish exec_event "notice option"

definition unknown_end :: "string \<Rightarrow> notice \<Rightarrow> reading" where
  "unknown_end exec m = Finish (error_event exec ResultUnknown m) (Some m)"

definition read_result :: "string \<Rightarrow> exec_result \<Rightarrow> reading" where
  "read_result exec r =
    (if (case er_ms r of None \<Rightarrow> False | Some d \<Rightarrow> d < 0) then unknown_end exec BadResultNotice
     else if er_exec r \<noteq> '''' \<and> exec \<noteq> '''' \<and> exec \<noteq> er_exec r then unknown_end exec OtherResult
     else let exec1 = (if er_exec r \<noteq> '''' then er_exec r else exec);
              e = event0\<lparr>ee_type := ''exit'', ee_exec := exec1, ee_status := er_status r, ee_exit := er_exit r, ee_ms := er_ms r,
                    ee_truncated := er_truncated r\<rparr>
          in if er_status r = ExitCompleted then
               (case er_exit r of
                  None \<Rightarrow> unknown_end exec1 NoExitCode
                | Some c \<Rightarrow> Finish e (if c \<noteq> 0 then Some (ExitedWith c) else None))
             else if er_status r = ExitCancelled then Finish e (Some (Human Cancelled))
             else if er_status r = ExitTimeout then Finish e (Some (Human ExecTimeout))
             else if er_status r = ExitAuthorizationLost then Finish e (Some AuthorizationGone)
             else unknown_end exec1 NoStatus)"

definition read_frame :: "string \<Rightarrow> string \<Rightarrow> ipc_frame option \<Rightarrow> reading" where
  "read_frame req exec f =
    (case f of
       None \<Rightarrow> unknown_end exec Unconfirmed
     | Some fr \<Rightarrow>
        if fr_id fr \<noteq> req then unknown_end exec Mismatched
        else if fr_exec fr \<noteq> '''' \<and> exec \<noteq> '''' \<and> exec \<noteq> fr_exec fr then unknown_end exec OtherExec
        else let exec1 = (if fr_exec fr \<noteq> '''' then fr_exec fr else exec) in
        if fr_event fr \<noteq> '''' then
          if fr_ok fr \<noteq> None \<or> fr_code fr \<noteq> '''' \<or> fr_result fr \<noteq> NoResult \<or> fr_event fr \<noteq> ''stdout'' \<and> fr_event fr \<noteq> ''stderr''
          then unknown_end exec1 BadEvent
          else Output (event0\<lparr>ee_type := fr_event fr, ee_exec := exec1, ee_data := fr_data fr\<rparr>) exec1
        else case fr_ok fr of
          None \<Rightarrow> unknown_end exec1 BadAnswer
        | Some False \<Rightarrow>
            if fr_code fr = '''' then unknown_end exec1 NoErrorCode
            else Finish (error_event exec1 (fr_code fr) (Human (fr_code fr))) (Some (Human (fr_code fr)))
        | Some True \<Rightarrow>
            if fr_code fr \<noteq> '''' then unknown_end exec1 Contradiction
            else (case fr_result fr of Result r \<Rightarrow> read_result exec1 r | _ \<Rightarrow> unknown_end exec1 BadResultNotice))"

datatype read_end = SinkFailed | Ended "notice option"

text \<open>\<open>ReadExec\<close>: \<open>reads k\<close> is the k-th read, \<open>None\<close> an error; \<open>sink k\<close> is whether the k-th event can be written. The result
  is the events written, the one that failed included; \<open>None\<close> is that the fuel did not do.\<close>

fun read_exec ::
  "nat \<Rightarrow> string \<Rightarrow> (nat \<Rightarrow> ipc_frame option) \<Rightarrow> (nat \<Rightarrow> bool) \<Rightarrow> nat \<Rightarrow> string \<Rightarrow> (exec_event list \<times> read_end) option" where
  "read_exec 0 req reads sink k exec = None"
| "read_exec (Suc n) req reads sink k exec =
    (case read_frame req exec (reads k) of
       Finish e r \<Rightarrow> Some ([e], if sink k then Ended r else SinkFailed)
     | Output e exec1 \<Rightarrow>
        if \<not> sink k then Some ([e], SinkFailed)
        else map_option (\<lambda>(es, r). (e # es, r)) (read_exec n req reads sink (Suc k) exec1))"

end
