(* ===== verification/ExecReplyProps.thy ===== *)
theory ExecReplyProps
  imports ExecReply
begin

text \<open>
  What the caller of an execution may rely on: the reader of the answer returns, shows exactly one end, and an end that is not
  marked truncated stands behind all of the output the connection delivered.
\<close>

section \<open>The reader\<close>

lemma unknown_end_type: "unknown_end exec m = Finish e r \<Longrightarrow> ee_type e = ''error''" "unknown_end exec m \<noteq> Output e x"
  by (auto simp: unknown_end_def error_event_def)

lemma read_result_finish: "\<exists>e r. read_result exec x = Finish e r \<and> (ee_type e = ''exit'' \<and> ee_truncated e = er_truncated x \<or> ee_type e = ''error'')"
  unfolding read_result_def Let_def unknown_end_def error_event_def by (auto simp: event0_def split: option.splits)

lemma read_frame_finish: "read_frame req exec f = Finish e r \<Longrightarrow> ee_type e = ''exit'' \<or> ee_type e = ''error''"
  using read_result_finish unfolding read_frame_def unknown_end_def error_event_def Let_def
  by (auto split: option.splits if_splits bool.splits raw_result.splits) (metis reading.inject(2))+

lemma read_frame_output:
  assumes "read_frame req exec f = Output e x"
  shows "\<exists>fr. f = Some fr \<and> fr_event fr \<noteq> '''' \<and> ee_type e = fr_event fr \<and> (ee_type e = ''stdout'' \<or> ee_type e = ''stderr'') \<and> ee_data e = fr_data fr"
proof -
  have n: "read_result y z \<noteq> Output e x" for y z using read_result_finish [of y z] by auto
  show ?thesis using assms n unfolding read_frame_def Let_def unknown_end_def
    by (auto split: option.splits if_splits bool.splits raw_result.splits simp: event0_def)
qed

text \<open>One event per read; the last one is the end, or the one that could not be written.\<close>

lemma read_exec_shape:
  "read_exec n req reads sink k exec = Some (es, r) \<Longrightarrow>
   \<exists>outs t. es = outs @ [t] \<and> list_all (\<lambda>e. ee_type e = ''stdout'' \<or> ee_type e = ''stderr'') outs \<and> (\<forall>j<length outs. sink (k + j))
     \<and> (case r of SinkFailed \<Rightarrow> \<not> sink (k + length outs)
        | Ended _ \<Rightarrow> sink (k + length outs) \<and> (ee_type t = ''exit'' \<or> ee_type t = ''error''))"
proof (induction n arbitrary: k exec es)
  case (Suc n)
  show ?case
  proof (cases "read_frame req exec (reads k)")
    case (Finish e x)
    then have "es = [e]" "r = (if sink k then Ended x else SinkFailed)" using Suc.prems by simp_all
    then show ?thesis using read_frame_finish [OF Finish] by (intro exI [of _ "[]"] exI [of _ e]) simp
  next
    case (Output e exec1)
    note o = read_frame_output [OF Output]
    show ?thesis
    proof (cases "sink k")
      case False
      then show ?thesis using Suc.prems Output by (intro exI [of _ "[]"] exI [of _ e]) auto
    next
      case True
      then obtain es1 where es: "es = e # es1" "read_exec n req reads sink (Suc k) exec1 = Some (es1, r)"
        using Suc.prems Output by auto
      obtain outs t where t: "es1 = outs @ [t]" "list_all (\<lambda>e. ee_type e = ''stdout'' \<or> ee_type e = ''stderr'') outs"
        "\<forall>j<length outs. sink (Suc k + j)"
        "case r of SinkFailed \<Rightarrow> \<not> sink (Suc k + length outs)
          | Ended _ \<Rightarrow> sink (Suc k + length outs) \<and> (ee_type t = ''exit'' \<or> ee_type t = ''error'')"
        using Suc.IH [OF es(2)] by blast
      have "\<forall>j<length (e # outs). sink (k + j)" using True t(3) by (auto simp: less_Suc_eq_0_disj)
      then show ?thesis using es(1) t o by (intro exI [of _ "e # outs"] exI [of _ t]) (auto split: read_end.splits)
    qed
  qed
qed simp

lemma read_exec_enough:
  "reads (k + d) = None \<or> (\<exists>f. reads (k + d) = Some f \<and> fr_event f = '''') \<Longrightarrow> d < n \<Longrightarrow> read_exec n req reads sink k exec \<noteq> None"
proof (induction n arbitrary: k d exec)
  case (Suc n)
  show ?case
  proof (cases "read_frame req exec (reads k)")
    case (Output e exec1)
    then have "d \<noteq> 0" using read_frame_output [OF Output] Suc.prems(1) by (cases d) auto
    then obtain c where c: "d = Suc c" by (cases d) auto
    have "read_exec n req reads sink (Suc k) exec1 \<noteq> None" by (rule Suc.IH [of "Suc k" c]) (use Suc.prems c in simp_all)
    then show ?thesis using Output by auto
  qed simp
qed simp

section \<open>The waiter\<close>

definition marked :: "bool \<Rightarrow> message \<Rightarrow> message" where
  "marked tr m = (if tr \<and> m_type m = TypeExit then m\<lparr>m_truncated := Some True\<rparr> else m)"

lemma marked_terminal [simp]: "is_terminal (marked tr m) = is_terminal m"
  by (simp add: marked_def is_terminal_def)

lemma waiter_before:
  "waiter_run ps ts w \<Longrightarrow> list_all (\<lambda>m. \<not> is_terminal m) ps \<Longrightarrow>
   \<not> ew_finished w \<and> list_all (\<lambda>m. \<not> is_terminal m) (ts @ ew_queue w) \<and> (\<not> ew_trunc w \<longrightarrow> ts @ ew_queue w = ps)"
proof (induction rule: waiter_run.induct)
  case waiter_new
  then show ?case by (simp add: new_exec_waiter_def)
next
  case (waiter_in ps ts w m)
  then show ?case by (auto simp: waiter_push_def)
next
  case (waiter_out ps ts w w1 m)
  then show ?case by (cases "ew_queue w") (auto simp: waiter_next_def)
qed

definition after_end :: "message list \<Rightarrow> message \<Rightarrow> message list \<Rightarrow> exec_waiter \<Rightarrow> bool" where
  "after_end ds t0 ts w \<longleftrightarrow> ew_finished w \<and> list_all (\<lambda>m. \<not> is_terminal m) (ew_queue w) \<and> (\<exists>tr.
     (ew_term w = Some (marked tr t0) \<and> list_all (\<lambda>m. \<not> is_terminal m) ts \<and> (\<not> tr \<longrightarrow> ts @ ew_queue w = ds))
     \<or> (ew_term w = None \<and> ew_queue w = [] \<and> (\<exists>outs. ts = outs @ [marked tr t0] \<and> list_all (\<lambda>m. \<not> is_terminal m) outs \<and> (\<not> tr \<longrightarrow> outs = ds))))"

lemma waiter_after:
  "waiter_run ps ts w \<Longrightarrow> ps = ds @ [t0] \<Longrightarrow> list_all (\<lambda>m. \<not> is_terminal m) ds \<Longrightarrow> is_terminal t0 \<Longrightarrow> after_end ds t0 ts w"
proof (induction rule: waiter_run.induct)
  case (waiter_in ps ts w m)
  then have d: "ps = ds" "m = t0" by simp_all
  then have b: "\<not> ew_finished w" "list_all (\<lambda>m. \<not> is_terminal m) (ts @ ew_queue w)" "\<not> ew_trunc w \<longrightarrow> ts @ ew_queue w = ds"
    using waiter_before [OF waiter_in(1)] waiter_in(4) by auto
  then have "waiter_push m w = w\<lparr>ew_finished := True, ew_term := Some (marked (ew_trunc w) t0)\<rparr>"
    using waiter_in(5) d by (simp add: waiter_push_def waiter_finish_def marked_def)
  then show ?case using b by (auto simp: after_end_def)
next
  case (waiter_out ps ts w w1 m)
  then have a: "after_end ds t0 ts w" by blast
  show ?case
  proof (cases "ew_queue w")
    case Nil
    then have "ew_term w = Some m" "w1 = w\<lparr>ew_term := None\<rparr>" using waiter_out(2) by (auto simp: waiter_next_def split: if_splits)
    then show ?thesis using a Nil by (auto simp: after_end_def)
  next
    case (Cons x xs)
    then have "x = m" "w1 = w\<lparr>ew_queue := xs\<rparr>" using waiter_out(2) by (auto simp: waiter_next_def)
    then show ?thesis using a Cons by (auto simp: after_end_def)
  qed
qed simp

lemma waiter_whole:
  assumes "waiter_run (ds @ [t0]) (outs @ [t]) w" "list_all (\<lambda>m. \<not> is_terminal m) ds" "is_terminal t0" "is_terminal t"
  shows "list_all (\<lambda>m. \<not> is_terminal m) outs \<and> (m_type t = TypeExit \<and> m_truncated t \<noteq> Some True \<longrightarrow> outs = ds)"
proof -
  have a: "after_end ds t0 (outs @ [t]) w" by (rule waiter_after [OF assms(1) refl assms(2,3)])
  then obtain tr where "outs @ [t] = outs @ [marked tr t0]" "list_all (\<lambda>m. \<not> is_terminal m) outs" "\<not> tr \<longrightarrow> outs = ds"
    using assms(4) by (auto simp: after_end_def)
  then show ?thesis by (auto simp: marked_def)
qed

section \<open>From the waiter to the head\<close>

definition output_type :: "message \<Rightarrow> bool" where
  "output_type m \<longleftrightarrow> m_type m = TypeStdout \<or> m_type m = TypeStderr"

definition frame_of :: "string \<Rightarrow> string \<Rightarrow> message \<Rightarrow> ipc_frame" where
  "frame_of req exec m = (if m_type m = TypeStdout then frame0\<lparr>fr_id := req, fr_event := ''stdout'', fr_data := m_data m, fr_exec := exec\<rparr>
     else Event_frame req ''stderr'' (m_data m))"

definition last_frame :: "string \<Rightarrow> string \<Rightarrow> message \<Rightarrow> ipc_frame" where
  "last_frame req exec m = (if m_type m = TypeExit then OK_frame req (exit_result_of True exec [] m) else Fail_frame req (m_code m) (Human (m_code m)))"

lemma output_not_terminal: "output_type m \<Longrightarrow> \<not> is_terminal m"
  by (auto simp: output_type_def is_terminal_def)

lemma consume_frames:
  "list_all output_type ms \<Longrightarrow> is_terminal t \<Longrightarrow>
   consume_client (\<lambda>_. True) k True req exec [] (map Some (ms @ [t])) = (map (frame_of req exec) ms @ [last_frame req exec t], False)"
proof (induction ms arbitrary: k)
  case Nil
  then show ?case by (auto simp: is_terminal_def last_frame_def)
next
  case (Cons m ms)
  then show ?case by (auto simp: output_type_def frame_of_def Let_def)
qed

definition frame_at :: "ipc_frame list \<Rightarrow> nat \<Rightarrow> ipc_frame option" where
  "frame_at fs k = (if k < length fs then Some (fs ! k) else None)"

lemma frame_at_append: "frame_at (as @ f # bs) (length as) = Some f"
  by (simp add: frame_at_def)

definition event_of :: "string \<Rightarrow> message \<Rightarrow> exec_event" where
  "event_of exec m = event0\<lparr>ee_type := (if m_type m = TypeStdout then ''stdout'' else ''stderr''), ee_exec := exec, ee_data := m_data m\<rparr>"

lemma read_output_frame: "read_frame req exec (Some (frame_of req exec m)) = Output (event_of exec m) exec"
  by (simp add: read_frame_def frame_of_def event_of_def frame0_def Event_frame_def)

lemma read_last_frame: "\<exists>e r. read_frame req exec (Some (last_frame req exec m)) = Finish e r
    \<and> (ee_type e = ''exit'' \<longrightarrow> m_type m = TypeExit \<and> ee_truncated e = Some (case m_truncated m of None \<Rightarrow> False | Some b \<Rightarrow> b))"
  using read_result_finish [of exec "exit_result_of True exec [] m"]
  by (auto simp: read_frame_def last_frame_def OK_frame_def Fail_frame_def frame0_def unknown_end_def error_event_def event0_def exit_result_of_def)

lemma read_exec_frames:
  "fs = pre @ map (frame_of req exec) ms @ [last_frame req exec t] \<Longrightarrow>
   read_exec n req (frame_at fs) (\<lambda>_. True) (length pre) exec = Some (es, r) \<Longrightarrow>
   \<exists>e. es = map (event_of exec) ms @ [e] \<and> (ee_type e = ''exit'' \<longrightarrow> m_type t = TypeExit
     \<and> ee_truncated e = Some (case m_truncated t of None \<Rightarrow> False | Some b \<Rightarrow> b))"
proof (induction ms arbitrary: n pre es)
  case Nil
  then obtain k where n: "n = Suc k" by (cases n) auto
  have "frame_at fs (length pre) = Some (last_frame req exec t)" using Nil(1) frame_at_append by simp
  then show ?case using Nil(2) n read_last_frame [of req exec t] by auto
next
  case (Cons m ms)
  then obtain k where n: "n = Suc k" by (cases n) auto
  have "frame_at fs (length pre) = Some (frame_of req exec m)" using Cons(2) frame_at_append by simp
  then obtain es1 where es: "es = event_of exec m # es1" "read_exec k req (frame_at fs) (\<lambda>_. True) (Suc (length pre)) exec = Some (es1, r)"
    using Cons(3) n read_output_frame by auto
  have "\<exists>e. es1 = map (event_of exec) ms @ [e] \<and> (ee_type e = ''exit'' \<longrightarrow> m_type t = TypeExit
     \<and> ee_truncated e = Some (case m_truncated t of None \<Rightarrow> False | Some b \<Rightarrow> b))"
    by (rule Cons.IH [of "pre @ [frame_of req exec m]"]) (use Cons(2) es(2) in simp_all)
  then show ?case using es(1) by auto
qed

text \<open>What a head shows of one stream, and what was pushed for it.\<close>

definition shown :: "string \<Rightarrow> exec_event list \<Rightarrow> string" where
  "shown s es = concat (map ee_data (filter (\<lambda>e. ee_type e = s) es))"

definition pushed :: "string \<Rightarrow> message list \<Rightarrow> string" where
  "pushed s ms = concat (map m_data (filter (\<lambda>m. m_type m = s) ms))"

lemma shown_events: "list_all output_type ms \<Longrightarrow> s \<in> {TypeStdout, TypeStderr} \<Longrightarrow> shown s (map (event_of exec) ms) = pushed s ms"
  by (induction ms) (auto simp: shown_def pushed_def event_of_def output_type_def event0_def)

section \<open>Properties\<close>

text \<open>C38. The reader returns. If some read fails or is a frame that is no event, \<open>ReadExec\<close> returns within the reads up to that one,
  whatever the other frames are and whatever happens to the head's output.\<close>

theorem read_exec_returns:
  assumes "reads d = None \<or> (\<exists>f. reads d = Some f \<and> fr_event f = '''')"
  shows "\<exists>es r. read_exec (Suc d) req reads sink 0 [] = Some (es, r) \<and> length es \<le> Suc d"
proof -
  obtain es r where e: "read_exec (Suc d) req reads sink 0 [] = Some (es, r)"
    using read_exec_enough [of reads 0 d "Suc d" req sink "[]"] assms by auto
  have "read_exec n req reads sink k x = Some (es, r) \<Longrightarrow> length es \<le> n" for n k x es r
    by (induction n arbitrary: k x es) (auto split: reading.splits if_splits)
  then show ?thesis using e by blast
qed

theorem read_exec_returns_witness: "\<exists>es r. read_exec 1 ''q'' (\<lambda>_. None) (\<lambda>_. True) 0 [] = Some (es, r) \<and> length es \<le> 1"
  using read_exec_returns [of "\<lambda>_. None" 0 "''q''" "\<lambda>_. True"] by simp

text \<open>The head shows exactly one end. What \<open>ReadExec\<close> writes is output, then one last event; it is an exit or an error when it
  could be written, and after a write that failed nothing more is written.\<close>

theorem read_exec_one_end:
  assumes "read_exec n req reads sink 0 [] = Some (es, r)"
  shows "\<exists>outs t. es = outs @ [t] \<and> list_all (\<lambda>e. ee_type e = ''stdout'' \<or> ee_type e = ''stderr'') outs \<and> (\<forall>j<length outs. sink j)
     \<and> (if r = SinkFailed then \<not> sink (length outs) else sink (length outs) \<and> (ee_type t = ''exit'' \<or> ee_type t = ''error''))"
  by (cases r) (use read_exec_shape [OF assms] in auto)

theorem read_exec_one_end_witness:
  "\<exists>outs t. [error_event [] ResultUnknown Unconfirmed] = outs @ [t] \<and> (ee_type t = ''exit'' \<or> ee_type t = ''error'')"
proof -
  have "read_exec 1 ''q'' (\<lambda>_. None) (\<lambda>_. True) 0 [] = Some ([error_event [] ResultUnknown Unconfirmed], Ended (Some Unconfirmed))"
    by (simp add: read_frame_def unknown_end_def)
  then show ?thesis using read_exec_one_end by fastforce
qed

text \<open>C39. An exit that is not marked truncated stands behind all of the output. The connection's reader pushes the output of an
  execution and its end; the request takes from the waiter as it can, and writes to the head, which reads. When the head shows an exit
  that is not marked truncated, it has shown, for both streams, exactly what was pushed, however pushing and taking were interleaved.\<close>

theorem untruncated_exit_is_whole:
  assumes "waiter_run (ds @ [t0]) (outs @ [t]) w" "list_all output_type ds" "is_terminal t0" "list_all output_type outs" "is_terminal t"
    "read_exec n req (frame_at (fst (forward_invoke InvokeSent (\<lambda>_. True) True req exec (map Some (outs @ [t]))))) (\<lambda>_. True) 0 [] = Some (es, r)"
    "ee_type (last es) = ''exit''" "ee_truncated (last es) \<noteq> Some True"
  shows "shown ''stdout'' es = pushed ''stdout'' ds \<and> shown ''stderr'' es = pushed ''stderr'' ds"
proof -
  define f0 where "f0 = frame0\<lparr>fr_id := req, fr_event := ''stdout'', fr_exec := exec\<rparr>"
  have fs: "fst (forward_invoke InvokeSent (\<lambda>_. True) True req exec (map Some (outs @ [t]))) = f0 # map (frame_of req exec) outs @ [last_frame req exec t]"
    using consume_frames [OF assms(4,5), of 1 req exec] by (simp add: forward_invoke_def f0_def del: map_append)
  obtain k where n: "n = Suc k" using assms(6) by (cases n) auto
  have f: "read_frame req [] (frame_at (f0 # map (frame_of req exec) outs @ [last_frame req exec t]) 0)
      = Output (event0\<lparr>ee_type := ''stdout'', ee_exec := exec\<rparr>) exec"
    by (simp add: frame_at_def f0_def read_frame_def frame0_def event0_def)
  then obtain es1 where es: "es = event0\<lparr>ee_type := ''stdout'', ee_exec := exec\<rparr> # es1"
    "read_exec k req (frame_at (f0 # map (frame_of req exec) outs @ [last_frame req exec t])) (\<lambda>_. True) (length [f0]) exec = Some (es1, r)"
    using assms(6) n unfolding fs by auto
  obtain e where e: "es1 = map (event_of exec) outs @ [e]"
    "ee_type e = ''exit'' \<longrightarrow> m_type t = TypeExit \<and> ee_truncated e = Some (case m_truncated t of None \<Rightarrow> False | Some b \<Rightarrow> b)"
    using read_exec_frames [OF _ es(2)] by auto
  have x: "ee_type e = ''exit''" "ee_truncated e \<noteq> Some True" using assms(7,8) es(1) e(1) by simp_all
  have "list_all (\<lambda>m. \<not> is_terminal m) ds" using assms(2) output_not_terminal by (auto simp: list_all_iff)
  then have "outs = ds" using waiter_whole [OF assms(1) _ assms(3,5)] x e(2) by (auto split: option.splits)
  moreover have "shown s es = shown s (map (event_of exec) outs)" if "s \<in> {''stdout'', ''stderr''}" for s
    using that x(1) unfolding es(1) e(1) shown_def by (auto simp: event0_def)
  ultimately show ?thesis using shown_events [OF assms(2)] by simp
qed

text \<open>One chunk, taken before the execution ended.\<close>

definition out_msg :: message where "out_msg = message0\<lparr>m_type := TypeStdout, m_data := ''hi''\<rparr>"
definition end_msg :: message where "end_msg = message0\<lparr>m_type := TypeExit, m_status := ExitCompleted, m_exit_code := Some 0\<rparr>"

lemma sample_run: "\<exists>w. waiter_run ([out_msg] @ [end_msg]) ([out_msg] @ [end_msg]) w"
proof -
  define w1 where "w1 = waiter_push out_msg new_exec_waiter"
  define w2 where "w2 = w1\<lparr>ew_queue := []\<rparr>"
  have q: "ew_queue w1 = [out_msg]" by (simp add: w1_def waiter_push_def new_exec_waiter_def is_terminal_def out_msg_def)
  have "waiter_run ([] @ [out_msg]) [] w1" unfolding w1_def by (intro waiter_in waiter_new)
  then have "waiter_run ([] @ [out_msg]) ([] @ [out_msg]) w2" by (rule waiter_out) (simp add: waiter_next_def q w2_def)
  then have "waiter_run (([] @ [out_msg]) @ [end_msg]) ([] @ [out_msg]) (waiter_push end_msg w2)" by (rule waiter_in)
  then have "waiter_run (([] @ [out_msg]) @ [end_msg]) (([] @ [out_msg]) @ [end_msg]) ((waiter_push end_msg w2)\<lparr>ew_term := None\<rparr>)"
    by (rule waiter_out)
      (simp add: waiter_next_def waiter_push_def waiter_finish_def is_terminal_def end_msg_def w2_def w1_def new_exec_waiter_def out_msg_def)
  then show ?thesis by auto
qed

definition sample_events :: "exec_event list" where
  "sample_events =
    [event0\<lparr>ee_type := ''stdout'', ee_exec := ''x''\<rparr>, event0\<lparr>ee_type := ''stdout'', ee_exec := ''x'', ee_data := ''hi''\<rparr>,
     event0\<lparr>ee_type := ''exit'', ee_exec := ''x'', ee_status := ExitCompleted, ee_exit := Some 0, ee_ms := Some 0, ee_truncated := Some False\<rparr>]"

lemma sample_sent: "forward_invoke InvokeSent (\<lambda>_. True) True ''q'' ''x'' (map Some ([out_msg] @ [end_msg]))
  = ([frame0\<lparr>fr_id := ''q'', fr_event := ''stdout'', fr_exec := ''x''\<rparr>, frame_of ''q'' ''x'' out_msg, last_frame ''q'' ''x'' end_msg], False)"
  by (simp add: forward_invoke_def Let_def frame_of_def last_frame_def out_msg_def end_msg_def)

lemma sample_read:
  "read_exec 3 ''q'' (frame_at [frame0\<lparr>fr_id := ''q'', fr_event := ''stdout'', fr_exec := ''x''\<rparr>, frame_of ''q'' ''x'' out_msg,
     last_frame ''q'' ''x'' end_msg]) (\<lambda>_. True) 0 [] = Some (sample_events, Ended None)"
  by (simp add: numeral_3_eq_3 frame_at_def frame_of_def last_frame_def out_msg_def end_msg_def read_frame_def read_result_def
      OK_frame_def frame0_def exit_result_of_def sample_events_def event0_def message0_def Let_def)

theorem untruncated_exit_is_whole_witness: "shown ''stdout'' sample_events = ''hi''"
proof -
  obtain w where "waiter_run ([out_msg] @ [end_msg]) ([out_msg] @ [end_msg]) w" using sample_run by blast
  then have "shown ''stdout'' sample_events = pushed ''stdout'' [out_msg] \<and> shown ''stderr'' sample_events = pushed ''stderr'' [out_msg]"
    by (rule untruncated_exit_is_whole [where req = "''q''" and exec = "''x''" and n = 3 and r = "Ended None"])
      (simp_all only: sample_sent fst_conv sample_read, simp_all add: output_type_def is_terminal_def out_msg_def end_msg_def sample_events_def event0_def)
  then show ?thesis by (simp add: pushed_def out_msg_def)
qed

end
