(* ===== verification/Release.thy ===== *)
theory Release
  imports Prelude
begin

text \<open>
  Installing and rolling back the Runtime on the device (\<open>internal/release\<close>): manifests, the versioned store, the state file and
  activation. The state file is replaced by a rename, so it is either the old or the new one. A call to the operating system that may
  fail takes its outcome from the environment by a counter of such calls; so do the answers of the process control, which is an
  interface here. What is written for good, and each start and stop, is logged, so that an interruption can be placed behind any of them.
\<close>

section \<open>Manifests: \<open>manifest.go\<close>\<close>

definition maxBinaryBytes :: int where "maxBinaryBytes = 256 * 1024 * 1024"

record build_info =
  bi_version :: string
  bi_revision :: string
  bi_built_at :: string
  bi_dirty :: bool
  bi_protocol :: int
  bi_profile_format :: int
  bi_os :: string
  bi_arch :: string

record executable =
  ex_info :: build_info
  ex_path :: string
  ex_sha :: string
  ex_pid :: int

record artifact =
  art_file :: string
  art_sha :: string
  art_size :: int

record manifest =
  mf_schema :: int
  mf_build :: build_info
  mf_artifact :: artifact

record rel_state =
  rs_current :: "manifest option"
  rs_previous :: "manifest option"
  rs_pending :: "manifest option"

definition empty_state :: rel_state where
  "empty_state = \<lparr>rs_current = None, rs_previous = None, rs_pending = None\<rparr>"

datatype rel_fault = IoFault | Absent | ControlFault
  | UnsupportedManifest | BadBuildIdentity | BadProfileFormat | OtherPlatform | BadArtifact | BadBundle
  | SizeMismatch | ChecksumMismatch | ArtifactChanged | InstalledMismatch
  | PreviousInterrupted | IdentityMismatch | AlreadySelected | NoPreviousVersion | OtherActive | InterruptedInitial
  | StopUnsaved rel_fault | ActivationCancelled rel_fault | RecoveryRequired rel_fault
  | RollbackUnverified rel_fault | RollbackFailed rel_fault | RecoveryUnsaved rel_fault | PreviousRestored rel_fault

datatype rel_file = Regular string | Irregular

type_synonym rel_path = "string \<times> string"
type_synonym rel_files = "rel_path \<Rightarrow> rel_file option"

text \<open>The state file: none, one that does not decode, or a state.\<close>

datatype state_file = NoState | Garbled | Holds rel_state

datatype rel_event = EvSaved rel_state rel_files | EvStop | EvStart rel_path string

record rel_world =
  rw_state :: state_file
  rw_files :: rel_files
  rw_calls :: nat
  rw_log :: "rel_event list"

text \<open>The environment: SHA-256, the platform and build of the running program, whether a state's encoding is within the limit of
  the reader, which calls fail, what the process control answers, and the files of running executables.\<close>

record rel_env =
  re_sha :: "string \<Rightarrow> string"
  re_os :: string
  re_arch :: string
  re_protocol :: int
  re_profile_format :: int
  re_fits :: "rel_state \<Rightarrow> bool"
  re_fails :: "nat \<Rightarrow> bool"
  re_running :: "nat \<Rightarrow> rel_fault + executable option"
  re_check :: "nat \<Rightarrow> rel_path \<Rightarrow> rel_fault + executable"
  re_image :: "string \<Rightarrow> string option"

text \<open>A bundle: its manifest if it opens and decodes, with nothing behind it, and its files.\<close>

record release_bundle =
  bd_manifest :: "manifest option"
  bd_file :: "string \<Rightarrow> string option"

type_synonym 'a rel_op = "rel_world \<Rightarrow> (rel_fault + 'a) \<times> rel_world"

definition give :: "'a \<Rightarrow> 'a rel_op" where
  "give x w = (Inr x, w)"

definition refuse :: "rel_fault \<Rightarrow> 'a rel_op" where
  "refuse e w = (Inl e, w)"

definition attempt :: "'a rel_op \<Rightarrow> (rel_fault + 'a \<Rightarrow> 'b rel_op) \<Rightarrow> 'b rel_op" where
  "attempt m f w = (case m w of (r, w1) \<Rightarrow> f r w1)"

definition andthen :: "'a rel_op \<Rightarrow> ('a \<Rightarrow> 'b rel_op) \<Rightarrow> 'b rel_op" where
  "andthen m f = attempt m (\<lambda>r. case r of Inl e \<Rightarrow> refuse e | Inr x \<Rightarrow> f x)"

definition sys_call :: "rel_env \<Rightarrow> unit rel_op" where
  "sys_call e w = (if re_fails e (rw_calls w) then Inl IoFault else Inr (), w\<lparr>rw_calls := Suc (rw_calls w)\<rparr>)"

definition digest_pattern :: "string \<Rightarrow> bool" where
  "digest_pattern s \<longleftrightarrow> length s = 64 \<and> list_all (\<lambda>c. c \<in> set ''abcdef0123456789'') s"

definition binary_name :: "string \<Rightarrow> string" where
  "binary_name os = (if os = ''windows'' then ''xallor-remote.exe'' else ''xallor-remote'')"

definition validate_manifest :: "rel_env \<Rightarrow> manifest \<Rightarrow> unit rel_op" where
  "validate_manifest e m =
    (if mf_schema m \<noteq> 1 then refuse UnsupportedManifest
     else if bi_version (mf_build m) = '''' \<or> bi_revision (mf_build m) = '''' \<or> bi_protocol (mf_build m) \<noteq> re_protocol e then refuse BadBuildIdentity
     else if bi_profile_format (mf_build m) \<noteq> re_profile_format e then refuse BadProfileFormat
     else if bi_os (mf_build m) \<noteq> re_os e \<or> bi_arch (mf_build m) \<noteq> re_arch e then refuse OtherPlatform
     else if art_file (mf_artifact m) \<noteq> binary_name (re_os e) \<or> \<not> digest_pattern (art_sha (mf_artifact m))
       \<or> art_size (mf_artifact m) \<le> 0 \<or> art_size (mf_artifact m) > maxBinaryBytes then refuse BadArtifact
     else give ())"

text \<open>\<open>Path\<close>, below the directory of the versions.\<close>

definition rel_path_of :: "manifest \<Rightarrow> rel_path" where
  "rel_path_of m = (art_sha (mf_artifact m), art_file (mf_artifact m))"

text \<open>\<open>HashFile\<close> opens and reads the file.\<close>

definition hash_file :: "rel_env \<Rightarrow> string \<Rightarrow> string rel_op" where
  "hash_file e c = andthen (sys_call e) (\<lambda>_. give (re_sha e c))"

definition verify_release :: "rel_env \<Rightarrow> manifest \<Rightarrow> unit rel_op" where
  "verify_release e m =
    andthen (validate_manifest e m) (\<lambda>_.
    andthen (sys_call e) (\<lambda>_ w.
      case rw_files w (rel_path_of m) of
        None \<Rightarrow> refuse Absent w
      | Some Irregular \<Rightarrow> refuse ArtifactChanged w
      | Some (Regular c) \<Rightarrow>
          if int (length c) \<noteq> art_size (mf_artifact m) then refuse ArtifactChanged w
          else andthen (hash_file e c) (\<lambda>sum. if sum \<noteq> art_sha (mf_artifact m) then refuse InstalledMismatch else give ()) w))"

definition rename_into :: "rel_env \<Rightarrow> rel_path \<Rightarrow> string \<Rightarrow> unit rel_op" where
  "rename_into e p c = andthen (sys_call e) (\<lambda>_ w. (Inr (), w\<lparr>rw_files := (rw_files w)(p := Some (Regular c))\<rparr>))"

text \<open>\<open>copyArtifact\<close>: the directory, the temporary file, the copy bounded one byte above the largest binary, its size, the flush and
  the close, the digest of what was written, and the destination.\<close>

definition copy_artifact :: "rel_env \<Rightarrow> string \<Rightarrow> manifest \<Rightarrow> unit rel_op" where
  "copy_artifact e source m =
    andthen (sys_call e) (\<lambda>_.
    andthen (sys_call e) (\<lambda>_.
    andthen (sys_call e) (\<lambda>_.
      let c = take (nat (maxBinaryBytes + 1)) source in
      if int (length c) \<noteq> art_size (mf_artifact m) then refuse SizeMismatch
      else
        andthen (sys_call e) (\<lambda>_.
        andthen (sys_call e) (\<lambda>_.
        andthen (hash_file e c) (\<lambda>sum.
          if sum \<noteq> art_sha (mf_artifact m) then refuse ChecksumMismatch
          else
            andthen (sys_call e) (\<lambda>_ w.
              if rw_files w (rel_path_of m) \<noteq> None then verify_release e m w
              else andthen (sys_call e) (\<lambda>_. rename_into e (rel_path_of m) c) w)))))))"

definition stage :: "rel_env \<Rightarrow> release_bundle \<Rightarrow> manifest rel_op" where
  "stage e b =
    andthen (sys_call e) (\<lambda>_.
      case bd_manifest b of
        None \<Rightarrow> refuse BadBundle
      | Some m \<Rightarrow>
          andthen (validate_manifest e m) (\<lambda>_.
            case bd_file b (art_file (mf_artifact m)) of
              None \<Rightarrow> refuse IoFault
            | Some source \<Rightarrow> andthen (copy_artifact e source m) (\<lambda>_. give m)))"

section \<open>The store: \<open>store.go\<close>\<close>

definition validate_opt :: "rel_env \<Rightarrow> manifest option \<Rightarrow> unit rel_op" where
  "validate_opt e m = (case m of None \<Rightarrow> give () | Some m1 \<Rightarrow> validate_manifest e m1)"

definition read_state :: "rel_env \<Rightarrow> rel_state rel_op" where
  "read_state e =
    andthen (sys_call e) (\<lambda>_ w.
      case rw_state w of
        NoState \<Rightarrow> give empty_state w
      | Garbled \<Rightarrow> refuse IoFault w
      | Holds st \<Rightarrow>
          if \<not> re_fits e st then refuse IoFault w
          else andthen (validate_opt e (rs_current st)) (\<lambda>_.
               andthen (validate_opt e (rs_previous st)) (\<lambda>_.
               andthen (validate_opt e (rs_pending st)) (\<lambda>_. give st))) w)"

text \<open>\<open>save\<close>: whatever fails before the rename, and a rename that fails, leaves the file as it was.\<close>

definition save_state :: "rel_env \<Rightarrow> rel_state \<Rightarrow> unit rel_op" where
  "save_state e st =
    andthen (sys_call e) (\<lambda>_ w. (Inr (), w\<lparr>rw_state := Holds st, rw_log := rw_log w @ [EvSaved st (rw_files w)]\<rparr>))"

definition active_path :: "rel_env \<Rightarrow> rel_path option rel_op" where
  "active_path e =
    andthen (read_state e) (\<lambda>st.
      case rs_current st of
        None \<Rightarrow> if rs_pending st \<noteq> None then refuse InterruptedInitial else give None
      | Some m \<Rightarrow> andthen (verify_release e m) (\<lambda>_. give (Some (rel_path_of m))))"

definition snapshot_running :: "rel_env \<Rightarrow> executable \<Rightarrow> manifest rel_op" where
  "snapshot_running e x =
    andthen (sys_call e) (\<lambda>_.
      case re_image e (ex_path x) of
        None \<Rightarrow> refuse IoFault
      | Some source \<Rightarrow>
          let m = \<lparr>mf_schema = 1, mf_build = ex_info x,
                   mf_artifact = \<lparr>art_file = binary_name (bi_os (ex_info x)), art_sha = ex_sha x, art_size = int (length source)\<rparr>\<rparr>
          in andthen (validate_manifest e m) (\<lambda>_.
             andthen (sys_call e) (\<lambda>_.
             andthen (copy_artifact e source m) (\<lambda>_. give m))))"

section \<open>Activation: \<open>activate.go\<close>\<close>

definition ask_running :: "rel_env \<Rightarrow> executable option rel_op" where
  "ask_running e w = (re_running e (rw_calls w), w\<lparr>rw_calls := Suc (rw_calls w)\<rparr>)"

definition ask_check :: "rel_env \<Rightarrow> rel_path \<Rightarrow> executable rel_op" where
  "ask_check e p w = (re_check e (rw_calls w) p, w\<lparr>rw_calls := Suc (rw_calls w)\<rparr>)"

definition stop_runtime :: "rel_env \<Rightarrow> unit rel_op" where
  "stop_runtime e w = sys_call e (w\<lparr>rw_log := rw_log w @ [EvStop]\<rparr>)"

definition start_runtime :: "rel_env \<Rightarrow> rel_path \<Rightarrow> string \<Rightarrow> unit rel_op" where
  "start_runtime e p sha w = sys_call e (w\<lparr>rw_log := rw_log w @ [EvStart p sha]\<rparr>)"

definition start_manifest :: "rel_env \<Rightarrow> manifest \<Rightarrow> unit rel_op" where
  "start_manifest e m = start_runtime e (rel_path_of m) (art_sha (mf_artifact m))"

definition restore_original :: "rel_env \<Rightarrow> rel_state \<Rightarrow> rel_fault \<Rightarrow> unit rel_op" where
  "restore_original e original cause =
    andthen
      (case rs_current original of
         None \<Rightarrow> give ()
       | Some m \<Rightarrow>
           attempt (verify_release e m) (\<lambda>r. case r of
             Inl f \<Rightarrow> refuse (RollbackUnverified f)
           | Inr _ \<Rightarrow> attempt (start_manifest e m) (\<lambda>r. case r of Inl f \<Rightarrow> refuse (RollbackFailed f) | Inr _ \<Rightarrow> give ())))
      (\<lambda>_. attempt (save_state e original) (\<lambda>r. case r of Inl f \<Rightarrow> refuse (RecoveryUnsaved f) | Inr _ \<Rightarrow> refuse (PreviousRestored cause)))"

definition applied_state :: "rel_state \<Rightarrow> manifest \<Rightarrow> rel_state" where
  "applied_state original m =
    \<lparr>rs_current = Some m,
     rs_previous = (case rs_current original of
                      None \<Rightarrow> None
                    | Some c \<Rightarrow> if art_sha (mf_artifact c) = art_sha (mf_artifact m) then rs_previous original else Some c),
     rs_pending = None\<rparr>"

definition activate :: "rel_env \<Rightarrow> rel_state \<Rightarrow> manifest \<Rightarrow> unit rel_op" where
  "activate e st m =
    (let original = st\<lparr>rs_pending := None\<rparr> in
     andthen (save_state e (st\<lparr>rs_pending := Some m\<rparr>)) (\<lambda>_.
     attempt (stop_runtime e) (\<lambda>r. case r of
       Inl f \<Rightarrow> attempt (save_state e original) (\<lambda>r1. case r1 of Inl g \<Rightarrow> refuse (StopUnsaved g) | Inr _ \<Rightarrow> refuse (ActivationCancelled f))
     | Inr _ \<Rightarrow>
        attempt (start_manifest e m) (\<lambda>r1. case r1 of
          Inl f \<Rightarrow> restore_original e original f
        | Inr _ \<Rightarrow>
           attempt (save_state e (applied_state original m)) (\<lambda>r2. case r2 of
             Inl f \<Rightarrow> attempt (stop_runtime e) (\<lambda>r3. case r3 of Inl g \<Rightarrow> refuse (RecoveryRequired g) | Inr _ \<Rightarrow> restore_original e original f)
           | Inr _ \<Rightarrow> give ())))))"

definition keep_running :: "rel_env \<Rightarrow> executable option \<Rightarrow> rel_state \<Rightarrow> rel_state rel_op" where
  "keep_running e live st =
    (case live of
       None \<Rightarrow> give st
     | Some x \<Rightarrow> andthen (snapshot_running e x) (\<lambda>m. give (st\<lparr>rs_current := Some m\<rparr>)))"

definition install :: "rel_env \<Rightarrow> release_bundle \<Rightarrow> unit rel_op" where
  "install e b =
    andthen (sys_call e) (\<lambda>_.
    andthen (read_state e) (\<lambda>st0.
      if rs_pending st0 \<noteq> None then refuse PreviousInterrupted
      else
        andthen (stage e b) (\<lambda>next.
        andthen (ask_check e (rel_path_of next)) (\<lambda>x.
          if ex_info x \<noteq> mf_build next \<or> ex_sha x \<noteq> art_sha (mf_artifact next) then refuse IdentityMismatch
          else
            andthen (ask_running e) (\<lambda>live.
            andthen (keep_running e live st0) (\<lambda>st.
              if map_option (art_sha \<circ> mf_artifact) (rs_current st) = Some (art_sha (mf_artifact next)) then refuse AlreadySelected
              else
                andthen (case rs_current st of None \<Rightarrow> give () | Some c \<Rightarrow> verify_release e c) (\<lambda>_.
                andthen (save_state e st) (\<lambda>_. activate e st next))))))))"

definition rollback :: "rel_env \<Rightarrow> unit rel_op" where
  "rollback e =
    andthen (sys_call e) (\<lambda>_.
    andthen (read_state e) (\<lambda>st.
      let target = (if rs_pending st \<noteq> None then rs_current st else rs_previous st) in
      case (rs_pending st, target) of
        (Some p, None) \<Rightarrow>
          andthen (ask_running e) (\<lambda>live.
            if (case live of None \<Rightarrow> False | Some x \<Rightarrow> ex_sha x \<noteq> art_sha (mf_artifact p)) then refuse OtherActive
            else andthen (stop_runtime e) (\<lambda>_. save_state e empty_state))
      | (_, None) \<Rightarrow> refuse NoPreviousVersion
      | (_, Some m) \<Rightarrow> andthen (verify_release e m) (\<lambda>_. activate e st m)))"

text \<open>The life of one store: installations and rollbacks, each with any environment of the same program, each to its end or
  interrupted behind one of its writes. Staging and an interruption may leave further versions behind.\<close>

definition same_program :: "rel_env \<Rightarrow> rel_env \<Rightarrow> bool" where
  "same_program e e1 \<longleftrightarrow> re_sha e1 = re_sha e \<and> re_os e1 = re_os e \<and> re_arch e1 = re_arch e \<and> re_protocol e1 = re_protocol e
    \<and> re_profile_format e1 = re_profile_format e"

definition fresh_run :: "state_file \<Rightarrow> rel_files \<Rightarrow> rel_world" where
  "fresh_run sf fs = \<lparr>rw_state = sf, rw_files = fs, rw_calls = 0, rw_log = []\<rparr>"

inductive rel_reachable :: "rel_env \<Rightarrow> state_file \<Rightarrow> rel_files \<Rightarrow> bool" for e where
  rel_new: "rel_reachable e NoState Map.empty"
| rel_run: "rel_reachable e sf fs \<Longrightarrow> same_program e e1 \<Longrightarrow> op = install e1 b \<or> op = rollback e1 \<Longrightarrow>
    op (fresh_run sf fs) = (r, w) \<Longrightarrow> rel_reachable e (rw_state w) (rw_files w)"
| rel_interrupted: "rel_reachable e sf fs \<Longrightarrow> same_program e e1 \<Longrightarrow> op = install e1 b \<or> op = rollback e1 \<Longrightarrow>
    op (fresh_run sf fs) = (r, w) \<Longrightarrow> EvSaved st fs1 \<in> set (rw_log w) \<Longrightarrow> rel_reachable e (Holds st) fs1"

end
