(* ===== verification/ReleaseProps.thy ===== *)
theory ReleaseProps
  imports Release
begin

text \<open>
  What an installation may rely on: only verified versions are started and recorded, an interrupted activation can always be rolled
  back to what ran before, and a bundle that is refused leaves everything as it was.
\<close>

named_theorems keeps_intros

section \<open>Composing operations\<close>

lemma attemptE:
  assumes "attempt m f w = (r, w2)"
  obtains r1 w1 where "m w = (r1, w1)" "f r1 w1 = (r, w2)"
  using assms by (auto simp: attempt_def split: prod.splits)

lemma andthenE:
  assumes "andthen m f w = (r, w2)"
  obtains x where "m w = (Inl x, w2)" "r = Inl x"
  | x w1 where "m w = (Inr x, w1)" "f x w1 = (r, w2)"
  using assms by (auto simp: andthen_def attempt_def refuse_def split: prod.splits sum.splits)

lemma andthen_Inr: "m w = (Inr x, w1) \<Longrightarrow> andthen m f w = f x w1"
  by (simp add: andthen_def attempt_def)

lemma attempt_eq: "m w = (r, w1) \<Longrightarrow> attempt m f w = f r w1"
  by (simp add: attempt_def)

section \<open>Verified versions\<close>

definition valid_release :: "rel_env \<Rightarrow> manifest \<Rightarrow> bool" where
  "valid_release e m \<longleftrightarrow> mf_schema m = 1 \<and> bi_version (mf_build m) \<noteq> '''' \<and> bi_revision (mf_build m) \<noteq> ''''
     \<and> bi_protocol (mf_build m) = re_protocol e \<and> bi_profile_format (mf_build m) = re_profile_format e
     \<and> bi_os (mf_build m) = re_os e \<and> bi_arch (mf_build m) = re_arch e
     \<and> art_file (mf_artifact m) = binary_name (re_os e) \<and> digest_pattern (art_sha (mf_artifact m))
     \<and> 0 < art_size (mf_artifact m) \<and> art_size (mf_artifact m) \<le> maxBinaryBytes"

lemma validate_manifest_result:
  "validate_manifest e m w = (r, w1) \<Longrightarrow> w1 = w \<and> (r = Inr () \<longleftrightarrow> valid_release e m)"
  by (auto simp: validate_manifest_def valid_release_def give_def refuse_def split: if_splits)

lemma validate_manifest_ok: "valid_release e m \<Longrightarrow> validate_manifest e m w = (Inr (), w)"
  by (auto simp: validate_manifest_def valid_release_def give_def)

definition verified :: "rel_env \<Rightarrow> rel_files \<Rightarrow> manifest \<Rightarrow> bool" where
  "verified e fs m \<longleftrightarrow> valid_release e m \<and> (\<exists>c. fs (rel_path_of m) = Some (Regular c) \<and> int (length c) = art_size (mf_artifact m)
     \<and> re_sha e c = art_sha (mf_artifact m))"

lemma map_le_get: "f \<subseteq>\<^sub>m g \<Longrightarrow> f x = Some y \<Longrightarrow> g x = Some y"
  unfolding map_le_def by (metis domI)

lemma map_le_fresh: "f p = None \<Longrightarrow> f \<subseteq>\<^sub>m f(p \<mapsto> x)"
  by (auto simp: map_le_def)

lemma verified_mono: "verified e fs m \<Longrightarrow> fs \<subseteq>\<^sub>m fs1 \<Longrightarrow> verified e fs1 m"
  by (auto simp: verified_def dest: map_le_get)

definition quiet :: "rel_world \<Rightarrow> rel_world \<Rightarrow> bool" where
  "quiet w w1 \<longleftrightarrow> rw_state w1 = rw_state w \<and> rw_log w1 = rw_log w \<and> rw_files w \<subseteq>\<^sub>m rw_files w1"

lemma quiet_refl [simp]: "quiet w w"
  by (simp add: quiet_def)

lemma quiet_trans [trans]: "quiet w w1 \<Longrightarrow> quiet w1 w2 \<Longrightarrow> quiet w w2"
  by (auto simp: quiet_def intro: map_le_trans)

definition still :: "rel_world \<Rightarrow> rel_world \<Rightarrow> bool" where
  "still w w1 \<longleftrightarrow> rw_state w1 = rw_state w \<and> rw_log w1 = rw_log w \<and> rw_files w1 = rw_files w"

lemma still_refl [simp]: "still w w"
  by (simp add: still_def)

lemma still_quiet: "still w w1 \<Longrightarrow> quiet w w1"
  by (simp add: still_def quiet_def)

lemma still_trans [trans]: "still w w1 \<Longrightarrow> still w1 w2 \<Longrightarrow> still w w2"
  by (simp add: still_def)

text \<open>An operation that writes nothing but new versions, with what its result says.\<close>

definition settles :: "'a rel_op \<Rightarrow> rel_world \<Rightarrow> ('a \<Rightarrow> rel_world \<Rightarrow> bool) \<Rightarrow> bool" where
  "settles m w Q \<longleftrightarrow> (case m w of (r, w1) \<Rightarrow> quiet w w1 \<and> (case r of Inl _ \<Rightarrow> True | Inr x \<Rightarrow> Q x w1))"

lemma settlesD: "settles m w Q \<Longrightarrow> m w = (r, w1) \<Longrightarrow> quiet w w1 \<and> (\<forall>x. r = Inr x \<longrightarrow> Q x w1)"
  by (auto simp: settles_def)

lemma settles_andthen:
  "settles m w P \<Longrightarrow> (\<And>x w1. quiet w w1 \<Longrightarrow> P x w1 \<Longrightarrow> settles (f x) w1 Q) \<Longrightarrow> settles (andthen m f) w Q"
proof -
  assume m: "settles m w P" and f: "\<And>x w1. quiet w w1 \<Longrightarrow> P x w1 \<Longrightarrow> settles (f x) w1 Q"
  obtain r w1 where r: "m w = (r, w1)" by fastforce
  show ?thesis
  proof (cases r)
    case (Inl a)
    then show ?thesis using m r by (simp add: settles_def andthen_def attempt_def refuse_def)
  next
    case (Inr x)
    have q: "quiet w w1" "P x w1" using settlesD [OF m r] Inr by simp_all
    obtain r2 w2 where r2: "f x w1 = (r2, w2)" by fastforce
    then show ?thesis using settlesD [OF f [OF q] r2] quiet_trans [OF q(1)] r Inr
      by (auto simp: settles_def andthen_def attempt_def split: sum.splits)
  qed
qed

lemma settles_weaken: "settles m w P \<Longrightarrow> (\<And>x w1. quiet w w1 \<Longrightarrow> P x w1 \<Longrightarrow> Q x w1) \<Longrightarrow> settles m w Q"
  by (auto simp: settles_def split: prod.splits sum.splits)

lemma settles_refuse [simp, intro]: "settles (refuse f) w Q"
  by (simp add: settles_def refuse_def)

lemma settles_give [simp]: "settles (give x) w Q = Q x w"
  by (simp add: settles_def give_def)

lemma settles_if [intro]: "(b \<Longrightarrow> settles m w Q) \<Longrightarrow> (\<not> b \<Longrightarrow> settles n w Q) \<Longrightarrow> settles (if b then m else n) w Q"
  by simp

lemma settles_at: "m w = n w \<Longrightarrow> settles n w Q \<Longrightarrow> settles m w Q"
  by (simp add: settles_def)

lemma settles_sys: "settles (sys_call e) w (\<lambda>_ w1. still w w1)"
  by (simp add: settles_def sys_call_def quiet_def still_def)

lemma settles_validate: "settles (validate_manifest e m) w (\<lambda>_ w1. w1 = w \<and> valid_release e m)"
  using validate_manifest_result [of e m w] by (auto simp: settles_def split: prod.splits sum.splits)

lemma settles_hash: "settles (hash_file e c) w (\<lambda>x w1. still w w1 \<and> x = re_sha e c)"
  unfolding hash_file_def by (rule settles_andthen [OF settles_sys]) simp

lemma settles_verify: "settles (verify_release e m) w (\<lambda>_ w1. still w w1 \<and> verified e (rw_files w) m)"
  unfolding verify_release_def
proof (rule settles_andthen [OF settles_validate], elim conjE, rule settles_andthen [OF settles_sys])
  fix w1 w2 assume v: "w1 = w" "valid_release e m" and s: "still w1 w2"
  show "settles (\<lambda>w. case rw_files w (rel_path_of m) of
          None \<Rightarrow> refuse Absent w
        | Some (Regular c) \<Rightarrow>
            if int (length c) \<noteq> art_size (mf_artifact m) then refuse ArtifactChanged w
            else andthen (hash_file e c) (\<lambda>sum. if sum \<noteq> art_sha (mf_artifact m) then refuse InstalledMismatch else give ()) w
        | Some Irregular \<Rightarrow> refuse ArtifactChanged w) w2 (\<lambda>_ w3. still w w3 \<and> verified e (rw_files w) m)"
    (is "settles ?m w2 ?Q")
  proof (cases "rw_files w2 (rel_path_of m)")
    case None
    then show ?thesis by - (rule settles_at [where n = "refuse Absent"], auto)
  next
    case (Some f)
    show ?thesis
    proof (cases f)
      case Irregular
      then show ?thesis using Some by - (rule settles_at [where n = "refuse ArtifactChanged"], auto)
    next
      case (Regular c)
      let ?n = "if int (length c) \<noteq> art_size (mf_artifact m) then refuse ArtifactChanged
        else andthen (hash_file e c) (\<lambda>sum. if sum \<noteq> art_sha (mf_artifact m) then refuse InstalledMismatch else give ())"
      have h: "rw_files w (rel_path_of m) = Some (Regular c)" using Some Regular v s by (simp add: still_def)
      have "settles ?n w2 ?Q"
      proof (intro settles_if settles_refuse, rule settles_andthen [OF settles_hash])
        fix x w3 assume c: "\<not> int (length c) \<noteq> art_size (mf_artifact m)" and x: "still w2 w3 \<and> x = re_sha e c"
        have q: "still w w3" using s v x still_trans by blast
        show "settles (if x \<noteq> art_sha (mf_artifact m) then refuse InstalledMismatch else give ()) w3 ?Q"
          by (rule settles_if, rule settles_refuse) (use q c x v h in \<open>simp add: verified_def\<close>)
      qed
      then show ?thesis using Some Regular by - (rule settles_at [where n = ?n], auto)
    qed
  qed
qed

lemma settles_copy:
  assumes "valid_release e m"
  shows "settles (copy_artifact e source m) w (\<lambda>_ w1. verified e (rw_files w1) m \<and> int (length source) = art_size (mf_artifact m)
    \<and> re_sha e source = art_sha (mf_artifact m))"
proof -
  define c where "c = take (nat (maxBinaryBytes + 1)) source"
  have big: "c = source" if "int (length c) = art_size (mf_artifact m)"
    using that assms by (auto simp: c_def maxBinaryBytes_def min_def valid_release_def split: if_splits)
  let ?Q = "\<lambda>_ w1. verified e (rw_files w1) m \<and> int (length source) = art_size (mf_artifact m) \<and> re_sha e source = art_sha (mf_artifact m)"
  let ?last = "\<lambda>_ w. if rw_files w (rel_path_of m) \<noteq> None then verify_release e m w
              else andthen (sys_call e) (\<lambda>_. rename_into e (rel_path_of m) c) w"
  have last: "settles (?last ()) v ?Q" if c: "int (length c) = art_size (mf_artifact m)" "re_sha e c = art_sha (mf_artifact m)" for v
  proof (cases "rw_files v (rel_path_of m)")
    case (Some f)
    have "settles (verify_release e m) v ?Q"
      by (rule settles_weaken [OF settles_verify]) (use c big in \<open>auto simp: still_def\<close>)
    then show ?thesis using Some by - (rule settles_at [where n = "verify_release e m"], auto)
  next
    case None
    have "settles (andthen (sys_call e) (\<lambda>_. rename_into e (rel_path_of m) c)) v ?Q"
      unfolding rename_into_def
    proof (rule settles_andthen [OF settles_sys], rule settles_andthen [OF settles_sys])
      fix x :: unit and x1 :: unit and v1 v2 assume "still v v1" "still v1 v2"
      then have n: "rw_files v2 (rel_path_of m) = None" using None by (simp add: still_def)
      have "rw_files v2 \<subseteq>\<^sub>m (rw_files v2)(rel_path_of m \<mapsto> Regular c)" using n by (rule map_le_fresh)
      then show "settles (\<lambda>w. (Inr (), w\<lparr>rw_files := (rw_files w)(rel_path_of m \<mapsto> Regular c)\<rparr>)) v2 ?Q"
        using c big assms by (simp add: settles_def quiet_def verified_def)
    qed
    then show ?thesis using None by - (rule settles_at [where n = "andthen (sys_call e) (\<lambda>_. rename_into e (rel_path_of m) c)"], auto)
  qed
  have hash: "settles (andthen (hash_file e c) (\<lambda>sum. if sum \<noteq> art_sha (mf_artifact m) then refuse ChecksumMismatch
      else andthen (sys_call e) ?last)) v ?Q" if c: "int (length c) = art_size (mf_artifact m)" for v
    by (rule settles_andthen [OF settles_hash], rule settles_if, rule settles_refuse, rule settles_andthen [OF settles_sys])
      (rule last, use c in auto)
  have sized: "settles (if int (length c) \<noteq> art_size (mf_artifact m) then refuse SizeMismatch
      else andthen (sys_call e) (\<lambda>_. andthen (sys_call e) (\<lambda>_. andthen (hash_file e c) (\<lambda>sum. if sum \<noteq> art_sha (mf_artifact m)
        then refuse ChecksumMismatch else andthen (sys_call e) ?last)))) v ?Q" for v
    by (rule settles_if, rule settles_refuse, rule settles_andthen [OF settles_sys], rule settles_andthen [OF settles_sys]) (rule hash, simp)
  show ?thesis unfolding copy_artifact_def c_def [symmetric] Let_def
    by (rule settles_andthen [OF settles_sys])+ (rule sized)
qed

lemma settles_copied: "valid_release e m \<Longrightarrow> settles (andthen (copy_artifact e source m) (\<lambda>_. give m)) w (\<lambda>x w1. x = m \<and> verified e (rw_files w1) m
    \<and> int (length source) = art_size (mf_artifact m) \<and> re_sha e source = art_sha (mf_artifact m))"
  by (rule settles_andthen [OF settles_copy]) auto

definition good_bundle :: "rel_env \<Rightarrow> release_bundle \<Rightarrow> manifest \<Rightarrow> bool" where
  "good_bundle e b m \<longleftrightarrow> bd_manifest b = Some m \<and> valid_release e m
     \<and> (\<exists>source. bd_file b (art_file (mf_artifact m)) = Some source \<and> int (length source) = art_size (mf_artifact m)
          \<and> re_sha e source = art_sha (mf_artifact m))"

lemma settles_stage: "settles (stage e b) w (\<lambda>m w1. verified e (rw_files w1) m \<and> good_bundle e b m)"
proof -
  have "settles (case bd_manifest b of None \<Rightarrow> refuse BadBundle | Some m \<Rightarrow> andthen (validate_manifest e m) (\<lambda>_.
            case bd_file b (art_file (mf_artifact m)) of
              None \<Rightarrow> refuse IoFault
            | Some source \<Rightarrow> andthen (copy_artifact e source m) (\<lambda>_. give m))) v (\<lambda>m w1. verified e (rw_files w1) m \<and> good_bundle e b m)"
    for v
  proof (cases "bd_manifest b")
    case (Some m)
    have "settles (case bd_file b (art_file (mf_artifact m)) of
              None \<Rightarrow> refuse IoFault
            | Some source \<Rightarrow> andthen (copy_artifact e source m) (\<lambda>_. give m)) v1 (\<lambda>m w1. verified e (rw_files w1) m \<and> good_bundle e b m)"
      if "valid_release e m" for v1
    proof (cases "bd_file b (art_file (mf_artifact m))")
      case (Some source)
      have "settles (andthen (copy_artifact e source m) (\<lambda>_. give m)) v1 (\<lambda>m w1. verified e (rw_files w1) m \<and> good_bundle e b m)"
        by (rule settles_weaken [OF settles_copied [OF that]]) (use Some \<open>bd_manifest b = Some m\<close> that in \<open>auto simp: good_bundle_def\<close>)
      then show ?thesis using Some by simp
    qed simp
    then have "settles (andthen (validate_manifest e m) (\<lambda>_. case bd_file b (art_file (mf_artifact m)) of
              None \<Rightarrow> refuse IoFault
            | Some source \<Rightarrow> andthen (copy_artifact e source m) (\<lambda>_. give m))) v (\<lambda>m w1. verified e (rw_files w1) m \<and> good_bundle e b m)"
      by (intro settles_andthen [OF settles_validate]) auto
    then show ?thesis using Some by simp
  qed simp
  then show ?thesis unfolding stage_def by (rule settles_andthen [OF settles_sys])
qed

lemma settles_validate_opt: "settles (validate_opt e m) w (\<lambda>_ w1. w1 = w)"
  unfolding validate_opt_def by (cases m) (auto intro: settles_weaken [OF settles_validate])

lemma settles_read: "settles (read_state e) w (\<lambda>st w1. still w w1 \<and> (rw_state w = Holds st \<or> rw_state w = NoState \<and> st = empty_state))"
  unfolding read_state_def
proof (rule settles_andthen [OF settles_sys])
  fix x :: unit and w1 assume s: "still w w1"
  let ?Q = "\<lambda>st w1. still w w1 \<and> (rw_state w = Holds st \<or> rw_state w = NoState \<and> st = empty_state)"
  let ?n = "case rw_state w1 of NoState \<Rightarrow> give empty_state | Garbled \<Rightarrow> refuse IoFault
      | Holds st \<Rightarrow> if \<not> re_fits e st then refuse IoFault
          else andthen (validate_opt e (rs_current st)) (\<lambda>_. andthen (validate_opt e (rs_previous st)) (\<lambda>_.
               andthen (validate_opt e (rs_pending st)) (\<lambda>_. give st)))"
  have "settles ?n w1 ?Q"
  proof (cases "rw_state w1")
    case (Holds st)
    have "settles (andthen (validate_opt e (rs_current st)) (\<lambda>_. andthen (validate_opt e (rs_previous st)) (\<lambda>_.
               andthen (validate_opt e (rs_pending st)) (\<lambda>_. give st)))) w1 ?Q"
      by (rule settles_andthen [OF settles_validate_opt])+ (use s Holds in \<open>simp add: still_def\<close>)
    then show ?thesis using Holds by simp
  qed (use s in \<open>auto simp: still_def\<close>)
  then show "settles (\<lambda>w. case rw_state w of NoState \<Rightarrow> give empty_state w | Garbled \<Rightarrow> refuse IoFault w
      | Holds st \<Rightarrow> (if \<not> re_fits e st then refuse IoFault w
          else andthen (validate_opt e (rs_current st)) (\<lambda>_. andthen (validate_opt e (rs_previous st)) (\<lambda>_.
               andthen (validate_opt e (rs_pending st)) (\<lambda>_. give st))) w)) w1 ?Q"
    by - (rule settles_at [where n = ?n], auto split: state_file.splits)
qed

lemma settles_snapshot: "settles (snapshot_running e x) w (\<lambda>m w1. verified e (rw_files w1) m)"
  unfolding snapshot_running_def Let_def
proof (rule settles_andthen [OF settles_sys])
  fix u :: unit and w1 assume "still w w1"
  show "settles (case re_image e (ex_path x) of None \<Rightarrow> refuse IoFault | Some source \<Rightarrow>
      andthen (validate_manifest e \<lparr>mf_schema = 1, mf_build = ex_info x, mf_artifact =
         \<lparr>art_file = binary_name (bi_os (ex_info x)), art_sha = ex_sha x, art_size = int (length source)\<rparr>\<rparr>)
       (\<lambda>_. andthen (sys_call e) (\<lambda>_. andthen (copy_artifact e source \<lparr>mf_schema = 1, mf_build = ex_info x, mf_artifact =
         \<lparr>art_file = binary_name (bi_os (ex_info x)), art_sha = ex_sha x, art_size = int (length source)\<rparr>\<rparr>)
       (\<lambda>_. give \<lparr>mf_schema = 1, mf_build = ex_info x, mf_artifact =
         \<lparr>art_file = binary_name (bi_os (ex_info x)), art_sha = ex_sha x, art_size = int (length source)\<rparr>\<rparr>)))) w1
      (\<lambda>m w1. verified e (rw_files w1) m)"
  proof (cases "re_image e (ex_path x)")
    case (Some source)
    show ?thesis unfolding Some option.case
      by (rule settles_andthen [OF settles_validate], rule settles_andthen [OF settles_sys], rule settles_weaken [OF settles_copied]) auto
  qed simp
qed

section \<open>What a call may write\<close>

definition manifests :: "rel_state \<Rightarrow> manifest set" where
  "manifests st = set_option (rs_current st) \<union> set_option (rs_previous st) \<union> set_option (rs_pending st)"

definition state_good :: "rel_env \<Rightarrow> rel_files \<Rightarrow> rel_state \<Rightarrow> bool" where
  "state_good e fs st \<longleftrightarrow> (\<forall>m\<in>manifests st. verified e fs m) \<and> (rs_current st = None \<longrightarrow> rs_previous st = None)"

definition file_good :: "rel_env \<Rightarrow> rel_files \<Rightarrow> state_file \<Rightarrow> bool" where
  "file_good e fs sf \<longleftrightarrow> (case sf of NoState \<Rightarrow> True | Garbled \<Rightarrow> False | Holds st \<Rightarrow> state_good e fs st)"

lemma file_good_simps [simp]: "file_good e fs NoState" "\<not> file_good e fs Garbled" "file_good e fs (Holds st) = state_good e fs st"
  by (simp_all add: file_good_def)

definition event_good :: "rel_env \<Rightarrow> rel_files \<Rightarrow> rel_event \<Rightarrow> bool" where
  "event_good e fs ev \<longleftrightarrow> (case ev of
      EvSaved st fs1 \<Rightarrow> state_good e fs1 st
    | EvStop \<Rightarrow> True
    | EvStart p h \<Rightarrow> \<exists>m. verified e fs m \<and> p = rel_path_of m \<and> h = art_sha (mf_artifact m))"

lemma event_good_simps [simp]:
  "event_good e fs (EvSaved st fs1) = state_good e fs1 st" "event_good e fs EvStop"
  "event_good e fs (EvStart p h) = (\<exists>m. verified e fs m \<and> p = rel_path_of m \<and> h = art_sha (mf_artifact m))"
  by (simp_all add: event_good_def)

definition world_good :: "rel_env \<Rightarrow> rel_world \<Rightarrow> bool" where
  "world_good e w \<longleftrightarrow> file_good e (rw_files w) (rw_state w) \<and> (\<forall>ev\<in>set (rw_log w). event_good e (rw_files w) ev)"

lemma state_good_mono: "state_good e fs st \<Longrightarrow> fs \<subseteq>\<^sub>m fs1 \<Longrightarrow> state_good e fs1 st"
  by (auto simp: state_good_def intro: verified_mono)

lemma world_good_quiet: "world_good e w \<Longrightarrow> quiet w w1 \<Longrightarrow> world_good e w1"
  by (fastforce simp: world_good_def quiet_def file_good_def event_good_def intro: verified_mono state_good_mono
      split: state_file.splits rel_event.splits)

text \<open>Operations that write to the state file and to the log, and leave the versions alone.\<close>

definition keeps :: "rel_env \<Rightarrow> rel_files \<Rightarrow> 'a rel_op \<Rightarrow> bool" where
  "keeps e fs m \<longleftrightarrow> (\<forall>w r w1. world_good e w \<longrightarrow> rw_files w = fs \<longrightarrow> m w = (r, w1) \<longrightarrow> world_good e w1 \<and> rw_files w1 = fs)"

lemma keepsD: "keeps e (rw_files w) m \<Longrightarrow> world_good e w \<Longrightarrow> m w = (r, w1) \<Longrightarrow> world_good e w1 \<and> rw_files w1 = rw_files w"
  unfolding keeps_def by blast

lemma keeps_attempt [keeps_intros]: "keeps e fs m \<Longrightarrow> (\<And>r. keeps e fs (f r)) \<Longrightarrow> keeps e fs (attempt m f)"
  unfolding keeps_def by (metis attemptE)

lemma keeps_refuse [keeps_intros]: "keeps e fs (refuse x)"
  by (simp add: keeps_def refuse_def)

lemma keeps_give [keeps_intros]: "keeps e fs (give x)"
  by (simp add: keeps_def give_def)

lemma keeps_andthen [keeps_intros]: "keeps e fs m \<Longrightarrow> (\<And>x. keeps e fs (f x)) \<Longrightarrow> keeps e fs (andthen m f)"
  unfolding andthen_def by (rule keeps_attempt) (auto split: sum.splits intro: keeps_refuse)

lemma keeps_sum [keeps_intros]:
  "(\<And>x. keeps e fs (f x)) \<Longrightarrow> (\<And>x. keeps e fs (g x)) \<Longrightarrow> keeps e fs (case r of Inl x \<Rightarrow> f x | Inr x \<Rightarrow> g x)"
  by (cases r) auto

lemma keeps_sys [keeps_intros]: "keeps e fs (sys_call e1)"
  by (auto simp: keeps_def sys_call_def world_good_def)

lemma keeps_stop [keeps_intros]: "keeps e fs (stop_runtime e1)"
  by (auto simp: keeps_def stop_runtime_def sys_call_def world_good_def)

lemma keeps_start [keeps_intros]: "verified e fs m \<Longrightarrow> keeps e fs (start_manifest e1 m)"
  by (auto simp: keeps_def start_manifest_def start_runtime_def sys_call_def world_good_def)

lemma keeps_save [keeps_intros]: "state_good e fs st \<Longrightarrow> keeps e fs (save_state e1 st)"
  by (auto simp: keeps_def save_state_def sys_call_def world_good_def elim!: andthenE split: if_splits)

lemma keeps_verify [keeps_intros]: "keeps e fs (verify_release e1 m)"
  unfolding keeps_def
proof (intro allI impI)
  fix w r w1 assume g: "world_good e w" "rw_files w = fs" and v: "verify_release e1 m w = (r, w1)"
  have q: "quiet w w1" using settlesD [OF settles_verify v] by simp
  have "rw_files w1 = rw_files w"
  proof -
    have s: "rw_files v1 = rw_files u" if "hash_file e1 c u = (x, v1)" for c u x v1
      using that by (auto simp: hash_file_def sys_call_def give_def elim!: andthenE)
    show ?thesis using v unfolding verify_release_def
      by (auto elim!: andthenE split: option.splits rel_file.splits if_splits simp: refuse_def give_def sys_call_def
          dest!: validate_manifest_result s)
  qed
  then show "world_good e w1 \<and> rw_files w1 = fs" using world_good_quiet [OF g(1) q] g(2) by simp
qed

lemma keeps_case_option [keeps_intros]:
  "(x = None \<Longrightarrow> keeps e fs f) \<Longrightarrow> (\<And>y. x = Some y \<Longrightarrow> keeps e fs (g y)) \<Longrightarrow> keeps e fs (case x of None \<Rightarrow> f | Some y \<Rightarrow> g y)"
  by (cases x) auto

lemma state_good_parts:
  assumes "state_good e fs st"
  shows "state_good e fs (st\<lparr>rs_pending := None\<rparr>)" "rs_current st = Some c \<Longrightarrow> verified e fs c"
    "verified e fs m \<Longrightarrow> state_good e fs (st\<lparr>rs_pending := Some m\<rparr>)"
    "verified e fs m \<Longrightarrow> state_good e fs (applied_state (st\<lparr>rs_pending := x\<rparr>) m)"
    "verified e fs m \<Longrightarrow> state_good e fs (st\<lparr>rs_current := Some m\<rparr>)"
  using assms by (auto simp: state_good_def manifests_def applied_state_def split: option.splits)

lemma keeps_restore: "state_good e fs st \<Longrightarrow> keeps e fs (restore_original e1 (st\<lparr>rs_pending := None\<rparr>) f)"
  unfolding restore_original_def by (intro keeps_intros) (auto dest: state_good_parts)

lemma keeps_activate: "state_good e fs st \<Longrightarrow> verified e fs m \<Longrightarrow> keeps e fs (activate e1 st m)"
  unfolding activate_def Let_def by (intro keeps_intros keeps_restore) (auto dest: state_good_parts)

lemma verified_same: "same_program e e1 \<Longrightarrow> verified e1 fs m = verified e fs m"
  by (simp add: verified_def valid_release_def same_program_def)

lemma good_bundle_same: "same_program e e1 \<Longrightarrow> good_bundle e1 b m = good_bundle e b m"
  by (simp add: good_bundle_def valid_release_def same_program_def)

lemma settles_keep_running:
  assumes "state_good e (rw_files w) st" "same_program e e1"
  shows "settles (keep_running e1 live st) w (\<lambda>st1 w1. state_good e (rw_files w1) st1 \<and> rs_pending st1 = rs_pending st)"
proof (cases live)
  case None
  then show ?thesis using assms by (simp add: keep_running_def)
next
  case (Some x)
  have "settles (andthen (snapshot_running e1 x) (\<lambda>m. give (st\<lparr>rs_current := Some m\<rparr>))) w
    (\<lambda>st1 w1. state_good e (rw_files w1) st1 \<and> rs_pending st1 = rs_pending st)"
    by (rule settles_andthen [OF settles_snapshot])
      (use assms verified_same in \<open>auto simp: quiet_def intro: state_good_parts(5) state_good_mono\<close>)
  then show ?thesis using Some by (simp add: keep_running_def)
qed

text \<open>The part of an installation before anything is written for good.\<close>

definition prepare :: "rel_env \<Rightarrow> release_bundle \<Rightarrow> (rel_state \<times> manifest) rel_op" where
  "prepare e b =
    andthen (sys_call e) (\<lambda>_.
    andthen (read_state e) (\<lambda>st0.
      if rs_pending st0 \<noteq> None then refuse PreviousInterrupted
      else
        andthen (stage e b) (\<lambda>next.
        andthen (ask_check e (rel_path_of next)) (\<lambda>x.
          if ex_info x \<noteq> mf_build next \<or> ex_sha x \<noteq> art_sha (mf_artifact next) then refuse IdentityMismatch
          else
            andthen (ask_running e) (\<lambda>live.
            andthen (keep_running e live st0) (\<lambda>st.
              if map_option (art_sha \<circ> mf_artifact) (rs_current st) = Some (art_sha (mf_artifact next)) then refuse AlreadySelected
              else
                andthen (case rs_current st of None \<Rightarrow> give () | Some c \<Rightarrow> verify_release e c) (\<lambda>_. give (st, next))))))))"

lemma andthen_assoc: "andthen (andthen m f) g = andthen m (\<lambda>x. andthen (f x) g)"
  by (rule ext) (auto simp: andthen_def attempt_def refuse_def split: prod.splits sum.splits)

lemma andthen_refuse [simp]: "andthen (refuse x) f = refuse x"
  by (rule ext) (simp add: andthen_def attempt_def refuse_def)

lemma andthen_give [simp]: "andthen (give x) f = f x"
  by (rule ext) (simp add: andthen_def attempt_def give_def)

lemma andthen_if: "andthen (if b then m else n) f = (if b then andthen m f else andthen n f)"
  by simp

lemma install_prepare: "install e b = andthen (prepare e b) (\<lambda>(st, m). andthen (save_state e st) (\<lambda>_. activate e st m))"
  unfolding install_def prepare_def by (simp add: andthen_assoc andthen_if cong: if_cong)

lemma settles_prepare:
  assumes "world_good e w" "same_program e e1"
  shows "settles (prepare e1 b) w (\<lambda>(st, m) w1. state_good e (rw_files w1) st \<and> verified e (rw_files w1) m \<and> good_bundle e b m \<and> rs_pending st = None)"
    (is "settles _ _ ?Q")
proof -
  let ?ver = "\<lambda>st m w. state_good e (rw_files w) st \<and> verified e (rw_files w) m \<and> good_bundle e b m \<and> rs_pending st = None"
  have ask: "settles (ask_check e1 p) v (\<lambda>_ v1. still v v1)" "settles (ask_running e1) v (\<lambda>_ v1. still v v1)" for p v
    by (auto simp: settles_def ask_check_def ask_running_def still_def quiet_def split: sum.splits)
  have 6: "settles (andthen (case rs_current st of None \<Rightarrow> give () | Some c \<Rightarrow> verify_release e1 c) (\<lambda>_. give (st, m))) v ?Q"
    if "?ver st m v" for st m v
    by (rule settles_andthen [where P = "\<lambda>_ _. True"])
      (use that in \<open>auto simp: quiet_def intro: settles_weaken [OF settles_verify] state_good_mono verified_mono split: option.splits\<close>)
  have 5: "settles (andthen (keep_running e1 live st0) (\<lambda>st. if map_option (art_sha \<circ> mf_artifact) (rs_current st) = Some (art_sha (mf_artifact m)) then refuse AlreadySelected
              else andthen (case rs_current st of None \<Rightarrow> give () | Some c \<Rightarrow> verify_release e1 c) (\<lambda>_. give (st, m)))) v ?Q"
    if "?ver st0 m v" for live st0 m v
    by (rule settles_andthen [OF settles_keep_running [OF _ assms(2)]], use that in blast, rule settles_if, rule settles_refuse, rule 6)
      (use that in \<open>auto simp: quiet_def intro: verified_mono\<close>)
  show ?thesis unfolding prepare_def
  proof (rule settles_andthen [OF settles_sys], rule settles_andthen [OF settles_read], rule settles_if, rule settles_refuse,
      rule settles_andthen [OF settles_stage], rule settles_andthen [OF ask(1)], rule settles_if, rule settles_refuse,
      rule settles_andthen [OF ask(2)], rule 5)
    fix w1 w2 w3 w4 w5 st0 m assume a: "still w w1" "still w1 w2 \<and> (rw_state w1 = Holds st0 \<or> rw_state w1 = NoState \<and> st0 = empty_state)"
      "\<not> rs_pending st0 \<noteq> None" "quiet w2 w3" "verified e1 (rw_files w3) m \<and> good_bundle e1 b m" "still w3 w4" "still w4 w5"
    have "state_good e (rw_files w2) st0"
      using assms(1) a(1,2) by (auto simp: world_good_def still_def state_good_def manifests_def empty_state_def)
    then show "?ver st0 m w5"
      using a(3-7) verified_same [OF assms(2)] good_bundle_same [OF assms(2)] state_good_mono by (auto simp: quiet_def still_def)
  qed
qed

section \<open>The life of a store\<close>

lemma install_good:
  assumes "world_good e w" "same_program e e1" "install e1 b w = (r, w1)"
  shows "world_good e w1 \<and> rw_files w \<subseteq>\<^sub>m rw_files w1"
proof -
  obtain q v where p: "prepare e1 b w = (q, v)" by fastforce
  note s = settlesD [OF settles_prepare [OF assms(1,2)] p]
  have g: "world_good e v" using world_good_quiet [OF assms(1)] s by blast
  show ?thesis
  proof (cases q)
    case (Inl x)
    then show ?thesis using assms(3) p s g by (auto simp: install_prepare quiet_def elim!: andthenE)
  next
    case (Inr y)
    obtain st m where y: "y = (st, m)" by fastforce
    have "keeps e (rw_files v) (andthen (save_state e1 st) (\<lambda>_. activate e1 st m))"
      using s Inr y by (intro keeps_andthen keeps_save keeps_activate) auto
    moreover have "andthen (prepare e1 b) f w = f (st, m) v" for f :: "_ \<Rightarrow> unit rel_op" by (rule andthen_Inr) (use p Inr y in simp)
    then have "andthen (save_state e1 st) (\<lambda>_. activate e1 st m) v = (r, w1)"
      using assms(3) by (simp only: install_prepare prod.case)
    ultimately have "world_good e w1 \<and> rw_files w1 = rw_files v" using keepsD g by blast
    then show ?thesis using s by (simp add: quiet_def)
  qed
qed

definition rollback_body :: "rel_env \<Rightarrow> rel_state \<Rightarrow> unit rel_op" where
  "rollback_body e st =
     (let target = (if rs_pending st \<noteq> None then rs_current st else rs_previous st) in
      case (rs_pending st, target) of
        (Some p, None) \<Rightarrow>
          andthen (ask_running e) (\<lambda>live.
            if (case live of None \<Rightarrow> False | Some x \<Rightarrow> ex_sha x \<noteq> art_sha (mf_artifact p)) then refuse OtherActive
            else andthen (stop_runtime e) (\<lambda>_. save_state e empty_state))
      | (_, None) \<Rightarrow> refuse NoPreviousVersion
      | (_, Some m) \<Rightarrow> andthen (verify_release e m) (\<lambda>_. activate e st m))"

lemma rollback_eq: "rollback e = andthen (sys_call e) (\<lambda>_. andthen (read_state e) (rollback_body e))"
  unfolding rollback_def rollback_body_def ..

lemma keeps_ask [keeps_intros]: "keeps e fs (ask_running e1)"
  by (auto simp: keeps_def ask_running_def world_good_def)

lemma keeps_if [keeps_intros]: "keeps e fs m \<Longrightarrow> keeps e fs n \<Longrightarrow> keeps e fs (if b then m else n)"
  by simp

lemma empty_state_good [simp]: "state_good e fs empty_state"
  by (simp add: state_good_def manifests_def empty_state_def)

lemma keeps_rollback_body:
  assumes "state_good e fs st"
  shows "keeps e fs (rollback_body e1 st)"
proof -
  have v: "verified e fs m" if "m \<in> manifests st" for m using assms that by (simp add: state_good_def)
  have a: "keeps e fs (andthen (verify_release e1 m) (\<lambda>_. activate e1 st m))" if "m \<in> manifests st" for m
    by (intro keeps_intros keeps_activate assms v that)
  have n: "keeps e fs (andthen (ask_running e1) (\<lambda>live.
            if (case live of None \<Rightarrow> False | Some x \<Rightarrow> ex_sha x \<noteq> art_sha (mf_artifact p)) then refuse OtherActive
            else andthen (stop_runtime e1) (\<lambda>_. save_state e1 empty_state)))" for p
    by (intro keeps_intros empty_state_good)
  show ?thesis using a n keeps_refuse unfolding rollback_body_def Let_def manifests_def by (auto split: option.splits)
qed

lemma read_state_good:
  assumes "world_good e w" "read_state e1 w = (Inr st, w1)"
  shows "still w w1" "state_good e (rw_files w) st" "world_good e w1"
proof -
  note s = settlesD [OF settles_read assms(2)]
  show w1: "still w w1" using s by simp
  show "state_good e (rw_files w) st" using s assms(1) by (auto simp: world_good_def)
  show "world_good e w1" using world_good_quiet [OF assms(1)] s by blast
qed

lemma rollback_good:
  assumes "world_good e w" "rollback e1 w = (r, w1)"
  shows "world_good e w1 \<and> rw_files w \<subseteq>\<^sub>m rw_files w1"
proof -
  obtain q0 v0 where c: "sys_call e1 w = (q0, v0)" by fastforce
  have s0: "still w v0" "world_good e v0"
    using c assms(1) keeps_sys [of e "rw_files w" e1] by (auto simp: keeps_def sys_call_def still_def)
  obtain q v where p: "read_state e1 v0 = (q, v)" by fastforce
  note s = settlesD [OF settles_read p]
  show ?thesis
  proof (cases "\<exists>x st. q0 = Inr x \<and> q = Inr st")
    case False
    then show ?thesis using assms(2) c p s0 s world_good_quiet [OF s0(2), of v] unfolding rollback_eq
      by (auto elim!: andthenE simp: quiet_def still_def)
  next
    case True
    then obtain x st where q: "q0 = Inr x" "q = Inr st" by blast
    have "rollback_body e1 st v = (r, w1)" using assms(2) c p q by (simp add: rollback_eq andthen_Inr)
    moreover have g: "world_good e v" "state_good e (rw_files v) st"
      using read_state_good [OF s0(2), of e1 st v] p q by (auto simp: still_def)
    ultimately have "world_good e w1 \<and> rw_files w1 = rw_files v"
      using keepsD [OF keeps_rollback_body [OF g(2)] g(1)] by blast
    then show ?thesis using s0(1) s by (auto simp: quiet_def still_def)
  qed
qed

lemma run_good:
  assumes "file_good e fs sf" "same_program e e1" "op = install e1 b \<or> op = rollback e1" "op (fresh_run sf fs) = (r, w)"
  shows "world_good e w"
proof -
  have "world_good e (fresh_run sf fs)" using assms(1) by (simp add: world_good_def fresh_run_def)
  then show ?thesis using assms(2-4) install_good rollback_good by blast
qed

lemma reachable_good: "rel_reachable e sf fs \<Longrightarrow> file_good e fs sf"
proof (induction rule: rel_reachable.induct)
  case rel_new
  then show ?case by simp
next
  case (rel_run sf fs e1 op b r w)
  then show ?case using run_good [OF rel_run.IH rel_run.hyps(2-4)] by (simp add: world_good_def)
next
  case (rel_interrupted sf fs e1 op b r w st fs1)
  then have "event_good e (rw_files w) (EvSaved st fs1)" using run_good [OF rel_interrupted.IH rel_interrupted.hyps(2-4)] by (auto simp: world_good_def)
  then show ?case by simp
qed

section \<open>When nothing fails\<close>

definition cooperative :: "rel_env \<Rightarrow> bool" where
  "cooperative e \<longleftrightarrow> (\<forall>n. \<not> re_fails e n) \<and> (\<forall>st. re_fits e st)"

lemma sys_call_ok: "cooperative e \<Longrightarrow> sys_call e w = (Inr (), w\<lparr>rw_calls := Suc (rw_calls w)\<rparr>)"
  by (simp add: sys_call_def cooperative_def)

lemma save_state_ok: "cooperative e \<Longrightarrow> save_state e st w = (Inr (), w\<lparr>rw_calls := Suc (rw_calls w), rw_state := Holds st,
    rw_log := rw_log w @ [EvSaved st (rw_files w)]\<rparr>)"
  by (simp add: save_state_def andthen_Inr [OF sys_call_ok])

lemma start_manifest_ok: "cooperative e \<Longrightarrow> start_manifest e m w = (Inr (), w\<lparr>rw_log := rw_log w @ [EvStart (rel_path_of m) (art_sha (mf_artifact m))],
    rw_calls := Suc (rw_calls w)\<rparr>)"
  by (simp add: start_manifest_def start_runtime_def sys_call_ok)

lemma stop_runtime_ok: "cooperative e \<Longrightarrow> stop_runtime e w = (Inr (), w\<lparr>rw_log := rw_log w @ [EvStop], rw_calls := Suc (rw_calls w)\<rparr>)"
  by (simp add: stop_runtime_def sys_call_ok)

lemma verify_release_ok:
  assumes "cooperative e" "verified e (rw_files w) m"
  shows "\<exists>n. verify_release e m w = (Inr (), w\<lparr>rw_calls := n\<rparr>)"
proof -
  obtain c where c: "rw_files w (rel_path_of m) = Some (Regular c)" "int (length c) = art_size (mf_artifact m)" "re_sha e c = art_sha (mf_artifact m)"
    "valid_release e m" using assms(2) by (auto simp: verified_def)
  show ?thesis unfolding verify_release_def
    by (simp add: andthen_Inr [OF validate_manifest_ok [OF c(4)]] andthen_Inr [OF sys_call_ok [OF assms(1)]] c hash_file_def andthen_assoc)
      (rule exI [of _ "Suc (Suc (rw_calls w))"], simp add: give_def)
qed

lemma activate_ok:
  assumes "cooperative e"
  shows "\<exists>n. activate e st m w = (Inr (), w\<lparr>rw_calls := n, rw_state := Holds (applied_state (st\<lparr>rs_pending := None\<rparr>) m),
    rw_log := rw_log w @ [EvSaved (st\<lparr>rs_pending := Some m\<rparr>) (rw_files w), EvStop, EvStart (rel_path_of m) (art_sha (mf_artifact m)),
      EvSaved (applied_state (st\<lparr>rs_pending := None\<rparr>) m) (rw_files w)]\<rparr>)"
  unfolding activate_def Let_def
  by (simp add: andthen_Inr [OF save_state_ok [OF assms]] attempt_eq [OF stop_runtime_ok [OF assms]] attempt_eq [OF start_manifest_ok [OF assms]]
      attempt_eq [OF save_state_ok [OF assms]] give_def)
    (rule exI, rule refl)

lemma read_state_ok:
  assumes "cooperative e" "rw_state w = Holds st" "state_good e (rw_files w) st"
  shows "\<exists>n. read_state e w = (Inr st, w\<lparr>rw_calls := n\<rparr>)"
proof -
  have v: "validate_opt e x = give ()" if "set_option x \<subseteq> manifests st" for x
    by (rule ext, cases x) (use that assms(3) validate_manifest_ok in \<open>auto simp: validate_opt_def give_def state_good_def verified_def\<close>)
  have f: "re_fits e st" using assms(1) by (simp add: cooperative_def)
  have s: "set_option (rs_current st) \<subseteq> manifests st" "set_option (rs_previous st) \<subseteq> manifests st" "set_option (rs_pending st) \<subseteq> manifests st"
    by (auto simp: manifests_def)
  show ?thesis unfolding read_state_def
    by (simp add: andthen_Inr [OF sys_call_ok [OF assms(1)]] assms(2) f v [OF s(1)] v [OF s(2)] v [OF s(3)])
      (rule exI [of _ "Suc (rw_calls w)"], simp add: give_def)
qed

lemma ask_running_ok: "re_running e (rw_calls w) = Inr x \<Longrightarrow> ask_running e w = (Inr x, w\<lparr>rw_calls := Suc (rw_calls w)\<rparr>)"
  by (simp add: ask_running_def)

definition starts :: "rel_event list \<Rightarrow> (rel_path \<times> string) list" where
  "starts log = concat (map (\<lambda>ev. case ev of EvStart p h \<Rightarrow> [(p, h)] | _ \<Rightarrow> []) log)"

lemma starts_simps [simp]:
  "starts [] = []" "starts (EvStop # es) = starts es" "starts (EvSaved st fs # es) = starts es" "starts (EvStart p h # es) = (p, h) # starts es"
  by (simp_all add: starts_def)

lemma applied_same: "rs_current st = Some c \<Longrightarrow> applied_state (st\<lparr>rs_pending := None\<rparr>) c = st\<lparr>rs_pending := None\<rparr>"
  by (cases st) (simp add: applied_state_def)

lemma rollback_recovers:
  assumes "state_good e fs st" "cooperative e" "rs_pending st = Some p"
    "\<And>n. re_running e n = Inr None \<or> (\<exists>x. re_running e n = Inr (Some x) \<and> ex_sha x = art_sha (mf_artifact p))"
  shows "\<exists>w. rollback e (fresh_run (Holds st) fs) = (Inr (), w) \<and> rw_state w = Holds (st\<lparr>rs_pending := None\<rparr>) \<and> rw_files w = fs
    \<and> starts (rw_log w) = (case rs_current st of None \<Rightarrow> [] | Some c \<Rightarrow> [(rel_path_of c, art_sha (mf_artifact c))])"
proof -
  let ?w = "fresh_run (Holds st) fs"
  obtain n1 where r: "read_state e (?w\<lparr>rw_calls := Suc (rw_calls ?w)\<rparr>) = (Inr st, ?w\<lparr>rw_calls := n1\<rparr>)"
    using read_state_ok [OF assms(2), of "?w\<lparr>rw_calls := Suc (rw_calls ?w)\<rparr>" st] assms(1) by (auto simp: fresh_run_def)
  have b: "rollback e ?w = rollback_body e st (?w\<lparr>rw_calls := n1\<rparr>)"
    by (simp add: rollback_eq andthen_def attempt_def sys_call_ok [OF assms(2)] r)
  show ?thesis
  proof (cases "rs_current st")
    case None
    then have e: "empty_state = st\<lparr>rs_pending := None\<rparr>" using assms(1) by (cases st) (simp add: state_good_def empty_state_def)
    obtain x where x: "re_running e n1 = Inr x" "\<not> (case x of None \<Rightarrow> False | Some x \<Rightarrow> ex_sha x \<noteq> art_sha (mf_artifact p))"
      using assms(4) [of n1] by auto
    have a: "andthen (ask_running e) f (?w\<lparr>rw_calls := n1\<rparr>) = f x (?w\<lparr>rw_calls := Suc n1\<rparr>)" for f :: "_ \<Rightarrow> unit rel_op"
      by (rule andthen_Inr) (use ask_running_ok [of e "?w\<lparr>rw_calls := n1\<rparr>" x] x(1) in simp)
    show ?thesis unfolding b rollback_body_def Let_def
      by (simp add: None assms(3) a x(2) andthen_Inr [OF stop_runtime_ok [OF assms(2)]] save_state_ok [OF assms(2)] e)
        (simp add: fresh_run_def)
  next
    case (Some c)
    have v: "verified e (rw_files (?w\<lparr>rw_calls := n1\<rparr>)) c" using assms(1) Some by (simp add: state_good_parts fresh_run_def)
    obtain n2 where n2: "verify_release e c (?w\<lparr>rw_calls := n1\<rparr>) = (Inr (), ?w\<lparr>rw_calls := n1, rw_calls := n2\<rparr>)"
      using verify_release_ok [OF assms(2) v] by blast
    obtain n3 where n3: "activate e st c (?w\<lparr>rw_calls := n2\<rparr>) = (Inr (), ?w\<lparr>rw_calls := n2, rw_calls := n3, rw_state := Holds (applied_state (st\<lparr>rs_pending := None\<rparr>) c),
    rw_log := rw_log (?w\<lparr>rw_calls := n2\<rparr>) @ [EvSaved (st\<lparr>rs_pending := Some c\<rparr>) (rw_files (?w\<lparr>rw_calls := n2\<rparr>)), EvStop, EvStart (rel_path_of c) (art_sha (mf_artifact c)),
      EvSaved (applied_state (st\<lparr>rs_pending := None\<rparr>) c) (rw_files (?w\<lparr>rw_calls := n2\<rparr>))]\<rparr>)"
      using activate_ok [OF assms(2)] by blast
    have "rollback_body e st (?w\<lparr>rw_calls := n1\<rparr>) = activate e st c (?w\<lparr>rw_calls := n2\<rparr>)"
      unfolding rollback_body_def Let_def by (simp add: assms(3) Some andthen_def attempt_def n2 [simplified])
    then show ?thesis unfolding b n3 by (simp add: Some applied_same [OF Some] fresh_run_def)
  qed
qed

text \<open>Success comes with the start of the bundle's release as the last thing before the state that names it.\<close>

lemma activate_success:
  assumes "activate e st m w = (Inr (), w1)"
  shows "\<exists>log. rw_state w1 = Holds (applied_state (st\<lparr>rs_pending := None\<rparr>) m)
    \<and> rw_log w1 = log @ [EvStop, EvStart (rel_path_of m) (art_sha (mf_artifact m)), EvSaved (applied_state (st\<lparr>rs_pending := None\<rparr>) m) (rw_files w1)]"
proof -
  have never: "restore_original e st1 f v \<noteq> (Inr (), v1)" for st1 f v v1
    unfolding restore_original_def by (auto elim!: andthenE attemptE simp: refuse_def split: sum.splits)
  show ?thesis using assms never unfolding activate_def Let_def
    by (auto elim!: andthenE attemptE simp: refuse_def give_def save_state_def stop_runtime_def start_manifest_def start_runtime_def sys_call_def
        split: sum.splits if_splits)
qed

section \<open>Properties\<close>

lemma starts_member: "(p, h) \<in> set (starts log) \<longleftrightarrow> EvStart p h \<in> set log"
proof (induction log)
  case (Cons ev log)
  then show ?case by (cases ev) auto
qed simp

text \<open>A first installation on a machine where nothing fails.\<close>

definition demo_build :: build_info where
  "demo_build = \<lparr>bi_version = ''1'', bi_revision = ''r'', bi_built_at = [], bi_dirty = False, bi_protocol = 1, bi_profile_format = 1,
     bi_os = ''linux'', bi_arch = ''amd64''\<rparr>"

definition demo_digest :: string where "demo_digest = replicate 64 CHR ''a''"

definition demo_manifest :: manifest where
  "demo_manifest = \<lparr>mf_schema = 1, mf_build = demo_build, mf_artifact = \<lparr>art_file = ''xallor-remote'', art_sha = demo_digest, art_size = 2\<rparr>\<rparr>"

definition demo_env :: rel_env where
  "demo_env = \<lparr>re_sha = (\<lambda>_. demo_digest), re_os = ''linux'', re_arch = ''amd64'', re_protocol = 1, re_profile_format = 1, re_fits = (\<lambda>_. True),
     re_fails = (\<lambda>_. False), re_running = (\<lambda>_. Inr None),
     re_check = (\<lambda>_ _. Inr \<lparr>ex_info = demo_build, ex_path = [], ex_sha = demo_digest, ex_pid = 1\<rparr>), re_image = (\<lambda>_. None)\<rparr>"

definition demo_bundle :: release_bundle where
  "demo_bundle = \<lparr>bd_manifest = Some demo_manifest, bd_file = [''xallor-remote'' \<mapsto> ''go'']\<rparr>"

definition demo_files :: rel_files where
  "demo_files = [(demo_digest, ''xallor-remote'') \<mapsto> Regular ''go'']"

definition demo_pending :: rel_state where
  "demo_pending = empty_state\<lparr>rs_pending := Some demo_manifest\<rparr>"

lemma demo_valid: "valid_release demo_env demo_manifest"
  by (simp add: valid_release_def demo_env_def demo_manifest_def demo_build_def demo_digest_def digest_pattern_def binary_name_def maxBinaryBytes_def
      list_all_iff)

lemma demo_calls: "sys_call demo_env v = (Inr (), v\<lparr>rw_calls := Suc (rw_calls v)\<rparr>)" "re_sha demo_env x = demo_digest"
  by (simp_all add: sys_call_def demo_env_def)

lemma demo_copy: "\<exists>n. copy_artifact demo_env ''go'' demo_manifest \<lparr>rw_state = s, rw_files = Map.empty, rw_calls = k, rw_log = l\<rparr>
  = (Inr (), \<lparr>rw_state = s, rw_files = demo_files, rw_calls = n, rw_log = l\<rparr>)"
proof -
  have t: "take (nat (maxBinaryBytes + 1)) ''go'' = ''go''" by (simp add: maxBinaryBytes_def)
  have z: "art_size (mf_artifact demo_manifest) = 2" "art_sha (mf_artifact demo_manifest) = demo_digest"
    "rel_path_of demo_manifest = (demo_digest, ''xallor-remote'')"
    by (simp_all add: demo_manifest_def rel_path_of_def)
  show ?thesis unfolding copy_artifact_def Let_def t z
    by (simp add: andthen_def attempt_def demo_calls hash_file_def give_def rename_into_def demo_files_def)
qed

lemma demo_stage: "\<exists>n. stage demo_env demo_bundle \<lparr>rw_state = s, rw_files = Map.empty, rw_calls = k, rw_log = l\<rparr>
  = (Inr demo_manifest, \<lparr>rw_state = s, rw_files = demo_files, rw_calls = n, rw_log = l\<rparr>)"
proof -
  have b: "bd_manifest demo_bundle = Some demo_manifest" "bd_file demo_bundle (art_file (mf_artifact demo_manifest)) = Some ''go''"
    by (simp_all add: demo_bundle_def demo_manifest_def)
  obtain n where n: "copy_artifact demo_env ''go'' demo_manifest \<lparr>rw_state = s, rw_files = Map.empty, rw_calls = Suc k, rw_log = l\<rparr>
      = (Inr (), \<lparr>rw_state = s, rw_files = demo_files, rw_calls = n, rw_log = l\<rparr>)" using demo_copy by blast
  show ?thesis unfolding stage_def b
    by (rule exI [of _ n]) (use n in \<open>simp add: b andthen_def attempt_def demo_calls give_def validate_manifest_ok [OF demo_valid]\<close>)
qed

lemma demo_install: "\<exists>w. install demo_env demo_bundle (fresh_run NoState Map.empty) = (Inr (), w) \<and> rw_state w = Holds (applied_state empty_state demo_manifest)
  \<and> rw_files w = demo_files \<and> rw_log w = [EvSaved empty_state demo_files, EvSaved demo_pending demo_files, EvStop,
    EvStart (demo_digest, ''xallor-remote'') demo_digest, EvSaved (applied_state empty_state demo_manifest) demo_files]"
proof -
  have co: "cooperative demo_env" by (simp add: cooperative_def demo_env_def)
  obtain n where n: "stage demo_env demo_bundle \<lparr>rw_state = NoState, rw_files = Map.empty, rw_calls = 2, rw_log = []\<rparr>
    = (Inr demo_manifest, \<lparr>rw_state = NoState, rw_files = demo_files, rw_calls = n, rw_log = []\<rparr>)" using demo_stage by blast
  have a: "re_check demo_env i x = Inr \<lparr>ex_info = demo_build, ex_path = [], ex_sha = demo_digest, ex_pid = 1\<rparr>" "re_running demo_env i = Inr None"
    "mf_build demo_manifest = demo_build" "art_sha (mf_artifact demo_manifest) = demo_digest" for i x
    by (simp_all add: demo_env_def demo_manifest_def)
  have p: "prepare demo_env demo_bundle (fresh_run NoState Map.empty)
    = (Inr (empty_state, demo_manifest), \<lparr>rw_state = NoState, rw_files = demo_files, rw_calls = n + 2, rw_log = []\<rparr>)"
    using n by (simp add: prepare_def fresh_run_def andthen_def attempt_def demo_calls read_state_def give_def empty_state_def ask_check_def
        ask_running_def keep_running_def numeral_2_eq_2 a)
  obtain k where k: "activate demo_env empty_state demo_manifest \<lparr>rw_state = Holds empty_state, rw_files = demo_files, rw_calls = Suc (n + 2),
      rw_log = [EvSaved empty_state demo_files]\<rparr> = (Inr (), \<lparr>rw_state = Holds (applied_state empty_state demo_manifest), rw_files = demo_files, rw_calls = k,
      rw_log = [EvSaved empty_state demo_files, EvSaved demo_pending demo_files, EvStop,
    EvStart (rel_path_of demo_manifest) (art_sha (mf_artifact demo_manifest)), EvSaved (applied_state empty_state demo_manifest) demo_files]\<rparr>)"
    using activate_ok [OF co, of empty_state demo_manifest "\<lparr>rw_state = Holds empty_state, rw_files = demo_files, rw_calls = Suc (n + 2),
      rw_log = [EvSaved empty_state demo_files]\<rparr>"] by (auto simp: empty_state_def demo_pending_def)
  have z: "rel_path_of demo_manifest = (demo_digest, ''xallor-remote'')" "art_sha (mf_artifact demo_manifest) = demo_digest"
    by (simp_all add: demo_manifest_def rel_path_of_def)
  have "install demo_env demo_bundle (fresh_run NoState Map.empty) = activate demo_env empty_state demo_manifest
    \<lparr>rw_state = Holds empty_state, rw_files = demo_files, rw_calls = Suc (n + 2), rw_log = [EvSaved empty_state demo_files]\<rparr>"
    unfolding install_prepare by (simp add: andthen_def attempt_def p save_state_ok [OF co])
  then show ?thesis unfolding k z by simp
qed

text \<open>C23. Only verified versions run. Whatever the store has been through, a start by an installation or a rollback is of a file whose
  digest is the one it is started for, and the state file reads, naming only releases that are valid for this program and are there with
  their size and digest.\<close>

theorem only_verified_releases_run:
  assumes "rel_reachable e sf fs" "same_program e e1" "op = install e1 b \<or> op = rollback e1" "op (fresh_run sf fs) = (r, w)"
  shows "(\<forall>p h. (p, h) \<in> set (starts (rw_log w)) \<longrightarrow> (\<exists>c. rw_files w p = Some (Regular c) \<and> re_sha e c = h))
    \<and> rw_state w \<noteq> Garbled \<and> (\<forall>st. rw_state w = Holds st \<longrightarrow> (\<forall>m\<in>manifests st. verified e (rw_files w) m))"
proof -
  have g: "world_good e w" using run_good [OF reachable_good [OF assms(1)] assms(2-4)] .
  then have "event_good e (rw_files w) ev" if "ev \<in> set (rw_log w)" for ev using that by (auto simp: world_good_def)
  then have "\<exists>c. rw_files w p = Some (Regular c) \<and> re_sha e c = h" if "(p, h) \<in> set (starts (rw_log w))" for p h
    using that unfolding starts_member by (fastforce simp: verified_def)
  moreover have "rw_state w \<noteq> Garbled" using g by (auto simp: world_good_def)
  moreover have "\<forall>m\<in>manifests st. verified e (rw_files w) m" if "rw_state w = Holds st" for st
    using g that by (auto simp: world_good_def state_good_def)
  ultimately show ?thesis by blast
qed

lemma same_refl [simp]: "same_program e e"
  by (simp add: same_program_def)

theorem only_verified_releases_run_witness: "re_sha demo_env ''go'' = demo_digest \<and> verified demo_env demo_files demo_manifest"
proof -
  obtain w where w: "install demo_env demo_bundle (fresh_run NoState Map.empty) = (Inr (), w)" "rw_files w = demo_files"
    "rw_state w = Holds (applied_state empty_state demo_manifest)"
    "rw_log w = [EvSaved empty_state demo_files, EvSaved demo_pending demo_files, EvStop,
      EvStart (demo_digest, ''xallor-remote'') demo_digest, EvSaved (applied_state empty_state demo_manifest) demo_files]"
    using demo_install by blast
  note t = only_verified_releases_run [OF rel_new same_refl disjI1 [OF refl] w(1)]
  have "\<exists>c. demo_files (demo_digest, ''xallor-remote'') = Some (Regular c) \<and> re_sha demo_env c = demo_digest" using t w by simp
  moreover have "verified demo_env demo_files demo_manifest" using t w by (auto simp: manifests_def applied_state_def)
  ultimately show ?thesis by (simp add: demo_files_def)
qed

text \<open>C24. An installation is exact. A bundle whose manifest is not valid here, or whose file does not have the size and the digest of its
  manifest, is refused with the state file, the running Runtime and the log as they were; success means that the bundle's release was
  started last and is the current one in the state file, with nothing pending.\<close>

theorem install_exact:
  assumes "rel_reachable e sf fs" "same_program e e1" "install e1 b (fresh_run sf fs) = (r, w)"
  shows "((\<nexists>m. good_bundle e b m) \<longrightarrow> r \<noteq> Inr () \<and> rw_state w = sf \<and> rw_log w = [])
    \<and> (r = Inr () \<longrightarrow> (\<exists>m st log. good_bundle e b m \<and> rw_state w = Holds st \<and> rs_current st = Some m \<and> rs_pending st = None
         \<and> rw_log w = log @ [EvStop, EvStart (rel_path_of m) (art_sha (mf_artifact m)), EvSaved st (rw_files w)]))"
proof -
  have g: "world_good e (fresh_run sf fs)" using reachable_good [OF assms(1)] by (simp add: world_good_def fresh_run_def)
  obtain q v where p: "prepare e1 b (fresh_run sf fs) = (q, v)" by fastforce
  note s = settlesD [OF settles_prepare [OF g assms(2)] p]
  show ?thesis
  proof (cases q)
    case (Inl x)
    then have "r = Inl x" "w = v" using assms(3) p by (auto simp: install_prepare andthen_def attempt_def refuse_def)
    then show ?thesis using s by (simp add: quiet_def fresh_run_def)
  next
    case (Inr y)
    obtain st m where y: "y = (st, m)" by fastforce
    have b: "good_bundle e b m" using s Inr y by auto
    have i: "andthen (save_state e1 st) (\<lambda>_. activate e1 st m) v = (r, w)"
      using assms(3) p Inr y by (auto simp: install_prepare andthen_def attempt_def)
    have "\<exists>m st log. good_bundle e b m \<and> rw_state w = Holds st \<and> rs_current st = Some m \<and> rs_pending st = None
         \<and> rw_log w = log @ [EvStop, EvStart (rel_path_of m) (art_sha (mf_artifact m)), EvSaved st (rw_files w)]" if ok: "r = Inr ()"
    proof -
      obtain v1 where "activate e1 st m v1 = (Inr (), w)" by (rule andthenE [OF i]) (use ok in auto)
      from activate_success [OF this] b show ?thesis by (fastforce simp: applied_state_def)
    qed
    then show ?thesis using b by blast
  qed
qed

theorem install_exact_witness: "\<exists>m. good_bundle demo_env demo_bundle m"
proof -
  obtain w where w: "install demo_env demo_bundle (fresh_run NoState Map.empty) = (Inr (), w)" using demo_install by blast
  show ?thesis using install_exact [OF rel_new same_refl w] by blast
qed

text \<open>C25. An interrupted activation is recovered. If an installation or a rollback was interrupted with a release pending, then a
  rollback, with nothing failing and no Runtime but the pending one active, ends well: the state file is what it was before the
  activation, with nothing pending, and what is started is exactly the release that was current, or nothing where there was none.\<close>

theorem interrupted_activation_recovers:
  assumes "rel_reachable e (Holds st) fs" "rs_pending st = Some p" "same_program e e1" "cooperative e1"
    "\<And>n. re_running e1 n = Inr None \<or> (\<exists>x. re_running e1 n = Inr (Some x) \<and> ex_sha x = art_sha (mf_artifact p))"
  shows "\<exists>w. rollback e1 (fresh_run (Holds st) fs) = (Inr (), w) \<and> rw_state w = Holds (st\<lparr>rs_pending := None\<rparr>) \<and> rw_files w = fs
    \<and> starts (rw_log w) = (case rs_current st of None \<Rightarrow> [] | Some c \<Rightarrow> [(rel_path_of c, art_sha (mf_artifact c))])"
proof (rule rollback_recovers [OF _ assms(4,2,5)])
  show "state_good e1 fs st" using reachable_good [OF assms(1)] verified_same [OF assms(3)] by (simp add: state_good_def)
qed

theorem interrupted_activation_recovers_witness:
  "\<exists>w. rollback demo_env (fresh_run (Holds demo_pending) demo_files) = (Inr (), w) \<and> rw_state w = Holds (demo_pending\<lparr>rs_pending := None\<rparr>)
    \<and> starts (rw_log w) = []"
proof -
  obtain w where w: "install demo_env demo_bundle (fresh_run NoState Map.empty) = (Inr (), w)"
    "rw_log w = [EvSaved empty_state demo_files, EvSaved demo_pending demo_files, EvStop,
      EvStart (demo_digest, ''xallor-remote'') demo_digest, EvSaved (applied_state empty_state demo_manifest) demo_files]"
    using demo_install by blast
  have "rel_reachable demo_env (Holds demo_pending) demo_files"
    by (rule rel_interrupted [OF rel_new same_refl disjI1 [OF refl] w(1)]) (simp add: w(2))
  from interrupted_activation_recovers [OF this, of demo_manifest demo_env] show ?thesis
    by (auto simp: demo_pending_def empty_state_def cooperative_def demo_env_def)
qed

end
