(* ===== verification/LineReader.thy ===== *)
theory LineReader
  imports Protocol
begin

text \<open>
  Messages between heads and the Runtime (\<open>internal/ipc/line_reader.go\<close>, \<open>codec.go\<close>): one line each, read through a
  \<open>bufio.Scanner\<close> whose loop is written out here with its buffer, its growth and the bytes each read happens to deliver. A read that
  delivers nothing without an error does not occur on a connection.
\<close>

definition MaxIPCMessageBytes :: int where
  "MaxIPCMessageBytes = 6 * (MaxWriteBytes + MaxPathBytes) + MaxEnvelopeBytes"

definition ipc_nl :: char where "ipc_nl = CHR 0x0A"

datatype line_fault = LineEOF | LineUnexpectedEOF | LineTooLarge | LineTooLong | LineConn

datatype split_result = SplitBad line_fault | SplitToken nat string | SplitMore

text \<open>\<open>bytes.IndexByte\<close>.\<close>

fun index_byte :: "char \<Rightarrow> string \<Rightarrow> nat option" where
  "index_byte c [] = None"
| "index_byte c (x # xs) = (if x = c then Some 0 else map_option Suc (index_byte c xs))"

definition split_ipc_line :: "string \<Rightarrow> bool \<Rightarrow> split_result" where
  "split_ipc_line data at_eof =
    (case index_byte ipc_nl data of
       Some i \<Rightarrow> if int i > MaxIPCMessageBytes then SplitBad LineTooLarge else SplitToken (i + 1) (take i data)
     | None \<Rightarrow>
        if int (length data) > MaxIPCMessageBytes then SplitBad LineTooLarge
        else if at_eof \<and> length data > 0 then SplitBad LineUnexpectedEOF
        else SplitMore)"

text \<open>The scanner: the unconsumed bytes \<open>buf[start:end]\<close>, where they start, the length of the buffer, and the error it has stored;
  then what the connection will still deliver and how that ends, and how many bytes each read is ready to give.\<close>

record scanner =
  sc_data :: string
  sc_start :: nat
  sc_cap :: nat
  sc_err :: "line_fault option"
  sc_in :: string
  sc_end :: line_fault
  sc_reads :: "nat list"

definition max_token :: nat where "max_token = nat (MaxIPCMessageBytes + 2)"

definition new_line_reader :: "string \<Rightarrow> line_fault \<Rightarrow> nat list \<Rightarrow> scanner" where
  "new_line_reader input fin reads =
    \<lparr>sc_data = [], sc_start = 0, sc_cap = 4096, sc_err = None, sc_in = input, sc_end = fin, sc_reads = reads\<rparr>"

definition set_err :: "line_fault \<Rightarrow> scanner \<Rightarrow> scanner" where
  "set_err f s = (if sc_err s = None \<or> sc_err s = Some LineEOF then s\<lparr>sc_err := Some f\<rparr> else s)"

text \<open>The data is moved to the start of the buffer.\<close>

definition shift_data :: "scanner \<Rightarrow> scanner" where
  "shift_data s =
    (if sc_start s > 0 \<and> (sc_start s + length (sc_data s) = sc_cap s \<or> sc_start s > sc_cap s div 2) then s\<lparr>sc_start := 0\<rparr> else s)"

text \<open>A full buffer grows, up to the maximum.\<close>

definition grow_buffer :: "scanner \<Rightarrow> scanner option" where
  "grow_buffer s =
    (if sc_start s + length (sc_data s) = sc_cap s then
       if sc_cap s \<ge> max_token then None
       else Some (s\<lparr>sc_cap := min (sc_cap s * 2) max_token, sc_start := 0\<rparr>)
     else Some s)"

definition read_more :: "scanner \<Rightarrow> scanner" where
  "read_more s =
    (if sc_in s = [] then set_err (sc_end s) s
     else let room = sc_cap s - (sc_start s + length (sc_data s));
              n = min room (case sc_reads s of [] \<Rightarrow> room | k # _ \<Rightarrow> max 1 k)
          in s\<lparr>sc_data := sc_data s @ take n (sc_in s), sc_in := drop n (sc_in s), sc_reads := tl (sc_reads s)\<rparr>)"

definition fault_of :: "scanner \<Rightarrow> line_fault" where
  "fault_of s = (case sc_err s of None \<Rightarrow> LineEOF | Some f \<Rightarrow> f)"

text \<open>What one round of \<open>Scan\<close> decides: a result, or another round.\<close>

definition scan_round :: "scanner \<Rightarrow> (line_fault + string) option \<times> scanner" where
  "scan_round s =
    (case (if sc_data s \<noteq> [] \<or> sc_err s \<noteq> None then split_ipc_line (sc_data s) (sc_err s \<noteq> None) else SplitMore) of
       SplitBad f \<Rightarrow> (let s1 = set_err f s in (Some (Inl (fault_of s1)), s1))
     | SplitToken n t \<Rightarrow> (Some (Inr t), s\<lparr>sc_data := drop n (sc_data s), sc_start := sc_start s + n\<rparr>)
     | SplitMore \<Rightarrow>
        if sc_err s \<noteq> None then (Some (Inl (fault_of s)), s\<lparr>sc_data := [], sc_start := 0\<rparr>)
        else (case grow_buffer (shift_data s) of
                None \<Rightarrow> (let s1 = set_err LineTooLong s in (Some (Inl (fault_of s1)), s1))
              | Some s1 \<Rightarrow> (None, read_more s1)))"

text \<open>\<open>read\<close>. The rounds are bounded: each reads something, or meets the end, or is the last.\<close>

definition rounds_left :: "scanner \<Rightarrow> nat" where
  "rounds_left s = length (sc_in s) + (if sc_err s = None then 2 else 1)"

fun read_rounds :: "nat \<Rightarrow> scanner \<Rightarrow> ((line_fault + string) \<times> scanner) option" where
  "read_rounds 0 s = None"
| "read_rounds (Suc n) s = (case scan_round s of (Some r, s1) \<Rightarrow> Some (r, s1) | (None, s1) \<Rightarrow> read_rounds n s1)"

definition read_line :: "scanner \<Rightarrow> ((line_fault + string) \<times> scanner) option" where
  "read_line s = read_rounds (rounds_left s) s"

text \<open>A connection is read until it fails; \<open>None\<close> is that a read did not return.\<close>

fun read_lines :: "nat \<Rightarrow> scanner \<Rightarrow> (string list \<times> line_fault) option" where
  "read_lines 0 s = None"
| "read_lines (Suc n) s =
    (case read_line s of
       None \<Rightarrow> None
     | Some (Inl f, s1) \<Rightarrow> Some ([], f)
     | Some (Inr l, s1) \<Rightarrow> map_option (\<lambda>(ls, f). (l # ls, f)) (read_lines n s1))"

text \<open>The writing side: \<open>WriteFrame\<close> of an encoded message to the bytes sent so far, and whether the connection is closed.\<close>

definition write_line :: "string \<Rightarrow> string \<Rightarrow> (line_fault + string) \<times> bool" where
  "write_line out b = (if int (length b) > MaxIPCMessageBytes then (Inl LineTooLarge, True) else (Inr (out @ b @ [ipc_nl]), False))"

fun write_lines :: "string \<Rightarrow> string list \<Rightarrow> string option" where
  "write_lines out [] = Some out"
| "write_lines out (b # bs) = (case write_line out b of (Inr out1, _) \<Rightarrow> write_lines out1 bs | (Inl _, _) \<Rightarrow> None)"

section \<open>What reading means\<close>

text \<open>The next message of a stream, whatever the reads deliver.\<close>

definition next_line :: "string \<Rightarrow> line_fault \<Rightarrow> (line_fault + string) \<times> string" where
  "next_line s fin =
    (case index_byte ipc_nl s of
       Some i \<Rightarrow> if int i \<le> MaxIPCMessageBytes then (Inr (take i s), drop (i + 1) s) else (Inl LineTooLarge, [])
     | None \<Rightarrow>
        if int (length s) > MaxIPCMessageBytes then (Inl LineTooLarge, [])
        else if s = [] then (Inl fin, []) else (Inl (if fin = LineEOF then LineUnexpectedEOF else fin), []))"

section \<open>The scanner reads the next message\<close>

lemma index_byte_bound: "index_byte c xs = Some i \<Longrightarrow> i < length xs"
  by (induction xs arbitrary: i) (auto split: if_splits)

lemma index_byte_append: "index_byte c (xs @ ys) =
    (case index_byte c xs of Some i \<Rightarrow> Some i | None \<Rightarrow> map_option (\<lambda>j. length xs + j) (index_byte c ys))"
  by (induction xs; cases "index_byte c ys") (auto split: option.splits)

lemma index_byte_None: "index_byte c xs = None \<longleftrightarrow> c \<notin> set xs"
  by (induction xs) auto

definition line_inv :: "scanner \<Rightarrow> bool" where
  "line_inv s \<longleftrightarrow> sc_start s + length (sc_data s) \<le> sc_cap s \<and> 0 < sc_cap s \<and> sc_cap s \<le> max_token
     \<and> (sc_err s = None \<or> sc_err s = Some (sc_end s) \<and> sc_in s = [] \<and> index_byte ipc_nl (sc_data s) = None
          \<and> int (length (sc_data s)) \<le> MaxIPCMessageBytes)"

definition left_over :: "scanner \<Rightarrow> string" where
  "left_over s = sc_data s @ sc_in s"

lemma max_token_nat: "int max_token = MaxIPCMessageBytes + 2" "0 < MaxIPCMessageBytes"
  by (simp_all add: max_token_def MaxIPCMessageBytes_def)

lemma line_inv_new: "line_inv (new_line_reader input fin reads)"
  by (simp add: line_inv_def new_line_reader_def max_token_def MaxIPCMessageBytes_def)

lemma shift_facts: "sc_data (shift_data s) = sc_data s" "sc_cap (shift_data s) = sc_cap s" "sc_err (shift_data s) = sc_err s"
  "sc_in (shift_data s) = sc_in s" "sc_end (shift_data s) = sc_end s" "sc_reads (shift_data s) = sc_reads s" "sc_start (shift_data s) \<le> sc_start s"
  by (simp_all add: shift_data_def)

lemma shift_full: "sc_start (shift_data s) + length (sc_data s) = sc_cap s \<Longrightarrow> sc_start s + length (sc_data s) \<le> sc_cap s \<Longrightarrow> sc_start (shift_data s) = 0"
  by (auto simp: shift_data_def split: if_splits)

lemma grow_room:
  assumes "line_inv s" "int (length (sc_data s)) \<le> MaxIPCMessageBytes"
  obtains s1 where "grow_buffer (shift_data s) = Some s1" "sc_data s1 = sc_data s" "sc_in s1 = sc_in s" "sc_end s1 = sc_end s" "sc_err s1 = sc_err s"
    "sc_start s1 + length (sc_data s) < sc_cap s1" "sc_cap s1 \<le> max_token"
proof (cases "sc_start (shift_data s) + length (sc_data s) = sc_cap s")
  case True
  then have z: "sc_start (shift_data s) = 0" using shift_full assms(1) by (simp add: line_inv_def)
  then have c: "sc_cap s < max_token" "length (sc_data s) = sc_cap s" "0 < sc_cap s"
    using True assms max_token_nat by (auto simp: line_inv_def)
  show ?thesis
    by (rule that [of "(shift_data s)\<lparr>sc_cap := min (sc_cap s * 2) max_token, sc_start := 0\<rparr>"])
      (use True c in \<open>simp_all add: grow_buffer_def shift_facts\<close>)
next
  case False
  have "sc_start (shift_data s) + length (sc_data s) < sc_cap s"
    using False assms(1) shift_facts(7) [of s] by (simp add: line_inv_def)
  then show ?thesis using False assms(1)
    by (intro that [of "shift_data s"]) (simp_all add: grow_buffer_def shift_facts line_inv_def)
qed

lemma round_continues:
  assumes "line_inv s" "scan_round s = (None, s1)"
  shows "line_inv s1 \<and> left_over s1 = left_over s \<and> sc_end s1 = sc_end s \<and> rounds_left s1 < rounds_left s"
proof -
  have e: "sc_err s = None" "split_ipc_line (sc_data s) False = SplitMore \<or> sc_data s = []"
    using assms(2) unfolding scan_round_def
    by (auto simp: Let_def split: split_result.splits if_splits option.splits)
  then have l: "int (length (sc_data s)) \<le> MaxIPCMessageBytes" "index_byte ipc_nl (sc_data s) = None"
    using max_token_nat(2) by (auto simp: split_ipc_line_def split: option.splits if_splits)
  obtain s2 where s2: "grow_buffer (shift_data s) = Some s2" "sc_data s2 = sc_data s" "sc_in s2 = sc_in s" "sc_end s2 = sc_end s" "sc_err s2 = None"
    "sc_start s2 + length (sc_data s) < sc_cap s2" "sc_cap s2 \<le> max_token"
    using grow_room [OF assms(1) l(1)] e(1) by metis
  have s1: "s1 = read_more s2"
    using assms(2) e l s2(1) unfolding scan_round_def by (auto simp: split_ipc_line_def Let_def split: if_splits)
  show ?thesis
  proof (cases "sc_in s = []")
    case True
    then show ?thesis using s1 s2 l e by (simp add: read_more_def set_err_def line_inv_def left_over_def rounds_left_def)
  next
    case False
    define room where "room = sc_cap s2 - (sc_start s2 + length (sc_data s2))"
    define n where "n = min room (case sc_reads s2 of [] \<Rightarrow> room | k # _ \<Rightarrow> max 1 k)"
    have n: "0 < n" "n \<le> room" using s2(2,6) by (auto simp: n_def room_def split: list.splits)
    have r: "s1 = s2\<lparr>sc_data := sc_data s2 @ take n (sc_in s2), sc_in := drop n (sc_in s2), sc_reads := tl (sc_reads s2)\<rparr>"
      unfolding s1 n_def room_def read_more_def Let_def using s2(3) False by simp
    have "sc_start s2 + (length (sc_data s) + min (length (sc_in s)) n) \<le> sc_cap s2" using n s2(2,6) by (simp add: room_def)
    then show ?thesis using r s2 e n False by (simp add: line_inv_def left_over_def rounds_left_def)
  qed
qed

lemma round_ends:
  assumes "line_inv s" "scan_round s = (Some r, s1)"
  shows "r = fst (next_line (left_over s) (sc_end s))"
    "r = Inr t \<Longrightarrow> line_inv s1 \<and> left_over s1 = snd (next_line (left_over s) (sc_end s)) \<and> sc_end s1 = sc_end s"
proof -
  note i = assms(1) [unfolded line_inv_def]
  have "r = fst (next_line (left_over s) (sc_end s)) \<and>
    (r = Inr t \<longrightarrow> line_inv s1 \<and> left_over s1 = snd (next_line (left_over s) (sc_end s)) \<and> sc_end s1 = sc_end s)"
  proof (cases "index_byte ipc_nl (sc_data s)")
    case (Some k)
    then have e: "sc_err s = None" "sc_data s \<noteq> []" "index_byte ipc_nl (left_over s) = Some k" "k < length (sc_data s)"
      using i index_byte_bound by (auto simp: left_over_def index_byte_append)
    show ?thesis using assms(2) Some e i
      by (auto simp: scan_round_def split_ipc_line_def next_line_def left_over_def Let_def set_err_def fault_of_def line_inv_def split: if_splits)
  next
    case None
    show ?thesis
    proof (cases "int (length (sc_data s)) > MaxIPCMessageBytes")
      case True
      then have e: "sc_err s = None" "sc_data s \<noteq> []" using i max_token_nat(2) by auto
      have "fst (next_line (left_over s) (sc_end s)) = Inl LineTooLarge"
        using True None by (auto simp: next_line_def left_over_def index_byte_append split: option.splits)
      then show ?thesis using assms(2) e None True
        by (auto simp: scan_round_def split_ipc_line_def Let_def set_err_def fault_of_def)
    next
      case False
      then have "sc_err s \<noteq> None"
      proof -
        obtain s2 where "grow_buffer (shift_data s) = Some s2" using grow_room [OF assms(1)] False by (metis not_less)
        then show ?thesis using assms(2) None False
          by (auto simp: scan_round_def split_ipc_line_def Let_def split: if_splits)
      qed
      then have e: "sc_err s = Some (sc_end s)" "sc_in s = []" using i by auto
      show ?thesis using assms(2) e None False max_token_nat(2)
        by (auto simp: scan_round_def split_ipc_line_def Let_def set_err_def fault_of_def next_line_def left_over_def split: if_splits)
    qed
  qed
  then show "r = fst (next_line (left_over s) (sc_end s))"
    "r = Inr t \<Longrightarrow> line_inv s1 \<and> left_over s1 = snd (next_line (left_over s) (sc_end s)) \<and> sc_end s1 = sc_end s" by simp_all
qed

lemma read_rounds_next:
  "line_inv s \<Longrightarrow> rounds_left s \<le> n \<Longrightarrow> \<exists>s1. read_rounds n s = Some (fst (next_line (left_over s) (sc_end s)), s1)
    \<and> (\<forall>t. fst (next_line (left_over s) (sc_end s)) = Inr t \<longrightarrow>
         line_inv s1 \<and> left_over s1 = snd (next_line (left_over s) (sc_end s)) \<and> sc_end s1 = sc_end s)"
proof (induction n arbitrary: s)
  case 0
  then show ?case by (simp add: rounds_left_def split: if_splits)
next
  case (Suc n)
  obtain o1 s1 where r: "scan_round s = (o1, s1)" by fastforce
  show ?case
  proof (cases o1)
    case None
    note c = round_continues [OF Suc.prems(1) r [unfolded None]]
    then show ?thesis using Suc.IH [of s1] Suc.prems(2) r None by auto
  next
    case (Some x)
    then show ?thesis using round_ends [OF Suc.prems(1) r [unfolded Some]] r by auto
  qed
qed

lemma read_line_next:
  assumes "line_inv s"
  obtains s1 where "read_line s = Some (fst (next_line (left_over s) (sc_end s)), s1)"
    "\<And>t. fst (next_line (left_over s) (sc_end s)) = Inr t \<Longrightarrow>
       line_inv s1 \<and> left_over s1 = snd (next_line (left_over s) (sc_end s)) \<and> sc_end s1 = sc_end s"
  using read_rounds_next [OF assms order_refl] unfolding read_line_def by blast

section \<open>Both ends\<close>

definition wire :: "string list \<Rightarrow> string" where
  "wire ms = concat (map (\<lambda>m. m @ [ipc_nl]) ms)"

text \<open>How a connection that ends with \<open>fin\<close> ends for the reader, with the bytes of a message before it.\<close>

definition cut_fault :: "line_fault \<Rightarrow> string \<Rightarrow> line_fault" where
  "cut_fault fin p = (if p = [] then fin else if fin = LineEOF then LineUnexpectedEOF else fin)"

lemma write_lines_wire: "write_lines out ms = Some res \<longleftrightarrow> res = out @ wire ms \<and> (\<forall>m\<in>set ms. int (length m) \<le> MaxIPCMessageBytes)"
  by (induction ms arbitrary: out) (auto simp: write_line_def wire_def)

lemma index_byte_first: "c \<notin> set xs \<Longrightarrow> index_byte c (xs @ c # ys) = Some (length xs)"
  by (induction xs) auto

lemma next_line_whole:
  "ipc_nl \<notin> set m \<Longrightarrow> int (length m) \<le> MaxIPCMessageBytes \<Longrightarrow> next_line (m @ ipc_nl # rest) fin = (Inr m, rest)"
  by (simp add: next_line_def index_byte_first)

lemma next_line_part:
  "ipc_nl \<notin> set p \<Longrightarrow> int (length p) \<le> MaxIPCMessageBytes \<Longrightarrow>
   fst (next_line p fin) = Inl (cut_fault fin p)"
  using index_byte_None [of ipc_nl p] by (simp add: next_line_def cut_fault_def)

lemma read_lines_cut:
  "line_inv s \<Longrightarrow> left_over s = take k (wire ms) \<Longrightarrow> \<forall>m\<in>set ms. ipc_nl \<notin> set m \<and> int (length m) \<le> MaxIPCMessageBytes \<Longrightarrow>
   \<exists>j p. read_lines (Suc (length ms)) s = Some (take j ms, cut_fault (sc_end s) p)
     \<and> take k (wire ms) = wire (take j ms) @ p \<and> ipc_nl \<notin> set p \<and> (length (wire ms) \<le> k \<longrightarrow> p = [] \<and> j = length ms)"
proof (induction ms arbitrary: s k)
  case Nil
  obtain s1 where "read_line s = Some (fst (next_line (left_over s) (sc_end s)), s1)" using read_line_next [OF Nil(1)] by metis
  then show ?case using Nil(2) next_line_part [of "[]"] max_token_nat(2) by (intro exI [of _ 0] exI [of _ "[]"]) (auto simp: wire_def cut_fault_def)
next
  case (Cons m ms)
  obtain s1 where s1: "read_line s = Some (fst (next_line (left_over s) (sc_end s)), s1)"
    "\<And>t. fst (next_line (left_over s) (sc_end s)) = Inr t \<Longrightarrow> line_inv s1 \<and> left_over s1 = snd (next_line (left_over s) (sc_end s)) \<and> sc_end s1 = sc_end s"
    using read_line_next [OF Cons.prems(1)] by metis
  have m: "ipc_nl \<notin> set m" "int (length m) \<le> MaxIPCMessageBytes" using Cons.prems(3) by simp_all
  show ?case
  proof (cases "length m < k")
    case True
    then obtain d where d: "k = Suc (length m + d)" using less_imp_Suc_add by blast
    have l: "left_over s = m @ ipc_nl # take d (wire ms)" using Cons.prems(2) d by (simp add: wire_def)
    note nx = next_line_whole [OF m, of "take d (wire ms)" "sc_end s"]
    have "line_inv s1" "left_over s1 = take d (wire ms)" "sc_end s1 = sc_end s" using s1(2) l nx by auto
    from Cons.IH [OF this(1,2)] obtain j p where j: "read_lines (Suc (length ms)) s1
        = Some (take j ms, cut_fault (sc_end s) p)"
      "take d (wire ms) = wire (take j ms) @ p" "ipc_nl \<notin> set p" "length (wire ms) \<le> d \<longrightarrow> p = [] \<and> j = length ms"
      using Cons.prems(3) \<open>sc_end s1 = sc_end s\<close> by (auto simp del: read_lines.simps)
    have r: "read_lines (Suc (length (m # ms))) s = Some (m # take j ms, cut_fault (sc_end s) p)"
      using s1(1) l nx j(1) by simp
    have w: "take k (wire (m # ms)) = wire (m # take j ms) @ p" using d j(2) by (simp add: wire_def)
    have e: "length (wire (m # ms)) \<le> k \<longrightarrow> p = [] \<and> Suc j = length (m # ms)" using d j(4) by (simp add: wire_def)
    show ?thesis by (rule exI [of _ "Suc j"], rule exI [of _ p]) (use r w e j(3) in simp)
  next
    case False
    then have l: "left_over s = take k m" "take k (wire (m # ms)) = take k m" using Cons.prems(2) by (simp_all add: wire_def)
    have t: "ipc_nl \<notin> set (take k m)" "int (length (take k m)) \<le> MaxIPCMessageBytes" using m by (auto dest: in_set_takeD)
    have "read_lines (Suc (length (m # ms))) s = Some ([], cut_fault (sc_end s) (take k m))"
      using s1(1) next_line_part [OF t, of "sc_end s"] l(1) by simp
    moreover have "\<not> length (wire (m # ms)) \<le> k" using False by (simp add: wire_def)
    ultimately show ?thesis using l(2) t(1) by (intro exI [of _ 0] exI [of _ "take k m"]) (simp add: wire_def)
  qed
qed

section \<open>Properties\<close>

text \<open>C26. Messages come whole. What was written, message by message, and then cut anywhere by the end or the failure of the connection,
  is read as exactly the messages that are whole before the cut, in order and unchanged, whatever the sizes of the reads; then comes the end
  of the connection, or an unexpected end where a message was cut. Nothing is lost when nothing is cut, and the reader always returns.\<close>

theorem ipc_lines_whole:
  assumes "write_lines [] ms = Some out" "\<forall>m\<in>set ms. ipc_nl \<notin> set m"
  shows "\<exists>j p. read_lines (Suc (length ms)) (new_line_reader (take k out) fin reads)
       = Some (take j ms, cut_fault fin p)
     \<and> write_lines [] (take j ms) = Some (take (length (take k out) - length p) out) \<and> drop (length (take k out) - length p) (take k out) = p
     \<and> ipc_nl \<notin> set p \<and> (length out \<le> k \<longrightarrow> p = [] \<and> j = length ms)"
proof -
  have o: "out = wire ms" "\<forall>m\<in>set ms. int (length m) \<le> MaxIPCMessageBytes" using assms(1) write_lines_wire [of "[]" ms out] by auto
  obtain j p where j: "read_lines (Suc (length ms)) (new_line_reader (take k out) fin reads)
       = Some (take j ms, cut_fault fin p)"
     "take k out = wire (take j ms) @ p" "ipc_nl \<notin> set p" "length out \<le> k \<longrightarrow> p = [] \<and> j = length ms"
  proof -
    have l: "left_over (new_line_reader (take k out) fin reads) = take k (wire ms)" "sc_end (new_line_reader (take k out) fin reads) = fin"
      using o by (simp_all add: left_over_def new_line_reader_def)
    have "\<forall>m\<in>set ms. ipc_nl \<notin> set m \<and> int (length m) \<le> MaxIPCMessageBytes" using o assms(2) by blast
    from read_lines_cut [OF line_inv_new l(1) this, unfolded l(2)] show thesis using that o by blast
  qed
  have "take (length (take k out) - length p) (take k out) = wire (take j ms)" unfolding j(2) by simp
  then have "take (length (take k out) - length p) out = wire (take j ms)" by (simp add: min_absorb1)
  moreover have "\<forall>m\<in>set (take j ms). int (length m) \<le> MaxIPCMessageBytes" using o(2) by (auto dest: in_set_takeD)
  ultimately have "write_lines [] (take j ms) = Some (take (length (take k out) - length p) out)"
    by (simp add: write_lines_wire)
  moreover have "drop (length (take k out) - length p) (take k out) = p" unfolding j(2) by simp
  ultimately show ?thesis using j(1,3,4) by blast
qed

theorem ipc_lines_whole_witness:
  "\<exists>j p. read_lines 3 (new_line_reader (take 4 (''{}'' @ ipc_nl # ''ab'' @ [ipc_nl])) LineEOF [1, 2])
     = Some (take j [''{}'', ''ab''], cut_fault LineEOF p) \<and> ipc_nl \<notin> set p"
proof -
  have w: "write_lines [] [''{}'', ''ab''] = Some (''{}'' @ ipc_nl # ''ab'' @ [ipc_nl])" by (simp add: write_line_def MaxIPCMessageBytes_def)
  have n: "\<forall>m\<in>set [''{}'', ''ab'']. ipc_nl \<notin> set m" by (simp add: ipc_nl_def)
  have "\<exists>j p. read_lines (Suc (length [''{}'', ''ab''])) (new_line_reader (take 4 (''{}'' @ ipc_nl # ''ab'' @ [ipc_nl])) LineEOF [1, 2])
     = Some (take j [''{}'', ''ab''], cut_fault LineEOF p) \<and> ipc_nl \<notin> set p"
    using ipc_lines_whole [OF w n, of 4 LineEOF "[1, 2]"] by blast
  then show ?thesis by (simp only: list.size numeral_3_eq_3 add_0_right add_Suc_right)
qed

end
