(* ===== verification/Identity.thy ===== *)
theory Identity
  imports Principal
begin

text \<open>
  The profile of a device (\<open>internal/identity\<close>): the device record in its database, with the guarded update that publishes a change,
  the one-time import of the files of older versions, resets and their recovery, the paired devices, the configuration, and the account
  credential that is pinned to its relay. A file is missing, does not decode, or holds a value; what a failing call did is an argument.
\<close>

section \<open>Disk and memory\<close>

record dev_record =
  dv_id :: string
  dv_secret :: string
  dv_grant :: string
  dv_inbound :: bool
  dv_active :: bool
  dv_cleanup :: bool
  dv_revision :: int

definition dev_record0 :: dev_record where
  "dev_record0 = \<lparr>dv_id = [], dv_secret = [], dv_grant = [], dv_inbound = False, dv_active = False, dv_cleanup = False, dv_revision = 0\<rparr>"

record peer =
  pr_id :: string
  pr_grant :: string
  pr_name :: string

record config_rec =
  cf_relay :: string
  cf_workspace :: string
  cf_shell :: string

definition config0 :: config_rec where
  "config0 = \<lparr>cf_relay = [], cf_workspace = [], cf_shell = []\<rparr>"

record account_cred =
  ac_relay :: string
  ac_token :: string

definition account0 :: account_cred where
  "account0 = \<lparr>ac_relay = [], ac_token = []\<rparr>"

datatype 'a stored = Missing | Broken | Stored 'a

text \<open>The database, by its \<open>user_version\<close> and its row; the files of older versions; the other files of the profile.\<close>

record profile_disk =
  pd_version :: int
  pd_row :: "dev_record option"
  pd_old_identity :: "string option"
  pd_old_secret :: "string option"
  pd_old_grant :: "string option"
  pd_config :: "config_rec stored"
  pd_peers :: "peer list stored"
  pd_account :: "account_cred stored"

record profile =
  ps_device :: dev_record
  ps_config :: config_rec
  ps_peers :: "peer list"
  ps_account :: account_cred
  ps_account_err :: bool

datatype id_fault = IdIO | NoIdentityRow | InvalidIdentity | IdentityChanged | IncompleteFiles | UnsupportedFormat | InvalidState
  | InvalidCredential | RelayChanged | BadShell | UnknownPeer | BadPeerName

text \<open>A write that reports an error may have been made all the same.\<close>

datatype stmt_outcome = Done | Failed | FailedButDone

fun made :: "stmt_outcome \<Rightarrow> bool" where
  "made Done = True" | "made Failed = False" | "made FailedButDone = True"

section \<open>The device record: \<open>device_db.go\<close>, \<open>device_import.go\<close>\<close>

definition invalid_record :: "dev_record \<Rightarrow> bool" where
  "invalid_record r \<longleftrightarrow> dv_revision r < 1
     \<or> dv_active r \<and> (\<not> is_numeric_device_id (dv_id r) \<or> dv_secret r = [] \<or> dv_inbound r \<and> dv_grant r = [])
     \<or> \<not> dv_active r \<and> (dv_id r \<noteq> [] \<or> dv_secret r \<noteq> [] \<or> dv_grant r \<noteq> [] \<or> dv_inbound r)"

definition read_device_record :: "profile_disk \<Rightarrow> id_fault + dev_record" where
  "read_device_record d =
    (if pd_version d \<noteq> 1 then Inl NoIdentityRow
     else case pd_row d of None \<Rightarrow> Inl NoIdentityRow | Some r \<Rightarrow> if invalid_record r then Inl InvalidIdentity else Inr r)"

text \<open>\<open>freshDevice\<close>, from the identifier and the secret drawn, if the random source gave them.\<close>

definition fresh_device :: "(string \<times> string) option \<Rightarrow> id_fault + dev_record" where
  "fresh_device drawn =
    (case drawn of
       None \<Rightarrow> Inl IdIO
     | Some (i, s) \<Rightarrow> Inr (dev_record0\<lparr>dv_id := i, dv_secret := s, dv_active := True, dv_revision := 1\<rparr>))"

text \<open>Removing files one after the other, up to the first that cannot be removed.\<close>

definition finish_profile_reset :: "nat \<Rightarrow> profile_disk \<Rightarrow> bool \<times> profile_disk" where
  "finish_profile_reset removed d =
    (removed \<ge> 3,
     d\<lparr>pd_peers := (if removed \<ge> 1 then Missing else pd_peers d), pd_config := (if removed \<ge> 2 then Missing else pd_config d),
       pd_account := (if removed \<ge> 3 then Missing else pd_account d)\<rparr>)"

text \<open>What one start meets: the identity drawn, the decoder of the old identity file, how many files could be removed, and the commit.\<close>

record load_env =
  le_opens :: bool
  le_reads :: bool
  le_drawn :: "(string \<times> string) option"
  le_decode :: "string \<Rightarrow> (string \<times> bool option) option"
  le_reset :: nat
  le_commit :: stmt_outcome
  le_import :: nat
  le_cleared :: stmt_outcome
  le_env_relay :: string
  le_default_relay :: string
  le_default_workspace :: "string option"
  le_mkdir :: bool
  le_workspace :: bool

definition import_device_files :: "load_env \<Rightarrow> profile_disk \<Rightarrow> id_fault + dev_record" where
  "import_device_files e d =
    (if \<not> le_reads e then Inl IdIO
     else if pd_old_identity d = None \<and> pd_old_secret d = None \<and> pd_old_grant d = None then fresh_device (le_drawn e)
     else
       let secret = (case pd_old_secret d of None \<Rightarrow> [] | Some s \<Rightarrow> s); grant = (case pd_old_grant d of None \<Rightarrow> [] | Some g \<Rightarrow> g) in
       case pd_old_identity d of
         None \<Rightarrow> Inl IncompleteFiles
       | Some raw \<Rightarrow>
           (case (if raw = [] then None else le_decode e raw) of
              None \<Rightarrow> Inl IncompleteFiles
            | Some (i, inbound) \<Rightarrow>
                if i = [] \<or> secret = [] then Inl IncompleteFiles
                else
                  let r = \<lparr>dv_id = i, dv_secret = secret, dv_grant = grant, dv_inbound = grant \<noteq> [] \<and> (inbound = None \<or> inbound = Some True),
                           dv_active = True, dv_cleanup = True, dv_revision = 1\<rparr> in
                  if is_numeric_device_id i then Inr r
                  else (case le_drawn e of None \<Rightarrow> Inl IdIO | Some (i1, _) \<Rightarrow> Inr (r\<lparr>dv_id := i1\<rparr>))))"

definition finish_device_import :: "load_env \<Rightarrow> profile_disk \<Rightarrow> bool \<times> profile_disk" where
  "finish_device_import e d =
    (let d1 = d\<lparr>pd_old_identity := (if le_import e \<ge> 1 then None else pd_old_identity d),
                pd_old_secret := (if le_import e \<ge> 2 then None else pd_old_secret d),
                pd_old_grant := (if le_import e \<ge> 3 then None else pd_old_grant d)\<rparr> in
     if le_import e < 3 then (False, d1)
     else (le_cleared e = Done,
           if made (le_cleared e) then d1\<lparr>pd_row := map_option (\<lambda>r. r\<lparr>dv_cleanup := False\<rparr>) (pd_row d1)\<rparr> else d1))"

definition load_live :: "bool \<Rightarrow> profile_disk \<Rightarrow> id_fault + dev_record" where
  "load_live opens d =
    (if \<not> opens then Inl IdIO
     else case read_device_record d of Inl f \<Rightarrow> Inl f | Inr r \<Rightarrow> if \<not> dv_active r then Inl IdentityChanged else Inr r)"

text \<open>The transaction of a start: the record and the row it would commit, with what happened to the other files on the way.\<close>

definition load_choice :: "load_env \<Rightarrow> profile_disk \<Rightarrow> (id_fault + dev_record) \<times> profile_disk" where
  "load_choice e d =
    (if pd_version d = 0 then (import_device_files e d, d)
     else if pd_version d = 1 then
       (case read_device_record d of
          Inl f \<Rightarrow> (Inl f, d)
        | Inr r \<Rightarrow>
            if dv_active r then (Inr r, d)
            else (case finish_profile_reset (le_reset e) d of
                    (False, d1) \<Rightarrow> (Inl IdIO, d1)
                  | (True, d1) \<Rightarrow>
                     (case fresh_device (le_drawn e) of
                        Inl f \<Rightarrow> (Inl f, d1)
                      | Inr n \<Rightarrow> (Inr (n\<lparr>dv_revision := dv_revision r + 1\<rparr>), d1))))
     else (Inl UnsupportedFormat, d))"

text \<open>What the commit writes: the inserted row, or the updated one, which keeps its cleanup mark.\<close>

definition commit_record :: "profile_disk \<Rightarrow> dev_record \<Rightarrow> profile_disk" where
  "commit_record d r =
    (case pd_row d of
       Some old \<Rightarrow> if pd_version d = 1 then (if dv_active old then d else d\<lparr>pd_row := Some (r\<lparr>dv_cleanup := dv_cleanup old\<rparr>)\<rparr>)
                   else d\<lparr>pd_version := 1, pd_row := Some r\<rparr>
     | None \<Rightarrow> d\<lparr>pd_version := 1, pd_row := Some r\<rparr>)"

definition load_dev_record :: "load_env \<Rightarrow> profile_disk \<Rightarrow> (id_fault + dev_record) \<times> profile_disk" where
  "load_dev_record e d =
    (if \<not> le_opens e then (Inl IdIO, d)
     else case load_choice e d of
       (Inl f, d1) \<Rightarrow> (Inl f, d1)
     | (Inr r, d1) \<Rightarrow>
         let d2 = (if made (le_commit e) then commit_record d1 r else d1) in
         if le_commit e \<noteq> Done then (Inl IdIO, d2)
         else if dv_cleanup r then
           (case finish_device_import e d2 of (False, d3) \<Rightarrow> (Inl IdIO, d3) | (True, d3) \<Rightarrow> (Inr (r\<lparr>dv_cleanup := False\<rparr>), d3))
         else (Inr r, d2))"

text \<open>The guarded statement: identity, secret, revision and activity must be those the change was made from.\<close>

definition replace_record :: "bool \<Rightarrow> stmt_outcome \<Rightarrow> dev_record \<Rightarrow> dev_record \<Rightarrow> profile_disk \<Rightarrow> (id_fault + dev_record) \<times> profile_disk" where
  "replace_record opens wr before nxt d =
    (if \<not> opens \<or> pd_version d = 0 then (Inl IdIO, d)
     else case pd_row d of
       None \<Rightarrow> (if wr = Done then Inl IdentityChanged else Inl IdIO, d)
     | Some r \<Rightarrow>
        if \<not> (pd_version d = 1 \<and> dv_id r = dv_id before \<and> dv_secret r = dv_secret before \<and> dv_revision r = dv_revision before \<and> dv_active r)
        then (if wr = Done then Inl IdentityChanged else Inl IdIO, d)
        else if dv_inbound nxt \<and> dv_grant nxt = [] then (Inl IdIO, d)
        else
          let d1 = d\<lparr>pd_row := Some (r\<lparr>dv_id := dv_id nxt, dv_secret := dv_secret nxt, dv_grant := dv_grant nxt,
                       dv_inbound := dv_inbound nxt, dv_active := dv_active nxt, dv_revision := dv_revision r + 1\<rparr>)\<rparr>
          in (if wr = Done then Inr (nxt\<lparr>dv_revision := dv_revision before + 1\<rparr>) else Inl IdIO, if made wr then d1 else d))"

definition publish_record :: "bool \<Rightarrow> stmt_outcome \<Rightarrow> dev_record \<Rightarrow> profile \<Rightarrow> profile_disk \<Rightarrow> id_fault option \<times> profile \<times> profile_disk" where
  "publish_record opens wr nxt s d =
    (case replace_record opens wr (ps_device s) nxt d of
       (Inl f, d1) \<Rightarrow> (Some f, s, d1)
     | (Inr r, d1) \<Rightarrow> (None, s\<lparr>ps_device := r\<rparr>, d1))"

definition refresh_device :: "bool \<Rightarrow> profile \<Rightarrow> profile_disk \<Rightarrow> id_fault option \<times> profile" where
  "refresh_device opens s d =
    (case load_live opens d of
       Inl f \<Rightarrow> (Some f, s)
     | Inr r \<Rightarrow>
         if dv_id r \<noteq> dv_id (ps_device s) \<or> dv_secret r \<noteq> dv_secret (ps_device s) then (Some IdentityChanged, s)
         else (None, s\<lparr>ps_device := r\<rparr>))"

section \<open>Grants and resets: \<open>store.go\<close>, \<open>ops.go\<close>\<close>

definition issue_grant :: "string option \<Rightarrow> bool \<Rightarrow> stmt_outcome \<Rightarrow> profile \<Rightarrow> profile_disk \<Rightarrow> (id_fault + string) \<times> profile \<times> profile_disk" where
  "issue_grant drawn opens wr s d =
    (case drawn of
       None \<Rightarrow> (Inl IdIO, s, d)
     | Some g \<Rightarrow>
        (case publish_record opens wr ((ps_device s)\<lparr>dv_grant := g, dv_inbound := True\<rparr>) s d of
           (Some f, r) \<Rightarrow> (Inl f, r)
         | (None, r) \<Rightarrow> (Inr g, r)))"

definition set_inbound :: "bool \<Rightarrow> string option \<Rightarrow> bool \<Rightarrow> stmt_outcome \<Rightarrow> profile \<Rightarrow> profile_disk \<Rightarrow> (id_fault + string) \<times> profile \<times> profile_disk" where
  "set_inbound on drawn opens wr s d =
    (case (if on \<and> dv_grant (ps_device s) = [] then drawn else Some (dv_grant (ps_device s))) of
       None \<Rightarrow> (Inl IdIO, s, d)
     | Some g \<Rightarrow>
        (case publish_record opens wr ((ps_device s)\<lparr>dv_grant := g, dv_inbound := on\<rparr>) s d of
           (Some f, r) \<Rightarrow> (Inl f, r)
         | (None, r) \<Rightarrow> (Inr g, r)))"

definition clear_grant :: "bool \<Rightarrow> stmt_outcome \<Rightarrow> profile \<Rightarrow> profile_disk \<Rightarrow> id_fault option \<times> profile \<times> profile_disk" where
  "clear_grant opens wr s d = publish_record opens wr ((ps_device s)\<lparr>dv_grant := [], dv_inbound := False\<rparr>) s d"

definition wipe :: "bool \<Rightarrow> stmt_outcome \<Rightarrow> nat \<Rightarrow> profile \<Rightarrow> profile_disk \<Rightarrow> id_fault option \<times> profile \<times> profile_disk" where
  "wipe opens wr removed s d =
    (case publish_record opens wr dev_record0 s d of
       (Some f, r) \<Rightarrow> (Some f, r)
     | (None, s1, d1) \<Rightarrow>
        (case finish_profile_reset removed d1 of
           (False, d2) \<Rightarrow> (Some IdIO, s1, d2)
         | (True, d2) \<Rightarrow> (None, s1\<lparr>ps_peers := [], ps_config := config0, ps_account := account0, ps_account_err := False\<rparr>, d2)))"

section \<open>Paired devices: \<open>store.go\<close>, \<open>ops.go\<close>, \<open>peer_name.go\<close>\<close>

definition persist_peers :: "bool \<Rightarrow> profile \<Rightarrow> profile_disk \<Rightarrow> id_fault option \<times> profile \<times> profile_disk" where
  "persist_peers ok s d = (if ok then (None, s, d\<lparr>pd_peers := Stored (ps_peers s)\<rparr>) else (Some IdIO, s, d))"

fun update_first :: "('a \<Rightarrow> bool) \<Rightarrow> ('a \<Rightarrow> 'a) \<Rightarrow> 'a list \<Rightarrow> 'a list" where
  "update_first p f [] = []"
| "update_first p f (x # xs) = (if p x then f x # xs else x # update_first p f xs)"

definition add_peer :: "string \<Rightarrow> string \<Rightarrow> bool \<Rightarrow> profile \<Rightarrow> profile_disk \<Rightarrow> id_fault option \<times> profile \<times> profile_disk" where
  "add_peer i g ok s d =
    (if \<exists>p\<in>set (ps_peers s). pr_id p = i
     then persist_peers ok (s\<lparr>ps_peers := update_first (\<lambda>p. pr_id p = i) (\<lambda>p. p\<lparr>pr_grant := g\<rparr>) (ps_peers s)\<rparr>) d
     else persist_peers ok (s\<lparr>ps_peers := ps_peers s @ [\<lparr>pr_id = i, pr_grant = g, pr_name = []\<rparr>]\<rparr>) d)"

definition find_peer :: "string \<Rightarrow> profile \<Rightarrow> peer option" where
  "find_peer i s =
    (if i = [] \<and> length (ps_peers s) = 1 then Some (hd (ps_peers s)) else List.find (\<lambda>p. pr_id p = i) (ps_peers s))"

definition remove_peer :: "string \<Rightarrow> bool \<Rightarrow> profile \<Rightarrow> profile_disk \<Rightarrow> id_fault option \<times> profile \<times> profile_disk" where
  "remove_peer i ok s d = persist_peers ok (s\<lparr>ps_peers := filter (\<lambda>p. pr_id p \<noteq> i) (ps_peers s)\<rparr>) d"

text \<open>A name that was trimmed and found to be valid.\<close>

definition rename_peer :: "string \<Rightarrow> string \<Rightarrow> bool \<Rightarrow> profile \<Rightarrow> profile_disk \<Rightarrow> id_fault option \<times> profile \<times> profile_disk" where
  "rename_peer i name ok s d =
    (if \<exists>p\<in>set (ps_peers s). pr_id p = i
     then (case persist_peers ok (s\<lparr>ps_peers := update_first (\<lambda>p. pr_id p = i) (\<lambda>p. p\<lparr>pr_name := name\<rparr>) (ps_peers s)\<rparr>) d of
             (None, r) \<Rightarrow> (None, r)
           | (Some f, _, d1) \<Rightarrow> (Some f, s, d1))
     else (Some UnknownPeer, s, d))"

section \<open>Account and configuration: \<open>account.go\<close>, \<open>config.go\<close>\<close>

definition load_account :: "profile \<Rightarrow> profile_disk \<Rightarrow> profile" where
  "load_account s d =
    (case pd_account d of
       Missing \<Rightarrow> s\<lparr>ps_account_err := False\<rparr>
     | Broken \<Rightarrow> s\<lparr>ps_account_err := True\<rparr>
     | Stored a \<Rightarrow>
        if (ac_token a = []) \<noteq> (ac_relay a = []) \<or> ac_token a \<noteq> [] \<and> \<not> valid_token (ac_token a) then s\<lparr>ps_account_err := True\<rparr>
        else s\<lparr>ps_account := a, ps_account_err := False\<rparr>)"

definition credentials :: "profile \<Rightarrow> id_fault + string \<times> string" where
  "credentials s =
    (if ps_account_err s then Inl InvalidCredential
     else if ac_token (ps_account s) \<noteq> [] \<and> ac_relay (ps_account s) \<noteq> cf_relay (ps_config s) then Inl RelayChanged
     else Inr (cf_relay (ps_config s), ac_token (ps_account s)))"

definition set_account :: "string \<Rightarrow> bool \<Rightarrow> profile \<Rightarrow> profile_disk \<Rightarrow> id_fault option \<times> profile \<times> profile_disk" where
  "set_account token ok s d =
    (if token \<noteq> [] \<and> \<not> valid_token token then (Some InvalidCredential, s, d)
     else
       let nxt = (if token \<noteq> [] then \<lparr>ac_relay = cf_relay (ps_config s), ac_token = token\<rparr> else account0) in
       if ok then (None, s\<lparr>ps_account := nxt, ps_account_err := False\<rparr>, d\<lparr>pd_account := Stored nxt\<rparr>) else (Some IdIO, s, d))"

definition account_configured :: "profile \<Rightarrow> bool" where
  "account_configured s \<longleftrightarrow> ac_token (ps_account s) \<noteq> [] \<or> ps_account_err s"

definition set_config :: "(string \<Rightarrow> bool) \<Rightarrow> string \<Rightarrow> string \<Rightarrow> string \<Rightarrow> bool \<Rightarrow> bool \<Rightarrow> profile \<Rightarrow> profile_disk \<Rightarrow> id_fault option \<times> profile \<times> profile_disk" where
  "set_config shell_ok relay workspace shell mkdir ok s d =
    (if \<not> shell_ok shell then (Some BadShell, s, d)
     else if workspace \<noteq> [] \<and> \<not> mkdir then (Some IdIO, s, d)
     else
       let c = ps_config s;
           nxt = \<lparr>cf_relay = (if relay \<noteq> [] then relay else cf_relay c), cf_workspace = (if workspace \<noteq> [] then workspace else cf_workspace c),
                  cf_shell = (if shell \<noteq> [] then shell else cf_shell c)\<rparr> in
       if ok then (None, s\<lparr>ps_config := nxt\<rparr>, d\<lparr>pd_config := Stored nxt\<rparr>) else (Some IdIO, s, d))"

section \<open>Starting: \<open>store.go\<close>\<close>

definition load_from :: "load_env \<Rightarrow> profile_disk \<Rightarrow> (id_fault + profile) \<times> profile_disk" where
  "load_from e d =
    (if \<not> le_mkdir e \<or> pd_config d = Broken \<or> pd_peers d = Broken then (Inl InvalidState, d)
     else
       let config = (case pd_config d of Stored c \<Rightarrow> c | _ \<Rightarrow> config0);
           peers = (case pd_peers d of Stored ps \<Rightarrow> ps | _ \<Rightarrow> []) in
       case load_dev_record e d of
         (Inl f, d1) \<Rightarrow> (Inl f, d1)
       | (Inr r, d1) \<Rightarrow>
           let relay = (if le_env_relay e \<noteq> [] then le_env_relay e else if cf_relay config = [] then le_default_relay e else cf_relay config) in
           case (if cf_workspace config = [] then le_default_workspace e else Some (cf_workspace config)) of
             None \<Rightarrow> (Inl IdIO, d1)
           | Some ws \<Rightarrow>
               if \<not> le_workspace e then (Inl IdIO, d1)
               else (Inr (load_account \<lparr>ps_device = r, ps_config = config\<lparr>cf_relay := relay, cf_workspace := ws\<rparr>, ps_peers = peers,
                       ps_account = account0, ps_account_err = False\<rparr> d1), d1))"

end
