(* ===== verification/IdentityProps.thy ===== *)
theory IdentityProps
  imports Identity
begin

text \<open>
  What a profile keeps, however many processes use it, in whatever order, and whatever fails: a change replaces exactly the record it was
  made from, an identity that was reset never comes back, and an account credential is only ever used with the relay it was installed for.
\<close>

section \<open>Processes on one profile\<close>

text \<open>The disk and the stores of the processes, with two records of the past: the secrets of identities that were reset, and the pairs of
  a relay and a credential that was installed for it.\<close>

record profiles =
  pf_disk :: profile_disk
  pf_stores :: "nat \<Rightarrow> profile option"
  pf_gone :: "string set"
  pf_pins :: "(string \<times> string) set"

definition gone_by :: "profile_disk \<Rightarrow> profile_disk \<Rightarrow> string set" where
  "gone_by d d1 = (case (pd_row d, pd_row d1) of
      (Some r, Some r1) \<Rightarrow> if dv_active r \<and> \<not> dv_active r1 then {dv_secret r} else {}
    | _ \<Rightarrow> {})"

datatype device_change = IssueGrant "string option" | SetInbound bool "string option" | ClearGrant | Wipe nat

fun change_device :: "device_change \<Rightarrow> bool \<Rightarrow> stmt_outcome \<Rightarrow> profile \<Rightarrow> profile_disk \<Rightarrow> id_fault option \<times> profile \<times> profile_disk" where
  "change_device (IssueGrant g) opens wr s d = (case issue_grant g opens wr s d of (r, x) \<Rightarrow> (case r of Inl f \<Rightarrow> Some f | Inr _ \<Rightarrow> None, x))"
| "change_device (SetInbound on g) opens wr s d = (case set_inbound on g opens wr s d of (r, x) \<Rightarrow> (case r of Inl f \<Rightarrow> Some f | Inr _ \<Rightarrow> None, x))"
| "change_device ClearGrant opens wr s d = clear_grant opens wr s d"
| "change_device (Wipe n) opens wr s d = wipe opens wr n s d"

datatype local_change = AddPeer string string bool | RemovePeer string bool | RenamePeer string string bool
  | SetConfig "string \<Rightarrow> bool" string string string bool bool

fun change_local :: "local_change \<Rightarrow> profile \<Rightarrow> profile_disk \<Rightarrow> id_fault option \<times> profile \<times> profile_disk" where
  "change_local (AddPeer i g ok) s d = add_peer i g ok s d"
| "change_local (RemovePeer i ok) s d = remove_peer i ok s d"
| "change_local (RenamePeer i n ok) s d = rename_peer i n ok s d"
| "change_local (SetConfig v relay ws sh mk ok) s d = set_config v relay ws sh mk ok s d"

inductive profile_step :: "profiles \<Rightarrow> profiles \<Rightarrow> bool" where
  step_load: "load_from e d = (res, d1) \<Longrightarrow> (\<And>i s. le_drawn e = Some (i, s) \<Longrightarrow> s \<notin> gone \<and> s \<noteq> []) \<Longrightarrow>
    profile_step \<lparr>pf_disk = d, pf_stores = st, pf_gone = gone, pf_pins = pins\<rparr>
      \<lparr>pf_disk = d1, pf_stores = st(k := (case res of Inl _ \<Rightarrow> None | Inr s \<Rightarrow> Some s)), pf_gone = gone, pf_pins = pins\<rparr>"
| step_change: "st k = Some s \<Longrightarrow> change_device c opens wr s d = (f, s1, d1) \<Longrightarrow>
    profile_step \<lparr>pf_disk = d, pf_stores = st, pf_gone = gone, pf_pins = pins\<rparr>
      \<lparr>pf_disk = d1, pf_stores = st(k \<mapsto> s1), pf_gone = gone \<union> gone_by d d1, pf_pins = pins\<rparr>"
| step_refresh: "st k = Some s \<Longrightarrow> refresh_device opens s d = (f, s1) \<Longrightarrow>
    profile_step \<lparr>pf_disk = d, pf_stores = st, pf_gone = gone, pf_pins = pins\<rparr>
      \<lparr>pf_disk = d, pf_stores = st(k \<mapsto> s1), pf_gone = gone, pf_pins = pins\<rparr>"
| step_local: "st k = Some s \<Longrightarrow> change_local c s d = (f, s1, d1) \<Longrightarrow>
    profile_step \<lparr>pf_disk = d, pf_stores = st, pf_gone = gone, pf_pins = pins\<rparr>
      \<lparr>pf_disk = d1, pf_stores = st(k \<mapsto> s1), pf_gone = gone, pf_pins = pins\<rparr>"
| step_account: "st k = Some s \<Longrightarrow> set_account token ok s d = (f, s1, d1) \<Longrightarrow>
    profile_step \<lparr>pf_disk = d, pf_stores = st, pf_gone = gone, pf_pins = pins\<rparr>
      \<lparr>pf_disk = d1, pf_stores = st(k \<mapsto> s1), pf_gone = gone,
       pf_pins = (if f = None \<and> token \<noteq> [] then insert (cf_relay (ps_config s), token) pins else pins)\<rparr>"
| step_exit: "profile_step \<lparr>pf_disk = d, pf_stores = st, pf_gone = gone, pf_pins = pins\<rparr>
      \<lparr>pf_disk = d, pf_stores = st(k := None), pf_gone = gone, pf_pins = pins\<rparr>"

text \<open>A profile begins as a directory of an older version, or an empty one, without an account.\<close>

inductive profile_reachable :: "profiles \<Rightarrow> bool" where
  profile_new: "pd_version d = 0 \<Longrightarrow> pd_row d = None \<Longrightarrow> pd_account d = Missing \<Longrightarrow>
    profile_reachable \<lparr>pf_disk = d, pf_stores = (\<lambda>_. None), pf_gone = {}, pf_pins = {}\<rparr>"
| profile_next: "profile_reachable p \<Longrightarrow> profile_step p q \<Longrightarrow> profile_reachable q"

section \<open>The record\<close>

definition same_but_cleanup :: "dev_record \<Rightarrow> dev_record \<Rightarrow> bool" where
  "same_but_cleanup r t \<longleftrightarrow> r\<lparr>dv_cleanup := False\<rparr> = t\<lparr>dv_cleanup := False\<rparr>"

lemma same_but_cleanup_fields: "same_but_cleanup r t \<longleftrightarrow> dv_id r = dv_id t \<and> dv_secret r = dv_secret t \<and> dv_grant r = dv_grant t
    \<and> dv_inbound r = dv_inbound t \<and> dv_active r = dv_active t \<and> dv_revision r = dv_revision t"
  by (cases r; cases t) (simp add: same_but_cleanup_def)

lemma same_but_cleanup_refl [simp]: "same_but_cleanup r r"
  by (simp add: same_but_cleanup_def)

text \<open>A cached record is an older one, or the current one.\<close>

definition cached :: "dev_record option \<Rightarrow> dev_record \<Rightarrow> bool" where
  "cached row c \<longleftrightarrow> (case row of None \<Rightarrow> False | Some r \<Rightarrow> dv_revision c \<le> dv_revision r \<and> (dv_revision c = dv_revision r \<longrightarrow> same_but_cleanup c r))"

text \<open>How the row may change: not at all but for the cleanup mark, or to the next revision.\<close>

definition row_moves :: "dev_record option \<Rightarrow> dev_record option \<Rightarrow> bool" where
  "row_moves a b \<longleftrightarrow> (case a of
      None \<Rightarrow> True
    | Some r \<Rightarrow> (\<exists>t. b = Some t \<and> (same_but_cleanup r t \<or> dv_revision t = dv_revision r + 1)))"

lemma row_moves_refl [simp]: "row_moves a a"
  by (cases a) (auto simp: row_moves_def)

lemma cached_moves: "cached a c \<Longrightarrow> row_moves a b \<Longrightarrow> cached b c"
  by (auto simp: cached_def row_moves_def same_but_cleanup_fields split: option.splits)

section \<open>Publishing\<close>

lemma publish_cases:
  assumes "publish_record opens wr nxt s d = (f, s1, d1)"
  obtains "d1 = d" "s1 = s" "f \<noteq> None"
  | r where "pd_row d = Some r" "pd_version d = 1" "dv_active r" "dv_id r = dv_id (ps_device s)" "dv_secret r = dv_secret (ps_device s)"
      "dv_revision r = dv_revision (ps_device s)" "dv_inbound nxt \<longrightarrow> dv_grant nxt \<noteq> []"
      "d1 = d\<lparr>pd_row := Some (nxt\<lparr>dv_cleanup := dv_cleanup r, dv_revision := dv_revision r + 1\<rparr>)\<rparr>"
      "f \<noteq> None \<and> s1 = s \<or> f = None \<and> s1 = s\<lparr>ps_device := nxt\<lparr>dv_revision := dv_revision (ps_device s) + 1\<rparr>\<rparr>"
proof (cases "pd_row d")
  case None
  then show ?thesis using assms that(1) by (auto simp: publish_record_def replace_record_def split: if_splits)
next
  case (Some r)
  define ok where "ok \<longleftrightarrow> opens \<and> pd_version d = 1 \<and> dv_id r = dv_id (ps_device s) \<and> dv_secret r = dv_secret (ps_device s)
    \<and> dv_revision r = dv_revision (ps_device s) \<and> dv_active r \<and> (dv_inbound nxt \<longrightarrow> dv_grant nxt \<noteq> []) \<and> made wr"
  show ?thesis
  proof (cases ok)
    case True
    have "d1 = d\<lparr>pd_row := Some (nxt\<lparr>dv_cleanup := dv_cleanup r, dv_revision := dv_revision r + 1\<rparr>)\<rparr>"
      "f \<noteq> None \<and> s1 = s \<or> f = None \<and> s1 = s\<lparr>ps_device := nxt\<lparr>dv_revision := dv_revision (ps_device s) + 1\<rparr>\<rparr>"
      using assms Some True
      by (cases wr; cases r; cases nxt; auto simp: ok_def publish_record_def replace_record_def Let_def)+
    then show ?thesis using Some True by (intro that(2) [of r]) (auto simp: ok_def)
  next
    case False
    have "d1 = d \<and> s1 = s \<and> f \<noteq> None"
      using assms Some False by (cases wr) (auto simp: ok_def publish_record_def replace_record_def Let_def split: if_splits)
    then show ?thesis using that(1) by blast
  qed
qed

lemma wipe_parts: "wipe opens wr n s d = (f, s1, d1) \<Longrightarrow> \<exists>f0 s0 d0. publish_record opens wr dev_record0 s d = (f0, s0, d0)
    \<and> pd_row d1 = pd_row d0 \<and> pd_version d1 = pd_version d0 \<and> ps_device s1 = ps_device s0 \<and> (f0 \<noteq> None \<longrightarrow> f = f0 \<and> s1 = s0 \<and> d1 = d0)
    \<and> (ps_account s1 = ps_account s \<or> ps_account s1 = account0) \<and> (pd_account d1 = pd_account d \<or> pd_account d1 = Missing)"
  by (auto simp: wipe_def finish_profile_reset_def publish_record_def replace_record_def Let_def split: prod.splits option.splits bool.splits sum.splits if_splits)

text \<open>Every change of the device publishes one next record, which keeps the identity or is the cleared one.\<close>

lemma change_publishes:
  assumes "change_device c opens wr s d = (f, s1, d1)"
  obtains "d1 = d" "s1 = s" "f \<noteq> None"
  | nxt f0 s0 d0 where "publish_record opens wr nxt s d = (f0, s0, d0)" "pd_row d1 = pd_row d0" "pd_version d1 = pd_version d0"
      "ps_device s1 = ps_device s0" "ps_account s1 = ps_account s \<or> ps_account s1 = account0" "pd_account d1 = pd_account d \<or> pd_account d1 = Missing"
      "nxt = dev_record0 \<or> dv_id nxt = dv_id (ps_device s) \<and> dv_secret nxt = dv_secret (ps_device s) \<and> dv_active nxt = dv_active (ps_device s)"
      "f0 \<noteq> None \<longrightarrow> f \<noteq> None \<and> s1 = s \<and> d1 = d0"
proof -
  have keep: "ps_account s0 = ps_account s \<and> pd_account d0 = pd_account d \<and> (f0 \<noteq> None \<longrightarrow> s0 = s)"
    if "publish_record opens wr nxt s d = (f0, s0, d0)" for nxt f0 s0 d0
    by (rule publish_cases [OF that]) auto
  show thesis
  proof (cases c)
    case (IssueGrant g)
    show ?thesis
    proof (cases g)
      case None
      then show ?thesis using assms IssueGrant that(1) by (auto simp: issue_grant_def)
    next
      case (Some x)
      obtain f0 s0 d0 where p: "publish_record opens wr ((ps_device s)\<lparr>dv_grant := x, dv_inbound := True\<rparr>) s d = (f0, s0, d0)"
        by (metis prod_cases3)
      then have "s1 = s0" "d1 = d0" "f = f0" using assms IssueGrant Some by (auto simp: issue_grant_def split: option.splits)
      then show ?thesis using keep [OF p] by (intro that(2) [OF p]) auto
    qed
  next
    case (SetInbound on g)
    show ?thesis
    proof (cases "if on \<and> dv_grant (ps_device s) = [] then g else Some (dv_grant (ps_device s))")
      case None
      then show ?thesis using assms SetInbound that(1) by (auto simp: set_inbound_def)
    next
      case (Some x)
      obtain f0 s0 d0 where p: "publish_record opens wr ((ps_device s)\<lparr>dv_grant := x, dv_inbound := on\<rparr>) s d = (f0, s0, d0)"
        by (metis prod_cases3)
      have "set_inbound on g opens wr s d = (case f0 of Some f \<Rightarrow> (Inl f, s0, d0) | None \<Rightarrow> (Inr x, s0, d0))"
        unfolding set_inbound_def Some using p by (simp split: option.splits)
      then have "s1 = s0" "d1 = d0" "f = f0" using assms SetInbound by (auto split: option.splits)
      then show ?thesis using keep [OF p] by (intro that(2) [OF p]) auto
    qed
  next
    case ClearGrant
    then show ?thesis using assms keep by (intro that(2) [of "(ps_device s)\<lparr>dv_grant := [], dv_inbound := False\<rparr>" f s1 d1]) (auto simp: clear_grant_def)
  next
    case (Wipe n)
    then obtain f0 s0 d0 where w: "publish_record opens wr dev_record0 s d = (f0, s0, d0)"
      "pd_row d1 = pd_row d0 \<and> pd_version d1 = pd_version d0 \<and> ps_device s1 = ps_device s0 \<and> (f0 \<noteq> None \<longrightarrow> f = f0 \<and> s1 = s0 \<and> d1 = d0)
    \<and> (ps_account s1 = ps_account s \<or> ps_account s1 = account0) \<and> (pd_account d1 = pd_account d \<or> pd_account d1 = Missing)"
      using assms wipe_parts [of opens wr n s d f s1 d1] by auto
    then show ?thesis using keep [OF w(1)] by (intro that(2) [OF w(1)]) auto
  qed
qed

section \<open>Starting\<close>

definition row_there :: "profile_disk \<Rightarrow> bool" where
  "row_there d \<longleftrightarrow> (case pd_row d of None \<Rightarrow> pd_version d = 0 | Some _ \<Rightarrow> pd_version d = 1)"

lemma row_there_eq: "row_there d \<Longrightarrow> pd_row d1 = pd_row d \<Longrightarrow> pd_version d1 = pd_version d \<Longrightarrow> row_there d1"
  by (cases "pd_row d") (simp_all add: row_there_def)

lemma choice_result:
  assumes "load_choice e d = (res, d1)" "row_there d"
  shows "pd_row d1 = pd_row d" "pd_version d1 = pd_version d" "pd_account d1 = pd_account d \<or> pd_account d1 = Missing"
    "res = Inr r \<Longrightarrow> dv_active r \<and> (case pd_row d of None \<Rightarrow> True
       | Some old \<Rightarrow> if dv_active old then r = old
           else dv_revision r = dv_revision old + 1 \<and> \<not> dv_cleanup r \<and> (\<exists>i. le_drawn e = Some (i, dv_secret r)))"
proof -
  show "pd_row d1 = pd_row d" "pd_version d1 = pd_version d" "pd_account d1 = pd_account d \<or> pd_account d1 = Missing"
    using assms(1) by (auto simp: load_choice_def finish_profile_reset_def split: sum.splits if_splits bool.splits)
  show "dv_active r \<and> (case pd_row d of None \<Rightarrow> True
       | Some old \<Rightarrow> if dv_active old then r = old
           else dv_revision r = dv_revision old + 1 \<and> \<not> dv_cleanup r \<and> (\<exists>i. le_drawn e = Some (i, dv_secret r)))" if "res = Inr r"
  proof (cases "pd_row d")
    case None
    then have "import_device_files e d = Inr r" using assms that by (auto simp: load_choice_def row_there_def)
    then show ?thesis using None
      by (auto simp: import_device_files_def fresh_device_def dev_record0_def Let_def split: if_splits option.splits)
  next
    case (Some old)
    then have v: "pd_version d = 1" using assms(2) by (simp add: row_there_def)
    show ?thesis using assms(1) that Some v
      by (auto simp: load_choice_def read_device_record_def finish_profile_reset_def fresh_device_def dev_record0_def
          split: if_splits bool.splits option.splits sum.splits)
  qed
qed

lemma import_secret:
  "import_device_files e d = Inr r \<Longrightarrow> dv_revision r = 1"
  by (auto simp: import_device_files_def fresh_device_def dev_record0_def Let_def split: if_splits option.splits)

definition starts_to :: "load_env \<Rightarrow> profile_disk \<Rightarrow> profile_disk \<Rightarrow> bool" where
  "starts_to e d d1 \<longleftrightarrow> row_there d1 \<and> row_moves (pd_row d) (pd_row d1) \<and> (pd_account d1 = pd_account d \<or> pd_account d1 = Missing)
     \<and> (\<forall>old. pd_row d = Some old \<longrightarrow> (\<exists>r1. pd_row d1 = Some r1 \<and> (dv_active r1 \<longrightarrow>
          dv_active old \<and> dv_secret r1 = dv_secret old \<or> (\<exists>i. le_drawn e = Some (i, dv_secret r1)))))"

lemma commit_starts:
  assumes "load_choice e d = (Inr r, d1)" "row_there d"
  shows "starts_to e d (commit_record d1 r)" "\<exists>r1. pd_row (commit_record d1 r) = Some r1 \<and> same_but_cleanup r r1"
  using choice_result [OF assms] assms(2) unfolding starts_to_def commit_record_def row_moves_def row_there_def
  by (auto split: option.splits if_splits simp: same_but_cleanup_fields)

lemma finish_import_parts: "finish_device_import e d = (b, d1) \<Longrightarrow> pd_account d1 = pd_account d \<and> pd_version d1 = pd_version d
    \<and> (pd_row d1 = pd_row d \<or> pd_row d1 = map_option (\<lambda>r. r\<lparr>dv_cleanup := False\<rparr>) (pd_row d))"
  by (auto simp: finish_device_import_def Let_def split: if_splits)

lemma starts_then_cleared:
  "starts_to e d d1 \<Longrightarrow> finish_device_import e1 d1 = (b, d2) \<Longrightarrow> starts_to e d d2"
  using finish_import_parts [of e1 d1 b d2]
  by (auto simp: starts_to_def row_moves_def row_there_def same_but_cleanup_fields split: option.splits)

lemma load_device_result:
  assumes "load_dev_record e d = (res, d1)" "row_there d"
  shows "starts_to e d d1" "res = Inr r \<Longrightarrow> \<exists>r1. pd_row d1 = Some r1 \<and> same_but_cleanup r r1"
proof -
  have refl: "starts_to e d d" using assms(2) by (auto simp: starts_to_def)
  have "starts_to e d d1 \<and> (\<forall>r. res = Inr r \<longrightarrow> (\<exists>r1. pd_row d1 = Some r1 \<and> same_but_cleanup r r1))"
  proof (cases "le_opens e")
    case False
    then show ?thesis using assms(1) refl by (auto simp: load_dev_record_def)
  next
    case True
    obtain c d0 where c: "load_choice e d = (c, d0)" by fastforce
    note ch = choice_result [OF c assms(2)]
    have s0: "starts_to e d d0" using ch(1-3) assms(2) by (cases "pd_row d") (auto simp: starts_to_def row_there_def)
    show ?thesis
    proof (cases c)
      case (Inl f)
      then show ?thesis using assms(1) c True s0 by (auto simp: load_dev_record_def)
    next
      case (Inr r)
      define d2 where "d2 = (if made (le_commit e) then commit_record d0 r else d0)"
      have s2: "starts_to e d d2" using s0 commit_starts(1) [OF c [unfolded Inr] assms(2)] by (simp add: d2_def)
      obtain b d3 where b: "finish_device_import e d2 = (b, d3)" by fastforce
      have s3: "starts_to e d d3" by (rule starts_then_cleared [OF s2 b])
      have "\<exists>r1. pd_row d2 = Some r1 \<and> same_but_cleanup r r1" if "le_commit e = Done"
        using commit_starts(2) [OF c [unfolded Inr] assms(2)] that by (simp add: d2_def)
      moreover then have "\<exists>r1. pd_row d3 = Some r1 \<and> same_but_cleanup r r1" if "le_commit e = Done"
        using finish_import_parts [OF b] that by (auto simp: same_but_cleanup_fields)
      moreover have "load_dev_record e d = (if le_commit e \<noteq> Done then (Inl IdIO, d2) else if dv_cleanup r
          then (if b then Inr (r\<lparr>dv_cleanup := False\<rparr>) else Inl IdIO, d3) else (Inr r, d2))"
        by (cases b; cases "le_commit e") (use True c Inr b in \<open>auto simp: load_dev_record_def Let_def d2_def\<close>)
      ultimately show ?thesis using assms(1) s2 s3 by (auto simp: same_but_cleanup_fields split: if_splits)
    qed
  qed
  then show "starts_to e d d1" "res = Inr r \<Longrightarrow> \<exists>r1. pd_row d1 = Some r1 \<and> same_but_cleanup r r1" by auto
qed

lemma load_from_result:
  assumes "load_from e d = (res, d1)" "row_there d"
  shows "starts_to e d d1" "res = Inr s \<Longrightarrow> (\<exists>r1. pd_row d1 = Some r1 \<and> same_but_cleanup (ps_device s) r1)
    \<and> (ps_account s = account0 \<or> pd_account d1 = Stored (ps_account s))"
proof -
  have refl: "starts_to e d d" using assms(2) by (auto simp: starts_to_def)
  obtain l d0 where l: "load_dev_record e d = (l, d0)" by fastforce
  note s = load_device_result [OF l assms(2)]
  have a: "ps_device (load_account x y) = ps_device x \<and> (ps_account (load_account x y) = ps_account x \<or> pd_account y = Stored (ps_account (load_account x y)))"
    for x y by (auto simp: load_account_def split: stored.splits)
  show "starts_to e d d1" using assms(1) refl s(1) l
    by (auto simp: load_from_def Let_def split: if_splits sum.splits option.splits)
  show "(\<exists>r1. pd_row d1 = Some r1 \<and> same_but_cleanup (ps_device s) r1) \<and> (ps_account s = account0 \<or> pd_account d1 = Stored (ps_account s))"
    if ok: "res = Inr s"
  proof -
    obtain r x where r: "l = Inr r" "d1 = d0" "s = load_account x d1" "ps_device x = r" "ps_account x = account0"
      using assms(1) ok l by (auto simp: load_from_def Let_def split: if_splits sum.splits option.splits)
    then show ?thesis using s(2) [OF r(1)] a [of x d1] by auto
  qed
qed

section \<open>The invariant\<close>

definition pinned :: "(string \<times> string) set \<Rightarrow> account_cred \<Rightarrow> bool" where
  "pinned pins a \<longleftrightarrow> ac_token a \<noteq> [] \<longrightarrow> (ac_relay a, ac_token a) \<in> pins"

definition profiles_ok :: "profile_disk \<Rightarrow> (nat \<Rightarrow> profile option) \<Rightarrow> string set \<Rightarrow> (string \<times> string) set \<Rightarrow> bool" where
  "profiles_ok d st gone pins \<longleftrightarrow> row_there d \<and> (pd_row d = None \<longrightarrow> gone = {})
     \<and> (\<forall>k s. st k = Some s \<longrightarrow> cached (pd_row d) (ps_device s) \<and> pinned pins (ps_account s))
     \<and> (\<forall>r. pd_row d = Some r \<and> dv_active r \<longrightarrow> dv_secret r \<notin> gone)
     \<and> (\<forall>a. pd_account d = Stored a \<longrightarrow> pinned pins a)"

lemma pinned_empty [simp]: "pinned pins account0"
  by (simp add: pinned_def account0_def)

lemma pinned_insert: "pinned pins a \<Longrightarrow> pinned (insert x pins) a"
  by (simp add: pinned_def)

lemma profiles_okI:
  assumes "profiles_ok d st gone pins" "row_there d1" "row_moves (pd_row d) (pd_row d1)" "pd_row d1 = None \<longrightarrow> gone1 = {}"
    "\<And>r. pd_row d1 = Some r \<Longrightarrow> dv_active r \<Longrightarrow> dv_secret r \<notin> gone1" "pins \<subseteq> pins1"
    "\<And>a. pd_account d1 = Stored a \<Longrightarrow> pd_account d = Stored a \<or> pinned pins1 a"
    "\<And>s. x = Some s \<Longrightarrow> cached (pd_row d1) (ps_device s) \<and> pinned pins1 (ps_account s)"
  shows "profiles_ok d1 (st(k := x)) gone1 pins1"
  using assms cached_moves unfolding profiles_ok_def pinned_def by (fastforce split: if_splits)

lemma ok_load:
  assumes "profiles_ok d st gone pins" "load_from e d = (res, d1)" "\<And>i s. le_drawn e = Some (i, s) \<Longrightarrow> s \<notin> gone \<and> s \<noteq> []"
  shows "profiles_ok d1 (st(k := (case res of Inl _ \<Rightarrow> None | Inr s \<Rightarrow> Some s))) gone pins"
proof -
  have d: "row_there d" using assms(1) by (simp add: profiles_ok_def)
  note l = load_from_result [OF assms(2) d]
  note s = l(1) [unfolded starts_to_def]
  show ?thesis
  proof (rule profiles_okI [OF assms(1)])
    show "row_there d1" "row_moves (pd_row d) (pd_row d1)" using s by auto
    show "pd_row d1 = None \<longrightarrow> gone = {}" using s assms(1) by (cases "pd_row d") (auto simp: profiles_ok_def)
    show "dv_secret r \<notin> gone" if "pd_row d1 = Some r" "dv_active r" for r
      using s that assms(1,3) by (cases "pd_row d") (fastforce simp: profiles_ok_def)+
    show "pd_account d = Stored a \<or> pinned pins a" if "pd_account d1 = Stored a" for a using s that by auto
    show "cached (pd_row d1) (ps_device t) \<and> pinned pins (ps_account t)" if "(case res of Inl _ \<Rightarrow> None | Inr s \<Rightarrow> Some s) = Some t" for t
    proof -
      have "res = Inr t" using that by (cases res) simp_all
      from l(2) [OF this] show ?thesis using s assms(1)
        by (auto simp: cached_def same_but_cleanup_fields profiles_ok_def)
    qed
  qed simp
qed

lemma ok_change:
  assumes "profiles_ok d st gone pins" "st k = Some s" "change_device c opens wr s d = (f, s1, d1)"
  shows "profiles_ok d1 (st(k \<mapsto> s1)) (gone \<union> gone_by d d1) pins"
  using assms(3)
proof (cases rule: change_publishes)
  case 1
  have "gone_by d d = {}" by (auto simp: gone_by_def split: option.splits)
  then show ?thesis using assms(1,2) 1 by (simp add: fun_upd_idem)
next
  case (2 nxt f0 s0 d0)
  note ok = assms(1) [unfolded profiles_ok_def]
  have c: "cached (pd_row d) (ps_device s)" "pinned pins (ps_account s1)" using ok assms(2) 2(5) by auto
  from 2(1) show ?thesis
  proof (cases rule: publish_cases)
    case 1
    then have "pd_row d1 = pd_row d" "pd_version d1 = pd_version d" "ps_device s1 = ps_device s" using 2 by simp_all
    moreover from this have "gone_by d d1 = {}" by (auto simp: gone_by_def split: option.splits)
    ultimately show ?thesis using ok c 2(6) by (intro profiles_okI [OF assms(1)]) (auto intro: row_there_eq)
  next
    case (2 r)
    have r: "pd_row d1 = Some (nxt\<lparr>dv_cleanup := dv_cleanup r, dv_revision := dv_revision r + 1\<rparr>)" "pd_version d1 = 1"
      using 2 \<open>pd_row d1 = pd_row d0\<close> \<open>pd_version d1 = pd_version d0\<close> by simp_all
    have n: "dv_active nxt \<Longrightarrow> dv_secret nxt = dv_secret r"
      using \<open>nxt = dev_record0 \<or> _\<close> 2 by (auto simp: dev_record0_def)
    have a: "dv_active r" "dv_secret r \<notin> gone" using 2 ok by auto
    have dev: "ps_device s1 = ps_device s \<or> ps_device s1 = nxt\<lparr>dv_revision := dv_revision r + 1\<rparr>"
      using 2 \<open>ps_device s1 = ps_device s0\<close> by auto
    show ?thesis
    proof (rule profiles_okI [OF assms(1)])
      show "row_there d1" "row_moves (pd_row d) (pd_row d1)" using r 2(1) by (simp_all add: row_there_def row_moves_def)
      show "dv_secret t \<notin> gone \<union> gone_by d d1" if "pd_row d1 = Some t" "dv_active t" for t
        using that r(1) n a 2(1) by (auto simp: gone_by_def)
      show "pd_account d = Stored x \<or> pinned pins x" if "pd_account d1 = Stored x" for x
        using that \<open>pd_account d1 = pd_account d \<or> _\<close> by auto
      show "cached (pd_row d1) (ps_device t) \<and> pinned pins (ps_account t)" if "Some s1 = Some t" for t
        using that r(1) dev c 2(1) cached_moves [OF c(1), of "pd_row d1"]
        by (auto simp: row_moves_def) (simp add: cached_def same_but_cleanup_fields)
    qed (use r in simp_all)
  qed
qed

lemma ok_refresh:
  assumes "profiles_ok d st gone pins" "st k = Some s" "refresh_device opens s d = (f, s1)"
  shows "profiles_ok d (st(k \<mapsto> s1)) gone pins"
proof -
  have "ps_account s1 = ps_account s \<and> cached (pd_row d) (ps_device s1)"
    using assms by (fastforce simp: profiles_ok_def refresh_device_def load_live_def read_device_record_def cached_def
        split: sum.splits if_splits option.splits)
  then show ?thesis using assms(1,2) by (intro profiles_okI [OF assms(1)]) (auto simp: profiles_ok_def)
qed

lemma local_parts:
  "change_local c s d = (f, s1, d1) \<Longrightarrow> ps_device s1 = ps_device s \<and> ps_account s1 = ps_account s \<and> pd_row d1 = pd_row d
    \<and> pd_version d1 = pd_version d \<and> pd_account d1 = pd_account d"
  by (cases c) (auto simp: add_peer_def remove_peer_def rename_peer_def persist_peers_def set_config_def Let_def split: if_splits option.splits)

lemma ok_local:
  assumes "profiles_ok d st gone pins" "st k = Some s" "change_local c s d = (f, s1, d1)"
  shows "profiles_ok d1 (st(k \<mapsto> s1)) gone pins"
  using assms(1,2) local_parts [OF assms(3)] by (intro profiles_okI [OF assms(1)]) (auto simp: profiles_ok_def intro: row_there_eq)

lemma ok_account:
  assumes "profiles_ok d st gone pins" "st k = Some s" "set_account token ok s d = (f, s1, d1)"
  shows "profiles_ok d1 (st(k \<mapsto> s1)) gone (if f = None \<and> token \<noteq> [] then insert (cf_relay (ps_config s), token) pins else pins)"
proof -
  have "ps_device s1 = ps_device s \<and> pd_row d1 = pd_row d \<and> pd_version d1 = pd_version d
    \<and> (f \<noteq> None \<and> s1 = s \<and> d1 = d \<or> f = None \<and> pd_account d1 = Stored (ps_account s1)
        \<and> ps_account s1 = (if token \<noteq> [] then \<lparr>ac_relay = cf_relay (ps_config s), ac_token = token\<rparr> else account0))"
    using assms(3) by (auto simp: set_account_def Let_def split: if_splits)
  then show ?thesis using assms(1,2) by (intro profiles_okI [OF assms(1)]) (auto simp: profiles_ok_def pinned_def account0_def intro: row_there_eq)
qed

lemma profiles_reachable_ok: "profile_reachable p \<Longrightarrow> profiles_ok (pf_disk p) (pf_stores p) (pf_gone p) (pf_pins p)"
proof (induction rule: profile_reachable.induct)
  case (profile_new d)
  then show ?case by (simp add: profiles_ok_def row_there_def)
next
  case (profile_next p q)
  from profile_next.hyps(2) show ?case
  proof cases
    case (step_load e d res d1 gone st pins k)
    have ok: "profiles_ok d st gone pins" using profile_next.IH step_load(1) by simp
    have "profiles_ok d1 (st(k := (case res of Inl _ \<Rightarrow> None | Inr s \<Rightarrow> Some s))) gone pins" by (rule ok_load [OF ok step_load(3)]) (rule step_load(4))
    then show ?thesis unfolding step_load(2) profiles.simps .
  next
    case (step_change st k s c opens wr d f s1 d1 gone pins)
    have ok: "profiles_ok d st gone pins" using profile_next.IH step_change(1) by simp
    from ok_change [OF ok step_change(3,4)] show ?thesis unfolding step_change(2) profiles.simps .
  next
    case (step_refresh st k s opens d f s1 gone pins)
    have ok: "profiles_ok d st gone pins" using profile_next.IH step_refresh(1) by simp
    from ok_refresh [OF ok step_refresh(3,4)] show ?thesis unfolding step_refresh(2) profiles.simps .
  next
    case (step_local st k s c d f s1 d1 gone pins)
    have ok: "profiles_ok d st gone pins" using profile_next.IH step_local(1) by simp
    from ok_local [OF ok step_local(3,4)] show ?thesis unfolding step_local(2) profiles.simps .
  next
    case (step_account st k s token ok d f s1 d1 gone pins)
    have ok: "profiles_ok d st gone pins" using profile_next.IH step_account(1) by simp
    from ok_account [OF ok step_account(3,4)] show ?thesis unfolding step_account(2) profiles.simps .
  next
    case (step_exit d st k gone pins)
    then show ?thesis using profile_next.IH by (auto simp: profiles_ok_def)
  qed
qed

section \<open>Properties\<close>

lemma publish_gone:
  assumes "\<And>r. pd_row d = Some r \<Longrightarrow> dv_active r \<Longrightarrow> dv_secret r \<noteq> dv_secret (ps_device s)" "publish_record opens wr nxt s d = (f, s1, d1)"
  shows "f \<noteq> None \<and> d1 = d \<and> s1 = s"
  by (rule publish_cases [OF assms(2)]) (use assms(1) in auto)

text \<open>C20. A change is made to what it was computed from. If a process publishes its next device record, then the record in the
  database is, up to the cleanup mark, the one the process had, and it becomes exactly the next one, one revision on; a process that
  has missed a change, or whose last write was made although it reported an error, gets an error and writes nothing.\<close>

theorem no_lost_update:
  assumes "profile_reachable p" "pf_stores p k = Some s" "publish_record opens wr nxt s (pf_disk p) = (None, s1, d1)"
  shows "\<exists>r t. pd_row (pf_disk p) = Some r \<and> same_but_cleanup (ps_device s) r \<and> pd_row d1 = Some t
    \<and> same_but_cleanup t (nxt\<lparr>dv_revision := dv_revision r + 1\<rparr>) \<and> same_but_cleanup t (ps_device s1)"
  using assms(3)
proof (cases rule: publish_cases)
  case (2 r)
  have "cached (pd_row (pf_disk p)) (ps_device s)" using profiles_reachable_ok [OF assms(1)] assms(2) by (auto simp: profiles_ok_def)
  then have "same_but_cleanup (ps_device s) r" using 2 by (simp add: cached_def)
  then show ?thesis using 2 by (simp add: same_but_cleanup_fields)
qed simp

text \<open>C21. A reset is final. The secret of an identity that was reset is not the secret of the device again, and a process that still
  holds such an identity cannot change anything, whatever it tries.\<close>

theorem reset_is_final:
  assumes "profile_reachable p"
  shows "(\<forall>r. pd_row (pf_disk p) = Some r \<and> dv_active r \<longrightarrow> dv_secret r \<notin> pf_gone p)
    \<and> (\<forall>k s c opens wr f s1 d1. pf_stores p k = Some s \<and> dv_secret (ps_device s) \<in> pf_gone p
         \<and> change_device c opens wr s (pf_disk p) = (f, s1, d1) \<longrightarrow> f \<noteq> None \<and> s1 = s \<and> pd_row d1 = pd_row (pf_disk p))"
proof -
  have g: "dv_secret r \<notin> pf_gone p" if "pd_row (pf_disk p) = Some r" "dv_active r" for r
    using profiles_reachable_ok [OF assms] that by (auto simp: profiles_ok_def)
  have "f \<noteq> None \<and> s1 = s \<and> pd_row d1 = pd_row (pf_disk p)"
    if s: "dv_secret (ps_device s) \<in> pf_gone p" "change_device c opens wr s (pf_disk p) = (f, s1, d1)" for s c opens wr f s1 d1
    using s(2)
  proof (cases rule: change_publishes)
    case (2 nxt f0 s0 d0)
    have "f0 \<noteq> None \<and> d0 = pf_disk p \<and> s0 = s" by (rule publish_gone [OF _ 2(1)]) (use g s(1) in metis)
    then show ?thesis using 2 by simp
  qed simp
  then show ?thesis using g by blast
qed

text \<open>C22. A credential stays with its relay. The token that a process presents is one that was installed while the relay it is presented
  to was the configured one, through every restart and every change of the configuration.\<close>

theorem credentials_pinned:
  assumes "profile_reachable p" "pf_stores p k = Some s" "credentials s = Inr (relay, token)" "token \<noteq> []"
  shows "(relay, token) \<in> pf_pins p \<and> relay = cf_relay (ps_config s)"
proof -
  have "pinned (pf_pins p) (ps_account s)" using profiles_reachable_ok [OF assms(1)] assms(2) by (auto simp: profiles_ok_def)
  then show ?thesis using assms(3,4) by (auto simp: credentials_def pinned_def split: if_splits)
qed

section \<open>A reset that was interrupted\<close>

definition reset_config :: config_rec where
  "reset_config = \<lparr>cf_relay = ''wss://old'', cf_workspace = ''/work'', cf_shell = ''sh''\<rparr>"

definition reset_device :: dev_record where
  "reset_device = \<lparr>dv_id = ''123456789'', dv_secret = ''old'', dv_grant = [], dv_inbound = False, dv_active = True, dv_cleanup = False, dv_revision = 4\<rparr>"

definition reset_disk :: "peer list \<Rightarrow> profile_disk" where
  "reset_disk ps = \<lparr>pd_version = 1, pd_row = Some reset_device, pd_old_identity = None, pd_old_secret = None, pd_old_grant = None,
     pd_config = Stored reset_config, pd_peers = Stored ps, pd_account = Missing\<rparr>"

definition reset_profile :: "peer list \<Rightarrow> profile" where
  "reset_profile ps = \<lparr>ps_device = reset_device, ps_config = reset_config, ps_peers = ps, ps_account = account0, ps_account_err = False\<rparr>"

definition reset_start :: load_env where
  "reset_start = \<lparr>le_opens = True, le_reads = True, le_drawn = Some (''987654321'', ''new''), le_decode = (\<lambda>_. None), le_reset = 3, le_commit = Done,
     le_import = 3, le_cleared = Done, le_env_relay = [], le_default_relay = ''wss://relay'', le_default_workspace = Some ''/w'', le_mkdir = True,
     le_workspace = True\<rparr>"

text \<open>C40. An interrupted reset keeps what it was to remove. When the removal of the files stops before the first of them, the next start
  removes them and makes a new identity, but the paired devices and the configuration in memory are those of the old profile, which it had
  read before; and the next change of a paired device writes them back.\<close>

theorem interrupted_reset_keeps_peers:
  "\<exists>s1 d1 t d2. wipe True Done 0 (reset_profile ps) (reset_disk ps) = (Some IdIO, s1, d1) \<and> load_from reset_start d1 = (Inr t, d2)
     \<and> dv_secret (ps_device t) = ''new'' \<and> pd_peers d2 = Missing \<and> pd_config d2 = Missing
     \<and> ps_peers t = ps \<and> ps_config t = reset_config
     \<and> (\<exists>t1 d3 qs. add_peer j g True t d2 = (None, t1, d3) \<and> pd_peers d3 = Stored qs \<and> pr_id ` set ps \<subseteq> pr_id ` set qs)"
proof -
  define d1 where "d1 = (reset_disk ps)\<lparr>pd_row := Some (dev_record0\<lparr>dv_revision := 5\<rparr>)\<rparr>"
  define t where "t = \<lparr>ps_device = dev_record0\<lparr>dv_id := ''987654321'', dv_secret := ''new'', dv_active := True, dv_revision := 6\<rparr>,
    ps_config = reset_config, ps_peers = ps, ps_account = account0, ps_account_err = False\<rparr>"
  define d2 where "d2 = d1\<lparr>pd_peers := Missing, pd_config := Missing, pd_account := Missing,
    pd_row := Some (dev_record0\<lparr>dv_id := ''987654321'', dv_secret := ''new'', dv_active := True, dv_revision := 6\<rparr>)\<rparr>"
  have w: "wipe True Done 0 (reset_profile ps) (reset_disk ps) = (Some IdIO, (reset_profile ps)\<lparr>ps_device := dev_record0\<lparr>dv_revision := 5\<rparr>\<rparr>, d1)"
    by (simp add: wipe_def publish_record_def replace_record_def reset_profile_def reset_disk_def reset_device_def dev_record0_def
        finish_profile_reset_def d1_def Let_def)
  have l: "load_dev_record reset_start d1 = (Inr (ps_device t), d2)"
    by (simp add: load_dev_record_def load_choice_def read_device_record_def invalid_record_def finish_profile_reset_def fresh_device_def
        commit_record_def reset_start_def d1_def d2_def t_def reset_disk_def dev_record0_def)
  have f: "load_from reset_start d1 = (Inr t, d2)"
    unfolding load_from_def l by (simp add: reset_start_def d1_def reset_disk_def reset_config_def load_account_def d2_def t_def)
  have u: "pr_id ` set (update_first (\<lambda>p. pr_id p = j) (\<lambda>p. p\<lparr>pr_grant := g\<rparr>) ps) = pr_id ` set ps" by (induction ps) auto
  have "\<exists>t1 d3 qs. add_peer j g True t d2 = (None, t1, d3) \<and> pd_peers d3 = Stored qs \<and> pr_id ` set ps \<subseteq> pr_id ` set qs"
    using u by (auto simp: add_peer_def persist_peers_def t_def)
  then show ?thesis using w f by (auto simp: t_def d2_def)
qed

section \<open>Witnesses\<close>

definition first_start :: load_env where
  "first_start = reset_start\<lparr>le_drawn := Some (''123456789'', ''old'')\<rparr>"

definition empty_disk :: profile_disk where
  "empty_disk = \<lparr>pd_version = 0, pd_row = None, pd_old_identity = None, pd_old_secret = None, pd_old_grant = None,
     pd_config = Missing, pd_peers = Missing, pd_account = Missing\<rparr>"

definition first_device :: dev_record where
  "first_device = dev_record0\<lparr>dv_id := ''123456789'', dv_secret := ''old'', dv_active := True, dv_revision := 1\<rparr>"

definition first_profile :: profile where
  "first_profile = \<lparr>ps_device = first_device, ps_config = \<lparr>cf_relay = ''wss://relay'', cf_workspace = ''/w'', cf_shell = []\<rparr>, ps_peers = [],
     ps_account = account0, ps_account_err = False\<rparr>"

definition first_disk :: profile_disk where
  "first_disk = empty_disk\<lparr>pd_version := 1, pd_row := Some first_device\<rparr>"

lemma first_load: "load_from first_start empty_disk = (Inr first_profile, first_disk)"
  by (simp add: load_from_def load_dev_record_def load_choice_def import_device_files_def fresh_device_def commit_record_def first_start_def reset_start_def
      empty_disk_def first_disk_def first_profile_def first_device_def dev_record0_def config0_def load_account_def)

lemma first_reachable: "profile_reachable \<lparr>pf_disk = first_disk, pf_stores = [0 \<mapsto> first_profile], pf_gone = {}, pf_pins = {}\<rparr>"
proof -
  have "profile_reachable \<lparr>pf_disk = empty_disk, pf_stores = (\<lambda>_. None), pf_gone = {}, pf_pins = {}\<rparr>"
    by (rule profile_new) (simp_all add: empty_disk_def)
  moreover have "profile_step \<lparr>pf_disk = empty_disk, pf_stores = (\<lambda>_. None), pf_gone = {}, pf_pins = {}\<rparr>
    \<lparr>pf_disk = first_disk, pf_stores = (\<lambda>_. None)(0 := (case Inr first_profile :: id_fault + profile of Inl _ \<Rightarrow> None | Inr s \<Rightarrow> Some s)), pf_gone = {}, pf_pins = {}\<rparr>"
    by (rule step_load [where e = first_start]) (use first_load in \<open>simp_all add: first_start_def reset_start_def\<close>)
  ultimately show ?thesis using profile_next by fastforce
qed

theorem no_lost_update_witness: "\<exists>r. pd_row first_disk = Some r \<and> same_but_cleanup first_device r"
proof -
  have "publish_record True Done (first_device\<lparr>dv_grant := ''g'', dv_inbound := True\<rparr>) first_profile first_disk
    = (None, first_profile\<lparr>ps_device := first_device\<lparr>dv_grant := ''g'', dv_inbound := True, dv_revision := 2\<rparr>\<rparr>,
       first_disk\<lparr>pd_row := Some (first_device\<lparr>dv_grant := ''g'', dv_inbound := True, dv_revision := 2\<rparr>)\<rparr>)"
    by (simp add: publish_record_def replace_record_def first_profile_def first_disk_def first_device_def dev_record0_def empty_disk_def Let_def)
  from no_lost_update [OF first_reachable, unfolded profiles.simps, OF _ this, of 0] show ?thesis by (auto simp: first_profile_def)
qed

text \<open>Two processes, of which the first resets the profile.\<close>

definition wiped_disk :: profile_disk where
  "wiped_disk = first_disk\<lparr>pd_row := Some (dev_record0\<lparr>dv_revision := 2\<rparr>)\<rparr>"

lemma wiped_reachable: "\<exists>s0. profile_reachable \<lparr>pf_disk = wiped_disk, pf_stores = [0 \<mapsto> s0, Suc 0 \<mapsto> first_profile], pf_gone = {''old''}, pf_pins = {}\<rparr>"
proof -
  have l: "load_from first_start first_disk = (Inr first_profile, first_disk)"
    by (simp add: load_from_def load_dev_record_def load_choice_def read_device_record_def invalid_record_def is_numeric_device_id_def digit_def
        commit_record_def first_start_def reset_start_def empty_disk_def first_disk_def first_profile_def first_device_def dev_record0_def
        config0_def load_account_def)
  have s: "profile_step \<lparr>pf_disk = first_disk, pf_stores = [0 \<mapsto> first_profile], pf_gone = {}, pf_pins = {}\<rparr>
    \<lparr>pf_disk = first_disk, pf_stores = [0 \<mapsto> first_profile](Suc 0 := (case Inr first_profile :: id_fault + profile of Inl _ \<Rightarrow> None | Inr s \<Rightarrow> Some s)),
     pf_gone = {}, pf_pins = {}\<rparr>"
    by (rule step_load [where e = first_start]) (use l in \<open>simp_all add: first_start_def reset_start_def\<close>)
  have two: "profile_reachable \<lparr>pf_disk = first_disk, pf_stores = [0 \<mapsto> first_profile, Suc 0 \<mapsto> first_profile], pf_gone = {}, pf_pins = {}\<rparr>"
    using profile_next [OF first_reachable s] by simp
  obtain s0 where w: "change_device (Wipe 3) True Done first_profile first_disk = (None, s0, wiped_disk)"
    by (simp add: wipe_def publish_record_def replace_record_def finish_profile_reset_def first_profile_def first_disk_def first_device_def
        dev_record0_def empty_disk_def wiped_disk_def Let_def)
  have g: "gone_by first_disk wiped_disk = {''old''}"
    by (simp add: gone_by_def first_disk_def wiped_disk_def first_device_def dev_record0_def)
  have m: "[0 \<mapsto> first_profile, Suc 0 \<mapsto> first_profile](0 \<mapsto> s0) = [0 \<mapsto> s0, Suc 0 \<mapsto> first_profile]" by auto
  have "profile_reachable \<lparr>pf_disk = wiped_disk, pf_stores = [0 \<mapsto> first_profile, Suc 0 \<mapsto> first_profile](0 \<mapsto> s0),
    pf_gone = {} \<union> gone_by first_disk wiped_disk, pf_pins = {}\<rparr>"
    by (rule profile_next [OF two step_change [OF _ w]]) simp
  then show ?thesis unfolding m g by auto
qed

theorem reset_is_final_witness: "fst (change_device ClearGrant True Done first_profile wiped_disk) \<noteq> None
  \<and> pd_row (snd (snd (change_device ClearGrant True Done first_profile wiped_disk))) = pd_row wiped_disk"
proof -
  obtain s0 where r: "profile_reachable \<lparr>pf_disk = wiped_disk, pf_stores = [0 \<mapsto> s0, Suc 0 \<mapsto> first_profile], pf_gone = {''old''}, pf_pins = {}\<rparr>"
    using wiped_reachable by blast
  have d: "dv_secret (ps_device first_profile) = ''old''" by (simp add: first_profile_def first_device_def dev_record0_def)
  obtain f s1 d1 where c: "change_device ClearGrant True Done first_profile wiped_disk = (f, s1, d1)" by (metis prod_cases3)
  have "f \<noteq> None \<and> s1 = first_profile \<and> pd_row d1 = pd_row wiped_disk"
    using reset_is_final [OF r, unfolded profiles.simps] d c by (metis fun_upd_same singletonI)
  then show ?thesis using c by simp
qed

text \<open>An account that is installed and then used.\<close>

definition demo_token :: string where
  "demo_token = token_prefix @ replicate 64 CHR ''a''"

lemma demo_token_valid: "valid_token demo_token" "demo_token \<noteq> []"
  by (simp_all add: demo_token_def valid_token_def list_all_iff lower_hex_def)

theorem credentials_pinned_witness: "\<exists>p s. profile_reachable p \<and> credentials s = Inr (''wss://relay'', demo_token) \<and> (''wss://relay'', demo_token) \<in> pf_pins p"
proof -
  define s1 where "s1 = first_profile\<lparr>ps_account := \<lparr>ac_relay = ''wss://relay'', ac_token = demo_token\<rparr>, ps_account_err := False\<rparr>"
  define d1 where "d1 = first_disk\<lparr>pd_account := Stored \<lparr>ac_relay = ''wss://relay'', ac_token = demo_token\<rparr>\<rparr>"
  have a: "set_account demo_token True first_profile first_disk = (None, s1, d1)"
    using demo_token_valid by (simp add: set_account_def first_profile_def s1_def d1_def Let_def)
  have "profile_reachable \<lparr>pf_disk = d1, pf_stores = [0 \<mapsto> first_profile](0 \<mapsto> s1), pf_gone = {},
    pf_pins = (if (None :: id_fault option) = None \<and> demo_token \<noteq> [] then insert (cf_relay (ps_config first_profile), demo_token) {} else {})\<rparr>"
    by (rule profile_next [OF first_reachable step_account [OF _ a]]) simp
  then have r: "profile_reachable \<lparr>pf_disk = d1, pf_stores = [0 \<mapsto> s1], pf_gone = {}, pf_pins = {(''wss://relay'', demo_token)}\<rparr>"
    using demo_token_valid(2) by (simp add: first_profile_def)
  have c: "credentials s1 = Inr (''wss://relay'', demo_token)" by (simp add: credentials_def s1_def first_profile_def)
  show ?thesis
    by (intro exI conjI, rule r, rule c, rule credentials_pinned [OF r _ c demo_token_valid(2), THEN conjunct1, where k1 = 0]) simp
qed

end
