(* ===== verification/Spec2Isabelle.thy ===== *)
theory Spec2Isabelle
  imports HubRevoke RelayStore Inbox Quota Gate Delegation JobProps DeviceProps HandoffProps HandoffRunProps Approval LocalExecProps ExecReplyProps ReleaseProps LineReader IdentityProps
begin

text \<open>
  A verification library of the relay and device services of xallor-remote.
\<close>

end
